(* ===== verification/Pintos_Prelude.thy ===== *)
theory Pintos_Prelude
  imports Main "HOL-Library.Word" "HOL-Library.Signed_Division"
begin

text \<open>
  Shared vocabulary of the development: the outcomes of kernel code, the
  state-and-failure monad in which every stateful routine is written, its
  weakest-precondition calculus, the C memory operations on byte buffers
  (\<^verbatim>\<open>memcpy\<close>, \<^verbatim>\<open>memset\<close>), C integer division, and the little-endian layout of
  32-bit words that the sector buffers hold.
\<close>

unbundle bit_operations_syntax

section \<open>Outcomes and the kernel monad\<close>

text \<open>
  A kernel routine either completes with a value and a new state or stops:
  \<^item> \<open>PANIC\<close>: a failing \<^verbatim>\<open>ASSERT\<close> or a call of \<^verbatim>\<open>PANIC\<close>;
  \<^item> \<open>BLOCKED\<close>: the calling thread goes to sleep on a lock or condition that
    another thread has to give up;
  \<^item> \<open>BAD_POINTER\<close>: a null pointer or a freed object is dereferenced;
  \<^item> \<open>OUT_OF_BOUNDS\<close>: an access outside an array, undefined behaviour in C;
  \<^item> \<open>NO_RETURN\<close>: a loop of the routine never ends.
\<close>

datatype kerror = PANIC | BLOCKED | BAD_POINTER | OUT_OF_BOUNDS | NO_RETURN

type_synonym ('s, 'a) K = "'s \<Rightarrow> kerror + 'a \<times> 's"

type_synonym byte = "8 word"
type_synonym u32 = "32 word"
type_synonym tid = nat
type_synonym addr = nat

definition retK :: "'a \<Rightarrow> ('s, 'a) K" where
  "retK a = (\<lambda>s. Inr (a, s))"

definition failK :: "kerror \<Rightarrow> ('s, 'a) K" where
  "failK e = (\<lambda>s. Inl e)"

definition bindK :: "('s, 'a) K \<Rightarrow> ('a \<Rightarrow> ('s, 'b) K) \<Rightarrow> ('s, 'b) K" where
  "bindK m f = (\<lambda>s. case m s of Inl e \<Rightarrow> Inl e | Inr (a, s') \<Rightarrow> f a s')"

definition thenK :: "('s, 'a) K \<Rightarrow> ('s, 'b) K \<Rightarrow> ('s, 'b) K" where
  "thenK m n = bindK m (\<lambda>_. n)"

definition getK :: "('s \<Rightarrow> 'a) \<Rightarrow> ('s, 'a) K" where
  "getK f = (\<lambda>s. Inr (f s, s))"

definition modK :: "('s \<Rightarrow> 's) \<Rightarrow> ('s, unit) K" where
  "modK f = (\<lambda>s. Inr ((), f s))"

definition assertK :: "bool \<Rightarrow> ('s, unit) K" where
  "assertK b = (if b then retK () else failK PANIC)"

definition whenK :: "bool \<Rightarrow> ('s, unit) K \<Rightarrow> ('s, unit) K" where
  "whenK b m = (if b then m else retK ())"

text \<open>A pointer that the routine dereferences: \<open>None\<close> is null or freed memory.\<close>

definition derefK :: "('s \<Rightarrow> 'a option) \<Rightarrow> ('s, 'a) K" where
  "derefK f = (\<lambda>s. case f s of None \<Rightarrow> Inl BAD_POINTER | Some a \<Rightarrow> Inr (a, s))"

text \<open>A pure computation that may fail.\<close>

definition liftK :: "kerror + 'a \<Rightarrow> ('s, 'a) K" where
  "liftK r = (case r of Inl e \<Rightarrow> failK e | Inr a \<Rightarrow> retK a)"

text \<open>A C loop over the elements of a list, in order.\<close>

primrec forK :: "'a list \<Rightarrow> ('a \<Rightarrow> ('s, unit) K) \<Rightarrow> ('s, unit) K" where
  "forK [] f = retK ()"
| "forK (x # xs) f = thenK (f x) (forK xs f)"

text \<open>
  \<^verbatim>\<open>lock_acquire\<close> and \<^verbatim>\<open>lock_release\<close> as one running thread sees them: acquiring a
  lock that the caller holds trips the assertion of \<^verbatim>\<open>lock_acquire\<close>, acquiring one
  that another thread holds puts the caller to sleep, and only the holder releases.
\<close>

definition acquire_lock :: "tid \<Rightarrow> tid option \<Rightarrow> kerror + tid option" where
  "acquire_lock me l = (case l of None \<Rightarrow> Inr (Some me)
     | Some h \<Rightarrow> if h = me then Inl PANIC else Inl BLOCKED)"

definition release_lock :: "tid \<Rightarrow> tid option \<Rightarrow> kerror + tid option" where
  "release_lock me l = (if l = Some me then Inr None else Inl PANIC)"

text \<open>\<^verbatim>\<open>list_remove(e)\<close>: unlinking an element that is on no list corrupts memory.\<close>

definition list_remove :: "addr \<Rightarrow> addr list \<Rightarrow> kerror + addr list" where
  "list_remove x xs = (if x \<in> set xs then Inr (remove1 x xs) else Inl BAD_POINTER)"

text \<open>A pointer variable that may be null.\<close>

definition nonnull :: "'a option \<Rightarrow> ('s, 'a) K" where
  "nonnull p = derefK (\<lambda>_. p)"

text \<open>
  \<^verbatim>\<open>sema_down\<close> and \<^verbatim>\<open>sema_up\<close> as one running thread sees them: waiting at zero puts the
  caller to sleep.
\<close>

definition down_sema :: "nat \<Rightarrow> kerror + nat" where
  "down_sema v = (if v = 0 then Inl BLOCKED else Inr (v - 1))"

section \<open>C integers and byte buffers\<close>

text \<open>
  \<^verbatim>\<open>memcpy(buf + off, xs, |xs|)\<close> into a buffer of \<open>length buf\<close> bytes, and the
  slice \<^verbatim>\<open>memcpy(dst, buf + off, n)\<close> reads. The monadic forms fail when the C access
  would leave the buffer.
\<close>

definition put_bytes :: "nat \<Rightarrow> 'a list \<Rightarrow> 'a list \<Rightarrow> 'a list" where
  "put_bytes off xs buf = take off buf @ xs @ drop (off + length xs) buf"

definition get_bytes :: "nat \<Rightarrow> nat \<Rightarrow> 'a list \<Rightarrow> 'a list" where
  "get_bytes off n buf = take n (drop off buf)"

text \<open>The i386 layout of a 32-bit word: four bytes, least significant first.\<close>

definition le32 :: "u32 \<Rightarrow> byte list" where
  "le32 w = [ucast w, ucast (drop_bit 8 w), ucast (drop_bit 16 w), ucast (drop_bit 24 w)]"

definition un_le32 :: "byte list \<Rightarrow> u32" where
  "un_le32 bs = ucast (bs ! 0) OR push_bit 8 (ucast (bs ! 1))
     OR push_bit 16 (ucast (bs ! 2)) OR push_bit 24 (ucast (bs ! 3))"

definition words_of_bytes :: "nat \<Rightarrow> byte list \<Rightarrow> u32 list" where
  "words_of_bytes n bs = map (\<lambda>i. un_le32 (get_bytes (4 * i) 4 bs)) [0..<n]"

definition bytes_of_words :: "u32 list \<Rightarrow> byte list" where
  "bytes_of_words ws = concat (map le32 ws)"

section \<open>Weakest preconditions\<close>

text \<open>
  \<open>wpK m Q s\<close>: run from \<open>s\<close>, the routine \<open>m\<close> completes, and \<open>Q\<close> holds of its
  value and final state. It is total correctness: an outcome of \<open>kerror\<close> refutes it.
\<close>

definition wpK :: "('s, 'a) K \<Rightarrow> ('a \<Rightarrow> 's \<Rightarrow> bool) \<Rightarrow> 's \<Rightarrow> bool" where
  "wpK m Q s = (case m s of Inl e \<Rightarrow> False | Inr (a, s') \<Rightarrow> Q a s')"

named_theorems kstep "evaluation of the monad's combinators"
named_theorems wp "weakest-precondition rules of the kernel routines"

lemma retK_apply [kstep]: "retK a s = Inr (a, s)"
  by (simp add: retK_def)

lemma failK_apply [kstep]: "failK e s = Inl e"
  by (simp add: failK_def)

lemma getK_apply [kstep]: "getK f s = Inr (f s, s)"
  by (simp add: getK_def)

lemma modK_apply [kstep]: "modK f s = Inr ((), f s)"
  by (simp add: modK_def)

lemma bindK_apply [kstep]:
  "bindK m f s = (case m s of Inl e \<Rightarrow> Inl e | Inr (a, s') \<Rightarrow> f a s')"
  by (simp add: bindK_def)

lemma thenK_apply [kstep]:
  "thenK m n s = (case m s of Inl e \<Rightarrow> Inl e | Inr (a, s') \<Rightarrow> n s')"
  by (simp add: thenK_def bindK_def)

lemma assertK_apply [kstep]: "assertK b s = (if b then Inr ((), s) else Inl PANIC)"
  by (simp add: assertK_def retK_def failK_def)

lemma whenK_apply [kstep]: "whenK b m s = (if b then m s else Inr ((), s))"
  by (simp add: whenK_def retK_def)

lemma derefK_apply [kstep]:
  "derefK f s = (case f s of None \<Rightarrow> Inl BAD_POINTER | Some a \<Rightarrow> Inr (a, s))"
  by (simp add: derefK_def)

lemma liftK_apply [kstep]: "liftK r s = (case r of Inl e \<Rightarrow> Inl e | Inr a \<Rightarrow> Inr (a, s))"
  by (simp add: liftK_def retK_def failK_def split: sum.splits)

lemma wpK_iff: "wpK m Q s \<longleftrightarrow> (\<exists>a s'. m s = Inr (a, s') \<and> Q a s')"
  by (auto simp: wpK_def split: sum.splits)

lemma wpK_ret [wp, simp]: "wpK (retK a) Q s = Q a s"
  by (simp add: wpK_def kstep)

lemma wpK_ret_fun [simp]: "wpK (retK a) Q = Q a"
  by (rule ext) simp

lemma wpK_fail [simp]: "wpK (failK e) Q s = False"
  by (simp add: wpK_def kstep)

lemma wpK_get [wp, simp]: "wpK (getK f) Q s = Q (f s) s"
  by (simp add: wpK_def kstep)

lemma wpK_mod [wp, simp]: "wpK (modK f) Q s = Q () (f s)"
  by (simp add: wpK_def kstep)

lemma wpK_bind [wp, simp]: "wpK (bindK m f) Q s = wpK m (\<lambda>a. wpK (f a) Q) s"
  by (auto simp: wpK_def kstep split: sum.splits)

lemma wpK_then [wp, simp]: "wpK (thenK m n) Q s = wpK m (\<lambda>_. wpK n Q) s"
  by (auto simp: wpK_def kstep split: sum.splits)

lemma wpK_bind_fun [simp]: "wpK (bindK m f) Q = wpK m (\<lambda>a. wpK (f a) Q)"
  by (rule ext) (rule wpK_bind)

lemma wpK_then_fun [simp]: "wpK (thenK m n) Q = wpK m (\<lambda>_. wpK n Q)"
  by (rule ext) (rule wpK_then)

lemma wpK_assert [wp, simp]: "wpK (assertK b) Q s \<longleftrightarrow> b \<and> Q () s"
  by (simp add: wpK_def kstep)

lemma wpK_when [wp, simp]: "wpK (whenK b m) Q s = (if b then wpK m Q s else Q () s)"
  by (simp add: wpK_def kstep)

lemma whenK_simps [simp]: "whenK True m = m" "whenK False m = retK ()"
  by (simp_all add: whenK_def)

lemma wpK_deref [wp, simp]: "wpK (derefK f) Q s \<longleftrightarrow> (\<exists>a. f s = Some a \<and> Q a s)"
  by (auto simp: wpK_def kstep split: option.splits)

lemma wpK_lift [wp, simp]: "wpK (liftK r) Q s \<longleftrightarrow> (\<exists>a. r = Inr a \<and> Q a s)"
  by (auto simp: wpK_def kstep split: sum.splits)

lemma nonnull_wp [wp, simp]: "wpK (nonnull p) Q s \<longleftrightarrow> (\<exists>a. p = Some a \<and> Q a s)"
  by (simp add: nonnull_def)

lemma wpK_mono: "wpK m Q s \<Longrightarrow> (\<And>a s'. Q a s' \<Longrightarrow> R a s') \<Longrightarrow> wpK m R s"
  by (auto simp: wpK_iff)

text \<open>The loop rule: an invariant over the elements already visited.\<close>

lemma wpK_forK:
  assumes "I 0 s"
    and "\<And>i s'. i < length xs \<Longrightarrow> I i s' \<Longrightarrow> wpK (f (xs ! i)) (\<lambda>_. I (Suc i)) s'"
  shows "wpK (forK xs f) (\<lambda>_. I (length xs)) s"
  using assms
proof (induction xs arbitrary: s I)
  case Nil
  then show ?case by simp
next
  case (Cons x xs)
  have "wpK (f x) (\<lambda>_ s'. wpK (forK xs f) (\<lambda>_. I (Suc (length xs))) s') s"
  proof (rule wpK_mono)
    show "wpK (f x) (\<lambda>_. I (Suc 0)) s"
      using Cons.prems(2)[of 0 s] Cons.prems(1) by simp
    fix a s' assume "I (Suc 0) s'"
    then show "wpK (forK xs f) (\<lambda>_. I (Suc (length xs))) s'"
      using Cons.IH[of "\<lambda>i. I (Suc i)" s'] Cons.prems(2)[of "Suc _"] by simp
  qed
  then show ?case by simp
qed

section \<open>Lemmas on locks, buffers and words\<close>

lemma acquire_free [simp]: "acquire_lock me None = Inr (Some me)"
  by (simp add: acquire_lock_def)

lemma acquire_own [simp]: "acquire_lock me (Some me) = Inl PANIC"
  by (simp add: acquire_lock_def)

lemma acquire_other [simp]: "h \<noteq> me \<Longrightarrow> acquire_lock me (Some h) = Inl BLOCKED"
  by (simp add: acquire_lock_def)

lemma release_own [simp]: "release_lock me (Some me) = Inr None"
  by (simp add: release_lock_def)

lemma release_not_own [simp]: "l \<noteq> Some me \<Longrightarrow> release_lock me l = Inl PANIC"
  by (simp add: release_lock_def)

lemma acquire_lock_Inr [simp]: "acquire_lock me l = Inr x \<longleftrightarrow> l = None \<and> x = Some me"
  by (auto simp: acquire_lock_def split: option.splits)

lemma release_lock_Inr [simp]: "release_lock me l = Inr x \<longleftrightarrow> l = Some me \<and> x = None"
  by (auto simp: release_lock_def)

lemma sdiv_nonneg [simp]: "0 \<le> (a::int) \<Longrightarrow> 0 < b \<Longrightarrow> a sdiv b = a div b"
  by (cases "a = 0") (simp_all add: signed_divide_int_def)

lemma smod_nonneg [simp]: "0 \<le> (a::int) \<Longrightarrow> 0 < b \<Longrightarrow> a smod b = a mod b"
  by (cases "a = 0") (simp_all add: signed_modulo_int_def)

lemma length_put_bytes [simp]:
  "off + length xs \<le> length buf \<Longrightarrow> length (put_bytes off xs buf) = length buf"
  by (simp add: put_bytes_def)

lemma nth_put_bytes:
  "off + length xs \<le> length buf \<Longrightarrow> i < length buf \<Longrightarrow>
   put_bytes off xs buf ! i =
     (if off \<le> i \<and> i < off + length xs then xs ! (i - off) else buf ! i)"
  by (auto simp: put_bytes_def nth_append min_def)

lemma length_get_bytes [simp]: "off + n \<le> length buf \<Longrightarrow> length (get_bytes off n buf) = n"
  by (simp add: get_bytes_def)

lemma nth_get_bytes [simp]:
  "off + n \<le> length buf \<Longrightarrow> i < n \<Longrightarrow> get_bytes off n buf ! i = buf ! (off + i)"
  by (simp add: get_bytes_def)

lemma put_bytes_whole [simp]: "length xs = length buf \<Longrightarrow> put_bytes 0 xs buf = xs"
  by (simp add: put_bytes_def)

lemma get_put_bytes [simp]:
  "off + length xs \<le> length buf \<Longrightarrow> n = length xs \<Longrightarrow> get_bytes off n (put_bytes off xs buf) = xs"
  by (simp add: get_bytes_def put_bytes_def)

lemma length_le32 [simp]: "length (le32 w) = 4"
  by (simp add: le32_def)

lemma un_le32_le32 [simp]: "un_le32 (le32 w) = w"
proof (rule bit_word_eqI)
  fix n assume "n < LENGTH(32)"
  then have "n < 32" by simp
  then consider "n < 8" | "8 \<le> n" "n < 16" | "16 \<le> n" "n < 24" | "24 \<le> n" "n < 32"
    by linarith
  then show "bit (un_le32 (le32 w)) n \<longleftrightarrow> bit w n"
    by cases (auto simp: un_le32_def le32_def bit_or_iff bit_push_bit_iff bit_ucast_iff bit_drop_bit_eq)
qed

lemma length_bytes_of_words [simp]: "length (bytes_of_words ws) = 4 * length ws"
  by (induction ws) (simp_all add: bytes_of_words_def)

lemma length_words_of_bytes [simp]: "length (words_of_bytes n bs) = n"
  by (simp add: words_of_bytes_def)

lemma get_bytes_of_words:
  "i < length ws \<Longrightarrow> get_bytes (4 * i) 4 (bytes_of_words ws) = le32 (ws ! i)"
proof (induction ws arbitrary: i)
  case Nil
  then show ?case by simp
next
  case (Cons w ws)
  then show ?case
    by (cases i) (simp_all add: bytes_of_words_def get_bytes_def)
qed

lemma words_of_bytes_of_words [simp]:
  "n = length ws \<Longrightarrow> words_of_bytes n (bytes_of_words ws) = ws"
  by (rule nth_equalityI) (simp_all add: words_of_bytes_def get_bytes_of_words)

end
