(* ===== verification/Sector_Store.thy ===== *)
theory Sector_Store
  imports Pintos_Prelude
begin

text \<open>
  The interface the file system needs of its sector storage, as a locale: reading a
  sector shows its current bytes, writing changes exactly one range of one sector, and
  neither is seen by the layers above in any other way. The buffer cache provides it; the
  inode layer uses the rules proved here.
\<close>

locale sector_store =
  fixes view :: "'s \<Rightarrow> u32 \<Rightarrow> byte list"
    and ready :: "'s \<Rightarrow> bool"
    and frame :: "'s \<Rightarrow> 's \<Rightarrow> bool"
    and get :: "u32 \<Rightarrow> ('s, byte list) K"
    and put :: "u32 \<Rightarrow> int \<Rightarrow> byte list \<Rightarrow> ('s, unit) K"
  assumes view_length: "ready s \<Longrightarrow> length (view s a) = 512"
    and get_law: "ready s \<Longrightarrow> wpK (get a)
      (\<lambda>x t. ready t \<and> x = view s a \<and> view t = view s \<and> frame s t) s"
    and put_law: "ready s \<Longrightarrow> 0 \<le> off \<Longrightarrow> nat off + length xs \<le> 512 \<Longrightarrow> wpK (put a off xs)
      (\<lambda>_ t. ready t \<and> frame s t \<and> view t = (view s)(a := put_bytes (nat off) xs (view s a))) s"
    and frame_refl: "frame s s"
    and frame_trans: "frame s t \<Longrightarrow> frame t u \<Longrightarrow> frame s u"
begin

lemma get_wp:
  assumes "ready s" "\<And>t. ready t \<Longrightarrow> view t = view s \<Longrightarrow> frame s t \<Longrightarrow> Q (view s a) t"
  shows "wpK (get a) Q s"
  by (rule wpK_mono[OF get_law[OF assms(1)]]) (use assms(2) in blast)

lemma put_wp:
  assumes "ready s" "0 \<le> off" "nat off + length xs \<le> 512"
    and "\<And>t. ready t \<Longrightarrow> view t = (view s)(a := put_bytes (nat off) xs (view s a)) \<Longrightarrow> frame s t \<Longrightarrow> Q () t"
  shows "wpK (put a off xs) Q s"
  by (rule wpK_mono[OF put_law[OF assms(1-3)]]) (use assms(4) in simp)

text \<open>What was put is what is got, and other sectors are as before.\<close>

lemma put_get:
  assumes "ready s" "0 \<le> off" "nat off + length xs \<le> 512"
  shows "wpK (thenK (put a off xs) (get b)) (\<lambda>y t. ready t \<and> frame s t \<and>
    y = (if b = a then put_bytes (nat off) xs (view s a) else view s b)) s"
  unfolding wpK_then
  by (rule put_wp[OF assms], rule get_wp) (auto intro: frame_trans)

text \<open>Writing to different sectors commutes, as far as a reader can tell.\<close>

lemma put_put_other:
  assumes "ready s" "a \<noteq> b" "0 \<le> off" "nat off + length xs \<le> 512" "0 \<le> off'" "nat off' + length ys \<le> 512"
  shows "wpK (thenK (put a off xs) (put b off' ys)) (\<lambda>_ t. ready t \<and> frame s t \<and>
    view t = (view s)(b := put_bytes (nat off') ys (view s b), a := put_bytes (nat off) xs (view s a))) s"
  unfolding wpK_then
  by (rule put_wp[OF assms(1,3,4)], rule put_wp)
     (use assms in \<open>auto simp: fun_upd_twist intro: frame_trans\<close>)

text \<open>
  One word of a sector that holds an array of 128 pointers, the \<^verbatim>\<open>struct index\<close> of
  \<^verbatim>\<open>inode.c\<close>.
\<close>

lemma get_word_wp:
  assumes "ready s" "k < 128"
    and "\<And>t. ready t \<Longrightarrow> view t = view s \<Longrightarrow> frame s t \<Longrightarrow>
      Q (un_le32 (get_bytes (4 * k) 4 (view s a))) t"
  shows "wpK (bindK (get a) (\<lambda>x. retK (words_of_bytes 128 x ! k))) Q s"
  unfolding wpK_bind
  by (rule get_wp[OF assms(1)]) (use assms(2,3) in \<open>simp add: words_of_bytes_def\<close>)

end

end
