(* ===== verification/Block_Cache.thy ===== *)
theory Block_Cache
  imports Sector_Store
begin

text \<open>
  The buffer cache of \<^verbatim>\<open>cache.c\<close>: at most \<open>CACHE_SIZE\<close> sectors of the file system
  device kept in memory, found by sector number, evicted by the clock algorithm and
  written back when dirty. A \<^verbatim>\<open>struct cache *\<close> is an address in a typed heap, so that a
  block that was freed is no longer readable; \<^verbatim>\<open>cache_list\<close> is the list of the addresses
  in its order. The block device driver is not part of the sources: its two operations
  are a parameter, with the behaviour its interface documents as \<open>device_ok\<close>.
  The theorems: every operation keeps the invariant \<open>cache_wf\<close> and shows its client one
  array of sectors (\<open>contents\<close>) that eviction and write-back leave unchanged.
\<close>

section \<open>State\<close>

definition CACHE_SIZE :: int where
  "CACHE_SIZE = 64"

definition READ_BLOCK :: bool where
  "READ_BLOCK = False"

definition WRITE_BLOCK :: bool where
  "WRITE_BLOCK = True"

abbreviation BLOCK_SECTOR_SIZE :: nat where
  "BLOCK_SECTOR_SIZE \<equiv> 512"

record cache =
  csid :: u32
  AB :: bool
  DB :: bool
  cread_cnt :: int
  cio :: "tid option"
  cdata :: "byte list"

record 'd blkdev =
  block_read :: "'d \<Rightarrow> u32 \<Rightarrow> byte list"
  block_write :: "'d \<Rightarrow> u32 \<Rightarrow> byte list \<Rightarrow> 'd"
  malloc_ok :: "addr \<Rightarrow> bool"

record 'd cache_sys =
  cur_thread :: tid
  fs_device :: 'd
  cache_heap :: "addr \<Rightarrow> cache option"
  cache_list :: "addr list"
  used_cache :: int
  cache_lock :: "tid option"
  cache_brk :: addr
  started :: "string list"

section \<open>Operations of cache.c\<close>

definition cacheK :: "addr \<Rightarrow> (('d, 'z) cache_sys_scheme, cache) K" where
  "cacheK p = derefK (\<lambda>s. cache_heap s p)"

definition put_cache :: "addr \<Rightarrow> cache \<Rightarrow> (('d, 'z) cache_sys_scheme, unit) K" where
  "put_cache p c = modK (\<lambda>s. s\<lparr>cache_heap := (cache_heap s)(p \<mapsto> c)\<rparr>)"

definition upd_cache :: "addr \<Rightarrow> (cache \<Rightarrow> cache) \<Rightarrow> (('d, 'z) cache_sys_scheme, unit) K" where
  "upd_cache p f = bindK (cacheK p) (\<lambda>c. put_cache p (f c))"

definition io_acquire :: "addr \<Rightarrow> (('d, 'z) cache_sys_scheme, unit) K" where
  "io_acquire p = bindK (cacheK p) (\<lambda>c. bindK (getK cur_thread) (\<lambda>me.
     bindK (liftK (acquire_lock me (cio c))) (\<lambda>l. put_cache p (c\<lparr>cio := l\<rparr>))))"

definition io_release :: "addr \<Rightarrow> (('d, 'z) cache_sys_scheme, unit) K" where
  "io_release p = bindK (cacheK p) (\<lambda>c. bindK (getK cur_thread) (\<lambda>me.
     bindK (liftK (release_lock me (cio c))) (\<lambda>l. put_cache p (c\<lparr>cio := l\<rparr>))))"

definition cache_lock_acquire :: "(('d, 'z) cache_sys_scheme, unit) K" where
  "cache_lock_acquire = bindK (getK (\<lambda>s. acquire_lock (cur_thread s) (cache_lock s)))
     (\<lambda>r. bindK (liftK r) (\<lambda>l. modK (\<lambda>s. s\<lparr>cache_lock := l\<rparr>)))"

definition cache_lock_release :: "(('d, 'z) cache_sys_scheme, unit) K" where
  "cache_lock_release = bindK (getK (\<lambda>s. release_lock (cur_thread s) (cache_lock s)))
     (\<lambda>r. bindK (liftK r) (\<lambda>l. modK (\<lambda>s. s\<lparr>cache_lock := l\<rparr>)))"

text \<open>
  \<^verbatim>\<open>cond_signal(&cache->read_end, &cache->io)\<close>: its assertion is that the caller holds
  the lock; whom it wakes is the subject of the theory of the read-write bracket.
\<close>

definition signal_read_end :: "addr \<Rightarrow> (('d, 'z) cache_sys_scheme, unit) K" where
  "signal_read_end p = bindK (cacheK p) (\<lambda>c. bindK (getK cur_thread) (\<lambda>me.
     assertK (cio c = Some me)))"

text \<open>\<open>started\<close> records the kernel threads that were created, by name: here the
  write-back thread that runs \<^verbatim>\<open>cache_writeback_func\<close>.\<close>

definition cache_system_init :: "('d, 'z) cache_sys_scheme \<Rightarrow> ('d, 'z) cache_sys_scheme" where
  "cache_system_init s = s\<lparr>cache_list := [], cache_lock := None, used_cache := 0,
     started := started s @ [''cwf'']\<rparr>"

definition read_cache :: "addr \<Rightarrow> (('d, 'z) cache_sys_scheme, unit) K" where
  "read_cache p = thenK (io_acquire p)
     (thenK (upd_cache p (\<lambda>c. c\<lparr>cread_cnt := cread_cnt c + 1\<rparr>)) (io_release p))"

definition end_read :: "addr \<Rightarrow> (('d, 'z) cache_sys_scheme, unit) K" where
  "end_read p = thenK (io_acquire p)
     (thenK (upd_cache p (\<lambda>c. c\<lparr>cread_cnt := cread_cnt c - 1\<rparr>))
     (bindK (cacheK p) (\<lambda>c.
      thenK (whenK (cread_cnt c = 0) (signal_read_end p)) (io_release p))))"

definition write_cache :: "addr \<Rightarrow> (('d, 'z) cache_sys_scheme, unit) K" where
  "write_cache p = thenK (io_acquire p)
     (bindK (cacheK p) (\<lambda>c. whenK (cread_cnt c > 0) (failK BLOCKED)))"

definition end_write :: "addr \<Rightarrow> (('d, 'z) cache_sys_scheme, unit) K" where
  "end_write p = thenK (signal_read_end p) (io_release p)"

fun find_in :: "(addr \<Rightarrow> cache option) \<Rightarrow> u32 \<Rightarrow> addr list \<Rightarrow> kerror + addr option" where
  "find_in h sid [] = Inr None"
| "find_in h sid (p # ps) = (case h p of None \<Rightarrow> Inl BAD_POINTER
     | Some c \<Rightarrow> if csid c = sid then Inr (Some p) else find_in h sid ps)"

definition find_cache :: "u32 \<Rightarrow> (('d, 'z) cache_sys_scheme, addr option) K" where
  "find_cache sid = bindK (getK (\<lambda>s. cache_lock s \<noteq> Some (cur_thread s))) (\<lambda>cl.
     thenK (whenK cl cache_lock_acquire)
     (bindK (getK (\<lambda>s. find_in (cache_heap s) sid (cache_list s))) (\<lambda>r.
      bindK (liftK r) (\<lambda>c.
      thenK (whenK cl cache_lock_release) (retK c)))))"

text \<open>
  One pass of the \<^verbatim>\<open>for\<close> loop of \<^verbatim>\<open>cache_evict\<close>: the first block whose accessed bit is
  clear is written back if dirty, unlinked and freed (result true, the \<^verbatim>\<open>goto done\<close>);
  the accessed bit of every block before it is cleared.
\<close>

primrec evict_scan ::
  "('d, 'e) blkdev_scheme \<Rightarrow> addr list \<Rightarrow> (('d, 'z) cache_sys_scheme, bool) K" where
  "evict_scan E [] = retK False"
| "evict_scan E (p # ps) = bindK (cacheK p) (\<lambda>c. bindK (getK cur_thread) (\<lambda>me.
     thenK (whenK (cio c \<noteq> Some me) (io_acquire p))
     (if AB c then
        thenK (upd_cache p (\<lambda>c. c\<lparr>AB := False\<rparr>))
        (thenK (whenK (cio c \<noteq> Some me) (io_release p)) (evict_scan E ps))
      else
        thenK (whenK (DB c)
          (modK (\<lambda>s. s\<lparr>fs_device := block_write E (fs_device s) (csid c) (cdata c)\<rparr>)))
        (thenK (whenK (cio c \<noteq> Some me) (io_release p))
        (thenK (modK (\<lambda>s. s\<lparr>cache_list := remove1 p (cache_list s),
                            cache_heap := (cache_heap s)(p := None)\<rparr>))
        (retK True))))))"

text \<open>
  The \<^verbatim>\<open>while(1)\<close> around the pass, with the number of passes as fuel; two passes are
  enough whenever the loop ends at all (lemma \<open>evict_while_more\<close>).
\<close>

primrec evict_while ::
  "('d, 'e) blkdev_scheme \<Rightarrow> nat \<Rightarrow> (('d, 'z) cache_sys_scheme, unit) K" where
  "evict_while E 0 = failK NO_RETURN"
| "evict_while E (Suc n) = bindK (getK cache_list) (\<lambda>l. bindK (evict_scan E l) (\<lambda>done.
     if done then retK () else evict_while E n))"

definition cache_evict :: "('d, 'e) blkdev_scheme \<Rightarrow> (('d, 'z) cache_sys_scheme, unit) K" where
  "cache_evict E = thenK (evict_while E 2)
     (modK (\<lambda>s. s\<lparr>used_cache := used_cache s - 1\<rparr>))"

text \<open>
  \<^verbatim>\<open>while(used_cache>=CACHE_SIZE) cache_evict();\<close> each round lowers \<open>used_cache\<close> by one,
  so \<open>used_cache - 63\<close> rounds are all the loop can take.
\<close>

primrec make_room ::
  "('d, 'e) blkdev_scheme \<Rightarrow> nat \<Rightarrow> (('d, 'z) cache_sys_scheme, unit) K" where
  "make_room E 0 = bindK (getK (\<lambda>s. used_cache s \<ge> CACHE_SIZE))
     (\<lambda>b. if b then failK NO_RETURN else retK ())"
| "make_room E (Suc n) = bindK (getK (\<lambda>s. used_cache s \<ge> CACHE_SIZE))
     (\<lambda>b. if b then thenK (cache_evict E) (make_room E n) else retK ())"

definition create_cache ::
  "('d, 'e) blkdev_scheme \<Rightarrow> u32 \<Rightarrow> bool \<Rightarrow> (('d, 'z) cache_sys_scheme, addr) K" where
  "create_cache E sid type = bindK (getK (\<lambda>s. cache_lock s \<noteq> Some (cur_thread s))) (\<lambda>cl.
     thenK (whenK cl cache_lock_acquire)
     (bindK (getK (\<lambda>s. nat (used_cache s - CACHE_SIZE + 1))) (\<lambda>n.
      thenK (make_room E n)
     (bindK (getK cache_brk) (\<lambda>p.
      if \<not> malloc_ok E p then failK BAD_POINTER else
      thenK (modK (\<lambda>s. s\<lparr>cache_brk := p + 1,
         cache_list := cache_list s @ [p],
         used_cache := used_cache s + 1,
         cache_heap := (cache_heap s)(p \<mapsto> \<lparr>csid = sid, AB = True, DB = type, cread_cnt = 0,
           cio = None, cdata = block_read E (fs_device s) sid\<rparr>)\<rparr>))
     (thenK (whenK cl cache_lock_release) (retK p)))))))"

definition cache_block ::
  "('d, 'e) blkdev_scheme \<Rightarrow> u32 \<Rightarrow> bool \<Rightarrow> (('d, 'z) cache_sys_scheme, addr) K" where
  "cache_block E sid type = bindK (find_cache sid) (\<lambda>r. case r of
     None \<Rightarrow> create_cache E sid type
   | Some c \<Rightarrow> thenK (io_acquire c)
       (thenK (upd_cache c (\<lambda>b. b\<lparr>AB := True, DB := DB b \<or> type\<rparr>))
       (thenK (io_release c) (retK c))))"

definition write_block_back ::
  "('d, 'e) blkdev_scheme \<Rightarrow> addr \<Rightarrow> (('d, 'z) cache_sys_scheme, unit) K" where
  "write_block_back E p = thenK (io_acquire p) (bindK (cacheK p) (\<lambda>c.
     thenK (whenK (DB c)
       (thenK (modK (\<lambda>s. s\<lparr>fs_device := block_write E (fs_device s) (csid c) (cdata c)\<rparr>))
              (upd_cache p (\<lambda>c. c\<lparr>DB := False\<rparr>))))
     (io_release p)))"

definition write_to_disk :: "('d, 'e) blkdev_scheme \<Rightarrow> (('d, 'z) cache_sys_scheme, unit) K" where
  "write_to_disk E = bindK (getK cache_list) (\<lambda>l. forK l (write_block_back E))"

text \<open>One round of the write-back thread, between two calls of \<^verbatim>\<open>timer_sleep\<close>.\<close>

definition cache_writeback_func ::
  "('d, 'e) blkdev_scheme \<Rightarrow> (('d, 'z) cache_sys_scheme, unit) K" where
  "cache_writeback_func E =
     thenK cache_lock_acquire (thenK (write_to_disk E) cache_lock_release)"

definition cache_remove :: "addr \<Rightarrow> (('d, 'z) cache_sys_scheme, unit) K" where
  "cache_remove p = thenK cache_lock_acquire (bindK (cacheK p) (\<lambda>c.
     thenK (modK (\<lambda>s. s\<lparr>cache_list := remove1 p (cache_list s),
                        cache_heap := (cache_heap s)(p := None)\<rparr>))
     cache_lock_release))"

definition free_block ::
  "('d, 'e) blkdev_scheme \<Rightarrow> addr \<Rightarrow> (('d, 'z) cache_sys_scheme, unit) K" where
  "free_block E p = thenK (io_acquire p) (bindK (cacheK p) (\<lambda>c.
     thenK (modK (\<lambda>s. s\<lparr>fs_device := block_write E (fs_device s) (csid c) (cdata c)\<rparr>))
     (thenK (io_release p)
     (modK (\<lambda>s. s\<lparr>cache_list := remove1 p (cache_list s),
                  cache_heap := (cache_heap s)(p := None),
                  used_cache := used_cache s - 1\<rparr>)))))"

definition free_cache :: "('d, 'e) blkdev_scheme \<Rightarrow> (('d, 'z) cache_sys_scheme, unit) K" where
  "free_cache E = thenK cache_lock_acquire (thenK
     (bindK (getK cache_list) (\<lambda>l. forK l (free_block E))) cache_lock_release)"

text \<open>
  The two access brackets the file system uses. Reading a whole sector:
  \<^verbatim>\<open>cache_block(sid,READ_BLOCK); read_cache; memcpy; end_read\<close>. Writing \<open>xs\<close> at byte
  \<open>off\<close> of a sector: \<^verbatim>\<open>cache_block(sid,WRITE_BLOCK); write_cache; memcpy; end_write\<close>,
  where the copy must stay inside \<^verbatim>\<open>data[BLOCK_SECTOR_SIZE]\<close>.
\<close>

definition store_bytes ::
  "addr \<Rightarrow> int \<Rightarrow> byte list \<Rightarrow> (('d, 'z) cache_sys_scheme, unit) K" where
  "store_bytes p off xs = bindK (cacheK p) (\<lambda>c.
     if 0 \<le> off \<and> nat off + length xs \<le> BLOCK_SECTOR_SIZE
     then put_cache p (c\<lparr>cdata := put_bytes (nat off) xs (cdata c)\<rparr>)
     else failK OUT_OF_BOUNDS)"

definition cache_get ::
  "('d, 'e) blkdev_scheme \<Rightarrow> u32 \<Rightarrow> (('d, 'z) cache_sys_scheme, byte list) K" where
  "cache_get E sid = bindK (cache_block E sid READ_BLOCK) (\<lambda>p.
     thenK (read_cache p) (bindK (cacheK p) (\<lambda>c. thenK (end_read p) (retK (cdata c)))))"

definition cache_put ::
  "('d, 'e) blkdev_scheme \<Rightarrow> u32 \<Rightarrow> int \<Rightarrow> byte list \<Rightarrow> (('d, 'z) cache_sys_scheme, unit) K" where
  "cache_put E sid off xs = bindK (cache_block E sid WRITE_BLOCK) (\<lambda>p.
     thenK (write_cache p) (thenK (store_bytes p off xs) (end_write p)))"

section \<open>The device's documented behaviour, the invariant and the client's view\<close>

text \<open>
  What the block layer documents: a sector read back after a write is what was written,
  other sectors are not touched, and a sector has \<open>BLOCK_SECTOR_SIZE\<close> bytes.
\<close>

definition device_ok :: "('d, 'e) blkdev_scheme \<Rightarrow> bool" where
  "device_ok E \<longleftrightarrow>
     (\<forall>d a. length (block_read E d a) = BLOCK_SECTOR_SIZE) \<and>
     (\<forall>d a b x. length x = BLOCK_SECTOR_SIZE \<longrightarrow>
        block_read E (block_write E d a x) b = (if b = a then x else block_read E d b))"

definition mem_ok :: "('d, 'e) blkdev_scheme \<Rightarrow> bool" where
  "mem_ok E \<longleftrightarrow> (\<forall>p. malloc_ok E p)"

text \<open>
  One cached block. Its lock is free, unless its address is in \<open>H\<close>, the blocks that the
  running thread holds for writing; a block that is not dirty agrees with the device.
\<close>

definition block_ok ::
  "('d, 'e) blkdev_scheme \<Rightarrow> addr set \<Rightarrow> tid \<Rightarrow> 'd \<Rightarrow> addr \<Rightarrow> cache \<Rightarrow> bool" where
  "block_ok E H me d p c \<longleftrightarrow> length (cdata c) = BLOCK_SECTOR_SIZE \<and> cread_cnt c = 0 \<and>
     cio c = (if p \<in> H then Some me else None) \<and>
     (DB c \<or> cdata c = block_read E d (csid c))"

definition cache_core ::
  "('d, 'e) blkdev_scheme \<Rightarrow> addr set \<Rightarrow> ('d, 'z) cache_sys_scheme \<Rightarrow> bool" where
  "cache_core E H s \<longleftrightarrow> distinct (cache_list s) \<and> dom (cache_heap s) = set (cache_list s) \<and>
     (\<forall>p c q d. cache_heap s p = Some c \<longrightarrow> cache_heap s q = Some d \<longrightarrow> csid c = csid d \<longrightarrow> p = q) \<and>
     (\<forall>p c. cache_heap s p = Some c \<longrightarrow> block_ok E H (cur_thread s) (fs_device s) p c) \<and>
     (\<forall>p \<in> set (cache_list s). p < cache_brk s)"

definition cache_wf ::
  "('d, 'e) blkdev_scheme \<Rightarrow> addr set \<Rightarrow> ('d, 'z) cache_sys_scheme \<Rightarrow> bool" where
  "cache_wf E H s \<longleftrightarrow> cache_core E H s \<and> cache_lock s = None \<and>
     used_cache s = int (length (cache_list s)) \<and> used_cache s \<le> CACHE_SIZE"

text \<open>The sector as a client sees it: the cached copy if there is one, else the device.\<close>

definition contents ::
  "('d, 'e) blkdev_scheme \<Rightarrow> ('d, 'z) cache_sys_scheme \<Rightarrow> u32 \<Rightarrow> byte list" where
  "contents E s a = (case find_in (cache_heap s) a (cache_list s) of
     Inr (Some p) \<Rightarrow> cdata (the (cache_heap s p)) | _ \<Rightarrow> block_read E (fs_device s) a)"

text \<open>What no cache operation touches: the running thread and the layers above.\<close>

definition same_upper ::
  "('d, 'z) cache_sys_scheme \<Rightarrow> ('d, 'z) cache_sys_scheme \<Rightarrow> bool" where
  "same_upper s t \<longleftrightarrow> cur_thread t = cur_thread s \<and> cache_sys.more t = cache_sys.more s"

lemma same_upper_refl [simp]: "same_upper s s"
  by (simp add: same_upper_def)

lemma same_upper_trans: "same_upper s t \<Longrightarrow> same_upper t u \<Longrightarrow> same_upper s u"
  by (simp add: same_upper_def)

section \<open>Looking blocks up\<close>

lemma device_ok_length [simp]: "device_ok E \<Longrightarrow> length (block_read E d a) = BLOCK_SECTOR_SIZE"
  by (simp add: device_ok_def)

lemma device_ok_write [simp]:
  "device_ok E \<Longrightarrow> length x = BLOCK_SECTOR_SIZE \<Longrightarrow>
   block_read E (block_write E d a x) b = (if b = a then x else block_read E d b)"
  unfolding device_ok_def by blast

lemma find_in_Some:
  "find_in h a ps = Inr (Some p) \<Longrightarrow> p \<in> set ps \<and> (\<exists>c. h p = Some c \<and> csid c = a)"
  by (induction ps) (auto split: option.splits if_splits)

lemma find_in_None:
  "find_in h a ps = Inr None \<Longrightarrow> p \<in> set ps \<Longrightarrow> h p = Some c \<Longrightarrow> csid c \<noteq> a"
  by (induction ps) (auto split: option.splits if_splits)

lemma find_in_total: "set ps \<subseteq> dom h \<Longrightarrow> \<exists>r. find_in h a ps = Inr r"
  by (induction ps) (auto split: option.splits)

lemma core_block:
  "cache_core E H s \<Longrightarrow> cache_heap s p = Some c \<Longrightarrow> block_ok E H (cur_thread s) (fs_device s) p c"
  by (simp add: cache_core_def)

lemma core_mem: "cache_core E H s \<Longrightarrow> p \<in> set (cache_list s) \<longleftrightarrow> (\<exists>c. cache_heap s p = Some c)"
  by (auto simp: cache_core_def)

lemma core_sid_inj:
  "cache_core E H s \<Longrightarrow> cache_heap s p = Some c \<Longrightarrow> cache_heap s q = Some d \<Longrightarrow> csid c = csid d \<Longrightarrow> p = q"
  by (auto simp: cache_core_def)

lemma core_find_hit:
  assumes "cache_core E H s" "cache_heap s p = Some c"
  shows "find_in (cache_heap s) (csid c) (cache_list s) = Inr (Some p)"
proof -
  have "set (cache_list s) \<subseteq> dom (cache_heap s)"
    using assms(1) by (auto simp: cache_core_def)
  then obtain r where r: "find_in (cache_heap s) (csid c) (cache_list s) = Inr r"
    using find_in_total by blast
  show ?thesis
  proof (cases r)
    case None
    with r assms show ?thesis
      using find_in_None core_mem by (metis (no_types, lifting))
  next
    case (Some q)
    with r obtain d where "cache_heap s q = Some d" "csid d = csid c"
      using find_in_Some by fastforce
    with assms have "q = p" by (metis core_sid_inj)
    with r Some show ?thesis by simp
  qed
qed

lemma core_find_miss:
  assumes "cache_core E H s" "\<forall>p c. cache_heap s p = Some c \<longrightarrow> csid c \<noteq> a"
  shows "find_in (cache_heap s) a (cache_list s) = Inr None"
proof -
  have "set (cache_list s) \<subseteq> dom (cache_heap s)"
    using assms(1) by (auto simp: cache_core_def)
  then obtain r where r: "find_in (cache_heap s) a (cache_list s) = Inr r"
    using find_in_total by blast
  with assms(2) show ?thesis
    by (cases r) (use find_in_Some in fastforce)+
qed

lemma contents_hit: "cache_core E H s \<Longrightarrow> cache_heap s p = Some c \<Longrightarrow> contents E s (csid c) = cdata c"
  by (simp add: contents_def core_find_hit)

lemma contents_miss:
  "cache_core E H s \<Longrightarrow> \<forall>p c. cache_heap s p = Some c \<longrightarrow> csid c \<noteq> a \<Longrightarrow>
   contents E s a = block_read E (fs_device s) a"
  by (simp add: contents_def core_find_miss)

lemma contents_cases:
  assumes "cache_core E H s"
  obtains (hit) p c where "cache_heap s p = Some c" "csid c = a" "contents E s a = cdata c"
    | (miss) "\<forall>p c. cache_heap s p = Some c \<longrightarrow> csid c \<noteq> a" "contents E s a = block_read E (fs_device s) a"
  using assms contents_hit contents_miss by metis

lemma contents_length [simp]:
  "device_ok E \<Longrightarrow> cache_core E H s \<Longrightarrow> length (contents E s a) = BLOCK_SECTOR_SIZE"
  by (rule contents_cases[where a = a and s = s and H = H and E = E])
     (auto dest: core_block simp: block_ok_def)

text \<open>The view of a state that keeps sector numbers and data of every block.\<close>

lemma contents_cong:
  assumes "cache_core E H s" "cache_core E H' t" "fs_device t = fs_device s"
    and "\<And>p. map_option (\<lambda>c. (csid c, cdata c)) (cache_heap t p) =
              map_option (\<lambda>c. (csid c, cdata c)) (cache_heap s p)"
  shows "contents E t = contents E s"
proof
  fix a
  from assms(1) show "contents E t a = contents E s a"
  proof (cases rule: contents_cases[where a = a])
    case (hit p c)
    with assms(4)[of p] obtain d where "cache_heap t p = Some d" "csid d = a" "cdata d = cdata c"
      by (auto split: option.splits)
    with hit show ?thesis using contents_hit[OF assms(2), of p d] by auto
  next
    case miss
    have "csid d \<noteq> a" if td: "cache_heap t p = Some d" for p d
    proof -
      obtain c where "cache_heap s p = Some c" "csid c = csid d"
        using assms(4)[of p] td by (cases "cache_heap s p") auto
      with miss show ?thesis by metis
    qed
    with miss assms(2,3) show ?thesis
      by (simp add: contents_miss)
  qed
qed

section \<open>Elementary state changes\<close>

text \<open>Changing one block in place, its sector number kept.\<close>

lemma core_update:
  assumes "cache_core E H s" "cache_heap s p = Some c" "csid c' = csid c"
    and "block_ok E H' (cur_thread s) (fs_device s) p c'"
    and "\<And>q. q \<noteq> p \<Longrightarrow> (q \<in> H') = (q \<in> H)"
  shows "cache_core E H' (s\<lparr>cache_heap := (cache_heap s)(p \<mapsto> c')\<rparr>)"
proof -
  have "block_ok E H' (cur_thread s) (fs_device s) q d" if "q \<noteq> p" "cache_heap s q = Some d" for q d
    using core_block[OF assms(1) that(2)] assms(5)[OF that(1)] by (simp add: block_ok_def)
  moreover have "p \<in> set (cache_list s)" using core_mem[OF assms(1)] assms(2) by auto
  moreover have "dom (cache_heap s) = set (cache_list s)" using assms(1) by (simp add: cache_core_def)
  ultimately show ?thesis
    using assms(1-4) unfolding cache_core_def
    by (auto simp: insert_absorb dest: spec)
qed

lemma contents_update:
  assumes "cache_core E H s" "cache_heap s p = Some c" "csid c' = csid c"
    and "cache_core E H' (s\<lparr>cache_heap := (cache_heap s)(p \<mapsto> c')\<rparr>)"
  shows "contents E (s\<lparr>cache_heap := (cache_heap s)(p \<mapsto> c')\<rparr>) = (contents E s)(csid c := cdata c')"
proof
  fix a
  let ?t = "s\<lparr>cache_heap := (cache_heap s)(p \<mapsto> c')\<rparr>"
  have p: "cache_heap ?t p = Some c'" by simp
  show "contents E ?t a = ((contents E s)(csid c := cdata c')) a"
  proof (cases "a = csid c")
    case True
    with contents_hit[OF assms(4) p] assms(3) show ?thesis by simp
  next
    case False
    from assms(1) show ?thesis
    proof (cases rule: contents_cases[where a = a])
      case (hit q d)
      with False assms(2) have "q \<noteq> p" by auto
      with hit have "cache_heap ?t q = Some d" by simp
      from contents_hit[OF assms(4) this] hit False show ?thesis by simp
    next
      case miss
      with False assms(3) have "\<forall>q d. cache_heap ?t q = Some d \<longrightarrow> csid d \<noteq> a" by auto
      from contents_miss[OF assms(4) this] miss False show ?thesis by simp
    qed
  qed
qed

text \<open>Unlinking a block, after it was written back if it was dirty.\<close>

definition drop_block ::
  "('d, 'e) blkdev_scheme \<Rightarrow> addr \<Rightarrow> cache \<Rightarrow> ('d, 'z) cache_sys_scheme \<Rightarrow> ('d, 'z) cache_sys_scheme" where
  "drop_block E p c s = s\<lparr>
     fs_device := (if DB c then block_write E (fs_device s) (csid c) (cdata c) else fs_device s),
     cache_list := remove1 p (cache_list s), cache_heap := (cache_heap s)(p := None)\<rparr>"

lemma core_drop_block:
  assumes "device_ok E" "cache_core E {} s" "cache_heap s p = Some c"
  shows "cache_core E {} (drop_block E p c s)"
proof -
  have len: "length (cdata c) = BLOCK_SECTOR_SIZE"
    using core_block[OF assms(2,3)] by (simp add: block_ok_def)
  have other: "csid d \<noteq> csid c" if "q \<noteq> p" "cache_heap s q = Some d" for q d
    using core_sid_inj[OF assms(2) that(2) assms(3)] that(1) by auto
  have "block_ok E {} (cur_thread s) (fs_device (drop_block E p c s)) q d"
    if "q \<noteq> p" "cache_heap s q = Some d" for q d
    using core_block[OF assms(2) that(2)] other[OF that] assms(1) len
    by (simp add: block_ok_def drop_block_def)
  then show ?thesis
    using assms(2) unfolding cache_core_def
    by (auto simp: drop_block_def set_remove1_eq)
qed

lemma contents_drop_block:
  assumes "device_ok E" "cache_core E {} s" "cache_heap s p = Some c"
  shows "contents E (drop_block E p c s) = contents E s"
proof
  fix a
  let ?t = "drop_block E p c s"
  have core: "cache_core E {} ?t" by (rule core_drop_block[OF assms])
  have ok: "block_ok E {} (cur_thread s) (fs_device s) p c" by (rule core_block[OF assms(2,3)])
  show "contents E ?t a = contents E s a"
  proof (cases "a = csid c")
    case True
    have "\<forall>q d. cache_heap ?t q = Some d \<longrightarrow> csid d \<noteq> a"
      using True core_sid_inj[OF assms(2) _ assms(3)] by (auto simp: drop_block_def)
    from contents_miss[OF core this] contents_hit[OF assms(2,3)] True ok assms(1)
    show ?thesis by (auto simp: drop_block_def block_ok_def)
  next
    case False
    from assms(2) show ?thesis
    proof (cases rule: contents_cases[where a = a])
      case (hit q d)
      with False assms(3) have "cache_heap ?t q = Some d" by (auto simp: drop_block_def)
      from contents_hit[OF core this] hit show ?thesis by simp
    next
      case miss
      then have "\<forall>q d. cache_heap ?t q = Some d \<longrightarrow> csid d \<noteq> a"
        by (auto simp: drop_block_def)
      from contents_miss[OF core this] miss False ok assms(1) show ?thesis
        by (auto simp: drop_block_def block_ok_def)
    qed
  qed
qed

section \<open>Eviction: the clock algorithm\<close>

definition unset :: "('d, 'z) cache_sys_scheme \<Rightarrow> addr \<Rightarrow> bool" where
  "unset s p \<longleftrightarrow> (case cache_heap s p of None \<Rightarrow> False | Some c \<Rightarrow> \<not> AB c)"

definition clear_AB :: "addr list \<Rightarrow> ('d, 'z) cache_sys_scheme \<Rightarrow> ('d, 'z) cache_sys_scheme" where
  "clear_AB ps s = s\<lparr>cache_heap := (\<lambda>q. if q \<in> set ps
     then map_option (\<lambda>c. c\<lparr>AB := False\<rparr>) (cache_heap s q) else cache_heap s q)\<rparr>"

text \<open>The block the clock algorithm has to choose.\<close>

definition victim :: "('d, 'z) cache_sys_scheme \<Rightarrow> addr" where
  "victim s = (case find (unset s) (cache_list s) of Some p \<Rightarrow> p | None \<Rightarrow> hd (cache_list s))"

lemma contents_irrelevant [simp]:
  "contents E (s\<lparr>used_cache := n\<rparr>) = contents E s"
  "contents E (s\<lparr>cache_lock := l\<rparr>) = contents E s"
  by (auto simp: contents_def fun_eq_iff split: sum.splits option.splits)

lemma block_ok_AB [simp]: "block_ok E H me d p (c\<lparr>AB := b\<rparr>) = block_ok E H me d p c"
  by (simp add: block_ok_def)

lemma core_irrelevant [simp]:
  "cache_core E H (s\<lparr>used_cache := n\<rparr>) = cache_core E H s"
  "cache_core E H (s\<lparr>cache_lock := l\<rparr>) = cache_core E H s"
  by (simp_all add: cache_core_def)

lemma clear_AB_simps [simp]:
  "cache_list (clear_AB ps s) = cache_list s" "fs_device (clear_AB ps s) = fs_device s"
  "cur_thread (clear_AB ps s) = cur_thread s" "used_cache (clear_AB ps s) = used_cache s"
  "cache_lock (clear_AB ps s) = cache_lock s" "cache_brk (clear_AB ps s) = cache_brk s"
  "cache_sys.more (clear_AB ps s) = cache_sys.more s"
  by (simp_all add: clear_AB_def)

lemma drop_block_simps [simp]:
  "cache_list (drop_block E p c s) = remove1 p (cache_list s)"
  "cur_thread (drop_block E p c s) = cur_thread s" "used_cache (drop_block E p c s) = used_cache s"
  "cache_lock (drop_block E p c s) = cache_lock s" "cache_brk (drop_block E p c s) = cache_brk s"
  "cache_sys.more (drop_block E p c s) = cache_sys.more s"
  by (simp_all add: drop_block_def)

lemma clear_AB_heap:
  "cache_heap (clear_AB ps s) q = Some c \<longleftrightarrow>
   (\<exists>d. cache_heap s q = Some d \<and> c = (if q \<in> set ps then d\<lparr>AB := False\<rparr> else d))"
  by (auto simp: clear_AB_def)

lemma clear_AB_Nil [simp]: "clear_AB [] s = s"
  by (simp add: clear_AB_def)

lemma clear_AB_sid:
  "cache_heap (clear_AB ps s) q = Some c \<Longrightarrow> \<exists>d. cache_heap s q = Some d \<and> csid c = csid d"
  by (auto simp: clear_AB_heap)

lemma core_clear_AB:
  assumes "cache_core E H s"
  shows "cache_core E H (clear_AB ps s)"
proof -
  have "dom (cache_heap (clear_AB ps s)) = dom (cache_heap s)"
    by (auto simp: clear_AB_def dom_def)
  moreover have "csid c = csid d \<Longrightarrow> cache_heap (clear_AB ps s) p = Some c \<Longrightarrow>
      cache_heap (clear_AB ps s) q = Some d \<Longrightarrow> p = q" for p q c d
    using core_sid_inj[OF assms] clear_AB_sid by metis
  moreover have "block_ok E H (cur_thread s) (fs_device s) p c"
    if "cache_heap (clear_AB ps s) p = Some c" for p c
    using that core_block[OF assms] by (auto simp: clear_AB_heap)
  moreover have "distinct (cache_list s)" "dom (cache_heap s) = set (cache_list s)"
      "\<forall>p \<in> set (cache_list s). p < cache_brk s"
    using assms by (simp_all add: cache_core_def)
  ultimately show ?thesis
    unfolding cache_core_def clear_AB_simps by metis
qed

lemma contents_clear_AB: "cache_core E H s \<Longrightarrow> contents E (clear_AB ps s) = contents E s"
  by (rule contents_cong[OF _ core_clear_AB])
     (auto simp: clear_AB_def option.map_comp comp_def cong: option.map_cong)

lemma cio_id [simp]: "cio c = None \<Longrightarrow> c\<lparr>cio := None\<rparr> = c"
  by (cases c) simp

lemma evict_scan_step:
  assumes "cache_core E {} s" "cache_heap s p = Some c"
  shows "evict_scan E (p # ps) s =
    (if AB c then evict_scan E ps (s\<lparr>cache_heap := (cache_heap s)(p \<mapsto> c\<lparr>AB := False\<rparr>)\<rparr>)
     else Inr (True, drop_block E p c s))"
proof -
  have "cio c = None" using core_block[OF assms] by (simp add: block_ok_def)
  then show ?thesis
    using assms(2)
    by (simp add: kstep cacheK_def put_cache_def upd_cache_def io_acquire_def io_release_def
        drop_block_def)
qed

declare evict_scan.simps(2) [simp del]

lemma core_set_AB:
  assumes "cache_core E H s" "cache_heap s p = Some c"
  shows "cache_core E H (s\<lparr>cache_heap := (cache_heap s)(p \<mapsto> c\<lparr>AB := b\<rparr>)\<rparr>)"
  by (rule core_update[OF assms]) (use core_block[OF assms] in \<open>auto simp: block_ok_def\<close>)

lemma evict_scan_eq:
  assumes "cache_core E {} s" "set ps \<subseteq> set (cache_list s)" "distinct ps"
  shows "evict_scan E ps s = (case find (unset s) ps of
      None \<Rightarrow> Inr (False, clear_AB ps s)
    | Some p \<Rightarrow> let t = clear_AB (takeWhile (\<lambda>q. q \<noteq> p) ps) s
                in Inr (True, drop_block E p (the (cache_heap t p)) t))"
  using assms
proof (induction ps arbitrary: s)
  case Nil
  show ?case by (simp add: clear_AB_def kstep)
next
  case (Cons p ps)
  obtain c where c: "cache_heap s p = Some c"
    using Cons.prems core_mem by fastforce
  let ?s1 = "s\<lparr>cache_heap := (cache_heap s)(p \<mapsto> c\<lparr>AB := False\<rparr>)\<rparr>"
  show ?case
  proof (cases "AB c")
    case False
    with c show ?thesis
      by (simp add: evict_scan_step[OF Cons.prems(1) c] unset_def clear_AB_def)
  next
    case True
    have core1: "cache_core E {} ?s1" by (rule core_set_AB[OF Cons.prems(1) c])
    have clr: "clear_AB xs ?s1 = clear_AB (p # xs) s" for xs
      by (rule cache_sys.equality) (auto simp: clear_AB_def c)
    have un: "find (unset ?s1) ps = find (unset s) ps"
      using Cons.prems(3) by (intro find_cong) (auto simp: unset_def)
    have ne: "find (unset s) ps = Some q \<Longrightarrow> q \<noteq> p" for q
      using Cons.prems(3) by (auto simp: find_Some_iff)
    have "\<not> unset s p" using c True by (simp add: unset_def)
    moreover have "evict_scan E (p # ps) s = evict_scan E ps ?s1"
      using True by (simp add: evict_scan_step[OF Cons.prems(1) c])
    moreover have "evict_scan E ps ?s1 = (case find (unset s) ps of
      None \<Rightarrow> Inr (False, clear_AB (p # ps) s)
    | Some q \<Rightarrow> let t = clear_AB (p # takeWhile (\<lambda>x. x \<noteq> q) ps) s
                in Inr (True, drop_block E q (the (cache_heap t q)) t))"
      using Cons.IH[OF core1] Cons.prems(2,3) unfolding un clr by simp
    ultimately show ?thesis
      using ne by (auto split: option.splits)
  qed
qed

lemma victim_mem: "cache_list s \<noteq> [] \<Longrightarrow> victim s \<in> set (cache_list s)"
  by (auto simp: victim_def find_Some_iff split: option.splits)

text \<open>
  What one eviction does: some accessed bits are cleared, then the victim is written back
  if dirty and dropped; any number of passes from two on gives the same.
\<close>

lemma evict_while_enough:
  assumes "cache_core E {} s" "cache_list s \<noteq> []"
  shows "\<exists>ps. evict_while E (Suc (Suc n)) s =
    Inr ((), drop_block E (victim s) (the (cache_heap (clear_AB ps s) (victim s))) (clear_AB ps s))"
proof (cases "find (unset s) (cache_list s)")
  case (Some p)
  then show ?thesis
    using evict_scan_eq[OF assms(1) subset_refl] assms(1)
    by (auto simp: kstep victim_def cache_core_def Let_def)
next
  case None
  let ?s1 = "clear_AB (cache_list s) s"
  obtain p ps where l: "cache_list s = p # ps"
    using assms(2) by (cases "cache_list s") auto
  obtain c where c: "cache_heap s p = Some c"
    using core_mem[OF assms(1)] l by auto
  have d: "distinct (cache_list s)" using assms(1) by (simp add: cache_core_def)
  have "unset ?s1 p" using c l by (simp add: unset_def clear_AB_def)
  then have f: "find (unset ?s1) (p # ps) = Some p" by simp
  have "evict_scan E (cache_list s) s = Inr (False, ?s1)"
    using evict_scan_eq[OF assms(1) subset_refl d] None by simp
  moreover have "evict_scan E (cache_list s) ?s1 =
      Inr (True, drop_block E p (the (cache_heap ?s1 p)) ?s1)"
    using evict_scan_eq[OF core_clear_AB[OF assms(1), of "cache_list s"], of "cache_list s"] d f l
    by (simp add: Let_def)
  ultimately show ?thesis
    using None l by (auto simp: kstep victim_def)
qed

lemma evict_while_more:
  assumes "cache_core E {} s"
  shows "evict_while E (Suc (Suc n)) s = evict_while E 2 s"
proof (cases "cache_list s = []")
  case True
  then have "evict_while E m s = Inl NO_RETURN" for m
    by (induction m) (simp_all add: kstep)
  then show ?thesis by metis
next
  case False
  show ?thesis
  proof (cases "find (unset s) (cache_list s)")
    case (Some p)
    then show ?thesis
      using evict_scan_eq[OF assms subset_refl] assms
      by (simp add: kstep numeral_2_eq_2 cache_core_def Let_def)
  next
    case None
    let ?s1 = "clear_AB (cache_list s) s"
    have d: "distinct (cache_list s)" using assms by (simp add: cache_core_def)
    obtain p c where "p \<in> set (cache_list s)" "cache_heap s p = Some c"
      using False core_mem[OF assms] by (metis last_in_set)
    then have "find (unset ?s1) (cache_list s) \<noteq> None"
      by (auto simp: find_None_iff unset_def clear_AB_def)
    then show ?thesis
      using None evict_scan_eq[OF assms subset_refl d]
        evict_scan_eq[OF core_clear_AB[OF assms, of "cache_list s"], of "cache_list s"] d
      by (auto simp: kstep numeral_2_eq_2 Let_def)
  qed
qed

definition sids_within :: "('d, 'z) cache_sys_scheme \<Rightarrow> ('d, 'z) cache_sys_scheme \<Rightarrow> bool" where
  "sids_within s t \<longleftrightarrow> (\<forall>p c. cache_heap t p = Some c \<longrightarrow>
     (\<exists>d. cache_heap s p = Some d \<and> csid c = csid d))"

lemma cache_evict_run:
  assumes "device_ok E" "cache_core E {} s" "cache_list s \<noteq> []"
  shows "wpK (cache_evict E) (\<lambda>_ t. cache_core E {} t \<and> contents E t = contents E s \<and>
     same_upper s t \<and> cache_lock t = cache_lock s \<and> cache_brk t = cache_brk s \<and>
     cache_list t = remove1 (victim s) (cache_list s) \<and> used_cache t = used_cache s - 1 \<and>
     sids_within s t) s"
proof -
  obtain ps where ev: "evict_while E 2 s =
    Inr ((), drop_block E (victim s) (the (cache_heap (clear_AB ps s) (victim s))) (clear_AB ps s))"
    using evict_while_enough[OF assms(2,3), of 0] by (auto simp: numeral_2_eq_2)
  have core1: "cache_core E {} (clear_AB ps s)" by (rule core_clear_AB[OF assms(2)])
  obtain c where c: "cache_heap (clear_AB ps s) (victim s) = Some c"
    using core_mem[OF core1] victim_mem[OF assms(3)] by auto
  let ?t = "drop_block E (victim s) c (clear_AB ps s)"
  have "cache_core E {} ?t"
    by (rule core_drop_block[OF assms(1) core1 c])
  moreover have "contents E ?t = contents E s"
    using contents_drop_block[OF assms(1) core1 c] contents_clear_AB[OF assms(2)] by simp
  moreover have "sids_within s ?t"
    by (auto simp: sids_within_def drop_block_def dest: clear_AB_sid split: if_splits)
  ultimately show ?thesis
    using ev c by (simp add: cache_evict_def wpK_def kstep same_upper_def sids_within_def)
qed

section \<open>Creating and finding blocks\<close>

lemma cache_lock_id [simp]: "cache_lock s = None \<Longrightarrow> s\<lparr>cache_lock := None\<rparr> = s"
  by (cases s) simp

lemma make_room_run:
  assumes "device_ok E" "cache_core E {} s" "used_cache s = int (length (cache_list s))"
    and "used_cache s \<le> CACHE_SIZE"
  shows "wpK (make_room E (nat (used_cache s - CACHE_SIZE + 1))) (\<lambda>_ t. cache_core E {} t \<and>
     contents E t = contents E s \<and> same_upper s t \<and> cache_lock t = cache_lock s \<and>
     used_cache t = int (length (cache_list t)) \<and> used_cache t < CACHE_SIZE \<and> sids_within s t) s"
proof (cases "used_cache s = CACHE_SIZE")
  case False
  with assms(4) have "nat (used_cache s - CACHE_SIZE + 1) = 0" by simp
  with assms False show ?thesis
    by (simp add: wpK_def kstep sids_within_def)
next
  case True
  with assms(3) have ne: "cache_list s \<noteq> []" by (auto simp: CACHE_SIZE_def)
  have l: "length (remove1 (victim s) (cache_list s)) = length (cache_list s) - 1"
    using victim_mem[OF ne] by (simp add: length_remove1)
  have "wpK (cache_evict E) (\<lambda>_ t. cache_core E {} t \<and> contents E t = contents E s \<and>
     same_upper s t \<and> cache_lock t = cache_lock s \<and> used_cache t = int (length (cache_list t)) \<and>
     used_cache t < CACHE_SIZE \<and> sids_within s t) s"
    by (rule wpK_mono[OF cache_evict_run[OF assms(1,2) ne]])
       (use True assms(3) l ne in \<open>auto simp: of_nat_diff Suc_le_eq\<close>)
  then have "wpK (cache_evict E) (\<lambda>_. wpK (make_room E 0) (\<lambda>_ t. cache_core E {} t \<and>
     contents E t = contents E s \<and> same_upper s t \<and> cache_lock t = cache_lock s \<and>
     used_cache t = int (length (cache_list t)) \<and> used_cache t < CACHE_SIZE \<and> sids_within s t)) s"
    by (rule wpK_mono) simp
  with True show ?thesis by simp
qed

lemma core_add_block:
  assumes "cache_core E {} s" "\<forall>p c. cache_heap s p = Some c \<longrightarrow> csid c \<noteq> a" "device_ok E"
    and "t = s\<lparr>cache_brk := cache_brk s + 1, cache_list := cache_list s @ [cache_brk s],
         used_cache := n, cache_heap := (cache_heap s)(cache_brk s \<mapsto> \<lparr>csid = a, AB = True, DB = ty,
           cread_cnt = 0, cio = None, cdata = block_read E (fs_device s) a\<rparr>)\<rparr>"
  shows "cache_core E {} t" and "contents E t = contents E s"
proof -
  have fresh: "cache_brk s \<notin> set (cache_list s)" "cache_heap s (cache_brk s) = None"
    using assms(1) core_mem[OF assms(1)] by (auto simp: cache_core_def)
  show core: "cache_core E {} t"
    using assms fresh core_block[OF assms(1)] unfolding cache_core_def
    by (auto simp: block_ok_def less_Suc_eq dest: spec)
  show "contents E t = contents E s"
  proof
    fix b
    from assms(1) show "contents E t b = contents E s b"
    proof (cases rule: contents_cases[where a = b])
      case (hit p c)
      with fresh assms(4) have "cache_heap t p = Some c" by auto
      from contents_hit[OF core this] hit show ?thesis by simp
    next
      case miss
      show ?thesis
      proof (cases "b = a")
        case True
        have "cache_heap t (cache_brk s) = Some \<lparr>csid = a, AB = True, DB = ty,
           cread_cnt = 0, cio = None, cdata = block_read E (fs_device s) a\<rparr>"
          using assms(4) by simp
        from contents_hit[OF core this] miss True show ?thesis by simp
      next
        case False
        with miss assms(4) have "\<forall>p c. cache_heap t p = Some c \<longrightarrow> csid c \<noteq> b" by auto
        from contents_miss[OF core this] miss assms(4) show ?thesis by simp
      qed
    qed
  qed
qed

definition cache_ready :: "('d, 'e) blkdev_scheme \<Rightarrow> ('d, 'z) cache_sys_scheme \<Rightarrow> bool" where
  "cache_ready E s \<longleftrightarrow> device_ok E \<and> mem_ok E \<and> cache_wf E {} s"

lemma create_cache_run:
  assumes "cache_ready E s" "\<forall>p c. cache_heap s p = Some c \<longrightarrow> csid c \<noteq> a"
  shows "wpK (create_cache E a ty) (\<lambda>p t. cache_wf E {} t \<and> contents E t = contents E s \<and>
     same_upper s t \<and> (\<exists>c. cache_heap t p = Some c \<and> csid c = a \<and> (ty \<longrightarrow> DB c))) s"
proof -
  let ?s0 = "s\<lparr>cache_lock := Some (cur_thread s)\<rparr>"
  have E: "device_ok E" "mem_ok E" and wf: "cache_core E {} s" "cache_lock s = None"
      "used_cache s = int (length (cache_list s))" "used_cache s \<le> CACHE_SIZE"
    using assms(1) by (simp_all add: cache_ready_def cache_wf_def)
  have "wpK (make_room E (nat (used_cache s - CACHE_SIZE + 1))) (\<lambda>_ t. cache_core E {} t \<and>
     contents E t = contents E ?s0 \<and> same_upper ?s0 t \<and> cache_lock t = cache_lock ?s0 \<and>
     used_cache t = int (length (cache_list t)) \<and> used_cache t < CACHE_SIZE \<and> sids_within ?s0 t) ?s0"
    using make_room_run[OF E(1), of ?s0] wf by simp
  then obtain t where t: "make_room E (nat (used_cache s - CACHE_SIZE + 1)) ?s0 = Inr ((), t)"
      "cache_core E {} t" "contents E t = contents E s" "same_upper s t"
      "cache_lock t = Some (cur_thread t)" "used_cache t = int (length (cache_list t))"
      "used_cache t < CACHE_SIZE" "sids_within s t"
    by (auto simp: wpK_iff same_upper_def sids_within_def)
  have no: "\<forall>p c. cache_heap t p = Some c \<longrightarrow> csid c \<noteq> a"
    using t(8) assms(2) unfolding sids_within_def by metis
  note add = core_add_block[OF t(2) no E(1) refl, where n = "used_cache t + 1" and ty = ty]
  show ?thesis
    using t(1,3-7) wf(2) E(2) add
    by (simp add: create_cache_def wpK_def kstep cache_lock_acquire_def cache_lock_release_def
        mem_ok_def same_upper_def cache_wf_def)
qed

lemma find_cache_eq:
  assumes "cache_wf E H s" "find_in (cache_heap s) a (cache_list s) = Inr r"
  shows "find_cache a s = Inr (r, s)"
  using assms by (simp add: find_cache_def kstep cache_lock_acquire_def cache_lock_release_def
      cache_wf_def)

lemma cache_block_run:
  assumes "cache_ready E s"
  shows "wpK (cache_block E a ty) (\<lambda>p t. cache_wf E {} t \<and> contents E t = contents E s \<and>
     same_upper s t \<and> (\<exists>c. cache_heap t p = Some c \<and> csid c = a \<and> (ty \<longrightarrow> DB c))) s"
proof -
  have wf: "cache_wf E {} s" and core: "cache_core E {} s"
    using assms by (simp_all add: cache_ready_def cache_wf_def)
  show ?thesis
  proof (cases "\<exists>p c. cache_heap s p = Some c \<and> csid c = a")
    case False
    then have "find_cache a s = Inr (None, s)"
      by (intro find_cache_eq[OF wf] core_find_miss[OF core]) auto
    with create_cache_run[OF assms, of a ty] False show ?thesis
      by (auto simp: cache_block_def wpK_def kstep)
  next
    case True
    then obtain p c where c: "cache_heap s p = Some c" "csid c = a" by blast
    then have f: "find_cache a s = Inr (Some p, s)"
      using find_cache_eq[OF wf core_find_hit[OF core c(1)]] by simp
    let ?c = "c\<lparr>AB := True, DB := DB c \<or> ty\<rparr>"
    have ok: "block_ok E {} (cur_thread s) (fs_device s) p c" by (rule core_block[OF core c(1)])
    then have ok': "block_ok E {} (cur_thread s) (fs_device s) p ?c" by (auto simp: block_ok_def)
    have core': "cache_core E {} (s\<lparr>cache_heap := (cache_heap s)(p \<mapsto> ?c)\<rparr>)"
      by (rule core_update[OF core c(1) _ ok']) simp_all
    have cont: "contents E (s\<lparr>cache_heap := (cache_heap s)(p \<mapsto> ?c)\<rparr>) = contents E s"
      using contents_update[OF core c(1) _ core'] contents_hit[OF core c(1)] by (simp add: fun_eq_iff)
    show ?thesis
      using f c ok wf core' cont
      by (simp add: cache_block_def wpK_def kstep io_acquire_def io_release_def upd_cache_def
          cacheK_def put_cache_def block_ok_def cache_wf_def same_upper_def)
  qed
qed

section \<open>The read and write brackets\<close>

text \<open>
  Inside a write bracket: after \<^verbatim>\<open>cache_block(sid,WRITE_BLOCK); write_cache\<close> the block is
  dirty and its lock is held by the running thread.
\<close>

lemma write_cache_run:
  assumes "cache_wf E {} s" "cache_heap s p = Some c"
  shows "wpK (write_cache p) (\<lambda>_ t. cache_wf E {p} t \<and> contents E t = contents E s \<and>
     same_upper s t \<and> cache_heap t p = Some (c\<lparr>cio := Some (cur_thread s)\<rparr>)) s"
proof -
  let ?c = "c\<lparr>cio := Some (cur_thread s)\<rparr>"
  have core: "cache_core E {} s" using assms(1) by (simp add: cache_wf_def)
  have ok: "block_ok E {} (cur_thread s) (fs_device s) p c" by (rule core_block[OF core assms(2)])
  then have "block_ok E {p} (cur_thread s) (fs_device s) p ?c" by (auto simp: block_ok_def)
  then have core': "cache_core E {p} (s\<lparr>cache_heap := (cache_heap s)(p \<mapsto> ?c)\<rparr>)"
    by (intro core_update[OF core assms(2)]) simp_all
  have "contents E (s\<lparr>cache_heap := (cache_heap s)(p \<mapsto> ?c)\<rparr>) = contents E s"
    using contents_update[OF core assms(2) _ core'] contents_hit[OF core assms(2)]
    by (simp add: fun_eq_iff)
  with core' ok assms show ?thesis
    by (simp add: write_cache_def wpK_def kstep io_acquire_def cacheK_def put_cache_def
        block_ok_def cache_wf_def same_upper_def)
qed

lemma store_bytes_run:
  assumes "cache_wf E {p} s" "cache_heap s p = Some c" "DB c"
    and "0 \<le> off" "nat off + length xs \<le> BLOCK_SECTOR_SIZE"
  shows "wpK (store_bytes p off xs) (\<lambda>_ t. cache_wf E {p} t \<and> same_upper s t \<and>
     contents E t = (contents E s)(csid c := put_bytes (nat off) xs (contents E s (csid c))) \<and>
     cache_heap t p = Some (c\<lparr>cdata := put_bytes (nat off) xs (cdata c)\<rparr>)) s"
proof -
  let ?c = "c\<lparr>cdata := put_bytes (nat off) xs (cdata c)\<rparr>"
  have core: "cache_core E {p} s" using assms(1) by (simp add: cache_wf_def)
  have ok: "block_ok E {p} (cur_thread s) (fs_device s) p c" by (rule core_block[OF core assms(2)])
  then have "block_ok E {p} (cur_thread s) (fs_device s) p ?c"
    using assms(3,5) by (auto simp: block_ok_def)
  then have core': "cache_core E {p} (s\<lparr>cache_heap := (cache_heap s)(p \<mapsto> ?c)\<rparr>)"
    by (intro core_update[OF core assms(2)]) simp_all
  have "contents E (s\<lparr>cache_heap := (cache_heap s)(p \<mapsto> ?c)\<rparr>) =
      (contents E s)(csid c := put_bytes (nat off) xs (contents E s (csid c)))"
    using contents_update[OF core assms(2) _ core'] contents_hit[OF core assms(2)] by simp
  with core' assms show ?thesis
    by (simp add: store_bytes_def wpK_def kstep cacheK_def put_cache_def cache_wf_def same_upper_def)
qed

lemma end_write_run:
  assumes "cache_wf E {p} s" "cache_heap s p = Some c"
  shows "wpK (end_write p) (\<lambda>_ t. cache_wf E {} t \<and> same_upper s t \<and>
     contents E t = contents E s \<and> cache_heap t p = Some (c\<lparr>cio := None\<rparr>)) s"
proof -
  let ?c = "c\<lparr>cio := None\<rparr>"
  have core: "cache_core E {p} s" using assms(1) by (simp add: cache_wf_def)
  have ok: "block_ok E {p} (cur_thread s) (fs_device s) p c" by (rule core_block[OF core assms(2)])
  then have "block_ok E {} (cur_thread s) (fs_device s) p ?c" by (auto simp: block_ok_def)
  then have core': "cache_core E {} (s\<lparr>cache_heap := (cache_heap s)(p \<mapsto> ?c)\<rparr>)"
    by (intro core_update[OF core assms(2)]) simp_all
  have "contents E (s\<lparr>cache_heap := (cache_heap s)(p \<mapsto> ?c)\<rparr>) = contents E s"
    using contents_update[OF core assms(2) _ core'] contents_hit[OF core assms(2)]
    by (simp add: fun_eq_iff)
  with core' ok assms show ?thesis
    by (simp add: end_write_def signal_read_end_def wpK_def kstep io_release_def cacheK_def
        put_cache_def block_ok_def cache_wf_def same_upper_def)
qed

lemma read_bracket_eq:
  assumes "cache_wf E {} s" "cache_heap s p = Some c"
  shows "thenK (read_cache p) (bindK (cacheK p) (\<lambda>c. thenK (end_read p) (retK (cdata c)))) s
    = Inr (cdata c, s)"
proof -
  have "block_ok E {} (cur_thread s) (fs_device s) p c"
    using core_block assms by (auto simp: cache_wf_def)
  then have c: "cio c = None" "cread_cnt c = 0" by (simp_all add: block_ok_def)
  have cr: "b\<lparr>cread_cnt := 0\<rparr> = b" if "cread_cnt b = 0" for b :: cache using that by (cases b) simp
  have "s\<lparr>cache_heap := (cache_heap s)(p \<mapsto> c)\<rparr> = s"
    using assms(2) by (simp add: fun_upd_idem)
  then show ?thesis
    using assms(2) c
    by (simp add: cr read_cache_def end_read_def signal_read_end_def kstep io_acquire_def
        io_release_def cacheK_def put_cache_def upd_cache_def)
qed

lemma cache_get_run:
  assumes "cache_ready E s"
  shows "wpK (cache_get E a) (\<lambda>x t. cache_ready E t \<and> x = contents E s a \<and>
     contents E t = contents E s \<and> same_upper s t) s"
  unfolding cache_get_def wpK_bind
proof (rule wpK_mono[OF cache_block_run[OF assms]])
  fix p t
  assume A: "cache_wf E {} t \<and> contents E t = contents E s \<and> same_upper s t \<and>
    (\<exists>c. cache_heap t p = Some c \<and> csid c = a \<and> (READ_BLOCK \<longrightarrow> DB c))"
  then obtain c where c: "cache_heap t p = Some c" "csid c = a" by blast
  have "contents E t a = cdata c"
    using contents_hit[of E "{}" t p c] c A by (simp add: cache_wf_def)
  then show "wpK (thenK (read_cache p) (bindK (cacheK p) (\<lambda>c. thenK (end_read p) (retK (cdata c)))))
    (\<lambda>x t. cache_ready E t \<and> x = contents E s a \<and> contents E t = contents E s \<and> same_upper s t) t"
    unfolding wpK_iff using read_bracket_eq[of E t p c] c A assms by (auto simp: cache_ready_def)
qed

lemma cache_put_run:
  assumes "cache_ready E s" "0 \<le> off" "nat off + length xs \<le> BLOCK_SECTOR_SIZE"
  shows "wpK (cache_put E a off xs) (\<lambda>_ t. cache_ready E t \<and> same_upper s t \<and>
     contents E t = (contents E s)(a := put_bytes (nat off) xs (contents E s a))) s"
  unfolding cache_put_def wpK_bind wpK_then
proof (rule wpK_mono[OF cache_block_run[OF assms(1)]])
  fix p t
  assume A: "cache_wf E {} t \<and> contents E t = contents E s \<and> same_upper s t \<and>
    (\<exists>c. cache_heap t p = Some c \<and> csid c = a \<and> (WRITE_BLOCK \<longrightarrow> DB c))"
  then obtain c where c: "cache_heap t p = Some c" "csid c = a" "DB c" by (auto simp: WRITE_BLOCK_def)
  let ?Q = "\<lambda>_ u. cache_ready E u \<and> same_upper s u \<and>
     contents E u = (contents E s)(a := put_bytes (nat off) xs (contents E s a))"
  show "wpK (write_cache p) (\<lambda>_. wpK (store_bytes p off xs) (\<lambda>_. wpK (end_write p) ?Q)) t"
  proof (rule wpK_mono[OF write_cache_run[OF _ c(1)]])
    show "cache_wf E {} t" using A by blast
    fix u assume B: "cache_wf E {p} u \<and> contents E u = contents E t \<and> same_upper t u \<and>
      cache_heap u p = Some (c\<lparr>cio := Some (cur_thread t)\<rparr>)"
    show "wpK (store_bytes p off xs) (\<lambda>_. wpK (end_write p) ?Q) u"
    proof (rule wpK_mono[OF store_bytes_run])
      fix v assume D: "cache_wf E {p} v \<and> same_upper u v \<and>
         contents E v = (contents E u)(csid (c\<lparr>cio := Some (cur_thread t)\<rparr>) :=
           put_bytes (nat off) xs (contents E u (csid (c\<lparr>cio := Some (cur_thread t)\<rparr>)))) \<and>
         cache_heap v p = Some (c\<lparr>cio := Some (cur_thread t),
           cdata := put_bytes (nat off) xs (cdata (c\<lparr>cio := Some (cur_thread t)\<rparr>))\<rparr>)"
      show "wpK (end_write p) ?Q v"
        by (rule wpK_mono[OF end_write_run])
           (use A B D c assms(1) in \<open>auto simp: cache_ready_def same_upper_def\<close>)
    qed (use B c assms in auto)
  qed
qed

section \<open>Write-back and shutdown\<close>

lemma core_flush:
  assumes "device_ok E" "cache_core E {} s" "cache_heap s p = Some c"
    and "t = s\<lparr>fs_device := block_write E (fs_device s) (csid c) (cdata c),
               cache_heap := (cache_heap s)(p \<mapsto> c\<lparr>DB := False\<rparr>)\<rparr>"
  shows "cache_core E {} t" and "contents E t = contents E s"
proof -
  have ok: "block_ok E {} (cur_thread s) (fs_device s) p c" by (rule core_block[OF assms(2,3)])
  have other: "csid d \<noteq> csid c" if "q \<noteq> p" "cache_heap s q = Some d" for q d
    using core_sid_inj[OF assms(2) that(2) assms(3)] that(1) by auto
  have "block_ok E {} (cur_thread s) (fs_device t) q d" if "cache_heap t q = Some d" for q d
    using that ok core_block[OF assms(2), of q d] other[of q d] assms(1,4)
    by (auto simp: block_ok_def split: if_splits)
  moreover have "p \<in> set (cache_list s)" "dom (cache_heap s) = set (cache_list s)"
    using core_mem[OF assms(2)] assms(2,3) by (auto simp: cache_core_def)
  ultimately show core: "cache_core E {} t"
    using assms(2-4) unfolding cache_core_def by (auto simp: insert_absorb)
  show "contents E t = contents E s"
  proof
    fix a
    from assms(2) show "contents E t a = contents E s a"
    proof (cases rule: contents_cases[where a = a])
      case (hit q d)
      have "\<exists>d'. cache_heap t q = Some d' \<and> csid d' = a \<and> cdata d' = cdata d"
        using hit assms(3,4) by auto
      with contents_hit[OF core] hit show ?thesis by metis
    next
      case miss
      then have "\<forall>q d. cache_heap t q = Some d \<longrightarrow> csid d \<noteq> a" using assms(3,4) by auto
      from contents_miss[OF core this] miss assms ok show ?thesis
        by (auto simp: block_ok_def)
    qed
  qed
qed

lemma write_block_back_eq:
  assumes "cache_core E {} t" "cache_heap t p = Some c"
  shows "write_block_back E p t = Inr ((), if DB c then
    t\<lparr>fs_device := block_write E (fs_device t) (csid c) (cdata c),
      cache_heap := (cache_heap t)(p \<mapsto> c\<lparr>DB := False\<rparr>)\<rparr> else t)"
proof -
  have "cio c = None" using core_block[OF assms] by (simp add: block_ok_def)
  with assms(2) show ?thesis
    by (simp add: write_block_back_def kstep io_acquire_def io_release_def cacheK_def put_cache_def
        upd_cache_def fun_upd_idem)
qed

lemma write_block_back_run:
  assumes "device_ok E" "cache_core E {} t" "cache_heap t p = Some c"
  shows "wpK (write_block_back E p) (\<lambda>_ v. cache_core E {} v \<and> contents E v = contents E t \<and>
     same_upper t v \<and> cache_list v = cache_list t \<and> cache_lock v = cache_lock t \<and>
     used_cache v = used_cache t \<and>
     (\<forall>q d. cache_heap v q = Some d \<longrightarrow> DB d \<longrightarrow> q \<noteq> p \<and> cache_heap t q = Some d)) t"
  using core_flush[OF assms refl] assms
  by (auto simp: wpK_def write_block_back_eq[OF assms(2,3)] same_upper_def)

lemma write_to_disk_run:
  assumes "device_ok E" "cache_core E {} s"
  shows "wpK (write_to_disk E) (\<lambda>_ t. cache_core E {} t \<and> contents E t = contents E s \<and>
     same_upper s t \<and> cache_list t = cache_list s \<and> cache_lock t = cache_lock s \<and>
     used_cache t = used_cache s \<and> (\<forall>p c. cache_heap t p = Some c \<longrightarrow> \<not> DB c)) s"
proof -
  let ?J = "\<lambda>t. cache_core E {} t \<and> contents E t = contents E s \<and>
     same_upper s t \<and> cache_list t = cache_list s \<and> cache_lock t = cache_lock s \<and>
     used_cache t = used_cache s"
  let ?I = "\<lambda>i t. ?J t \<and>
     (\<forall>p c. cache_heap t p = Some c \<longrightarrow> DB c \<longrightarrow> p \<in> set (drop i (cache_list s)))"
  have "wpK (write_to_disk E) (\<lambda>_. ?I (length (cache_list s))) s"
    unfolding write_to_disk_def wpK_bind wpK_get
  proof (rule wpK_forK)
    show "?I 0 s" using assms core_mem[OF assms(2)] by auto
    fix i t assume i: "i < length (cache_list s)" and I: "?I i t"
    then have core: "cache_core E {} t" by blast
    have d: "set (drop i (cache_list s)) = insert (cache_list s ! i) (set (drop (Suc i) (cache_list s)))"
      using i by (simp flip: Cons_nth_drop_Suc)
    obtain c where c: "cache_heap t (cache_list s ! i) = Some c"
      using core_mem[OF core, of "cache_list s ! i"] nth_mem[OF i] I by auto
    show "wpK (write_block_back E (cache_list s ! i)) (\<lambda>_. ?I (Suc i)) t"
      by (rule wpK_mono[OF write_block_back_run[OF assms(1) core c]])
         (use I d in \<open>simp add: same_upper_def; blast\<close>)
  qed
  then show ?thesis by (rule wpK_mono) simp
qed

lemma clean_contents:
  assumes "cache_core E {} s" "\<forall>p c. cache_heap s p = Some c \<longrightarrow> \<not> DB c"
  shows "block_read E (fs_device s) = contents E s"
proof
  fix a
  from assms(1) show "block_read E (fs_device s) a = contents E s a"
    by (cases rule: contents_cases[where a = a])
       (use assms core_block[OF assms(1)] in \<open>auto simp: block_ok_def\<close>)
qed

lemma free_block_run:
  assumes "device_ok E" "cache_core E {} s" "cache_heap s p = Some c"
  shows "wpK (free_block E p) (\<lambda>_ t. cache_core E {} t \<and> contents E t = contents E s \<and>
     same_upper s t \<and> cache_list t = remove1 p (cache_list s) \<and> cache_lock t = cache_lock s \<and>
     used_cache t = used_cache s - 1) s"
proof -
  let ?c = "c\<lparr>DB := True\<rparr>"
  let ?s = "s\<lparr>cache_heap := (cache_heap s)(p \<mapsto> ?c)\<rparr>"
  have ok: "block_ok E {} (cur_thread s) (fs_device s) p c" by (rule core_block[OF assms(2,3)])
  then have core: "cache_core E {} ?s"
    by (intro core_update[OF assms(2,3)]) (auto simp: block_ok_def)
  have cont: "contents E ?s = contents E s"
    using contents_update[OF assms(2,3) _ core] contents_hit[OF assms(2,3)] by (simp add: fun_eq_iff)
  have "free_block E p s = Inr ((), (drop_block E p ?c ?s)\<lparr>used_cache := used_cache s - 1\<rparr>)"
    using ok assms(3)
    by (simp add: free_block_def kstep io_acquire_def io_release_def cacheK_def put_cache_def
        block_ok_def drop_block_def)
  then show ?thesis
    using core_drop_block[OF assms(1) core, of p ?c] contents_drop_block[OF assms(1) core, of p ?c] cont
    by (simp add: wpK_def same_upper_def)
qed

lemma free_cache_loop:
  assumes "device_ok E" "cache_core E {} s"
  shows "wpK (forK (cache_list s) (free_block E)) (\<lambda>_ t. cache_core E {} t \<and>
     contents E t = contents E s \<and> same_upper s t \<and> cache_list t = [] \<and>
     cache_lock t = cache_lock s \<and> used_cache t = used_cache s - int (length (cache_list s))) s"
proof -
  let ?I = "\<lambda>i t. cache_core E {} t \<and> contents E t = contents E s \<and> same_upper s t \<and>
     cache_list t = drop i (cache_list s) \<and> cache_lock t = cache_lock s \<and>
     used_cache t = used_cache s - int i"
  have "wpK (forK (cache_list s) (free_block E)) (\<lambda>_. ?I (length (cache_list s))) s"
  proof (rule wpK_forK)
    show "?I 0 s" using assms by simp
    fix i t assume i: "i < length (cache_list s)" and I: "?I i t"
    then have core: "cache_core E {} t" by blast
    have l: "cache_list t = cache_list s ! i # drop (Suc i) (cache_list s)"
      using I i by (simp add: Cons_nth_drop_Suc)
    then have r: "remove1 (cache_list s ! i) (cache_list t) = drop (Suc i) (cache_list s)" by simp
    obtain c where c: "cache_heap t (cache_list s ! i) = Some c"
      using l core_mem[OF core, of "cache_list s ! i"] by auto
    show "wpK (free_block E (cache_list s ! i)) (\<lambda>_. ?I (Suc i)) t"
      by (rule wpK_mono[OF free_block_run[OF assms(1) core c]])
         (use I r in \<open>auto simp: same_upper_def\<close>)
  qed
  then show ?thesis by (rule wpK_mono) auto
qed

section \<open>The cache as the file system's sector store\<close>

interpretation cs: sector_store "contents E" "cache_ready E" same_upper "cache_get E" "cache_put E"
  for E :: "('d, 'e) blkdev_scheme"
proof (unfold_locales, goal_cases)
  case (1 s a)
  then show ?case by (auto simp: cache_ready_def cache_wf_def intro: contents_length)
next
  case (2 s a)
  then show ?case by (rule cache_get_run)
next
  case (3 s off xs a)
  then show ?case by (rule cache_put_run)
next
  case (4 s)
  show ?case by simp
next
  case (5 s t u)
  then show ?case by (rule same_upper_trans)
qed

section \<open>A simulated device for concrete runs\<close>

definition sim_dev :: "(u32 \<Rightarrow> byte list) blkdev" where
  "sim_dev = \<lparr>block_read = (\<lambda>d a. take 512 (d a @ replicate 512 0)),
     block_write = (\<lambda>d a x. d(a := x)), malloc_ok = (\<lambda>_. True)\<rparr>"

definition sim_cache :: "(u32 \<Rightarrow> byte list) cache_sys" where
  "sim_cache = cache_system_init \<lparr>cur_thread = 1, fs_device = (\<lambda>_. []), cache_heap = (\<lambda>_. None),
     cache_list = [], used_cache = 7, cache_lock = Some 3, cache_brk = 0, started = []\<rparr>"

text \<open>A block that is resident, dirty and recently used, next to one that is not.\<close>

definition sim_two :: "(u32 \<Rightarrow> byte list) cache_sys" where
  "sim_two = sim_cache\<lparr>used_cache := 2, cache_brk := 2, cache_list := [0, 1],
     cache_heap := [0 \<mapsto> \<lparr>csid = 5, AB = True, DB = True, cread_cnt = 0, cio = None, cdata = replicate 512 7\<rparr>,
                    1 \<mapsto> \<lparr>csid = 9, AB = False, DB = True, cread_cnt = 0, cio = None, cdata = replicate 512 8\<rparr>]\<rparr>"

lemma sim_dev_ok: "device_ok sim_dev" "mem_ok sim_dev"
  by (auto simp add: device_ok_def mem_ok_def sim_dev_def min_def)

lemma sim_cache_ready: "cache_ready sim_dev sim_cache"
  using sim_dev_ok
  by (simp add: cache_ready_def cache_wf_def cache_core_def sim_cache_def cache_system_init_def CACHE_SIZE_def)

lemma sim_two_ready: "cache_ready sim_dev sim_two"
  using sim_dev_ok
  by (auto simp: cache_ready_def cache_wf_def cache_core_def sim_two_def sim_cache_def
      cache_system_init_def CACHE_SIZE_def block_ok_def split: if_splits)

section \<open>Properties\<close>

text \<open>
  C1. The cache is transparent: asking for a sector gives a resident block that holds the
  sector's current bytes, whatever had to be evicted for it, and leaves every sector's
  bytes as they were; at most \<open>CACHE_SIZE\<close> blocks are resident afterwards.
\<close>

theorem cache_block_transparent:
  assumes "cache_ready E s"
  shows "\<exists>p t c. cache_block E a ty s = Inr (p, t) \<and> cache_heap t p = Some c \<and> csid c = a \<and>
    cdata c = contents E s a \<and> (ty \<longrightarrow> DB c) \<and> contents E t = contents E s \<and> cache_ready E t \<and>
    int (length (cache_list t)) \<le> CACHE_SIZE"
proof -
  obtain p t c where t: "cache_block E a ty s = Inr (p, t)" "cache_wf E {} t"
      "contents E t = contents E s" "cache_heap t p = Some c" "csid c = a" "ty \<longrightarrow> DB c"
    using cache_block_run[OF assms, of a ty] by (auto simp: wpK_iff)
  then have "cdata c = contents E s a" "int (length (cache_list t)) \<le> CACHE_SIZE"
    using contents_hit[of E "{}" t p c] by (simp_all add: cache_wf_def)
  with t assms show ?thesis by (auto simp: cache_ready_def)
qed

theorem cache_block_transparent_witness:
  "\<exists>p t c. cache_block sim_dev 5 WRITE_BLOCK sim_two = Inr (p, t) \<and> cache_heap t p = Some c \<and>
    csid c = 5 \<and> cdata c = contents sim_dev sim_two 5 \<and> contents sim_dev t = contents sim_dev sim_two"
  using cache_block_transparent[OF sim_two_ready, of 5 WRITE_BLOCK] by blast

text \<open>
  C2. Round trip through the cache: after a write bracket that stays inside the sector, a
  read bracket of the same sector returns the sector with exactly those bytes replaced, and
  a read bracket of any other sector returns what it held before.
\<close>

theorem cache_put_get_roundtrip:
  assumes "cache_ready E s" "0 \<le> off" "nat off + length xs \<le> BLOCK_SECTOR_SIZE"
  shows "\<exists>t. thenK (cache_put E a off xs) (cache_get E b) s =
    Inr (if b = a then put_bytes (nat off) xs (contents E s a) else contents E s b, t) \<and> cache_ready E t"
  using cs.put_get[OF assms, of a b, unfolded wpK_iff] by auto

theorem cache_put_get_roundtrip_witness:
  "\<exists>t. thenK (cache_put sim_dev 9 510 [1, 2]) (cache_get sim_dev 9) sim_two =
    Inr (put_bytes 510 [1, 2] (contents sim_dev sim_two 9), t) \<and> cache_ready sim_dev t"
  using cache_put_get_roundtrip[OF sim_two_ready, of 510 "[1, 2]" 9 9] by simp

text \<open>
  C3. The clock algorithm: when a block is resident, \<^verbatim>\<open>cache_evict\<close> ends, and it evicts
  the first block of the list whose accessed bit is clear, or the head of the list when
  every accessed bit is set. No sector's bytes change, and the others keep their order.
\<close>

theorem cache_evict_clock:
  assumes "device_ok E" "cache_wf E {} s" "cache_list s \<noteq> []"
  shows "\<exists>t v. cache_evict E s = Inr ((), t) \<and> cache_list t = remove1 v (cache_list s) \<and>
    (case find (\<lambda>p. \<exists>c. cache_heap s p = Some c \<and> \<not> AB c) (cache_list s) of
       Some p \<Rightarrow> v = p | None \<Rightarrow> v = hd (cache_list s)) \<and>
    v \<in> set (cache_list s) \<and> contents E t = contents E s \<and> cache_wf E {} t"
proof -
  have "unset s = (\<lambda>p. \<exists>c. cache_heap s p = Some c \<and> \<not> AB c)"
    by (auto simp: unset_def fun_eq_iff split: option.splits)
  then have v: "case find (\<lambda>p. \<exists>c. cache_heap s p = Some c \<and> \<not> AB c) (cache_list s) of
       Some p \<Rightarrow> victim s = p | None \<Rightarrow> victim s = hd (cache_list s)"
    by (simp add: victim_def split: option.splits)
  have core: "cache_core E {} s" using assms(2) by (simp add: cache_wf_def)
  have m: "victim s \<in> set (cache_list s)" by (rule victim_mem[OF assms(3)])
  obtain t where t: "cache_evict E s = Inr ((), t)" "cache_core E {} t" "contents E t = contents E s"
      "cache_lock t = cache_lock s" "cache_list t = remove1 (victim s) (cache_list s)"
      "used_cache t = used_cache s - 1"
    using cache_evict_run[OF assms(1) core assms(3)] by (auto simp: wpK_iff)
  have "length (cache_list s) = Suc (length (cache_list t))"
    using t(5) m length_pos_if_in_set[OF m] by (simp add: length_remove1)
  with t assms(2) have "cache_wf E {} t" by (simp add: cache_wf_def)
  with t v m show ?thesis by blast
qed

theorem cache_evict_clock_witness:
  "\<exists>t v. cache_evict sim_dev sim_two = Inr ((), t) \<and> v = 1 \<and> cache_list t = [0] \<and>
    contents sim_dev t = contents sim_dev sim_two"
  using cache_evict_clock[of sim_dev sim_two] sim_two_ready
  by (auto simp: cache_ready_def sim_two_def)

text \<open>
  C4. One round of the write-back thread leaves no dirty block: afterwards the device
  itself holds what clients see of every sector, and clients see no change.
\<close>

theorem cache_writeback_func_syncs:
  assumes "device_ok E" "cache_wf E {} s"
  shows "\<exists>t. cache_writeback_func E s = Inr ((), t) \<and> cache_wf E {} t \<and>
    contents E t = contents E s \<and> block_read E (fs_device t) = contents E s"
proof -
  let ?s = "s\<lparr>cache_lock := Some (cur_thread s)\<rparr>"
  have core: "cache_core E {} ?s" using assms(2) by (simp add: cache_wf_def)
  obtain t where t: "write_to_disk E ?s = Inr ((), t)" "cache_core E {} t" "contents E t = contents E ?s"
      "same_upper ?s t" "cache_list t = cache_list s" "cache_lock t = cache_lock ?s"
      "used_cache t = used_cache s" "\<forall>p c. cache_heap t p = Some c \<longrightarrow> \<not> DB c"
    using write_to_disk_run[OF assms(1) core] by (auto simp: wpK_iff)
  have "block_read E (fs_device t) = contents E t" by (rule clean_contents[OF t(2,8)])
  with t assms(2) show ?thesis
    by (simp add: cache_writeback_func_def kstep cache_lock_acquire_def cache_lock_release_def
        cache_wf_def same_upper_def)
qed

theorem cache_writeback_func_syncs_witness:
  "\<exists>t. cache_writeback_func sim_dev sim_two = Inr ((), t) \<and>
    block_read sim_dev (fs_device t) = contents sim_dev sim_two"
  using cache_writeback_func_syncs[of sim_dev sim_two] sim_two_ready by (auto simp: cache_ready_def)

text \<open>
  C5. Shutting the cache down writes everything to the device: \<^verbatim>\<open>free_cache\<close> ends with no
  block resident, none counted, and the device holding what clients saw of every sector.
\<close>

theorem free_cache_syncs:
  assumes "device_ok E" "cache_wf E {} s"
  shows "\<exists>t. free_cache E s = Inr ((), t) \<and> cache_list t = [] \<and> used_cache t = 0 \<and>
    block_read E (fs_device t) = contents E s"
proof -
  let ?s = "s\<lparr>cache_lock := Some (cur_thread s)\<rparr>"
  have core: "cache_core E {} ?s" using assms(2) by (simp add: cache_wf_def)
  obtain t where t: "forK (cache_list ?s) (free_block E) ?s = Inr ((), t)" "cache_core E {} t"
      "contents E t = contents E ?s" "same_upper ?s t" "cache_list t = []"
      "cache_lock t = cache_lock ?s" "used_cache t = used_cache ?s - int (length (cache_list ?s))"
    using free_cache_loop[OF assms(1) core] by (auto simp: wpK_iff)
  have "cache_heap t p = None" for p using core_mem[OF t(2), of p] t(5) by auto
  then have "block_read E (fs_device t) = contents E t" by (intro clean_contents[OF t(2)]) simp
  with t assms(2) show ?thesis
    by (simp add: free_cache_def kstep cache_lock_acquire_def cache_lock_release_def
        cache_wf_def same_upper_def)
qed

theorem free_cache_syncs_witness:
  "\<exists>t. free_cache sim_dev sim_two = Inr ((), t) \<and> cache_list t = [] \<and>
    block_read sim_dev (fs_device t) = contents sim_dev sim_two"
  using free_cache_syncs[of sim_dev sim_two] sim_two_ready by (auto simp: cache_ready_def)

text \<open>Reading a block in and removing it again, \<open>n\<close> times: what deleting files does.\<close>

primrec churn :: "('d, 'e) blkdev_scheme \<Rightarrow> nat \<Rightarrow> (('d, 'z) cache_sys_scheme, unit) K" where
  "churn E 0 = retK ()"
| "churn E (Suc n) = bindK (cache_block E (of_nat n) READ_BLOCK)
     (\<lambda>p. thenK (cache_remove p) (churn E n))"

lemma churn_step:
  assumes "mem_ok E" "cache_list s = []" "cache_heap s = (\<lambda>_. None)" "cache_lock s = None"
    and "used_cache s < CACHE_SIZE"
  shows "bindK (cache_block E a ty) (\<lambda>p. thenK (cache_remove p) m) s =
    m (s\<lparr>cache_brk := cache_brk s + 1, used_cache := used_cache s + 1\<rparr>)"
proof -
  have n: "nat (used_cache s - CACHE_SIZE + 1) = 0" using assms(5) by simp
  have e: "s\<lparr>cache_brk := b, used_cache := n, cache_list := [], cache_heap := (\<lambda>_. None)\<rparr> =
      s\<lparr>cache_brk := b, used_cache := n\<rparr>" for b n
    using assms(2,3) by (cases s) simp
  show ?thesis
    using assms n
    by (simp add: e cache_block_def find_cache_def create_cache_def cache_remove_def kstep
        cache_lock_acquire_def cache_lock_release_def mem_ok_def cacheK_def not_le fun_upd_def cong: if_cong)
qed

lemma churn_run:
  assumes "mem_ok E" "cache_list s = []" "cache_heap s = (\<lambda>_. None)" "cache_lock s = None"
    and "used_cache s + int n \<le> CACHE_SIZE"
  shows "\<exists>t. churn E n s = Inr ((), t) \<and> cache_list t = [] \<and> cache_heap t = (\<lambda>_. None) \<and>
    cache_lock t = None \<and> used_cache t = used_cache s + int n"
  using assms(2-)
proof (induction n arbitrary: s)
  case 0
  then show ?case by (simp add: kstep)
next
  case (Suc n)
  let ?s = "s\<lparr>cache_brk := cache_brk s + 1, used_cache := used_cache s + 1\<rparr>"
  have "churn E (Suc n) s = churn E n ?s"
    using churn_step[OF assms(1) Suc.prems(1-3)] Suc.prems(4) by simp
  with Suc.IH[of ?s] Suc.prems show ?case by auto
qed

text \<open>
  C6. The slot counter leaks: \<^verbatim>\<open>cache_remove\<close> frees a block without lowering
  \<open>used_cache\<close>. After \<open>CACHE_SIZE\<close> blocks were read in and removed from an empty cache, the
  cache is empty but counts as full, and the next request for any sector never returns:
  \<^verbatim>\<open>cache_evict\<close> searches an empty list for ever.
\<close>

theorem cache_remove_leaks_slots:
  assumes "mem_ok E" "cache_list s = []" "cache_heap s = (\<lambda>_. None)" "cache_lock s = None"
    and "used_cache s = 0"
  shows "\<exists>t. churn E 64 s = Inr ((), t) \<and> cache_list t = [] \<and> used_cache t = CACHE_SIZE \<and>
    cache_block E a ty t = Inl NO_RETURN"
proof -
  obtain t where t: "churn E 64 s = Inr ((), t)" "cache_list t = []" "cache_heap t = (\<lambda>_. None)"
      "cache_lock t = None" "used_cache t = CACHE_SIZE"
    using churn_run[OF assms(1-4), of 64] assms(5) by (auto simp: CACHE_SIZE_def)
  have "evict_while E 2 u = Inl NO_RETURN" if "cache_list u = []" for u :: "('a, 'c) cache_sys_scheme"
    using that by (simp add: numeral_2_eq_2 kstep)
  with t show ?thesis
    by (simp add: cache_block_def find_cache_def create_cache_def kstep cache_lock_acquire_def
        cache_lock_release_def cache_evict_def)
qed

theorem cache_remove_leaks_slots_witness:
  "\<exists>t. churn sim_dev 64 sim_cache = Inr ((), t) \<and> cache_list t = [] \<and>
    cache_block sim_dev 3 READ_BLOCK t = Inl NO_RETURN"
  using cache_remove_leaks_slots[OF sim_dev_ok(2), of sim_cache 3 READ_BLOCK]
  by (auto simp: sim_cache_def cache_system_init_def)

end
