(* ===== verification/Fs_State.thy ===== *)
theory Fs_State
  imports Block_Cache
begin

text \<open>
  The state the file system modules share, and what they call outside the sources. The
  on-disk inode and its byte layout, the in-memory inode, open files and directories, the
  open-inode list, the free map and the file system lock extend the state of the buffer
  cache; \<^verbatim>\<open>lib/kernel/bitmap.c\<close>, the block device and the memory allocator are the
  fields of \<open>klib\<close>, with their documented behaviour as predicates.
\<close>

section \<open>On-disk and in-memory inodes, files\<close>

type_synonym off_t = int

text \<open>Signed 32-bit addition of offsets: the sum, wrapped to the width of \<^verbatim>\<open>off_t\<close>.\<close>

definition i32 :: "int \<Rightarrow> int" where
  "i32 x = signed_take_bit 31 x"

record inode_disk =
  dlength :: off_t
  sp :: u32
  ind :: u32
  din :: u32
  magic :: u32
  disdir :: bool
  dpad :: "byte list"
  dparent :: u32
  unused :: "u32 list"

record inode =
  isector :: u32
  open_cnt :: int
  removed :: bool
  deny_write_cnt :: int
  idata :: inode_disk
  iread_cnt :: int
  iio :: "tid option"

text \<open>\<^verbatim>\<open>struct file\<close> and \<^verbatim>\<open>struct dir\<close> start with the same two members, and
  \<^verbatim>\<open>filesys_open\<close> casts the one to the other: one record stands for both.\<close>

record file_t =
  finode :: addr
  fpos :: off_t
  deny_write :: bool

record 'd fs = "'d cache_sys" +
  inode_heap :: "addr \<Rightarrow> inode option"
  inode_brk :: addr
  open_inodes :: "addr list"
  inode_lock :: "tid option"
  file_heap :: "addr \<Rightarrow> file_t option"
  file_brk :: addr
  file_lock :: "tid option"
  free_map :: "bool list"
  free_map_file :: "addr option"
  cur_dir :: "addr option"

section \<open>Code outside the sources\<close>

record ('d, 's) klib = "'d blkdev" +
  block_size :: "'d \<Rightarrow> nat"
  bitmap_create :: "nat \<Rightarrow> bool list option"
  bitmap_mark :: "bool list \<Rightarrow> u32 \<Rightarrow> bool list"
  bitmap_scan_and_flip :: "bool list \<Rightarrow> nat \<Rightarrow> nat \<Rightarrow> bool \<Rightarrow> u32 \<times> bool list"
  bitmap_set_multiple :: "bool list \<Rightarrow> u32 \<Rightarrow> nat \<Rightarrow> bool \<Rightarrow> bool list"
  bitmap_all :: "bool list \<Rightarrow> u32 \<Rightarrow> nat \<Rightarrow> bool"
  bitmap_file_size :: "bool list \<Rightarrow> int"
  bitmap_write :: "bool list \<Rightarrow> addr option \<Rightarrow> ('s, bool) K"
  bitmap_read :: "bool list \<Rightarrow> addr option \<Rightarrow> ('s, bool \<times> bool list) K"
  tmp_ok :: "'s \<Rightarrow> bool"
  inode_mem_ok :: "addr \<Rightarrow> bool"
  file_mem_ok :: "addr \<Rightarrow> bool"

type_synonym 'd env = "('d, 'd fs) klib"

text \<open>\<^verbatim>\<open>BITMAP_ERROR\<close> of \<^verbatim>\<open>bitmap.h\<close> is \<^verbatim>\<open>SIZE_MAX\<close>.\<close>

definition BITMAP_ERROR :: u32 where
  "BITMAP_ERROR = - 1"

text \<open>
  \<^verbatim>\<open>bitmap.h\<close>: scanning finds a group of \<open>cnt\<close> bits of the wanted value and flips
  them, or reports an error when there is none; setting and testing act on the given
  group; the size of a bitmap in a file depends on the number of its bits.
\<close>

definition all_bits :: "bool list \<Rightarrow> nat \<Rightarrow> nat \<Rightarrow> bool \<Rightarrow> bool" where
  "all_bits b k cnt v \<longleftrightarrow> k + cnt \<le> length b \<and> (\<forall>i<cnt. b ! (k + i) = v)"

definition scan_spec :: "bool list \<Rightarrow> nat \<Rightarrow> nat \<Rightarrow> bool \<Rightarrow> u32 \<times> bool list \<Rightarrow> bool" where
  "scan_spec b st cnt v r \<longleftrightarrow> (case r of (k, b') \<Rightarrow>
     if k = BITMAP_ERROR then b' = b \<and> (\<forall>j\<ge>st. \<not> all_bits b j cnt v)
     else st \<le> unat k \<and> all_bits b (unat k) cnt v \<and> b' = put_bytes (unat k) (replicate cnt (\<not> v)) b)"

definition bitmap_ok :: "('d, 's) klib \<Rightarrow> bool" where
  "bitmap_ok E \<longleftrightarrow>
     (\<forall>b st cnt v. 0 < cnt \<longrightarrow> length b < 2 ^ 32 \<longrightarrow> scan_spec b st cnt v (bitmap_scan_and_flip E b st cnt v)) \<and>
     (\<forall>b k cnt v. unat k + cnt \<le> length b \<longrightarrow>
        bitmap_set_multiple E b k cnt v = put_bytes (unat k) (replicate cnt v) b) \<and>
     (\<forall>b k cnt. unat k + cnt \<le> length b \<longrightarrow> bitmap_all E b k cnt = all_bits b (unat k) cnt True) \<and>
     (\<forall>b c. length b = length c \<longrightarrow> bitmap_file_size E b = bitmap_file_size E c)"

text \<open>\<^verbatim>\<open>malloc\<close> and \<^verbatim>\<open>calloc\<close> never return a null pointer.\<close>

definition heap_ok :: "'d env \<Rightarrow> bool" where
  "heap_ok E \<longleftrightarrow> (\<forall>s. tmp_ok E s) \<and> (\<forall>p. inode_mem_ok E p) \<and> (\<forall>p. file_mem_ok E p)"

section \<open>The layout of struct inode_disk\<close>

definition INODE_MAGIC :: u32 where
  "INODE_MAGIC = 0x494e4f44"

definition FREE_MAP_SECTOR :: u32 where
  "FREE_MAP_SECTOR = 0"

definition ROOT_DIR_SECTOR :: u32 where
  "ROOT_DIR_SECTOR = 1"

definition encode_inode :: "inode_disk \<Rightarrow> byte list" where
  "encode_inode d = le32 (word_of_int (dlength d)) @ le32 (sp d) @ le32 (ind d) @ le32 (din d) @
     le32 (magic d) @ [if disdir d then 1 else 0] @ dpad d @ le32 (dparent d) @ bytes_of_words (unused d)"

definition decode_inode :: "byte list \<Rightarrow> inode_disk" where
  "decode_inode x = \<lparr>dlength = sint (un_le32 (get_bytes 0 4 x)), sp = un_le32 (get_bytes 4 4 x),
     ind = un_le32 (get_bytes 8 4 x), din = un_le32 (get_bytes 12 4 x),
     magic = un_le32 (get_bytes 16 4 x), disdir = (x ! 20 \<noteq> 0), dpad = get_bytes 21 3 x,
     dparent = un_le32 (get_bytes 24 4 x), unused = words_of_bytes 121 (get_bytes 28 484 x)\<rparr>"

text \<open>A value of the C type: the offset has 32 bits, the arrays their lengths.\<close>

definition disk_wf :: "inode_disk \<Rightarrow> bool" where
  "disk_wf d \<longleftrightarrow> - (2 ^ 31) \<le> dlength d \<and> dlength d < 2 ^ 31 \<and> length (dpad d) = 3 \<and>
     length (unused d) = 121"

lemma i32_id [simp]: "- (2 ^ 31) \<le> x \<Longrightarrow> x < 2 ^ 31 \<Longrightarrow> i32 x = x"
  by (simp add: i32_def signed_take_bit_int_eq_self)

lemma length_encode_inode [simp]: "disk_wf d \<Longrightarrow> length (encode_inode d) = BLOCK_SECTOR_SIZE"
  by (simp add: encode_inode_def disk_wf_def)

lemma get_bytes_append_left: "off + n \<le> length xs \<Longrightarrow> get_bytes off n (xs @ ys) = get_bytes off n xs"
  by (simp add: get_bytes_def)

lemma get_bytes_append_right: "length xs \<le> off \<Longrightarrow> get_bytes off n (xs @ ys) = get_bytes (off - length xs) n ys"
  by (simp add: get_bytes_def)

lemma get_bytes_Cons:
  "get_bytes (Suc k) n (x # xs) = get_bytes k n xs"
  "get_bytes (numeral m) n (x # xs) = get_bytes (numeral m - 1) n xs"
  by (simp_all add: get_bytes_def drop_Cons')

lemma get_bytes_all [simp]: "length xs = n \<Longrightarrow> get_bytes 0 n xs = xs"
  by (simp add: get_bytes_def)

text \<open>Copying an inode to its sector and back keeps every member.\<close>

lemma decode_encode_inode [simp]: "disk_wf d \<Longrightarrow> decode_inode (encode_inode d) = d"
  by (cases d) (simp add: encode_inode_def decode_inode_def disk_wf_def nth_append
      get_bytes_append_left get_bytes_append_right get_bytes_Cons signed_take_bit_int_eq_self sint_sbintrunc')

lemma decode_inode_wf: "length x = BLOCK_SECTOR_SIZE \<Longrightarrow> disk_wf (decode_inode x)"
  using sint_ge[of "un_le32 (get_bytes 0 4 x)"] sint_lt[of "un_le32 (get_bytes 0 4 x)"]
  by (simp add: decode_inode_def disk_wf_def)

section \<open>Heap cells and locks\<close>

definition inodeK :: "addr \<Rightarrow> ('d fs, inode) K" where
  "inodeK p = derefK (\<lambda>s. inode_heap s p)"

definition upd_inode :: "addr \<Rightarrow> (inode \<Rightarrow> inode) \<Rightarrow> ('d fs, unit) K" where
  "upd_inode p f = bindK (inodeK p) (\<lambda>i. modK (\<lambda>s. s\<lparr>inode_heap := (inode_heap s)(p \<mapsto> f i)\<rparr>))"

definition inode_acquire :: "addr \<Rightarrow> ('d fs, unit) K" where
  "inode_acquire p = bindK (inodeK p) (\<lambda>i. bindK (getK cur_thread) (\<lambda>me.
     bindK (liftK (acquire_lock me (iio i))) (\<lambda>l. upd_inode p (\<lambda>i. i\<lparr>iio := l\<rparr>))))"

definition inode_release :: "addr \<Rightarrow> ('d fs, unit) K" where
  "inode_release p = bindK (inodeK p) (\<lambda>i. bindK (getK cur_thread) (\<lambda>me.
     bindK (liftK (release_lock me (iio i))) (\<lambda>l. upd_inode p (\<lambda>i. i\<lparr>iio := l\<rparr>))))"

definition file_lock_acquire :: "('d fs, unit) K" where
  "file_lock_acquire = bindK (getK (\<lambda>s. acquire_lock (cur_thread s) (file_lock s)))
     (\<lambda>r. bindK (liftK r) (\<lambda>l. modK (\<lambda>s. s\<lparr>file_lock := l\<rparr>)))"

definition file_lock_release :: "('d fs, unit) K" where
  "file_lock_release = bindK (getK (\<lambda>s. release_lock (cur_thread s) (file_lock s)))
     (\<lambda>r. bindK (liftK r) (\<lambda>l. modK (\<lambda>s. s\<lparr>file_lock := l\<rparr>)))"

text \<open>Dereferencing a pointer variable that may be null.\<close>

definition ptrK :: "addr option \<Rightarrow> ('d fs, addr) K" where
  "ptrK p = derefK (\<lambda>_. p)"

text \<open>The fields above the cache are not touched by operations of the cache.\<close>

lemma same_upper_fs:
  fixes s t :: "'d fs"
  assumes "same_upper s t"
  shows "cur_thread t = cur_thread s" "inode_heap t = inode_heap s" "inode_brk t = inode_brk s"
    "open_inodes t = open_inodes s" "inode_lock t = inode_lock s" "file_heap t = file_heap s"
    "file_brk t = file_brk s" "file_lock t = file_lock s" "free_map t = free_map s"
    "free_map_file t = free_map_file s" "cur_dir t = cur_dir s"
  using assms by (cases s; cases t; simp add: same_upper_def)+

text \<open>And the cache does not look at them.\<close>

lemma contents_fs [simp]:
  "contents E (s\<lparr>inode_heap := a\<rparr>) = contents E s" "contents E (s\<lparr>inode_brk := b\<rparr>) = contents E s"
  "contents E (s\<lparr>open_inodes := c\<rparr>) = contents E s" "contents E (s\<lparr>file_heap := e\<rparr>) = contents E s"
  "contents E (s\<lparr>file_brk := f\<rparr>) = contents E s" "contents E (s\<lparr>file_lock := g\<rparr>) = contents E s"
  "contents E (s\<lparr>free_map := h\<rparr>) = contents E s" "contents E (s\<lparr>free_map_file := i\<rparr>) = contents E s"
  by (simp_all add: contents_def fun_eq_iff split: sum.split option.split)

lemma cache_ready_fs [simp]:
  "cache_ready E (s\<lparr>inode_heap := a\<rparr>) = cache_ready E s" "cache_ready E (s\<lparr>inode_brk := b\<rparr>) = cache_ready E s"
  "cache_ready E (s\<lparr>open_inodes := c\<rparr>) = cache_ready E s" "cache_ready E (s\<lparr>file_heap := e\<rparr>) = cache_ready E s"
  "cache_ready E (s\<lparr>file_brk := f\<rparr>) = cache_ready E s" "cache_ready E (s\<lparr>file_lock := g\<rparr>) = cache_ready E s"
  "cache_ready E (s\<lparr>free_map := h\<rparr>) = cache_ready E s" "cache_ready E (s\<lparr>free_map_file := i\<rparr>) = cache_ready E s"
  by (simp_all add: cache_ready_def cache_wf_def cache_core_def)

section \<open>Running the heap and lock operations\<close>

lemma inodeK_wp [wp, simp]: "wpK (inodeK p) Q s \<longleftrightarrow> (\<exists>i. inode_heap s p = Some i \<and> Q i s)"
  by (simp add: inodeK_def)

lemma upd_inode_wp [wp, simp]:
  "wpK (upd_inode p f) Q s \<longleftrightarrow>
   (\<exists>i. inode_heap s p = Some i \<and> Q () (s\<lparr>inode_heap := (inode_heap s)(p \<mapsto> f i)\<rparr>))"
  by (simp add: upd_inode_def)

lemma inode_acquire_wp [wp, simp]:
  "wpK (inode_acquire p) Q s \<longleftrightarrow> (\<exists>i. inode_heap s p = Some i \<and> iio i = None \<and>
     Q () (s\<lparr>inode_heap := (inode_heap s)(p \<mapsto> i\<lparr>iio := Some (cur_thread s)\<rparr>)\<rparr>))"
  by (auto simp: inode_acquire_def)

lemma inode_release_wp [wp, simp]:
  "wpK (inode_release p) Q s \<longleftrightarrow> (\<exists>i. inode_heap s p = Some i \<and> iio i = Some (cur_thread s) \<and>
     Q () (s\<lparr>inode_heap := (inode_heap s)(p \<mapsto> i\<lparr>iio := None\<rparr>)\<rparr>))"
  by (auto simp: inode_release_def)

lemma file_lock_acquire_wp [wp, simp]:
  "wpK file_lock_acquire Q s \<longleftrightarrow> file_lock s = None \<and> Q () (s\<lparr>file_lock := Some (cur_thread s)\<rparr>)"
  by (auto simp: file_lock_acquire_def)

lemma file_lock_release_wp [wp, simp]:
  "wpK file_lock_release Q s \<longleftrightarrow> file_lock s = Some (cur_thread s) \<and> Q () (s\<lparr>file_lock := None\<rparr>)"
  by (auto simp: file_lock_release_def)

lemma file_lock_release_fun [simp]:
  "wpK file_lock_release Q = (\<lambda>s. file_lock s = Some (cur_thread s) \<and> Q () (s\<lparr>file_lock := None\<rparr>))"
  by (rule ext) simp

lemma ptrK_wp [wp, simp]: "wpK (ptrK p) Q s \<longleftrightarrow> (\<exists>a. p = Some a \<and> Q a s)"
  by (simp add: ptrK_def)

end
