(* ===== verification/File_Layout.thy ===== *)
theory File_Layout
  imports Fs_State
begin

text \<open>
  Where the bytes of a file are: the sectors that the pointers of an inode name, for given
  contents of the sectors. With them the documented behaviour of \<^verbatim>\<open>bitmap_write\<close> is stated, which
  writes the free map to its open file.
\<close>

section \<open>The sectors of a file\<close>

definition index_words :: "(u32 \<Rightarrow> byte list) \<Rightarrow> u32 \<Rightarrow> u32 list" where
  "index_words V a = words_of_bytes 128 (V a)"

definition blk_sector :: "(u32 \<Rightarrow> byte list) \<Rightarrow> inode_disk \<Rightarrow> nat \<Rightarrow> u32" where
  "blk_sector V d b = (if b < 1 then sp d else if b < 129 then index_words V (ind d) ! (b - 1)
     else index_words V (index_words V (din d) ! ((b - 129) div 128)) ! ((b - 129) mod 128))"

text \<open>One direct, 128 indirect and \<open>128 * 128\<close> doubly indirect blocks.\<close>

definition MAX_LENGTH :: int where
  "MAX_LENGTH = (1 + 128 + 128 * 128) * 512"

definition length_ok :: "inode_disk \<Rightarrow> bool" where
  "length_ok d \<longleftrightarrow> 0 \<le> dlength d \<and> dlength d \<le> MAX_LENGTH"

definition nblocks :: "inode_disk \<Rightarrow> nat" where
  "nblocks d = (nat (dlength d) + 511) div 512"

definition data_sectors :: "(u32 \<Rightarrow> byte list) \<Rightarrow> inode_disk \<Rightarrow> u32 set" where
  "data_sectors V d = blk_sector V d ` {..<nblocks d}"

definition index_sectors :: "(u32 \<Rightarrow> byte list) \<Rightarrow> inode_disk \<Rightarrow> u32 set" where
  "index_sectors V d = {a. a = ind d \<and> 1 < nblocks d} \<union> {a. a = din d \<and> 129 < nblocks d} \<union>
     {a. \<exists>k. 129 + 128 * k < nblocks d \<and> a = index_words V (din d) ! k}"

text \<open>The blocks of the file are different sectors, none of them one of its index blocks.\<close>

definition layout_ok :: "(u32 \<Rightarrow> byte list) \<Rightarrow> inode_disk \<Rightarrow> bool" where
  "layout_ok V d \<longleftrightarrow> length_ok d \<and> inj_on (blk_sector V d) {..<nblocks d} \<and>
     data_sectors V d \<inter> index_sectors V d = {}"

lemma blk_sector_cong:
  assumes "\<forall>a\<in>index_sectors V d. W a = V a" "b < nblocks d"
  shows "blk_sector W d b = blk_sector V d b"
proof -
  consider "b < 1" | "1 \<le> b" "b < 129" | "129 \<le> b" by linarith
  then show ?thesis
  proof cases
    case 2
    then have "W (ind d) = V (ind d)" using assms by (auto simp: index_sectors_def)
    with 2 show ?thesis by (simp add: blk_sector_def index_words_def)
  next
    case 3
    have k: "129 + 128 * ((b - 129) div 128) < nblocks d"
      using 3 assms(2) times_div_less_eq_dividend[of 128 "b - 129"] by linarith
    then have "W (din d) = V (din d)" using assms by (auto simp: index_sectors_def)
    moreover have "W (index_words V (din d) ! ((b - 129) div 128)) = V (index_words V (din d) ! ((b - 129) div 128))"
      using assms(1) k by (auto simp: index_sectors_def)
    ultimately show ?thesis using 3 by (simp add: blk_sector_def index_words_def)
  qed (simp add: blk_sector_def)
qed

definition file_sectors :: "(u32 \<Rightarrow> byte list) \<Rightarrow> inode_disk \<Rightarrow> u32 set" where
  "file_sectors V d = data_sectors V d \<union> index_sectors V d"

lemma layout_cong:
  assumes "\<forall>a\<in>file_sectors V d. W a = V a"
  shows "data_sectors W d = data_sectors V d" "index_sectors W d = index_sectors V d" "layout_ok W d = layout_ok V d"
    "\<And>b. b < nblocks d \<Longrightarrow> blk_sector W d b = blk_sector V d b"
proof -
  show blk: "blk_sector W d b = blk_sector V d b" if "b < nblocks d" for b
    using assms that by (intro blk_sector_cong) (auto simp: file_sectors_def)
  then show ds: "data_sectors W d = data_sectors V d" by (auto simp: data_sectors_def)
  have "W (din d) = V (din d)" if "129 < nblocks d" using assms that by (auto simp: file_sectors_def index_sectors_def)
  then show ix: "index_sectors W d = index_sectors V d" by (force simp: index_sectors_def index_words_def)
  show "layout_ok W d = layout_ok V d" using ds ix blk by (auto simp: layout_ok_def inj_on_def)
qed

section \<open>The file of the free map\<close>

text \<open>An inode nobody is using: its lock is free and no reader is inside.\<close>

definition idle :: "inode \<Rightarrow> bool" where
  "idle i \<longleftrightarrow> iio i = None \<and> iread_cnt i = 0"

text \<open>
  The file at \<open>p\<close> is open and can take the bitmap \<open>b\<close> in place: nobody uses its inode or denies writing to it, it
  is as long as the bitmap, and its sectors are in \<open>Z\<close>.
\<close>

definition map_file :: "'d env \<Rightarrow> u32 set \<Rightarrow> bool list \<Rightarrow> 'd fs \<Rightarrow> addr \<Rightarrow> bool" where
  "map_file E Z b s p \<longleftrightarrow> (\<exists>f i. file_heap s p = Some f \<and> inode_heap s (finode f) = Some i \<and> finode f < inode_brk s \<and> p < file_brk s \<and>
     idle i \<and> deny_write_cnt i = 0 \<and> layout_ok (contents E s) (idata i) \<and> file_sectors (contents E s) (idata i) \<subseteq> Z \<and>
     bitmap_file_size E b \<le> dlength (idata i))"

text \<open>
  \<^verbatim>\<open>bitmap_write(b, file)\<close> writes the bitmap to \<^verbatim>\<open>file\<close>. On such a file, with the file system at rest, it returns,
  changes no sector outside \<open>Z\<close> and leaves the file as it was, but for its bytes.
\<close>

definition bitmap_write_within :: "'d env \<Rightarrow> u32 set \<Rightarrow> bool" where
  "bitmap_write_within E Z \<longleftrightarrow> (\<forall>b p s. cache_ready E s \<longrightarrow> map_file E Z b s p \<longrightarrow>
     wpK (bitmap_write E b (Some p)) (\<lambda>_ t. cache_ready E t \<and> same_upper s t \<and> map_file E Z b t p \<and>
       (\<forall>a. a \<notin> Z \<longrightarrow> contents E t a = contents E s a)) s)"

text \<open>It succeeds.\<close>

definition map_writable :: "'d env \<Rightarrow> u32 set \<Rightarrow> bool" where
  "map_writable E Z \<longleftrightarrow> (\<forall>b p s. cache_ready E s \<longrightarrow> map_file E Z b s p \<longrightarrow> wpK (bitmap_write E b (Some p)) (\<lambda>ok _. ok) s)"

text \<open>The free map file is such a file, once it is open. Its inode is in a sector of its own.\<close>

definition map_open :: "'d env \<Rightarrow> u32 set \<Rightarrow> 'd fs \<Rightarrow> bool" where
  "map_open E Z s \<longleftrightarrow> FREE_MAP_SECTOR \<notin> Z \<and> (\<forall>p. free_map_file s = Some p \<longrightarrow> map_file E Z (free_map s) s p)"

lemma map_file_size:
  assumes "bitmap_ok E" "length b = length c"
  shows "map_file E Z b s p = map_file E Z c s p"
proof -
  have "bitmap_file_size E b = bitmap_file_size E c" using assms unfolding bitmap_ok_def by blast
  then show ?thesis by (simp add: map_file_def)
qed

lemma map_file_fs [simp]:
  "map_file E Z b (s\<lparr>free_map := m\<rparr>) p = map_file E Z b s p" "map_file E Z b (s\<lparr>file_lock := l\<rparr>) p = map_file E Z b s p"
  by (simp_all add: map_file_def)

lemma map_open_lock [simp]: "map_open E Z (s\<lparr>file_lock := l\<rparr>) = map_open E Z s"
  by (simp add: map_open_def)

text \<open>What other operations may change without touching the free map file.\<close>

lemma map_file_keep:
  assumes "map_file E Z b s p" "\<forall>a\<in>Z. contents E t a = contents E s a" "file_heap t p = file_heap s p"
    and "\<And>f. file_heap s p = Some f \<Longrightarrow> inode_heap t (finode f) = inode_heap s (finode f)" "inode_brk s \<le> inode_brk t" "file_brk s \<le> file_brk t"
  shows "map_file E Z b t p"
proof -
  obtain f i where f: "file_heap s p = Some f" "inode_heap s (finode f) = Some i" "finode f < inode_brk s" "p < file_brk s" "idle i" "deny_write_cnt i = 0"
    "layout_ok (contents E s) (idata i)" "file_sectors (contents E s) (idata i) \<subseteq> Z" "bitmap_file_size E b \<le> dlength (idata i)"
    using assms(1) by (auto simp: map_file_def)
  then have "\<forall>a\<in>file_sectors (contents E s) (idata i). contents E t a = contents E s a" using assms(2) by auto
  from layout_cong[OF this] show ?thesis
    unfolding map_file_def using f assms(3-6) by (intro exI[of _ f] exI[of _ i]) (auto simp: file_sectors_def)
qed

lemma map_open_upper:
  assumes "map_open E Z s" "same_upper s t" "\<forall>a\<in>Z. contents E t a = contents E s a"
  shows "map_open E Z t"
proof -
  note u = same_upper_fs[OF assms(2)]
  have "map_file E Z b t p" if "map_file E Z b s p" for b p
    by (rule map_file_keep[OF that assms(3)]) (simp_all add: u)
  then show ?thesis using assms(1) by (simp add: map_open_def u)
qed

text \<open>Another inode than the free map's.\<close>

definition off_map :: "'d fs \<Rightarrow> addr \<Rightarrow> bool" where
  "off_map s p \<longleftrightarrow> (\<forall>q f. free_map_file s = Some q \<longrightarrow> file_heap s q = Some f \<longrightarrow> finode f \<noteq> p)"

lemma map_open_inode:
  assumes "map_open E Z s" "off_map s p"
  shows "map_open E Z (s\<lparr>inode_heap := (inode_heap s)(p := x)\<rparr>)"
proof -
  have "map_file E Z b (s\<lparr>inode_heap := (inode_heap s)(p := x)\<rparr>) q" if "map_file E Z b s q" "free_map_file s = Some q" for b q
    by (rule map_file_keep[OF that(1)]) (use assms(2) that(2) in \<open>auto simp: off_map_def\<close>)
  then show ?thesis using assms(1) by (simp add: map_open_def)
qed

lemma map_open_new:
  assumes "map_open E Z s"
  shows "off_map s (inode_brk s)" "map_open E Z (s\<lparr>inode_brk := inode_brk s + 1, inode_heap := (inode_heap s)(inode_brk s := x)\<rparr>)"
proof -
  show o: "off_map s (inode_brk s)" using assms by (auto simp: map_open_def map_file_def off_map_def)
  have "map_file E Z b (s\<lparr>inode_brk := inode_brk s + 1, inode_heap := (inode_heap s)(inode_brk s := x)\<rparr>) q"
    if "map_file E Z b s q" "free_map_file s = Some q" for b q
    by (rule map_file_keep[OF that(1)]) (use o that(2) in \<open>auto simp: off_map_def\<close>)
  then show "map_open E Z (s\<lparr>inode_brk := inode_brk s + 1, inode_heap := (inode_heap s)(inode_brk s := x)\<rparr>)"
    using assms by (simp add: map_open_def)
qed

end
