(* ===== verification/Free_Map.thy ===== *)
theory Free_Map
  imports File_Layout
begin

text \<open>
  The free map of \<^verbatim>\<open>free-map.c\<close>: initialisation, allocation and release of sectors. The
  theorems: an allocation marks sectors that were free and nothing else, a failed one
  leaves the map as it was (the write-back failure is rolled back), and releasing what was
  allocated restores the map. Opening, closing and creating the free map file are with the
  files, in \<open>Fs_File\<close>.
\<close>

section \<open>Operations of free-map.c\<close>

definition free_map_init :: "'d env \<Rightarrow> ('d fs, unit) K" where
  "free_map_init E = bindK (getK (\<lambda>s. bitmap_create E (block_size E (fs_device s)))) (\<lambda>b. case b of
     None \<Rightarrow> failK PANIC
   | Some b \<Rightarrow> modK (\<lambda>s. s\<lparr>free_map :=
       bitmap_mark E (bitmap_mark E b FREE_MAP_SECTOR) ROOT_DIR_SECTOR\<rparr>))"

text \<open>The result is the sector stored into \<^verbatim>\<open>*sectorp\<close>, \<open>None\<close> when the function returns false.\<close>

definition free_map_allocate :: "'d env \<Rightarrow> nat \<Rightarrow> ('d fs, u32 option) K" where
  "free_map_allocate E cnt =
     bindK (getK (\<lambda>s. bitmap_scan_and_flip E (free_map s) 0 cnt False)) (\<lambda>(sector, b).
     thenK (modK (\<lambda>s. s\<lparr>free_map := b\<rparr>))
     (bindK (getK free_map_file) (\<lambda>file.
      if sector \<noteq> BITMAP_ERROR \<and> file \<noteq> None then
        bindK (bitmap_write E b file) (\<lambda>ok.
        if \<not> ok then
          thenK (modK (\<lambda>s. s\<lparr>free_map := bitmap_set_multiple E (free_map s) sector cnt False\<rparr>)) (retK None)
        else retK (Some sector))
      else retK (if sector \<noteq> BITMAP_ERROR then Some sector else None))))"

definition free_map_release :: "'d env \<Rightarrow> u32 \<Rightarrow> nat \<Rightarrow> ('d fs, unit) K" where
  "free_map_release E sector cnt = bindK (getK free_map) (\<lambda>b.
     thenK (assertK (bitmap_all E b sector cnt))
     (thenK (modK (\<lambda>s. s\<lparr>free_map := bitmap_set_multiple E (free_map s) sector cnt False\<rparr>))
     (bindK (getK free_map) (\<lambda>b. bindK (getK free_map_file) (\<lambda>file.
      bindK (bitmap_write E b file) (\<lambda>_. retK ()))))))"

section \<open>Lemmas\<close>

lemma all_bits_put_bytes:
  "all_bits b k cnt v \<Longrightarrow> all_bits (put_bytes k (replicate cnt w) b) k cnt w"
  by (simp add: all_bits_def nth_put_bytes)

lemma put_bytes_back:
  assumes "all_bits b k cnt v"
  shows "put_bytes k (replicate cnt v) (put_bytes k (replicate cnt w) b) = b"
proof (rule nth_equalityI)
  show "length (put_bytes k (replicate cnt v) (put_bytes k (replicate cnt w) b)) = length b"
    using assms by (simp add: all_bits_def)
  fix i assume "i < length (put_bytes k (replicate cnt v) (put_bytes k (replicate cnt w) b))"
  moreover have "b ! i = v" if "k \<le> i" "i < k + cnt"
    using assms that unfolding all_bits_def by (metis add_diff_inverse_nat add_less_cancel_left leD)
  ultimately show "put_bytes k (replicate cnt v) (put_bytes k (replicate cnt w) b) ! i = b ! i"
    using assms by (auto simp: all_bits_def nth_put_bytes)
qed

lemma bitmap_write_wp:
  assumes "bitmap_write_within E Z" "cache_ready E s" "map_file E Z b s p"
    and "\<And>r t. cache_ready E t \<Longrightarrow> same_upper s t \<Longrightarrow> map_file E Z b t p \<Longrightarrow>
      (\<forall>a. a \<notin> Z \<longrightarrow> contents E t a = contents E s a) \<Longrightarrow> Q r t"
  shows "wpK (bitmap_write E b (Some p)) Q s"
proof -
  have "wpK (bitmap_write E b (Some p)) (\<lambda>_ t. cache_ready E t \<and> same_upper s t \<and> map_file E Z b t p \<and>
       (\<forall>a. a \<notin> Z \<longrightarrow> contents E t a = contents E s a)) s"
    using assms(1-3) by (simp add: bitmap_write_within_def)
  then show ?thesis by (rule wpK_mono) (use assms(4) in blast)
qed

lemma bitmap_scan_cases:
  assumes "bitmap_ok E" "bitmap_scan_and_flip E b st cnt v = (k, b')"
    "length b < 2 ^ 32" "0 < cnt"
  obtains "k = BITMAP_ERROR" "b' = b" "\<forall>j\<ge>st. \<not> all_bits b j cnt v"
  | "k \<noteq> BITMAP_ERROR" "st \<le> unat k" "all_bits b (unat k) cnt v" "b' = put_bytes (unat k) (replicate cnt (\<not> v)) b"
proof -
  have "scan_spec b st cnt v (bitmap_scan_and_flip E b st cnt v)"
    using assms(1,3,4) unfolding bitmap_ok_def by blast
  with assms(2) that show thesis by (auto simp: scan_spec_def split: if_splits)
qed

lemma bitmap_set_multiple_eq:
  "bitmap_ok E \<Longrightarrow> all_bits b (unat k) cnt w \<Longrightarrow>
   bitmap_set_multiple E b k cnt v = put_bytes (unat k) (replicate cnt v) b"
  unfolding bitmap_ok_def all_bits_def by blast

lemma bitmap_all_eq:
  "bitmap_ok E \<Longrightarrow> all_bits b (unat k) cnt w \<Longrightarrow> bitmap_all E b k cnt = all_bits b (unat k) cnt True"
  unfolding bitmap_ok_def all_bits_def by blast

text \<open>
  What an allocation guarantees, in the form the inode layer uses: the state above the
  cache changes at most in the map, and no sector outside the free map file changes.
\<close>

definition fs_lib_ok :: "'d env \<Rightarrow> u32 set \<Rightarrow> bool" where
  "fs_lib_ok E Z \<longleftrightarrow> bitmap_ok E \<and> bitmap_write_within E Z \<and> heap_ok E"

definition map_step :: "'d env \<Rightarrow> u32 set \<Rightarrow> bool list \<Rightarrow> 'd fs \<Rightarrow> 'd fs \<Rightarrow> bool" where
  "map_step E Z b s t \<longleftrightarrow> cache_ready E t \<and> free_map t = b \<and> map_open E Z t \<and>
     same_upper (s\<lparr>free_map := b\<rparr>) t \<and> (\<forall>a. a \<notin> Z \<longrightarrow> contents E t a = contents E s a)"

text \<open>A new map that has been written to the file, and one that replaces it without being written.\<close>

lemma map_step_written:
  assumes "map_open E Z s" "cache_ready E t" "same_upper (s\<lparr>free_map := b\<rparr>) t" "\<forall>a. a \<notin> Z \<longrightarrow> contents E t a = contents E s a"
    and "bitmap_ok E" "length c = length b" "\<And>p. free_map_file s = Some p \<Longrightarrow> map_file E Z b t p"
  shows "map_step E Z c s (t\<lparr>free_map := c\<rparr>)"
proof -
  have "free_map_file t = free_map_file s" using same_upper_fs(10)[OF assms(3)] by simp
  then have "map_open E Z (t\<lparr>free_map := c\<rparr>)"
    using assms(1,7) map_file_size[OF assms(5,6)] by (simp add: map_open_def)
  moreover have "same_upper (s\<lparr>free_map := c\<rparr>) (t\<lparr>free_map := c\<rparr>)"
    using assms(3) by (cases s; cases t) (simp add: same_upper_def)
  ultimately show ?thesis using assms(2,4) by (simp add: map_step_def)
qed

lemma map_step_write_wp:
  assumes "fs_lib_ok E Z" "cache_ready E s" "map_open E Z s" "free_map_file s = Some p" "length b = length (free_map s)"
    and Q: "\<And>r t. free_map t = b \<Longrightarrow> map_step E Z b s t \<Longrightarrow> map_step E Z (free_map s) s (t\<lparr>free_map := free_map s\<rparr>) \<Longrightarrow> Q r t"
  shows "wpK (bitmap_write E b (Some p)) Q (s\<lparr>free_map := b\<rparr>)"
proof (rule bitmap_write_wp)
  have lib: "bitmap_ok E" "bitmap_write_within E Z" using assms(1) by (simp_all add: fs_lib_ok_def)
  show "bitmap_write_within E Z" "cache_ready E (s\<lparr>free_map := b\<rparr>)" using lib assms(2) by simp_all
  show "map_file E Z b (s\<lparr>free_map := b\<rparr>) p"
    using assms(3,4) map_file_size[OF lib(1) assms(5)] by (simp add: map_open_def)
  fix r t assume t: "cache_ready E t" "same_upper (s\<lparr>free_map := b\<rparr>) t" "map_file E Z b t p"
    "\<forall>a. a \<notin> Z \<longrightarrow> contents E t a = contents E (s\<lparr>free_map := b\<rparr>) a"
  have m: "free_map t = b" using same_upper_fs(9)[OF t(2)] by simp
  note step = map_step_written[OF assms(3) t(1,2) _ lib(1)]
  have "map_step E Z b s (t\<lparr>free_map := b\<rparr>)" "map_step E Z (free_map s) s (t\<lparr>free_map := free_map s\<rparr>)"
    by (rule step; use t assms(4,5) in simp)+
  moreover have "t\<lparr>free_map := b\<rparr> = t" using m by simp
  ultimately show "Q r t" using Q m by simp
qed

lemma free_map_allocate_run:
  assumes "fs_lib_ok E Z" "cache_ready E s" "map_open E Z s" "length (free_map s) < 2 ^ 32" "0 < cnt"
  shows "wpK (free_map_allocate E cnt) (\<lambda>r t. case r of
      None \<Rightarrow> map_step E Z (free_map s) s t
    | Some k \<Rightarrow> all_bits (free_map s) (unat k) cnt False \<and>
        map_step E Z (put_bytes (unat k) (replicate cnt True) (free_map s)) s t) s"
proof -
  have lib: "bitmap_ok E" using assms(1) by (simp add: fs_lib_ok_def)
  obtain k b where scan: "bitmap_scan_and_flip E (free_map s) 0 cnt False = (k, b)" by fastforce
  show ?thesis
  proof (rule bitmap_scan_cases[OF lib scan assms(4,5)])
    assume "k = BITMAP_ERROR" "b = free_map s"
    then show ?thesis
      using scan assms(2,3) by (simp add: free_map_allocate_def map_step_def same_upper_def)
  next
    assume k: "k \<noteq> BITMAP_ERROR" "all_bits (free_map s) (unat k) cnt False"
      and b: "b = put_bytes (unat k) (replicate cnt (\<not> False)) (free_map s)"
    have rb: "bitmap_set_multiple E b k cnt False = free_map s"
      using bitmap_set_multiple_eq[OF lib all_bits_put_bytes[OF k(2)], of True False]
        put_bytes_back[OF k(2), of True] b by simp
    have len: "length b = length (free_map s)" using k(2) b by (simp add: all_bits_def)
    show ?thesis
    proof (cases "free_map_file s")
      case None
      then have "map_step E Z b s (s\<lparr>free_map := b\<rparr>)"
        using assms(2,3) by (simp add: map_step_def map_open_def same_upper_def)
      then show ?thesis using scan k b None by (simp add: free_map_allocate_def)
    next
      case (Some p)
      show ?thesis
        using scan k(1) Some by (simp add: free_map_allocate_def)
          (rule map_step_write_wp[OF assms(1-3) Some len], use k b rb in simp)
    qed
  qed
qed

lemma free_map_release_run:
  assumes "fs_lib_ok E Z" "cache_ready E s" "map_open E Z s" "free_map_file s = Some p" "all_bits (free_map s) (unat k) cnt True"
  shows "wpK (free_map_release E k cnt) (\<lambda>_ t.
    map_step E Z (put_bytes (unat k) (replicate cnt False) (free_map s)) s t) s"
proof -
  have lib: "bitmap_ok E" using assms(1) by (simp add: fs_lib_ok_def)
  note eqs = bitmap_set_multiple_eq[OF lib assms(5)] bitmap_all_eq[OF lib assms(5)]
  let ?b = "put_bytes (unat k) (replicate cnt False) (free_map s)"
  have len: "length ?b = length (free_map s)" using assms(5) by (simp add: all_bits_def)
  have "wpK (bitmap_write E ?b (Some p)) (\<lambda>_ t. map_step E Z ?b s t) (s\<lparr>free_map := ?b\<rparr>)"
    by (rule map_step_write_wp[OF assms(1-4) len])
  then show ?thesis
    using assms(4,5) by (simp add: free_map_release_def eqs)
qed

lemma map_step_same_upper: "map_step E Z b s t \<Longrightarrow> map_step E Z (free_map s) t u \<Longrightarrow> same_upper s u"
  by (cases s; cases t; cases u) (simp add: map_step_def same_upper_def)

section \<open>A concrete library for witnesses\<close>

text \<open>First-fit scanning and a bitmap write that succeeds.\<close>

fun scan_from :: "bool list \<Rightarrow> nat \<Rightarrow> nat \<Rightarrow> bool \<Rightarrow> nat \<Rightarrow> nat option" where
  "scan_from b k cnt v 0 = None"
| "scan_from b k cnt v (Suc n) = (if k + cnt \<le> length b \<and> (\<forall>i\<in>set [0..<cnt]. b ! (k + i) = v) then Some k
     else scan_from b (Suc k) cnt v n)"

definition sim_scan :: "bool list \<Rightarrow> nat \<Rightarrow> nat \<Rightarrow> bool \<Rightarrow> u32 \<times> bool list" where
  "sim_scan b st cnt v = (case scan_from b st cnt v (Suc (length b)) of
     Some k \<Rightarrow> (of_nat k, put_bytes k (replicate cnt (\<not> v)) b) | None \<Rightarrow> (BITMAP_ERROR, b))"

definition sim_env :: "(u32 \<Rightarrow> byte list) env" where
  "sim_env = \<lparr>block_read = (\<lambda>d a. take 512 (d a @ replicate 512 0)),
     block_write = (\<lambda>d a x. d(a := x)), malloc_ok = (\<lambda>_. True), block_size = (\<lambda>_. 4096),
     bitmap_create = (\<lambda>n. Some (replicate n False)), bitmap_mark = (\<lambda>b k. b[unat k := True]),
     bitmap_scan_and_flip = sim_scan,
     bitmap_set_multiple = (\<lambda>b k cnt v. put_bytes (unat k) (replicate cnt v) b),
     bitmap_all = (\<lambda>b k cnt. list_all id (get_bytes (unat k) cnt b) \<and> unat k + cnt \<le> length b),
     bitmap_file_size = (\<lambda>b. int (length b) div 8), bitmap_write = (\<lambda>_ _. retK True),
     bitmap_read = (\<lambda>b _. retK (True, b)), tmp_ok = (\<lambda>_. True), inode_mem_ok = (\<lambda>_. True),
     file_mem_ok = (\<lambda>_. True)\<rparr>"

definition sim_fs :: "(u32 \<Rightarrow> byte list) fs" where
  "sim_fs = \<lparr>cur_thread = 1, fs_device = (\<lambda>_. []), cache_heap = (\<lambda>_. None), cache_list = [],
     used_cache = 0, cache_lock = None, cache_brk = 0, started = [], inode_heap = (\<lambda>_. None), inode_brk = 0,
     open_inodes = [], inode_lock = None, file_heap = (\<lambda>_. None), file_brk = 0, file_lock = None,
     free_map = [True, True, True, False, False, True, False, False], free_map_file = Some 0, cur_dir = None\<rparr>"

lemma all_bits_set: "all_bits b k cnt v \<longleftrightarrow> k + cnt \<le> length b \<and> (\<forall>i\<in>set [0..<cnt]. b ! (k + i) = v)"
  by (auto simp: all_bits_def)

lemma scan_from_Some: "scan_from b k cnt v n = Some j \<Longrightarrow> k \<le> j \<and> all_bits b j cnt v"
  by (induction b k cnt v n rule: scan_from.induct) (auto simp: all_bits_set split: if_splits)

lemma scan_from_None: "scan_from b k cnt v n = None \<Longrightarrow> k \<le> j \<Longrightarrow> j < k + n \<Longrightarrow> \<not> all_bits b j cnt v"
proof (induction b k cnt v n rule: scan_from.induct)
  case (2 b k cnt v n)
  then show ?case by (cases "j = k") (auto simp: all_bits_set split: if_splits)
qed simp

lemma sim_scan_spec:
  assumes "length b < 2 ^ 32" "0 < cnt"
  shows "scan_spec b st cnt v (sim_scan b st cnt v)"
proof (cases "scan_from b st cnt v (Suc (length b))")
  case None
  then have "\<not> all_bits b j cnt v" if "st \<le> j" for j
    using scan_from_None[OF None that] that by (cases "j \<le> length b") (auto simp: all_bits_def)
  with None show ?thesis by (simp add: sim_scan_def scan_spec_def)
next
  case (Some k)
  then have k: "st \<le> k" "all_bits b k cnt v" using scan_from_Some by blast+
  then have "k < 2 ^ 32 - 1" using assms by (simp add: all_bits_def)
  then have u: "unat (of_nat k :: u32) = k" by (simp add: unat_of_nat)
  moreover have "(of_nat k :: u32) \<noteq> BITMAP_ERROR"
  proof
    assume "(of_nat k :: u32) = BITMAP_ERROR"
    then have "k = unat (- 1 :: u32)" using u by (simp add: BITMAP_ERROR_def)
    then show False using \<open>k < 2 ^ 32 - 1\<close> by (simp add: unsigned_minus_1_eq_mask mask_eq_exp_minus_1)
  qed
  ultimately show ?thesis using Some k by (simp add: sim_scan_def scan_spec_def)
qed

lemma sim_env_lib: "fs_lib_ok sim_env Z"
  using sim_scan_spec
  by (auto simp: fs_lib_ok_def bitmap_ok_def heap_ok_def bitmap_write_within_def sim_env_def
      all_bits_set list_all_length)

lemma sim_env_dev: "device_ok sim_env" "mem_ok sim_env"
  by (auto simp add: device_ok_def mem_ok_def sim_env_def min_def)

lemma sim_fs_map: "free_map sim_fs = [True, True, True, False, False, True, False, False]"
  by (simp add: sim_fs_def)

lemma sim_scan_3: "bitmap_scan_and_flip sim_env (free_map sim_fs) 0 2 False = (3, [True, True, True, True, True, True, False, False])"
proof -
  have "sim_scan [True, True, True, False, False, True, False, False] 0 2 False =
      (3, [True, True, True, True, True, True, False, False])"
    by code_simp
  then show ?thesis by (simp add: sim_env_def sim_fs_map)
qed

lemma sim_fs_ready: "cache_ready sim_env sim_fs"
  using sim_env_dev by (simp add: cache_ready_def cache_wf_def cache_core_def sim_fs_def CACHE_SIZE_def)

text \<open>The free map file, open: its inode has one block, the sector 2.\<close>

definition sim_map_inode :: inode where
  "sim_map_inode = \<lparr>isector = FREE_MAP_SECTOR, open_cnt = 1, removed = False, deny_write_cnt = 0,
     idata = \<lparr>dlength = 1, sp = 2, ind = 0, din = 0, magic = INODE_MAGIC, disdir = False, dpad = replicate 3 0, dparent = 0,
       unused = replicate 121 0\<rparr>, iread_cnt = 0, iio = None\<rparr>"

definition sim_map_fs :: "(u32 \<Rightarrow> byte list) fs" where
  "sim_map_fs = sim_fs\<lparr>inode_heap := [0 \<mapsto> sim_map_inode], inode_brk := 1, open_inodes := [0],
     file_heap := [0 \<mapsto> \<lparr>finode = 0, fpos = 0, deny_write = False\<rparr>], file_brk := 1\<rparr>"

lemma sim_map_sectors: "layout_ok V (idata sim_map_inode)" "file_sectors V (idata sim_map_inode) = {2}"
proof -
  have "nblocks (idata sim_map_inode) = 1" by (simp add: nblocks_def sim_map_inode_def)
  then show "layout_ok V (idata sim_map_inode)" "file_sectors V (idata sim_map_inode) = {2}"
    by (simp_all add: layout_ok_def length_ok_def MAX_LENGTH_def file_sectors_def data_sectors_def index_sectors_def lessThan_Suc)
      (simp_all add: blk_sector_def sim_map_inode_def)
qed

lemma sim_map_file:
  assumes "file_heap s 0 = Some \<lparr>finode = 0, fpos = 0, deny_write = False\<rparr>" "inode_heap s 0 = Some sim_map_inode"
    "0 < inode_brk s" "0 < file_brk s" "bitmap_file_size E b \<le> 1"
  shows "map_file E {2} b s 0"
  using assms sim_map_sectors by (simp add: map_file_def) (simp add: sim_map_inode_def idle_def)

lemma sim_map_open: "map_open sim_env {2} sim_map_fs"
  using sim_map_file[of sim_map_fs sim_env "free_map sim_map_fs"]
  by (simp add: map_open_def sim_map_fs_def sim_fs_def FREE_MAP_SECTOR_def) (simp add: sim_env_def)

lemma sim_map_fs_ready: "cache_ready sim_env sim_map_fs" "free_map sim_map_fs = free_map sim_fs" "free_map_file sim_map_fs = Some 0"
  using sim_fs_ready by (simp_all add: sim_map_fs_def) (simp add: sim_fs_def)

section \<open>Properties\<close>

text \<open>
  C7. \<^verbatim>\<open>free_map_allocate\<close> returns; when it gives a sector, the \<open>cnt\<close> sectors from there
  on were all free, they are now all marked, and every other bit is as before; when it
  fails, also because the map could not be written, the map is as before. No sector outside
  the free map file changes. The file is not open yet, or open and as long as the map.
\<close>

theorem free_map_allocate_marks:
  assumes "fs_lib_ok E Z" "cache_ready E s" "map_open E Z s" "length (free_map s) < 2 ^ 32" "0 < cnt"
  shows "\<exists>r t. free_map_allocate E cnt s = Inr (r, t) \<and> (case r of None \<Rightarrow> free_map t = free_map s
     | Some k \<Rightarrow> (\<forall>i<length (free_map s). if unat k \<le> i \<and> i < unat k + cnt
         then \<not> free_map s ! i \<and> free_map t ! i else free_map t ! i = free_map s ! i)) \<and>
    length (free_map t) = length (free_map s) \<and>
    (\<forall>a. a \<notin> Z \<longrightarrow> contents E t a = contents E s a) \<and> cache_ready E t"
proof -
  obtain r t where t: "free_map_allocate E cnt s = Inr (r, t)" "case r of
      None \<Rightarrow> map_step E Z (free_map s) s t
    | Some k \<Rightarrow> all_bits (free_map s) (unat k) cnt False \<and>
        map_step E Z (put_bytes (unat k) (replicate cnt True) (free_map s)) s t"
    using free_map_allocate_run[OF assms] by (auto simp: wpK_iff)
  have free: "\<not> free_map s ! i" if "all_bits (free_map s) k cnt False" "k \<le> i" "i < k + cnt" for k i
    using that unfolding all_bits_def by (metis add_diff_inverse_nat add_less_cancel_left leD)
  show ?thesis
  proof (cases r)
    case None
    with t show ?thesis by (auto simp: map_step_def)
  next
    case (Some k)
    with t have k: "all_bits (free_map s) (unat k) cnt False"
        "map_step E Z (put_bytes (unat k) (replicate cnt True) (free_map s)) s t" by simp_all
    then have "unat k + cnt \<le> length (free_map s)" by (simp add: all_bits_def)
    with t(1) Some k free[OF k(1)] show ?thesis by (auto simp: map_step_def nth_put_bytes)
  qed
qed

theorem free_map_allocate_marks_witness:
  "\<exists>r t. free_map_allocate sim_env 2 sim_map_fs = Inr (r, t) \<and> (case r of None \<Rightarrow> free_map t = free_map sim_map_fs
     | Some k \<Rightarrow> (\<forall>i<length (free_map sim_map_fs). if unat k \<le> i \<and> i < unat k + 2
         then \<not> free_map sim_map_fs ! i \<and> free_map t ! i else free_map t ! i = free_map sim_map_fs ! i)) \<and>
    length (free_map t) = length (free_map sim_map_fs) \<and>
    (\<forall>a. a \<notin> {2} \<longrightarrow> contents sim_env t a = contents sim_env sim_map_fs a) \<and> cache_ready sim_env t"
  by (rule free_map_allocate_marks[OF sim_env_lib sim_map_fs_ready(1) sim_map_open]) (simp_all add: sim_map_fs_ready sim_fs_map)

text \<open>
  C8. Round trip of the allocator: once the free map file is open, releasing the sectors an allocation returned
  succeeds and restores the free map. (\<^verbatim>\<open>free_map_release\<close> does not test whether the file is open.)
\<close>

theorem free_map_allocate_release:
  assumes "fs_lib_ok E Z" "cache_ready E s" "map_open E Z s" "free_map_file s = Some p" "length (free_map s) < 2 ^ 32" "0 < cnt"
    and "free_map_allocate E cnt s = Inr (Some k, t)"
  shows "\<exists>u. free_map_release E k cnt t = Inr ((), u) \<and> free_map u = free_map s \<and>
    (\<forall>a. a \<notin> Z \<longrightarrow> contents E u a = contents E s a) \<and> cache_ready E u"
proof -
  have t: "all_bits (free_map s) (unat k) cnt False"
      "map_step E Z (put_bytes (unat k) (replicate cnt True) (free_map s)) s t"
    using free_map_allocate_run[OF assms(1-3,5,6)] assms(7) by (simp_all add: wpK_def)
  then have b: "free_map t = put_bytes (unat k) (replicate cnt True) (free_map s)" "cache_ready E t" "map_open E Z t"
      "free_map_file t = Some p"
    using assms(4) by (auto simp: map_step_def dest: same_upper_fs(10))
  obtain u where "free_map_release E k cnt t = Inr ((), u)"
      "map_step E Z (put_bytes (unat k) (replicate cnt False) (free_map t)) t u"
    using free_map_release_run[OF assms(1) b(2-4), of k cnt] all_bits_put_bytes[OF t(1), of True] b(1)
    by (auto simp: wpK_iff)
  then show ?thesis
    using t b put_bytes_back[OF t(1), of True] by (auto simp: map_step_def)
qed

end
