(* ===== verification/Inode.thy ===== *)
theory Inode
  imports Free_Map
begin

text \<open>
  The inode layer of \<^verbatim>\<open>inode.c\<close>: the table of open inodes, the translation of file
  offsets to sectors through the direct, indirect and doubly indirect pointers, reading,
  writing, growth and deletion. This theory holds the definitions; \<open>Inode_Io\<close> proves the
  theorems on reading and writing, \<open>Inode_Life\<close> those on creation, opening, closing,
  growth and deletion.
\<close>

section \<open>The read-write bracket of an inode\<close>

definition signal_inode :: "addr \<Rightarrow> ('d fs, unit) K" where
  "signal_inode p = bindK (inodeK p) (\<lambda>i. bindK (getK cur_thread) (\<lambda>me. assertK (iio i = Some me)))"

definition read_inode :: "addr \<Rightarrow> ('d fs, unit) K" where
  "read_inode p = thenK (inode_acquire p)
     (thenK (upd_inode p (\<lambda>i. i\<lparr>iread_cnt := iread_cnt i + 1\<rparr>)) (inode_release p))"

definition read_end :: "addr \<Rightarrow> ('d fs, unit) K" where
  "read_end p = thenK (inode_acquire p)
     (thenK (upd_inode p (\<lambda>i. i\<lparr>iread_cnt := iread_cnt i - 1\<rparr>))
     (bindK (inodeK p) (\<lambda>i. thenK (whenK (iread_cnt i = 0) (signal_inode p)) (inode_release p))))"

definition write_inode :: "addr \<Rightarrow> ('d fs, unit) K" where
  "write_inode p = bindK (inodeK p) (\<lambda>i. bindK (getK cur_thread) (\<lambda>me.
     thenK (assertK (iio i \<noteq> Some me)) (thenK (inode_acquire p)
     (bindK (inodeK p) (\<lambda>i. whenK (iread_cnt i > 0) (failK BLOCKED))))))"

definition write_end :: "addr \<Rightarrow> ('d fs, unit) K" where
  "write_end p = thenK (signal_inode p) (inode_release p)"

section \<open>Accessors\<close>

text \<open>\<^verbatim>\<open>lock_acquire(&inode->io); ret = ...; lock_release(&inode->io); return ret;\<close>\<close>

definition locked_field :: "(inode \<Rightarrow> 'a) \<Rightarrow> addr \<Rightarrow> ('d fs, 'a) K" where
  "locked_field f p = thenK (inode_acquire p)
     (bindK (inodeK p) (\<lambda>i. thenK (inode_release p) (retK (f i))))"

definition inode_isdir :: "addr option \<Rightarrow> ('d fs, bool) K" where
  "inode_isdir p = (case p of None \<Rightarrow> retK False | Some p \<Rightarrow> locked_field (\<lambda>i. disdir (idata i)) p)"

definition inode_open_cnt :: "addr \<Rightarrow> ('d fs, int) K" where
  "inode_open_cnt = locked_field open_cnt"

definition bytes_to_sectors :: "off_t \<Rightarrow> int" where
  "bytes_to_sectors sz = (sz + 512 - 1) sdiv 512"

definition inode_parent :: "addr \<Rightarrow> ('d fs, u32) K" where
  "inode_parent = locked_field (\<lambda>i. dparent (idata i))"

definition inode_set_parent :: "'d env \<Rightarrow> addr \<Rightarrow> u32 \<Rightarrow> ('d fs, unit) K" where
  "inode_set_parent E p par = thenK (inode_acquire p)
     (thenK (upd_inode p (\<lambda>i. i\<lparr>idata := (idata i)\<lparr>dparent := par\<rparr>\<rparr>))
     (bindK (inodeK p) (\<lambda>i. thenK (cache_put E (isector i) 0 (encode_inode (idata i))) (inode_release p))))"

definition inode_sid :: "addr \<Rightarrow> ('d fs, u32) K" where
  "inode_sid = locked_field isector"

definition inode_get_inumber :: "addr \<Rightarrow> ('d fs, u32) K" where
  "inode_get_inumber = locked_field isector"

definition inode_length :: "addr \<Rightarrow> ('d fs, off_t) K" where
  "inode_length = locked_field (\<lambda>i. dlength (idata i))"

section \<open>Index blocks\<close>

text \<open>\<^verbatim>\<open>struct index\<close>: 128 sector numbers; indexing outside is out of bounds.\<close>

definition index_nth :: "u32 list \<Rightarrow> int \<Rightarrow> ('s, u32) K" where
  "index_nth ws k = (if 0 \<le> k \<and> k < 128 then retK (ws ! nat k) else failK OUT_OF_BOUNDS)"

text \<open>\<^verbatim>\<open>malloc\<close> or \<^verbatim>\<open>calloc\<close> of a temporary object, whose result is used without a test.\<close>

definition malloc_tmp :: "'d env \<Rightarrow> ('d fs, unit) K" where
  "malloc_tmp E = bindK (getK (tmp_ok E)) (\<lambda>ok. if ok then retK () else failK BAD_POINTER)"

text \<open>Copying an index block out of the cache into \<^verbatim>\<open>*index\<close>.\<close>

definition load_index :: "'d env \<Rightarrow> u32 \<Rightarrow> ('d fs, u32 list) K" where
  "load_index E sid = bindK (cache_get E sid) (\<lambda>x. retK (words_of_bytes 128 x))"

definition read_index :: "'d env \<Rightarrow> u32 \<Rightarrow> ('d fs, u32 list) K" where
  "read_index E sid = bindK (load_index E sid) (\<lambda>ws. thenK (malloc_tmp E) (retK ws))"

definition block_words :: "addr \<Rightarrow> ('d fs, u32 list) K" where
  "block_words p = bindK (cacheK p) (\<lambda>c. retK (words_of_bytes 128 (cdata c)))"

definition byte_to_sector :: "'d env \<Rightarrow> addr \<Rightarrow> off_t \<Rightarrow> ('d fs, u32) K" where
  "byte_to_sector E p pos = bindK (inodeK p) (\<lambda>i.
     if pos < dlength (idata i) then
       let block = pos sdiv 512 in
       if block < 1 then retK (sp (idata i))
       else if block < 129 then
         bindK (read_index E (ind (idata i))) (\<lambda>index. index_nth index (block - 1))
       else
         bindK (read_index E (din (idata i))) (\<lambda>index.
         bindK (index_nth index ((block - 129) sdiv 128)) (\<lambda>b.
         bindK (load_index E b) (\<lambda>index. index_nth index ((block - 129) smod 128))))
     else retK (- 1))"

section \<open>Deletion\<close>

definition drop_cached :: "u32 \<Rightarrow> ('d fs, unit) K" where
  "drop_cached sid = bindK (find_cache sid) (\<lambda>c. case c of None \<Rightarrow> retK () | Some c \<Rightarrow> cache_remove c)"

definition range0 :: "int \<Rightarrow> int list" where
  "range0 n = map int [0..<nat n]"

definition delete_ind :: "'d env \<Rightarrow> addr \<Rightarrow> int \<Rightarrow> ('d fs, unit) K" where
  "delete_ind E p block_current = bindK (inodeK p) (\<lambda>inode.
     bindK (cache_block E (ind (idata inode)) READ_BLOCK) (\<lambda>cache.
     bindK (inodeK p) (\<lambda>inode.
     thenK (free_map_release E (ind (idata inode)) 1)
     (thenK (malloc_tmp E)
     (thenK (read_cache cache)
     (bindK (block_words cache) (\<lambda>index.
      thenK (end_read cache)
     (thenK (cache_remove cache)
     (forK (range0 block_current) (\<lambda>i.
        bindK (index_nth index (block_current + i - 1)) (\<lambda>b.
        thenK (free_map_release E b 1) (drop_cached b))))))))))))"

definition delete_din :: "'d env \<Rightarrow> addr \<Rightarrow> int \<Rightarrow> ('d fs, unit) K" where
  "delete_din E p block_current = bindK (inodeK p) (\<lambda>inode.
     thenK (free_map_release E (din (idata inode)) 1)
     (bindK (inodeK p) (\<lambda>inode.
      bindK (cache_block E (din (idata inode)) READ_BLOCK) (\<lambda>cache.
      thenK (malloc_tmp E)
     (thenK (read_cache cache)
     (bindK (block_words cache) (\<lambda>index.
      thenK (end_read cache)
     (thenK (cache_remove cache)
     (let m = (block_current - 129) sdiv 128; n = (block_current - 129) smod 128 in
      forK (range0 (m + 1)) (\<lambda>i.
        bindK (index_nth index i) (\<lambda>b.
        bindK (cache_block E b READ_BLOCK) (\<lambda>c.
        thenK (malloc_tmp E)
       (thenK (read_cache cache)
       (bindK (block_words c) (\<lambda>d_index.
        thenK (end_read cache)
       (thenK (free_map_release E b 1)
       (thenK (cache_remove c)
       (forK (range0 (if i = m then n + 1 else 128)) (\<lambda>j.
          bindK (index_nth d_index j) (\<lambda>x.
          thenK (free_map_release E x 1)
         (bindK (index_nth index j) drop_cached)))))))))))))))))))))"

definition inode_delete :: "'d env \<Rightarrow> addr \<Rightarrow> ('d fs, unit) K" where
  "inode_delete E p = thenK (inode_acquire p) (bindK (inodeK p) (\<lambda>inode.
     let len = dlength (idata inode); block_current = len sdiv 512 in
     thenK (free_map_release E (sp (idata inode)) 1)
     (bindK (inodeK p) (\<lambda>inode. thenK (drop_cached (sp (idata inode)))
     (thenK (whenK (block_current \<ge> 1 \<and> len \<noteq> 512) (delete_ind E p block_current))
     (thenK (whenK (block_current \<ge> 129 \<and> len \<noteq> 129 * 512) (delete_din E p block_current))
     (inode_release p)))))))"

section \<open>Growth\<close>

text \<open>\<^verbatim>\<open>memset(data + off, 0, n)\<close>: a negative count is a huge \<^verbatim>\<open>size_t\<close>.\<close>

definition memset_block :: "addr \<Rightarrow> int \<Rightarrow> int \<Rightarrow> ('d fs, unit) K" where
  "memset_block p off n = (if n = 0 then retK () else if n < 0 then failK OUT_OF_BOUNDS
     else store_bytes p off (replicate (nat n) 0))"

definition zero_block :: "'d env \<Rightarrow> u32 \<Rightarrow> int \<Rightarrow> int \<Rightarrow> ('d fs, unit) K" where
  "zero_block E sid off n = bindK (cache_block E sid WRITE_BLOCK) (\<lambda>c.
     thenK (write_cache c) (thenK (memset_block c off n) (end_write c)))"

text \<open>\<^verbatim>\<open>free_map_allocate(1,&inode->data.f)\<close>, its result ignored.\<close>

definition alloc_field :: "'d env \<Rightarrow> addr \<Rightarrow> (u32 \<Rightarrow> inode_disk \<Rightarrow> inode_disk) \<Rightarrow> ('d fs, unit) K" where
  "alloc_field E p f = bindK (free_map_allocate E 1) (\<lambda>r. case r of None \<Rightarrow> retK ()
     | Some k \<Rightarrow> upd_inode p (\<lambda>i. i\<lparr>idata := f k (idata i)\<rparr>))"

text \<open>
  With the index block \<open>c\<close> locked for writing: copy it out, let \<^verbatim>\<open>free_map_allocate\<close> store
  a sector into slot \<open>k\<close> of the copy, copy it back.
\<close>

definition alloc_slot :: "'d env \<Rightarrow> addr \<Rightarrow> int \<Rightarrow> ('d fs, u32 list) K" where
  "alloc_slot E c k = thenK (write_cache c)
     (bindK (block_words c) (\<lambda>index.
      bindK (bindK (free_map_allocate E 1) (\<lambda>r. case r of None \<Rightarrow> retK index
        | Some x \<Rightarrow> if 0 \<le> k \<and> k < 128 then retK (index[nat k := x]) else failK OUT_OF_BOUNDS)) (\<lambda>index.
      thenK (store_bytes c 0 (bytes_of_words index))
     (thenK (end_write c) (retK index)))))"

text \<open>
  One round of the loops that add a data block: the slot in the index block \<open>sid\<close>, then
  the new block filled with zeros.
\<close>

definition grow_block :: "'d env \<Rightarrow> u32 \<Rightarrow> int \<Rightarrow> ('d fs, unit) K" where
  "grow_block E sid k = bindK (cache_block E sid WRITE_BLOCK) (\<lambda>c. thenK (malloc_tmp E)
     (bindK (alloc_slot E c k) (\<lambda>index. bindK (index_nth index k) (\<lambda>b. zero_block E b 0 512))))"

text \<open>Growing within the direct and indirect blocks, lines 240 to 284.\<close>

definition growth_ind :: "'d env \<Rightarrow> addr \<Rightarrow> int \<Rightarrow> int \<Rightarrow> int \<Rightarrow> ('d fs, unit) K" where
  "growth_ind E p len block_current block =
     bindK (if len smod 512 \<noteq> 0 then
         bindK (inodeK p) (\<lambda>inode. bindK (read_index E (ind (idata inode))) (\<lambda>index.
         bindK (index_nth index (block_current - 1)) (\<lambda>b.
         thenK (zero_block E b (len smod 512) (512 - len smod 512)) (retK (block_current + 1)))))
       else retK block_current) (\<lambda>block_current.
     forK (range0 (block - block_current + 1)) (\<lambda>i.
       bindK (inodeK p) (\<lambda>inode. grow_block E (ind (idata inode)) (block_current + i - 1))))"

text \<open>Filling the indirect block up, lines 287 to 319, before the doubly indirect one is used.\<close>

definition growth_fill_ind :: "'d env \<Rightarrow> addr \<Rightarrow> int \<Rightarrow> int \<Rightarrow> ('d fs, unit) K" where
  "growth_fill_ind E p len block_current =
     bindK (inodeK p) (\<lambda>inode. bindK (read_index E (ind (idata inode))) (\<lambda>index.
     bindK (if len smod 512 \<noteq> 0 then
         bindK (index_nth index (block_current - 1)) (\<lambda>b.
         thenK (zero_block E b (len smod 512) (512 - len smod 512)) (retK (block_current + 1)))
       else retK block_current) (\<lambda>block_current.
     forK (range0 (129 - block_current)) (\<lambda>i.
       bindK (inodeK p) (\<lambda>inode. grow_block E (ind (idata inode)) (block_current + i - 1))))))"

text \<open>The doubly indirect blocks, lines 323 to 397.\<close>

definition growth_din :: "'d env \<Rightarrow> addr \<Rightarrow> int \<Rightarrow> int \<Rightarrow> int \<Rightarrow> ('d fs, unit) K" where
  "growth_din E p len block_current block =
     thenK (whenK (len = 512 * 129) (alloc_field E p (\<lambda>k d. d\<lparr>din := k\<rparr>)))
     (bindK (if len smod 512 \<noteq> 0 then
         bindK (inodeK p) (\<lambda>inode. bindK (read_index E (din (idata inode))) (\<lambda>index.
         bindK (index_nth index ((block_current - 129) sdiv 128)) (\<lambda>b.
         bindK (load_index E b) (\<lambda>index.
         bindK (index_nth index ((block_current - 129) smod 128)) (\<lambda>b.
         thenK (zero_block E b (len smod 512) (512 - len smod 512)) (retK (block_current + 1)))))))
       else retK block_current) (\<lambda>block_current.
     let mi = (block - 129) sdiv 128; mj = (block_current - 129) sdiv 128;
         ni = (block - 129) smod 128; nj = (block_current - 129) smod 128;
         new_index = (\<lambda>k. bindK (inodeK p) (\<lambda>inode.
           bindK (cache_block E (din (idata inode)) WRITE_BLOCK) (\<lambda>c.
           thenK (malloc_tmp E) (bindK (alloc_slot E c k) (\<lambda>_. retK ()))))) in
     thenK (whenK (nj = 0) (new_index mj))
     (thenK (forK (range0 (mj - mi)) (\<lambda>k. new_index (mj + k + 1)))
     (forK (range0 (mi + 1 - mj)) (\<lambda>i'. let i = mj + i'; low = (if i = mj then nj else 0);
            high = (if i = mi then ni + 1 else 128) in
       forK (range0 (high - low)) (\<lambda>j'. let j = low + j' in
         bindK (inodeK p) (\<lambda>inode. bindK (read_index E (din (idata inode))) (\<lambda>index.
         bindK (index_nth index i) (\<lambda>b.
         bindK (cache_block E b WRITE_BLOCK) (\<lambda>c.
         bindK (alloc_slot E c j) (\<lambda>index.
         bindK (index_nth index j) (\<lambda>b. zero_block E b 0 512))))))))))))"

definition file_growth :: "'d env \<Rightarrow> addr \<Rightarrow> off_t \<Rightarrow> off_t \<Rightarrow> ('d fs, u32) K" where
  "file_growth E p pos sz = bindK (inodeK p) (\<lambda>inode.
     let block = i32 (pos + sz) sdiv 512; len = dlength (idata inode);
         block_current = len sdiv 512; block_ofs = i32 (pos + sz) smod 512 in
     thenK (upd_inode p (\<lambda>i. i\<lparr>idata := (idata i)\<lparr>dlength := i32 (pos + sz)\<rparr>\<rparr>))
     (if block = block_current \<and> len smod 512 \<noteq> 0 then
        bindK (byte_to_sector E p len) (\<lambda>sid.
        thenK (zero_block E sid len (pos - len)) (retK (word_of_int block)))
      else
        thenK (whenK (len = 0) (alloc_field E p (\<lambda>k d. d\<lparr>sp := k\<rparr>)))
       (bindK (if block_current < 1 then
            bindK (inodeK p) (\<lambda>inode. thenK (zero_block E (sp (idata inode)) len (512 - len))
              (retK (len + (512 - len), block_current + 1)))
          else retK (len, block_current)) (\<lambda>(len, block_current).
        if block = 1 \<and> block_ofs = 0 then retK (word_of_int block)
        else
          thenK (whenK (len = 512) (alloc_field E p (\<lambda>k d. d\<lparr>ind := k\<rparr>)))
         (if block < 129 then
            thenK (growth_ind E p len block_current block) (retK (word_of_int block))
          else
            bindK (if len < 129 * 512 then
                thenK (growth_fill_ind E p len block_current) (retK (129 * 512, 129))
              else retK (len, block_current)) (\<lambda>(len, block_current).
            if block = 129 \<and> block_ofs = 0 then retK (word_of_int block)
            else thenK (growth_din E p len block_current block) (retK (word_of_int block))))))))"

section \<open>Creating, opening and closing inodes\<close>

definition inode_init :: "'d fs \<Rightarrow> 'd fs" where
  "inode_init s = s\<lparr>open_inodes := [], inode_lock := None\<rparr>"

text \<open>What \<^verbatim>\<open>calloc\<close> and fresh memory hold, as far as the code reads it.\<close>

definition zero_disk :: inode_disk where
  "zero_disk = \<lparr>dlength = 0, sp = 0, ind = 0, din = 0, magic = 0, disdir = False,
     dpad = replicate 3 0, dparent = 0, unused = replicate 121 0\<rparr>"

definition inode_alloc :: "'d env \<Rightarrow> inode_disk \<Rightarrow> ('d fs, bool \<times> inode_disk) K" where
  "inode_alloc E disk_inode = bindK (getK inode_brk) (\<lambda>p.
     if \<not> inode_mem_ok E p then failK BAD_POINTER
     else thenK (modK (\<lambda>s. s\<lparr>inode_brk := p + 1, inode_heap := (inode_heap s)(p \<mapsto>
         \<lparr>isector = 0, open_cnt = 0, removed = False, deny_write_cnt = 0,
          idata = disk_inode\<lparr>dlength := 0\<rparr>, iread_cnt = 0, iio = None\<rparr>)\<rparr>))
       (bindK (file_growth E p 0 (dlength disk_inode)) (\<lambda>_.
        bindK (inodeK p) (\<lambda>inode.
        thenK (modK (\<lambda>s. s\<lparr>inode_heap := (inode_heap s)(p := None)\<rparr>))
       (retK (True, idata inode))))))"

definition inode_create :: "'d env \<Rightarrow> u32 \<Rightarrow> off_t \<Rightarrow> bool \<Rightarrow> ('d fs, bool) K" where
  "inode_create E sector len isdir = thenK file_lock_acquire
     (thenK (assertK (len \<ge> 0))
     (bindK (getK (tmp_ok E)) (\<lambda>ok.
      bindK (if ok then
          bindK (inode_alloc E (zero_disk\<lparr>dlength := len, magic := INODE_MAGIC, disdir := isdir\<rparr>)) (\<lambda>(success, d).
          thenK (cache_put E sector 0 (encode_inode (d\<lparr>dparent := ROOT_DIR_SECTOR\<rparr>))) (retK success))
        else retK False) (\<lambda>success.
      thenK file_lock_release (retK success)))))"

fun find_open :: "(addr \<Rightarrow> inode option) \<Rightarrow> u32 \<Rightarrow> addr list \<Rightarrow> kerror + addr option" where
  "find_open h sector [] = Inr None"
| "find_open h sector (p # ps) = (case h p of None \<Rightarrow> Inl BAD_POINTER
     | Some i \<Rightarrow> if isector i = sector then Inr (Some p) else find_open h sector ps)"

definition inode_reopen :: "addr option \<Rightarrow> ('d fs, addr option) K" where
  "inode_reopen p = (case p of None \<Rightarrow> retK None
     | Some a \<Rightarrow> thenK (inode_acquire a)
         (thenK (upd_inode a (\<lambda>i. i\<lparr>open_cnt := open_cnt i + 1\<rparr>))
         (thenK (inode_release a) (retK p))))"

text \<open>The common tail of \<^verbatim>\<open>find_inode\<close> and \<^verbatim>\<open>inode_open\<close>: a new inode, read from its sector.\<close>

definition load_inode :: "'d env \<Rightarrow> u32 \<Rightarrow> int \<Rightarrow> ('d fs, addr option) K" where
  "load_inode E sector cnt = bindK (getK inode_brk) (\<lambda>p.
     if \<not> inode_mem_ok E p then thenK file_lock_release (retK None)
     else thenK (modK (\<lambda>s. s\<lparr>inode_brk := p + 1, open_inodes := p # open_inodes s,
         inode_heap := (inode_heap s)(p \<mapsto> \<lparr>isector = sector, open_cnt = cnt, removed = False,
           deny_write_cnt = 0, idata = zero_disk, iread_cnt = 0, iio = None\<rparr>)\<rparr>))
       (thenK (inode_acquire p)
       (bindK (cache_block E sector READ_BLOCK) (\<lambda>c.
        thenK (write_cache c)
       (bindK (cacheK c) (\<lambda>b.
        thenK (upd_inode p (\<lambda>i. i\<lparr>idata := decode_inode (cdata b)\<rparr>))
       (thenK (end_write c)
       (thenK (inode_release p)
       (thenK file_lock_release (retK (Some p)))))))))))"

definition find_inode :: "'d env \<Rightarrow> u32 \<Rightarrow> ('d fs, addr option) K" where
  "find_inode E sector = thenK file_lock_acquire
     (bindK (getK (\<lambda>s. find_open (inode_heap s) sector (open_inodes s))) (\<lambda>r.
      bindK (liftK r) (\<lambda>found. case found of
        Some p \<Rightarrow> thenK file_lock_release (retK (Some p))
      | None \<Rightarrow> load_inode E sector 0)))"

definition inode_open :: "'d env \<Rightarrow> u32 \<Rightarrow> ('d fs, addr option) K" where
  "inode_open E sector = thenK file_lock_acquire
     (bindK (getK (\<lambda>s. find_open (inode_heap s) sector (open_inodes s))) (\<lambda>r.
      bindK (liftK r) (\<lambda>found. case found of
        Some p \<Rightarrow> bindK (inode_reopen (Some p)) (\<lambda>_. thenK file_lock_release (retK (Some p)))
      | None \<Rightarrow> load_inode E sector 1)))"

definition close_last :: "'d env \<Rightarrow> addr \<Rightarrow> ('d fs, unit) K" where
  "close_last E p = thenK (modK (\<lambda>s. s\<lparr>open_inodes := remove1 p (open_inodes s)\<rparr>))
     (bindK (inodeK p) (\<lambda>inode.
      thenK (cache_put E (isector inode) 0 (encode_inode (idata inode)))
     (bindK (inodeK p) (\<lambda>inode.
      thenK (whenK (removed inode)
        (thenK (inode_delete E p)
        (thenK (free_map_release E (isector inode) 1) (drop_cached (isector inode)))))
     (modK (\<lambda>s. s\<lparr>inode_heap := (inode_heap s)(p := None)\<rparr>))))))"

definition inode_close :: "'d env \<Rightarrow> addr option \<Rightarrow> ('d fs, unit) K" where
  "inode_close E p = (case p of None \<Rightarrow> retK ()
   | Some p \<Rightarrow> bindK (getK (\<lambda>s. file_lock s \<noteq> Some (cur_thread s))) (\<lambda>fl.
       thenK (whenK fl file_lock_acquire)
      (thenK (upd_inode p (\<lambda>i. i\<lparr>open_cnt := open_cnt i - 1\<rparr>))
      (bindK (inodeK p) (\<lambda>inode.
       thenK (whenK (open_cnt inode = 0) (close_last E p))
      (whenK fl file_lock_release))))))"

definition inode_remove :: "addr \<Rightarrow> ('d fs, unit) K" where
  "inode_remove p = thenK (inode_acquire p)
     (thenK (upd_inode p (\<lambda>i. i\<lparr>removed := True\<rparr>)) (inode_release p))"

section \<open>Reading and writing\<close>

definition slice :: "byte list \<Rightarrow> int \<Rightarrow> int \<Rightarrow> ('s, byte list) K" where
  "slice x off n = (if 0 \<le> off \<and> 0 \<le> n \<and> nat off + nat n \<le> length x
     then retK (get_bytes (nat off) (nat n) x) else failK OUT_OF_BOUNDS)"

text \<open>The loop of \<^verbatim>\<open>inode_read_at\<close>; \<open>acc\<close> is what was copied to the buffer so far.\<close>

function read_loop :: "'d env \<Rightarrow> addr \<Rightarrow> off_t \<Rightarrow> off_t \<Rightarrow> byte list \<Rightarrow> ('d fs, byte list) K" where
  "read_loop E p sz offset acc = (if sz \<le> 0 then retK acc else
     bindK (byte_to_sector E p offset) (\<lambda>sector_idx. bindK (inodeK p) (\<lambda>inode.
     let sector_ofs = offset smod 512; inode_left = dlength (idata inode) - offset;
         sector_left = 512 - sector_ofs;
         min_left = (if inode_left < sector_left then inode_left else sector_left);
         chunk_size = (if sz < min_left then sz else min_left) in
     if chunk_size \<le> 0 then retK acc
     else bindK (cache_get E sector_idx) (\<lambda>x. bindK (slice x sector_ofs chunk_size) (\<lambda>bs.
       read_loop E p (sz - chunk_size) (offset + chunk_size) (acc @ bs))))))"
  by pat_completeness auto
termination by (relation "measure (\<lambda>(E, p, sz, offset, acc). nat sz)") auto

definition inode_read_at :: "'d env \<Rightarrow> addr \<Rightarrow> off_t \<Rightarrow> off_t \<Rightarrow> ('d fs, byte list) K" where
  "inode_read_at E p sz offset = thenK (read_inode p) (bindK (inodeK p) (\<lambda>inode.
     if offset > dlength (idata inode) then thenK (read_end p) (retK [])
     else bindK (read_loop E p sz offset []) (\<lambda>acc. thenK (read_end p) (retK acc))))"

function write_loop :: "'d env \<Rightarrow> addr \<Rightarrow> byte list \<Rightarrow> off_t \<Rightarrow> off_t \<Rightarrow> off_t \<Rightarrow> ('d fs, off_t) K" where
  "write_loop E p buffer sz offset bytes_written = (if sz \<le> 0 then retK bytes_written else
     bindK (byte_to_sector E p offset) (\<lambda>sector_idx. bindK (inodeK p) (\<lambda>inode.
     let sector_ofs = offset smod 512; inode_left = dlength (idata inode) - offset;
         sector_left = 512 - sector_ofs;
         min_left = (if inode_left < sector_left then inode_left else sector_left);
         chunk_size = (if sz < min_left then sz else min_left) in
     if chunk_size \<le> 0 then retK bytes_written
     else bindK (slice buffer bytes_written chunk_size) (\<lambda>xs.
       thenK (cache_put E sector_idx sector_ofs xs)
       (write_loop E p buffer (sz - chunk_size) (offset + chunk_size) (bytes_written + chunk_size))))))"
  by pat_completeness auto
termination by (relation "measure (\<lambda>(E, p, buffer, sz, offset, n). nat sz)") auto

definition inode_write_at :: "'d env \<Rightarrow> addr \<Rightarrow> byte list \<Rightarrow> off_t \<Rightarrow> off_t \<Rightarrow> ('d fs, off_t) K" where
  "inode_write_at E p buffer sz offset = bindK (inodeK p) (\<lambda>inode. bindK (getK cur_thread) (\<lambda>me.
     let wi = (iio inode \<noteq> Some me) in
     thenK (whenK wi (write_inode p))
     (bindK (inodeK p) (\<lambda>inode.
      if deny_write_cnt inode \<noteq> 0 then thenK (whenK wi (write_end p)) (retK 0)
      else
        bindK (if i32 (offset + sz) > dlength (idata inode)
          then bindK (file_growth E p offset sz) (\<lambda>_. retK ()) else retK ()) (\<lambda>_.
        bindK (write_loop E p buffer sz offset 0) (\<lambda>n.
        thenK (whenK wi (write_end p)) (retK n)))))))"

declare read_loop.simps [simp del] write_loop.simps [simp del]

section \<open>Write denial and shutdown\<close>

definition inode_deny_write :: "addr \<Rightarrow> ('d fs, unit) K" where
  "inode_deny_write p = thenK (inode_acquire p)
     (thenK (upd_inode p (\<lambda>i. i\<lparr>deny_write_cnt := deny_write_cnt i + 1\<rparr>))
     (bindK (inodeK p) (\<lambda>i. thenK (assertK (deny_write_cnt i \<le> open_cnt i)) (inode_release p))))"

definition inode_allow_write :: "addr \<Rightarrow> ('d fs, unit) K" where
  "inode_allow_write p = thenK (inode_acquire p)
     (bindK (inodeK p) (\<lambda>i. thenK (assertK (deny_write_cnt i > 0))
     (thenK (assertK (deny_write_cnt i \<le> open_cnt i))
     (thenK (upd_inode p (\<lambda>i. i\<lparr>deny_write_cnt := deny_write_cnt i - 1\<rparr>)) (inode_release p)))))"

definition inode_close_all :: "'d env \<Rightarrow> ('d fs, unit) K" where
  "inode_close_all E = bindK (getK open_inodes) (\<lambda>l. forK l (\<lambda>p.
     bindK (inode_isdir (Some p)) (\<lambda>d. bindK (inodeK p) (\<lambda>inode.
     whenK (d \<and> isector inode \<noteq> 0)
       (thenK (upd_inode p (\<lambda>i. i\<lparr>open_cnt := 1\<rparr>)) (inode_close E (Some p)))))))"

end
