(* ===== verification/Inode_Io.thy ===== *)
theory Inode_Io
  imports Inode
begin

text \<open>
  Reading and writing the data of a file. The abstract file is a list of bytes,
  \<open>file_bytes\<close>, computed from the sectors a client of the cache sees and the inode's
  pointers. The theorems: \<^verbatim>\<open>byte_to_sector\<close> follows the pointers, \<^verbatim>\<open>inode_read_at\<close>
  returns the wanted part of the abstract file, and \<^verbatim>\<open>inode_write_at\<close> inside the file
  replaces exactly the written part and leaves every other file's sectors alone.
\<close>

section \<open>The abstract file\<close>

definition file_byte :: "(u32 \<Rightarrow> byte list) \<Rightarrow> inode_disk \<Rightarrow> nat \<Rightarrow> byte" where
  "file_byte V d k = V (blk_sector V d (k div 512)) ! (k mod 512)"

definition file_bytes :: "(u32 \<Rightarrow> byte list) \<Rightarrow> inode_disk \<Rightarrow> byte list" where
  "file_bytes V d = map (file_byte V d) [0..<nat (dlength d)]"

lemma length_file_bytes [simp]: "length (file_bytes V d) = nat (dlength d)"
  by (simp add: file_bytes_def)

lemma nth_file_bytes [simp]: "k < nat (dlength d) \<Longrightarrow> file_bytes V d ! k = file_byte V d k"
  by (simp add: file_bytes_def)

section \<open>Offsets to sectors\<close>

lemma malloc_tmp_ok: "heap_ok E \<Longrightarrow> malloc_tmp E = retK ()"
  by (rule ext) (simp add: malloc_tmp_def heap_ok_def kstep)

lemma load_index_wp:
  assumes "cache_ready E s"
    and "\<And>t. cache_ready E t \<Longrightarrow> contents E t = contents E s \<Longrightarrow> same_upper s t \<Longrightarrow>
      Q (index_words (contents E s) sid) t"
  shows "wpK (load_index E sid) Q s"
  unfolding load_index_def wpK_bind
  by (rule cs.get_wp[OF assms(1)]) (use assms(2) in \<open>simp add: index_words_def\<close>)

lemma read_index_wp:
  assumes "heap_ok E" "cache_ready E s"
    and "\<And>t. cache_ready E t \<Longrightarrow> contents E t = contents E s \<Longrightarrow> same_upper s t \<Longrightarrow>
      Q (index_words (contents E s) sid) t"
  shows "wpK (read_index E sid) Q s"
  unfolding read_index_def wpK_bind wpK_then malloc_tmp_ok[OF assms(1)] wpK_ret
  by (rule load_index_wp[OF assms(2)]) (use assms(3) in simp)

lemma index_nth_wp [simp]: "wpK (index_nth ws k) Q s \<longleftrightarrow> 0 \<le> k \<and> k < 128 \<and> Q (ws ! nat k) s"
  by (auto simp: index_nth_def)

text \<open>What an operation that only uses the cache guarantees.\<close>

definition cache_only :: "'d env \<Rightarrow> 'd fs \<Rightarrow> 'd fs \<Rightarrow> bool" where
  "cache_only E s t \<longleftrightarrow> cache_ready E t \<and> contents E t = contents E s \<and> same_upper s t"

lemma cache_only_trans: "cache_only E s t \<Longrightarrow> cache_only E t u \<Longrightarrow> cache_only E s u"
  by (auto simp: cache_only_def intro: same_upper_trans)

lemma cache_only_refl: "cache_ready E s \<Longrightarrow> cache_only E s s"
  by (simp add: cache_only_def)

lemma cache_only_inode: "cache_only E s t \<Longrightarrow> inode_heap t = inode_heap s"
  by (simp add: cache_only_def same_upper_fs)

lemma byte_to_sector_run:
  assumes "heap_ok E" "cache_ready E s" "inode_heap s p = Some i"
    and "0 \<le> pos" "pos < dlength (idata i)" "length_ok (idata i)"
  shows "wpK (byte_to_sector E p pos)
    (\<lambda>b t. cache_only E s t \<and> b = blk_sector (contents E s) (idata i) (nat pos div 512)) s"
proof -
  let ?V = "contents E s"
  define B where "B = pos div 512"
  have B: "0 \<le> B" "nat pos div 512 = nat B" "B < 129 + 128 * 128" "pos sdiv 512 = B"
    using assms(4-6) by (simp_all add: B_def nat_div_distrib length_ok_def MAX_LENGTH_def)
  consider "B < 1" | "1 \<le> B" "B < 129" | "129 \<le> B" by linarith
  then show ?thesis
  proof cases
    case 1
    then show ?thesis
      using assms(2,3,5) B by (simp add: byte_to_sector_def cache_only_refl blk_sector_def)
  next
    case 2
    then have "blk_sector ?V (idata i) (nat B) = index_words ?V (ind (idata i)) ! nat (B - 1)"
      by (auto simp: blk_sector_def nat_diff_distrib)
    moreover have "wpK (read_index E (ind (idata i)))
      (\<lambda>index. wpK (index_nth index (B - 1)) (\<lambda>b t. cache_only E s t \<and> b = index_words ?V (ind (idata i)) ! nat (B - 1))) s"
      by (rule read_index_wp[OF assms(1,2)]) (use 2 in \<open>simp add: cache_only_def\<close>)
    ultimately show ?thesis
      using 2 assms(3,5) B by (simp add: byte_to_sector_def Let_def)
  next
    case 3
    define I J where "I = (B - 129) div 128" and "J = (B - 129) mod 128"
    have IJ: "0 \<le> I" "I < 128" "(B - 129) sdiv 128 = I" "0 \<le> J" "J < 128" "(B - 129) smod 128 = J"
      using 3 B(3) by (simp_all add: I_def J_def)
    have n: "nat I = (nat B - 129) div 128" "nat J = (nat B - 129) mod 128"
      using 3 by (simp_all add: I_def J_def nat_div_distrib nat_mod_distrib nat_diff_distrib)
    let ?x = "index_words ?V (din (idata i)) ! nat I"
    have e: "blk_sector ?V (idata i) (nat B) = index_words ?V ?x ! nat J"
      using 3 by (simp add: blk_sector_def n nat_less_iff)
    have "wpK (read_index E (din (idata i))) (\<lambda>index. wpK (bindK (index_nth index I) (\<lambda>b.
         bindK (load_index E b) (\<lambda>index. index_nth index J)))
       (\<lambda>b t. cache_only E s t \<and> b = index_words ?V ?x ! nat J)) s"
    proof (rule read_index_wp[OF assms(1,2)])
      fix t assume t: "cache_ready E t" "contents E t = contents E s" "same_upper s t"
      have "wpK (load_index E ?x) (\<lambda>index. wpK (index_nth index J)
          (\<lambda>b t. cache_only E s t \<and> b = index_words ?V ?x ! nat J)) t"
        by (rule load_index_wp[OF t(1)]) (use t IJ(4,5) in \<open>auto simp: cache_only_def intro: same_upper_trans\<close>)
      then show "wpK (bindK (index_nth (index_words ?V (din (idata i))) I) (\<lambda>b.
          bindK (load_index E b) (\<lambda>index. index_nth index J)))
        (\<lambda>b t. cache_only E s t \<and> b = index_words ?V ?x ! nat J) t"
        using IJ(1,2) by simp
    qed
    with 3 show ?thesis
      using assms(3,5) B(2,4) e IJ(3,6) by (simp add: byte_to_sector_def Let_def)
  qed
qed

section \<open>Reading\<close>

text \<open>One chunk of a sector is a piece of the abstract file.\<close>

lemma div_mod_within:
  fixes k j m :: nat
  assumes "k mod m + j < m"
  shows "(k + j) div m = k div m" "(k + j) mod m = k mod m + j"
proof -
  have e: "k + j = (k mod m + j) + m * (k div m)" using mult_div_mod_eq[of m k] by linarith
  have m: "m \<noteq> 0" using assms by simp
  show "(k + j) div m = k div m" by (subst e) (simp only: div_mult_self2[OF m] div_less[OF assms] add_0_right)
  show "(k + j) mod m = k mod m + j" using assms by (subst e) (simp only: mod_mult_self2 mod_less)
qed

lemma chunk_of_file:
  assumes "k mod 512 + n \<le> 512" "k + n \<le> nat (dlength d)" "length (V (blk_sector V d (k div 512))) = 512"
  shows "get_bytes (k mod 512) n (V (blk_sector V d (k div 512))) = take n (drop k (file_bytes V d))"
proof (rule nth_equalityI)
  show "length (get_bytes (k mod 512) n (V (blk_sector V d (k div 512)))) = length (take n (drop k (file_bytes V d)))"
    using assms by simp
  fix j assume "j < length (get_bytes (k mod 512) n (V (blk_sector V d (k div 512))))"
  then have j: "j < n" using assms by simp
  then have "(k + j) div 512 = k div 512" "(k + j) mod 512 = k mod 512 + j"
    using assms(1) by (intro div_mod_within, linarith)+
  with j assms show "get_bytes (k mod 512) n (V (blk_sector V d (k div 512))) ! j = take n (drop k (file_bytes V d)) ! j"
    by (simp add: file_byte_def)
qed


lemma slice_wp [simp]: "wpK (slice x off n) Q s \<longleftrightarrow>
    0 \<le> off \<and> 0 \<le> n \<and> nat off + nat n \<le> length x \<and> Q (get_bytes (nat off) (nat n) x) s"
  by (auto simp: slice_def)

text \<open>The chunk size both loops compute stays in the sector and in the file.\<close>

definition chunk :: "int \<Rightarrow> int \<Rightarrow> int \<Rightarrow> int" where
  "chunk len sz off = (let so = off smod 512; il = len - off; sl = 512 - so;
     ml = (if il < sl then il else sl) in if sz < ml then sz else ml)"

lemma chunk_bounds:
  assumes "0 < sz" "0 \<le> off" "off < len"
  shows "0 < chunk len sz off" "chunk len sz off \<le> sz" "off + chunk len sz off \<le> len"
    "off mod 512 + chunk len sz off \<le> 512"
proof -
  have "0 \<le> off mod 512" "off mod 512 < 512" by simp_all
  moreover have "off smod 512 = off mod 512" using assms(2) by simp
  ultimately show "0 < chunk len sz off" "chunk len sz off \<le> sz" "off + chunk len sz off \<le> len"
    "off mod 512 + chunk len sz off \<le> 512"
    using assms by (auto simp: chunk_def Let_def)
qed

lemma chunk_end: "0 < sz \<Longrightarrow> 0 \<le> len \<Longrightarrow> chunk len sz len \<le> 0"
  using pos_mod_bound[of 512 len] by (auto simp: chunk_def Let_def)

lemma read_loop_unfold:
  "read_loop E p sz off acc = (if sz \<le> 0 then retK acc else
     bindK (byte_to_sector E p off) (\<lambda>sid. bindK (inodeK p) (\<lambda>i. let n = chunk (dlength (idata i)) sz off in
     if n \<le> 0 then retK acc else bindK (cache_get E sid) (\<lambda>x. bindK (slice x (off smod 512) n) (\<lambda>bs.
       read_loop E p (sz - n) (off + n) (acc @ bs))))))"
  by (subst read_loop.simps) (simp only: Let_def chunk_def)

lemma byte_to_sector_eof:
  "cache_ready E s \<Longrightarrow> inode_heap s p = Some i \<Longrightarrow> dlength (idata i) \<le> pos \<Longrightarrow>
   wpK (byte_to_sector E p pos) (\<lambda>_ t. t = s) s"
  by (simp add: byte_to_sector_def)

lemma take_drop_split:
  "n \<le> m \<Longrightarrow> take n (drop k xs) @ take (m - n) (drop (k + n) xs) = take m (drop k xs)"
  by (metis add.commute drop_drop le_add_diff_inverse take_add)

lemma read_loop_run:
  assumes "heap_ok E" "cache_ready E s" "inode_heap s p = Some i" "length_ok (idata i)"
    and "0 \<le> off" "off \<le> dlength (idata i)"
  shows "wpK (read_loop E p sz off acc) (\<lambda>r t. cache_only E s t \<and>
    r = acc @ take (nat sz) (drop (nat off) (file_bytes (contents E s) (idata i)))) s"
  using assms(2-)
proof (induction "nat sz" arbitrary: sz off acc s rule: less_induct)
  case less
  let ?d = "idata i" and ?V = "contents E s"
  let ?Q = "\<lambda>r t. cache_only E s t \<and> r = acc @ take (nat sz) (drop (nat off) (file_bytes ?V ?d))"
  consider "sz \<le> 0" | "0 < sz" "off = dlength ?d" | "0 < sz" "off < dlength ?d"
    using less.prems(5) by linarith
  then show ?case
  proof cases
    case 1
    then show ?thesis
      using less.prems by (subst read_loop_unfold) (simp add: cache_only_refl)
  next
    case 2
    then have "chunk (dlength ?d) sz off \<le> 0" using chunk_end less.prems(4) by simp
    then show ?thesis
      using 2 less.prems wpK_mono[OF byte_to_sector_eof[of E s p i off]]
      by (subst read_loop_unfold) (simp add: cache_only_refl Let_def)
  next
    case 3
    define n where "n = chunk (dlength ?d) sz off"
    note n = chunk_bounds[OF 3(1) less.prems(4) 3(2), folded n_def]
    let ?b = "blk_sector ?V ?d (nat off div 512)"
    have off: "nat off mod 512 = nat (off mod 512)" "off smod 512 = off mod 512"
      using less.prems(4) by (simp_all add: nat_mod_distrib)
    have len: "length (?V ?b) = 512" using cs.view_length less.prems(1) by blast
    let ?bs = "get_bytes (nat (off mod 512)) (nat n) (?V ?b)"
    have "nat (off mod 512) + nat n \<le> 512" "nat off + nat n \<le> nat (dlength ?d)"
      using n less.prems(4) by (simp_all add: nat_le_iff flip: nat_add_distrib)
    then have bs: "?bs = take (nat n) (drop (nat off) (file_bytes ?V ?d))"
      using chunk_of_file[of "nat off" "nat n" ?d ?V] len off(1) by simp
    have rest: "wpK (read_loop E p (sz - n) (off + n) (acc @ ?bs)) ?Q t" if t: "cache_only E s t" for t
    proof (rule wpK_mono)
      show "wpK (read_loop E p (sz - n) (off + n) (acc @ ?bs)) (\<lambda>r u. cache_only E t u \<and>
          r = (acc @ ?bs) @ take (nat (sz - n)) (drop (nat (off + n)) (file_bytes (contents E t) ?d))) t"
        using t n less.prems 3 by (intro less.hyps) (auto simp: cache_only_def cache_only_inode[OF t])
      have "nat (sz - n) = nat sz - nat n" "nat (off + n) = nat off + nat n" "nat n \<le> nat sz"
        using n less.prems(4) by (simp_all add: nat_diff_distrib nat_add_distrib)
      then show "cache_only E t u \<and> r = (acc @ ?bs) @ take (nat (sz - n)) (drop (nat (off + n)) (file_bytes (contents E t) ?d)) \<Longrightarrow> ?Q r u" for r u
        using t cache_only_trans[OF t] bs take_drop_split[of "nat n" "nat sz" "nat off"]
        by (simp add: cache_only_def)
    qed
    have "wpK (cache_get E ?b) (\<lambda>x. wpK (slice x (off mod 512) n) (\<lambda>bs. wpK (read_loop E p (sz - n) (off + n) (acc @ bs)) ?Q)) t"
      if t: "cache_only E s t" for t
      by (rule cs.get_wp) (use t rest len n less.prems(4) in \<open>auto simp: cache_only_def intro: same_upper_trans\<close>)
    then show ?thesis
      using 3 n less.prems
      by (subst read_loop_unfold)
         (auto simp: Let_def off n_def[symmetric] cache_only_inode
           intro!: wpK_mono[OF byte_to_sector_run[OF assms(1) less.prems(1,2,4) 3(2) less.prems(3)]])
  qed
qed

section \<open>Writing inside the file\<close>

lemma block_in_file: "k < nat (dlength d) \<Longrightarrow> k div 512 < nblocks d"
  by (simp add: nblocks_def div_less_iff_less_mult)

lemma blk_sector_stable:
  assumes "layout_ok V d" "a \<in> data_sectors V d" "b < nblocks d"
  shows "blk_sector (V(a := x)) d b = blk_sector V d b"
proof -
  have na: "a \<notin> index_sectors V d" using assms(1,2) by (auto simp: layout_ok_def)
  consider "b < 1" | "1 \<le> b" "b < 129" | "129 \<le> b" by linarith
  then show ?thesis
  proof cases
    case 1
    then show ?thesis by (simp add: blk_sector_def)
  next
    case 2
    then have "ind d \<noteq> a" using na assms(3) by (auto simp: index_sectors_def)
    with 2 show ?thesis by (simp add: blk_sector_def index_words_def)
  next
    case 3
    have "129 + 128 * ((b - 129) div 128) < nblocks d"
      using 3 assms(3) times_div_less_eq_dividend[of 128 "b - 129"] by linarith
    then have "index_words V (din d) ! ((b - 129) div 128) \<noteq> a" using na by (auto simp: index_sectors_def)
    moreover have "din d \<noteq> a" using na 3 assms(3) by (auto simp: index_sectors_def)
    ultimately show ?thesis using 3 by (simp add: blk_sector_def index_words_def)
  qed
qed

lemma sectors_stable:
  assumes "layout_ok V d" "a \<in> data_sectors V d"
  shows "data_sectors (V(a := x)) d = data_sectors V d" "layout_ok (V(a := x)) d"
proof -
  show data: "data_sectors (V(a := x)) d = data_sectors V d"
    using blk_sector_stable[OF assms] by (auto simp: data_sectors_def)
  have "a \<noteq> din d" if "129 < nblocks d"
    using assms that by (auto simp: layout_ok_def index_sectors_def)
  then have "index_sectors (V(a := x)) d = index_sectors V d"
    by (auto simp: index_sectors_def index_words_def)
  moreover have "inj_on (blk_sector (V(a := x)) d) {..<nblocks d}"
    using assms(1) blk_sector_stable[OF assms]
    by (simp add: layout_ok_def inj_on_def)
  ultimately show "layout_ok (V(a := x)) d" using assms(1) data by (simp add: layout_ok_def)
qed

text \<open>Writing a chunk into its sector writes it into the abstract file, and nothing else.\<close>

lemma file_bytes_write:
  assumes "layout_ok V d" "k mod 512 + length xs \<le> 512" "k + length xs \<le> nat (dlength d)" "xs \<noteq> []"
    and "length (V (blk_sector V d (k div 512))) = 512"
  shows "file_bytes (V(blk_sector V d (k div 512) :=
      put_bytes (k mod 512) xs (V (blk_sector V d (k div 512))))) d = put_bytes k xs (file_bytes V d)"
proof (rule nth_equalityI)
  let ?a = "blk_sector V d (k div 512)"
  let ?V = "V(?a := put_bytes (k mod 512) xs (V ?a))"
  have kb: "k div 512 < nblocks d" using assms(3,4) by (intro block_in_file) (cases xs; simp)
  then have a: "?a \<in> data_sectors V d" by (simp add: data_sectors_def)
  show "length (file_bytes ?V d) = length (put_bytes k xs (file_bytes V d))" using assms(3) by simp
  fix j assume "j < length (file_bytes ?V d)"
  then have j: "j < nat (dlength d)" by simp
  then have jb: "j div 512 < nblocks d" by (rule block_in_file)
  have same: "file_bytes ?V d ! j = ?V (blk_sector V d (j div 512)) ! (j mod 512)"
    using j blk_sector_stable[OF assms(1) a jb] by (simp add: file_byte_def)
  show "file_bytes ?V d ! j = put_bytes k xs (file_bytes V d) ! j"
  proof (cases "j div 512 = k div 512")
    case True
    have jk: "j = 512 * (k div 512) + j mod 512" "k = 512 * (k div 512) + k mod 512"
      using mult_div_mod_eq[of 512 j] mult_div_mod_eq[of 512 k] True by linarith+
    have "k mod 512 \<le> j mod 512 \<longleftrightarrow> k \<le> j" "j mod 512 < k mod 512 + length xs \<longleftrightarrow> j < k + length xs"
      "j mod 512 - k mod 512 = j - k"
      using jk by linarith+
    then show ?thesis
      using True same j assms by (simp add: nth_put_bytes file_byte_def)
  next
    case False
    then have "blk_sector V d (j div 512) \<noteq> ?a"
      using assms(1) jb kb by (auto simp: layout_ok_def inj_on_def)
    moreover have "\<not> (k \<le> j \<and> j < k + length xs)"
    proof
      assume jk: "k \<le> j \<and> j < k + length xs"
      then have "k mod 512 + (j - k) < 512" using assms(2) by linarith
      from div_mod_within(1)[OF this] jk False show False by simp
    qed
    ultimately show ?thesis using same j assms(3) by (auto simp: nth_put_bytes file_byte_def)
  qed
qed

lemma put_bytes_append:
  "k + length xs + length ys \<le> length F \<Longrightarrow>
   put_bytes (k + length xs) ys (put_bytes k xs F) = put_bytes k (xs @ ys) F"
  by (cases xs) (auto simp: put_bytes_def min_def add.commute add.left_commute)

lemma length_get_bytes_le: "length (get_bytes k n xs) \<le> n"
  by (simp add: get_bytes_def)

lemma get_bytes_append: "get_bytes k m xs @ get_bytes (k + m) n xs = get_bytes k (m + n) xs"
  by (simp add: get_bytes_def take_add add.commute)

text \<open>What a write of \<open>xs\<close> at \<open>off\<close> guarantees of the state.\<close>

definition wrote :: "'d env \<Rightarrow> inode_disk \<Rightarrow> nat \<Rightarrow> byte list \<Rightarrow> 'd fs \<Rightarrow> 'd fs \<Rightarrow> bool" where
  "wrote E d off xs s t \<longleftrightarrow> cache_ready E t \<and> same_upper s t \<and> layout_ok (contents E t) d \<and>
     data_sectors (contents E t) d = data_sectors (contents E s) d \<and>
     (\<forall>a. a \<notin> data_sectors (contents E s) d \<longrightarrow> contents E t a = contents E s a) \<and>
     file_bytes (contents E t) d = put_bytes off xs (file_bytes (contents E s) d)"

lemma wrote_nothing: "cache_ready E s \<Longrightarrow> layout_ok (contents E s) d \<Longrightarrow> wrote E d k [] s s"
  by (simp add: wrote_def put_bytes_def)

lemma wrote_append:
  assumes "wrote E d k xs s t" "wrote E d (k + length xs) ys t u" "k + length xs + length ys \<le> nat (dlength d)"
  shows "wrote E d k (xs @ ys) s u"
  using assms same_upper_trans[of s t u] put_bytes_append[of k xs ys "file_bytes (contents E s) d"]
  by (auto simp: wrote_def)

lemma write_loop_unfold:
  "write_loop E p buf sz off w = (if sz \<le> 0 then retK w else
     bindK (byte_to_sector E p off) (\<lambda>sid. bindK (inodeK p) (\<lambda>i. let n = chunk (dlength (idata i)) sz off in
     if n \<le> 0 then retK w else bindK (slice buf w n) (\<lambda>xs. thenK (cache_put E sid (off smod 512) xs)
       (write_loop E p buf (sz - n) (off + n) (w + n))))))"
  by (subst write_loop.simps) (simp only: Let_def chunk_def)

lemma write_chunk_run:
  assumes "cache_ready E s" "layout_ok (contents E s) d" "0 \<le> off" "xs \<noteq> []"
    and "off mod 512 + int (length xs) \<le> 512" "off + int (length xs) \<le> dlength d"
  shows "wpK (cache_put E (blk_sector (contents E s) d (nat off div 512)) (off mod 512) xs)
    (\<lambda>_ t. wrote E d (nat off) xs s t) s"
proof (rule cs.put_wp[OF assms(1)])
  let ?V = "contents E s" and ?k = "nat off"
  let ?a = "blk_sector ?V d (?k div 512)"
  show "0 \<le> off mod 512" by simp
  show n: "nat (off mod 512) + length xs \<le> 512" using assms(5) by linarith
  fix t assume t: "cache_ready E t" "same_upper s t"
    "contents E t = ?V(?a := put_bytes (nat (off mod 512)) xs (?V ?a))"
  have k: "?k + length xs \<le> nat (dlength d)" "nat (off mod 512) = ?k mod 512"
    using assms(3,6) by (simp_all add: nat_mod_distrib le_nat_iff)
  then have "?k < nat (dlength d)" using assms(4) by (cases xs) auto
  then have a: "?a \<in> data_sectors ?V d" using block_in_file by (auto simp: data_sectors_def)
  have "length (?V ?a) = 512" using cs.view_length assms(1) by blast
  then have "file_bytes (contents E t) d = put_bytes ?k xs (file_bytes ?V d)"
    using file_bytes_write[OF assms(2), of ?k xs] n k assms(4) t(3) by simp
  with t sectors_stable[OF assms(2) a] a show "wrote E d ?k xs s t"
    by (auto simp: wrote_def)
qed

lemma wrote_inode: "wrote E d k xs s t \<Longrightarrow> inode_heap t = inode_heap s"
  by (simp add: wrote_def same_upper_fs)

lemma cache_only_wrote: "cache_only E s t \<Longrightarrow> wrote E d k xs t u \<Longrightarrow> wrote E d k xs s u"
  by (auto simp: wrote_def cache_only_def intro: same_upper_trans)

lemma write_loop_run:
  assumes "heap_ok E" "inode_heap s p = Some i"
    and "cache_ready E s" "layout_ok (contents E s) (idata i)" "0 \<le> sz" "0 \<le> off" "off + sz \<le> dlength (idata i)"
    and "0 \<le> w" "w + sz \<le> int (length buf)"
  shows "wpK (write_loop E p buf sz off w) (\<lambda>r t. r = w + sz \<and>
    wrote E (idata i) (nat off) (get_bytes (nat w) (nat sz) buf) s t) s"
  using assms(2-)
proof (induction "nat sz" arbitrary: sz off w s rule: less_induct)
  case less
  let ?d = "idata i" and ?V = "contents E s"
  let ?Q = "\<lambda>r t. r = w + sz \<and> wrote E ?d (nat off) (get_bytes (nat w) (nat sz) buf) s t"
  show ?case
  proof (cases "sz = 0")
    case True
    then show ?thesis
      using less.prems by (subst write_loop_unfold) (simp add: wrote_nothing get_bytes_def)
  next
    case False
    then have sz: "0 < sz" and lt: "off < dlength ?d" using less.prems(4-6) by linarith+
    define n where "n = chunk (dlength ?d) sz off"
    note n = chunk_bounds[OF sz less.prems(5) lt, folded n_def]
    let ?b = "blk_sector ?V ?d (nat off div 512)" and ?xs = "get_bytes (nat w) (nat n) buf"
    have lok: "length_ok ?d" using less.prems(3) by (simp add: layout_ok_def)
    have w: "nat w + nat n \<le> length buf" using n less.prems(7,8) by linarith
    then have xs: "length ?xs = nat n" by simp
    then have ne: "?xs \<noteq> []" using n(1) by auto
    have rest: "wpK (write_loop E p buf (sz - n) (off + n) (w + n)) ?Q u"
      if u: "wrote E ?d (nat off) ?xs s u" for u
    proof (rule wpK_mono)
      show "wpK (write_loop E p buf (sz - n) (off + n) (w + n)) (\<lambda>r v. r = (w + n) + (sz - n) \<and>
          wrote E ?d (nat (off + n)) (get_bytes (nat (w + n)) (nat (sz - n)) buf) u v) u"
        using u n less.prems sz by (intro less.hyps) (auto simp: wrote_def wrote_inode[OF u])
      have e: "nat (off + n) = nat off + length ?xs" "nat (w + n) = nat w + nat n" "nat (sz - n) = nat sz - nat n"
        "nat n \<le> nat sz"
        using n less.prems(5,7) xs by (simp_all add: nat_add_distrib nat_diff_distrib)
      have f: "nat off + length ?xs + length (get_bytes (nat (w + n)) (nat (sz - n)) buf) \<le> nat (dlength ?d)"
        using length_get_bytes_le[of "nat (w + n)" "nat (sz - n)" buf] xs less.prems(4-6) n by linarith
      show "r = (w + n) + (sz - n) \<and> wrote E ?d (nat (off + n)) (get_bytes (nat (w + n)) (nat (sz - n)) buf) u v \<Longrightarrow> ?Q r v" for r v
        using wrote_append[OF u _ f] e get_bytes_append[of "nat w" "nat n" buf "nat sz - nat n"] by simp
    qed
    have "wpK (cache_put E ?b (off mod 512) ?xs) (\<lambda>_. wpK (write_loop E p buf (sz - n) (off + n) (w + n)) ?Q) t"
      if t: "cache_only E s t" for t
    proof (rule wpK_mono)
      show "wpK (cache_put E ?b (off mod 512) ?xs) (\<lambda>_ u. wrote E ?d (nat off) ?xs t u) t"
        using write_chunk_run[of E t ?d off ?xs] t less.prems(3,5) n xs ne
        by (auto simp: cache_only_def simp del: length_get_bytes)
      show "wrote E ?d (nat off) ?xs t u \<Longrightarrow> wpK (write_loop E p buf (sz - n) (off + n) (w + n)) ?Q u" for u
        using rest cache_only_wrote[OF t] by blast
    qed
    then show ?thesis
      using sz n w less.prems
      by (subst write_loop_unfold)
         (auto simp: Let_def n_def[symmetric] cache_only_inode
           intro!: wpK_mono[OF byte_to_sector_run[OF assms(1) less.prems(2,1,5) lt lok]])
  qed
qed

section \<open>The operations with their locking\<close>

lemma same_upper_inode_back:
  fixes s t :: "'d fs"
  shows "same_upper (s\<lparr>inode_heap := h\<rparr>) t \<Longrightarrow> same_upper (s\<lparr>inode_heap := g\<rparr>) (t\<lparr>inode_heap := g\<rparr>)"
  by (cases s; cases t) (simp add: same_upper_def)

lemma heap_restore: "inode_heap s p = Some i \<Longrightarrow> s\<lparr>inode_heap := (inode_heap s)(p \<mapsto> i)\<rparr> = s"
  by (simp add: fun_upd_idem)

lemma iio_id: "iio i = None \<Longrightarrow> i\<lparr>iio := None\<rparr> = i"
  by (cases i) simp

lemma iread_cnt_id: "iread_cnt i = 0 \<Longrightarrow> i\<lparr>iread_cnt := 0\<rparr> = i"
  by (cases i) simp

lemma wrote_heap:
  "wrote E d k xs (s\<lparr>inode_heap := h\<rparr>) t \<Longrightarrow> wrote E d k xs s (t\<lparr>inode_heap := inode_heap s\<rparr>)"
  using same_upper_inode_back[where s = s and h = h and t = t and g = "inode_heap s"] by (simp add: wrote_def)

lemma cache_only_heap:
  "cache_only E (s\<lparr>inode_heap := h\<rparr>) t \<Longrightarrow> cache_only E s (t\<lparr>inode_heap := inode_heap s\<rparr>)"
  using same_upper_inode_back[where s = s and h = h and t = t and g = "inode_heap s"] by (simp add: cache_only_def)

lemma inode_read_at_run:
  assumes "heap_ok E" "cache_ready E s" "inode_heap s p = Some i" "iio i = None" "length_ok (idata i)" "0 \<le> off"
  shows "wpK (inode_read_at E p sz off) (\<lambda>r t. cache_only E s t \<and>
    r = take (nat sz) (drop (nat off) (file_bytes (contents E s) (idata i)))) s"
proof -
  let ?j = "i\<lparr>iread_cnt := iread_cnt i + 1, iio := None\<rparr>"
  let ?s = "s\<lparr>inode_heap := (inode_heap s)(p \<mapsto> ?j)\<rparr>"
  let ?Q = "\<lambda>r t. cache_only E s t \<and> r = take (nat sz) (drop (nat off) (file_bytes (contents E s) (idata i)))"
  have fin: "wpK (thenK (read_end p) (retK r)) ?Q t"
    if t: "cache_only E ?s t" and r: "r = take (nat sz) (drop (nat off) (file_bytes (contents E s) (idata i)))" for r t
  proof -
    have h: "inode_heap t = (inode_heap s)(p \<mapsto> ?j)" using cache_only_inode[OF t] by simp
    have "(inode_heap s)(p \<mapsto> i) = inode_heap s" using assms(3) by (simp add: fun_upd_idem)
    with cache_only_heap[OF t] h r assms(4) show ?thesis
      by (simp add: read_end_def signal_inode_def iio_id iread_cnt_id)
  qed
  have "wpK (if off > dlength (idata i) then thenK (read_end p) (retK [])
      else bindK (read_loop E p sz off []) (\<lambda>acc. thenK (read_end p) (retK acc))) ?Q ?s"
  proof (cases "off > dlength (idata i)")
    case True
    then show ?thesis
      using fin[of ?s "[]"] assms(2) by (simp add: cache_only_refl)
  next
    case False
    have "wpK (read_loop E p sz off []) (\<lambda>r t. cache_only E ?s t \<and>
        r = [] @ take (nat sz) (drop (nat off) (file_bytes (contents E ?s) (idata ?j)))) ?s"
      by (rule read_loop_run) (use assms False in simp_all)
    then have "wpK (read_loop E p sz off []) (\<lambda>acc. wpK (thenK (read_end p) (retK acc)) ?Q) ?s"
      by (rule wpK_mono) (rule fin, simp_all)
    with False show ?thesis by simp
  qed
  with assms(3,4) show ?thesis
    by (simp add: inode_read_at_def read_inode_def)
qed

lemma inode_write_at_run:
  assumes "heap_ok E" "cache_ready E s" "inode_heap s p = Some i" "idle i" "deny_write_cnt i = 0"
    and "layout_ok (contents E s) (idata i)" "0 \<le> sz" "sz \<le> int (length buf)" "0 \<le> off"
    and "off + sz \<le> dlength (idata i)"
  shows "wpK (inode_write_at E p buf sz off) (\<lambda>r t. r = sz \<and>
    wrote E (idata i) (nat off) (take (nat sz) buf) s t) s"
proof -
  let ?j = "i\<lparr>iio := Some (cur_thread s)\<rparr>"
  let ?s = "s\<lparr>inode_heap := (inode_heap s)(p \<mapsto> ?j)\<rparr>"
  have lim: "dlength (idata i) < 2 ^ 31" using assms(6) by (simp add: layout_ok_def length_ok_def MAX_LENGTH_def)
  have ow: "i32 (off + sz) = off + sz" using assms(7,9,10) lim by simp
  have "wpK (write_loop E p buf sz off 0) (\<lambda>r t. r = 0 + sz \<and>
      wrote E (idata ?j) (nat off) (get_bytes (nat 0) (nat sz) buf) ?s t) ?s"
    by (rule write_loop_run) (use assms in \<open>simp_all add: idle_def\<close>)
  then have "wpK (write_loop E p buf sz off 0) (\<lambda>r. wpK (thenK (write_end p) (retK r))
      (\<lambda>r t. r = sz \<and> wrote E (idata i) (nat off) (take (nat sz) buf) s t)) ?s"
  proof (rule wpK_mono)
    fix r t assume "r = 0 + sz \<and> wrote E (idata ?j) (nat off) (get_bytes (nat 0) (nat sz) buf) ?s t"
    then have r: "r = sz" and t: "wrote E (idata i) (nat off) (take (nat sz) buf) ?s t"
      by (simp_all add: get_bytes_def)
    have "same_upper ?s t" using t by (simp add: wrote_def)
    then have h: "inode_heap t = (inode_heap s)(p \<mapsto> ?j)" "cur_thread t = cur_thread s"
      using same_upper_fs(1,2)[of ?s t] by simp_all
    have "(inode_heap s)(p \<mapsto> i) = inode_heap s" using assms(3) by (simp add: fun_upd_idem)
    with wrote_heap[OF t] h r assms(4) show "wpK (thenK (write_end p) (retK r))
        (\<lambda>r t. r = sz \<and> wrote E (idata i) (nat off) (take (nat sz) buf) s t) t"
      by (simp add: write_end_def signal_inode_def idle_def iio_id)
  qed
  with assms(3-5,10) ow show ?thesis
    by (simp add: inode_write_at_def write_inode_def idle_def)
qed

section \<open>A small open file for concrete runs\<close>

definition sim_inode :: inode where
  "sim_inode = \<lparr>isector = 2, open_cnt = 1, removed = False, deny_write_cnt = 0,
     idata = zero_disk\<lparr>dlength := 5, sp := 3\<rparr>, iread_cnt = 0, iio = None\<rparr>"

definition sim_open :: "(u32 \<Rightarrow> byte list) fs" where
  "sim_open = sim_fs\<lparr>inode_heap := [0 \<mapsto> sim_inode], inode_brk := 1, open_inodes := [0]\<rparr>"

lemma sim_open_ready: "cache_ready sim_env sim_open"
  using sim_fs_ready by (simp add: sim_open_def)

lemma sim_open_inode: "inode_heap sim_open 0 = Some sim_inode"
  by (simp add: sim_open_def)

lemma sim_heap_ok: "heap_ok sim_env"
  using sim_env_lib[of "{}"] by (simp add: fs_lib_ok_def)

lemma sim_inode_simps: "dlength (idata sim_inode) = 5" "iio sim_inode = None" "deny_write_cnt sim_inode = 0"
    "idle sim_inode" "sp (idata sim_inode) = 3"
  by (simp_all add: sim_inode_def idle_def)

lemma sim_length_ok: "length_ok (idata sim_inode)"
  by (simp add: length_ok_def sim_inode_simps MAX_LENGTH_def)

lemma sim_layout_ok: "layout_ok V (idata sim_inode)"
  using sim_length_ok
  by (simp add: layout_ok_def data_sectors_def index_sectors_def nblocks_def sim_inode_simps inj_on_def)

section \<open>Properties\<close>

text \<open>
  C9. \<^verbatim>\<open>byte_to_sector\<close> translates every offset inside the file to the sector that the
  direct, indirect or doubly indirect pointers name for its block, and an offset at or after
  the end to \<open>-1\<close>; no sector's bytes change.
\<close>

theorem byte_to_sector_follows_pointers:
  assumes "heap_ok E" "cache_ready E s" "inode_heap s p = Some i" "length_ok (idata i)" "0 \<le> pos"
  shows "\<exists>t. byte_to_sector E p pos s = Inr (if pos < dlength (idata i)
      then blk_sector (contents E s) (idata i) (nat pos div 512) else - 1, t) \<and>
    contents E t = contents E s \<and> same_upper s t"
proof (cases "pos < dlength (idata i)")
  case True
  then show ?thesis
    using byte_to_sector_run[OF assms(1-3,5) True assms(4)] by (auto simp: wpK_iff cache_only_def)
next
  case False
  then show ?thesis using assms(3) by (simp add: byte_to_sector_def inodeK_def kstep)
qed

theorem byte_to_sector_follows_pointers_witness:
  "\<exists>t. byte_to_sector sim_env 0 4 sim_open = Inr (3, t) \<and> contents sim_env t = contents sim_env sim_open"
  using byte_to_sector_follows_pointers[OF sim_heap_ok sim_open_ready sim_open_inode sim_length_ok, of 4]
  by (auto simp: sim_inode_simps blk_sector_def)

text \<open>
  C10. \<^verbatim>\<open>inode_read_at\<close> returns the bytes of the file from \<open>offset\<close> on, as many as were asked
  for or as are left before the end of the file, and changes nothing but what is cached.
\<close>

theorem inode_read_at_correct:
  assumes "heap_ok E" "cache_ready E s" "inode_heap s p = Some i" "iio i = None" "length_ok (idata i)"
    and "0 \<le> offset"
  shows "\<exists>t. inode_read_at E p sz offset s =
      Inr (take (nat sz) (drop (nat offset) (file_bytes (contents E s) (idata i))), t) \<and>
    cache_ready E t \<and> contents E t = contents E s \<and> same_upper s t"
  using inode_read_at_run[OF assms, of sz] by (auto simp: wpK_iff cache_only_def)

theorem inode_read_at_correct_witness:
  "\<exists>t. inode_read_at sim_env 0 100 2 sim_open =
      Inr (take (nat 100) (drop (nat 2) (file_bytes (contents sim_env sim_open) (idata sim_inode))), t)"
  using inode_read_at_correct[OF sim_heap_ok sim_open_ready sim_open_inode sim_inode_simps(2) sim_length_ok, of 2 100]
  by auto

text \<open>
  C11. Writing inside the file: \<^verbatim>\<open>inode_write_at\<close> writes all of it, the bytes of the file
  from \<open>offset\<close> on are replaced and the others kept, no sector outside the file's data
  blocks changes, and the inode is left as it was.
\<close>

theorem inode_write_at_in_place:
  assumes "heap_ok E" "cache_ready E s" "inode_heap s p = Some i" "idle i" "deny_write_cnt i = 0"
    and "layout_ok (contents E s) (idata i)" "0 \<le> offset" "offset + int (length buf) \<le> dlength (idata i)"
  shows "\<exists>t. inode_write_at E p buf (int (length buf)) offset s = Inr (int (length buf), t) \<and>
    file_bytes (contents E t) (idata i) = put_bytes (nat offset) buf (file_bytes (contents E s) (idata i)) \<and>
    (\<forall>a. a \<notin> data_sectors (contents E s) (idata i) \<longrightarrow> contents E t a = contents E s a) \<and>
    cache_ready E t \<and> same_upper s t"
  using inode_write_at_run[OF assms(1-6), of "int (length buf)" buf offset] assms(7,8)
  by (auto simp: wpK_iff wrote_def)

theorem inode_write_at_in_place_witness:
  "\<exists>t. inode_write_at sim_env 0 [7, 8] 2 3 sim_open = Inr (2, t) \<and>
    file_bytes (contents sim_env t) (idata sim_inode) =
      put_bytes 3 [7, 8] (file_bytes (contents sim_env sim_open) (idata sim_inode))"
  using inode_write_at_in_place[OF sim_heap_ok sim_open_ready sim_open_inode sim_inode_simps(4,3) sim_layout_ok,
      of 3 "[7, 8]"]
  by (auto simp: sim_inode_simps)

text \<open>
  Round trip: reading back at the offset of a write inside the file returns the bytes
  written.
\<close>

lemma inode_write_read_roundtrip:
  assumes "heap_ok E" "cache_ready E s" "inode_heap s p = Some i" "idle i" "deny_write_cnt i = 0"
    and "layout_ok (contents E s) (idata i)" "0 \<le> offset" "offset + int (length buf) \<le> dlength (idata i)"
  shows "\<exists>t. bindK (inode_write_at E p buf (int (length buf)) offset)
    (\<lambda>n. inode_read_at E p n offset) s = Inr (buf, t) \<and> cache_ready E t"
proof -
  obtain t where t: "inode_write_at E p buf (int (length buf)) offset s = Inr (int (length buf), t)"
      "wrote E (idata i) (nat offset) (take (nat (int (length buf))) buf) s t"
    using inode_write_at_run[OF assms(1-6), of "int (length buf)" buf offset] assms(7,8) by (auto simp: wpK_iff)
  have h: "inode_heap t p = Some i" using wrote_inode[OF t(2)] assms(3) by simp
  have "file_bytes (contents E t) (idata i) = put_bytes (nat offset) buf (file_bytes (contents E s) (idata i))"
    using t(2) by (simp add: wrote_def)
  moreover have "nat offset + length buf \<le> length (file_bytes (contents E s) (idata i))"
    using assms(7,8) by simp
  ultimately have "take (length buf) (drop (nat offset) (file_bytes (contents E t) (idata i))) = buf"
    using get_put_bytes[of "nat offset" buf "file_bytes (contents E s) (idata i)" "length buf"]
    by (simp add: get_bytes_def)
  moreover have "cache_ready E t" "iio i = None" "length_ok (idata i)"
    using t(2) assms(4,6) by (simp_all add: wrote_def idle_def layout_ok_def)
  ultimately show ?thesis
    using inode_read_at_run[OF assms(1) _ h _ _ assms(7), of "int (length buf)"] t(1)
    by (auto simp: wpK_iff kstep cache_only_def)
qed

text \<open>
  Write denial: while \<open>deny_write_cnt\<close> is not zero, as it is for a running executable,
  \<^verbatim>\<open>inode_write_at\<close> writes nothing, returns 0 and leaves the whole state as it was.
\<close>

lemma inode_write_at_denied:
  assumes "inode_heap s p = Some i" "idle i" "deny_write_cnt i \<noteq> 0"
  shows "inode_write_at E p buf sz offset s = Inr (0, s)"
proof -
  have "wpK (inode_write_at E p buf sz offset) (\<lambda>r t. r = 0 \<and> t = s) s"
    using assms by (simp add: inode_write_at_def write_inode_def write_end_def signal_inode_def idle_def
        iio_id fun_upd_idem)
  then show ?thesis by (simp add: wpK_iff)
qed

end
