(* ===== verification/Inode_Life.thy ===== *)
theory Inode_Life
  imports Inode_Io
begin

text \<open>
  The life of an inode: creating it on disk, opening it, sharing it between openers and
  closing it, and what growing a file does. The theorems: opening a sector twice gives the
  same in-memory inode, opening and closing leave disk and tables as they were, a new small
  file reads as zeros; and three defects: on a full disk creation overwrites sector 0, a
  write that overlaps the end of the file inside its last block runs \<^verbatim>\<open>memset\<close> with a
  negative count, and the file system lock is not reentrant where its callers need it.
\<close>

section \<open>Opening\<close>

lemma cache_wf_fs [simp]:
  "cache_wf E H (s\<lparr>inode_heap := a\<rparr>) = cache_wf E H s"
  by (simp add: cache_wf_def cache_core_def)

lemma same_upper_inode: 
  fixes s t :: "'d fs"
  shows "same_upper s t \<Longrightarrow> same_upper (s\<lparr>inode_heap := g\<rparr>) (t\<lparr>inode_heap := g\<rparr>)"
  by (cases s; cases t) (simp add: same_upper_def)

lemma same_upper_file_lock:
  fixes s t :: "'d fs"
  shows "same_upper s t \<Longrightarrow> same_upper (s\<lparr>file_lock := g\<rparr>) (t\<lparr>file_lock := g\<rparr>)"
  by (cases s; cases t) (simp add: same_upper_def)

lemma same_upper_free_map:
  fixes s t :: "'d fs"
  shows "same_upper s t \<Longrightarrow> same_upper (s\<lparr>free_map := g\<rparr>) (t\<lparr>free_map := g\<rparr>)"
  by (cases s; cases t) (simp add: same_upper_def)

text \<open>The bracket in which an inode is read from its sector.\<close>

lemma load_bracket_wp:
  fixes s :: "'d fs" and m :: "byte list \<Rightarrow> ('d fs, unit) K"
  assumes "cache_ready E s"
    and "\<And>t. cache_ready E t \<Longrightarrow> contents E t = contents E s \<Longrightarrow>
      same_upper (s\<lparr>inode_heap := f (contents E s a)\<rparr>) t \<Longrightarrow> Q () t"
    and "\<And>x t. same_upper s t \<Longrightarrow> wpK (m x) (\<lambda>_ u. u = t\<lparr>inode_heap := f x\<rparr>) t"
  shows "wpK (bindK (cache_block E a ty) (\<lambda>c. thenK (write_cache c) (bindK (cacheK c) (\<lambda>b.
     thenK (m (cdata b)) (end_write c))))) Q s"
  unfolding wpK_bind
proof (rule wpK_mono[OF cache_block_run[OF assms(1)]])
  fix c t
  assume "cache_wf E {} t \<and> contents E t = contents E s \<and> same_upper s t \<and>
    (\<exists>b. cache_heap t c = Some b \<and> csid b = a \<and> (ty \<longrightarrow> DB b))"
  then obtain b where t: "cache_wf E {} t" "contents E t = contents E s" "same_upper s t"
      and b: "cache_heap t c = Some b" "csid b = a" by blast
  obtain u where u: "write_cache c t = Inr ((), u)" "cache_wf E {c} u" "contents E u = contents E t"
      "same_upper t u" "cache_heap u c = Some (b\<lparr>cio := Some (cur_thread t)\<rparr>)"
    using write_cache_run[OF t(1) b(1)] by (auto simp: wpK_iff)
  have x: "cdata b = contents E s a"
    using contents_hit[of E "{}" t c b] t b by (simp add: cache_wf_def)
  let ?v = "u\<lparr>inode_heap := f (contents E s a)\<rparr>"
  have su: "same_upper s u" using t(3) u(4) by (rule same_upper_trans)
  then have m: "m (contents E s a) u = Inr ((), ?v)" using assms(3)[of u] by (auto simp: wpK_iff)
  obtain w where w: "end_write c ?v = Inr ((), w)" "cache_wf E {} w" "same_upper ?v w" "contents E w = contents E ?v"
    using end_write_run[of E c ?v] u by (auto simp: wpK_iff)
  have "Q () w"
    using assms(1,2) w u(3) t(2) same_upper_trans[OF same_upper_inode[OF su] w(3)]
    by (simp add: cache_ready_def)
  with u m w x show "wpK (thenK (write_cache c) (bindK (cacheK c) (\<lambda>b. thenK (m (cdata b)) (end_write c)))) Q t"
    by (simp add: wpK_def kstep cacheK_def)
qed

definition loaded :: "u32 \<Rightarrow> int \<Rightarrow> byte list \<Rightarrow> inode" where
  "loaded a cnt x = \<lparr>isector = a, open_cnt = cnt, removed = False, deny_write_cnt = 0,
     idata = decode_inode x, iread_cnt = 0, iio = None\<rparr>"

definition with_inode :: "'d fs \<Rightarrow> inode \<Rightarrow> 'd fs" where
  "with_inode s i = s\<lparr>inode_brk := inode_brk s + 1, open_inodes := inode_brk s # open_inodes s,
     inode_heap := (inode_heap s)(inode_brk s \<mapsto> i), file_lock := None\<rparr>"

lemma load_inode_run:
  assumes "heap_ok E" "cache_ready E s" "file_lock s = Some (cur_thread s)"
  shows "wpK (load_inode E a cnt) (\<lambda>r t. r = Some (inode_brk s) \<and> cache_ready E t \<and>
    contents E t = contents E s \<and> same_upper (with_inode s (loaded a cnt (contents E s a))) t) s"
proof -
  let ?p = "inode_brk s"
  let ?i = "\<lambda>d l. \<lparr>isector = a, open_cnt = cnt, removed = False, deny_write_cnt = 0, idata = d,
    iread_cnt = 0, iio = l\<rparr>"
  let ?s = "s\<lparr>inode_brk := ?p + 1, open_inodes := ?p # open_inodes s,
    inode_heap := (inode_heap s)(?p \<mapsto> ?i zero_disk (Some (cur_thread s)))\<rparr>"
  let ?f = "\<lambda>x. (inode_heap s)(?p \<mapsto> ?i (decode_inode x) (Some (cur_thread s)))"
  have "wpK (bindK (cache_block E a READ_BLOCK) (\<lambda>c. thenK (write_cache c) (bindK (cacheK c) (\<lambda>b.
      thenK (upd_inode ?p (\<lambda>i. i\<lparr>idata := decode_inode (cdata b)\<rparr>)) (end_write c)))))
    (\<lambda>_. wpK (thenK (inode_release ?p) (thenK file_lock_release (retK (Some ?p))))
      (\<lambda>r t. r = Some ?p \<and> cache_ready E t \<and> contents E t = contents E s \<and>
        same_upper (with_inode s (loaded a cnt (contents E s a))) t)) ?s"
  proof (rule load_bracket_wp[where f = ?f])
    show "cache_ready E ?s" using assms(2) by simp
    show "wpK (upd_inode ?p (\<lambda>i. i\<lparr>idata := decode_inode x\<rparr>)) (\<lambda>_ u. u = t\<lparr>inode_heap := ?f x\<rparr>) t"
      if "same_upper ?s t" for x t
      using same_upper_fs(2)[OF that] by simp
    fix t assume t: "cache_ready E t" "contents E t = contents E ?s"
      "same_upper (?s\<lparr>inode_heap := ?f (contents E ?s a)\<rparr>) t"
    have "same_upper (?s\<lparr>inode_heap := (inode_heap s)(?p \<mapsto> loaded a cnt (contents E s a)), file_lock := None\<rparr>)
       (t\<lparr>inode_heap := (inode_heap s)(?p \<mapsto> loaded a cnt (contents E s a)), file_lock := None\<rparr>)"
      using same_upper_file_lock[OF same_upper_inode_back[OF t(3)]] by simp
    then show "wpK (thenK (inode_release ?p) (thenK file_lock_release (retK (Some ?p))))
      (\<lambda>r t. r = Some ?p \<and> cache_ready E t \<and> contents E t = contents E s \<and>
        same_upper (with_inode s (loaded a cnt (contents E s a))) t) t"
      using t assms(3) same_upper_fs(1,2,8)[OF t(3)]
      by (simp add: loaded_def with_inode_def)
  qed
  with assms(1) show ?thesis
    by (simp add: load_inode_def heap_ok_def)
qed

lemma inode_open_new_run:
  assumes "heap_ok E" "cache_ready E s" "file_lock s = None"
    and "find_open (inode_heap s) a (open_inodes s) = Inr None"
  shows "wpK (inode_open E a) (\<lambda>r t. r = Some (inode_brk s) \<and> cache_ready E t \<and>
    contents E t = contents E s \<and> same_upper (with_inode s (loaded a 1 (contents E s a))) t) s"
proof -
  let ?s = "s\<lparr>file_lock := Some (cur_thread s)\<rparr>"
  have "with_inode ?s i = with_inode s i" for i by (simp add: with_inode_def)
  then show ?thesis
    using load_inode_run[OF assms(1), of ?s a 1] assms(2-) by (simp add: inode_open_def)
qed

text \<open>A sector that is open already: the same inode, with one more opener.\<close>

lemma inode_open_again_eq:
  assumes "file_lock s = None" "find_open (inode_heap s) a (open_inodes s) = Inr (Some p)"
    and "inode_heap s p = Some i" "iio i = None"
  shows "inode_open E a s =
    Inr (Some p, s\<lparr>inode_heap := (inode_heap s)(p \<mapsto> i\<lparr>open_cnt := open_cnt i + 1\<rparr>)\<rparr>)"
proof -
  have e: "i\<lparr>open_cnt := open_cnt i + 1, iio := None\<rparr> = i\<lparr>open_cnt := open_cnt i + 1\<rparr>"
    using assms(4) by (cases i) simp
  have f: "s\<lparr>inode_heap := h, file_lock := None\<rparr> = s\<lparr>inode_heap := h\<rparr>" for h
    using assms(1) by (cases s) simp
  have "wpK (inode_open E a) (\<lambda>r t. r = Some p \<and>
      t = s\<lparr>inode_heap := (inode_heap s)(p \<mapsto> i\<lparr>open_cnt := open_cnt i + 1\<rparr>)\<rparr>) s"
    using assms by (simp add: inode_open_def inode_reopen_def e f)
  then show ?thesis by (simp add: wpK_iff)
qed

section \<open>Closing\<close>

lemma inode_close_last_run:
  assumes "cache_ready E s" "file_lock s = None" "inode_heap s p = Some i" "open_cnt i = 1" "\<not> removed i"
    and "disk_wf (idata i)"
  shows "wpK (inode_close E (Some p)) (\<lambda>_ t. cache_ready E t \<and>
    contents E t = (contents E s)(isector i := encode_inode (idata i)) \<and>
    same_upper (s\<lparr>open_inodes := remove1 p (open_inodes s), inode_heap := (inode_heap s)(p := None)\<rparr>) t) s"
proof -
  let ?i = "i\<lparr>open_cnt := 0\<rparr>"
  let ?s = "s\<lparr>file_lock := Some (cur_thread s), inode_heap := (inode_heap s)(p \<mapsto> ?i),
    open_inodes := remove1 p (open_inodes s)\<rparr>"
  have len: "length (encode_inode (idata i)) = 512" using assms(6) by simp
  have "wpK (cache_put E (isector i) 0 (encode_inode (idata i))) (\<lambda>_. wpK (bindK (inodeK p) (\<lambda>inode.
      thenK (whenK (removed inode) (thenK (inode_delete E p)
        (thenK (free_map_release E (isector inode) 1) (drop_cached (isector inode)))))
      (thenK (modK (\<lambda>s. s\<lparr>inode_heap := (inode_heap s)(p := None)\<rparr>)) file_lock_release)))
    (\<lambda>_ t. cache_ready E t \<and> contents E t = (contents E s)(isector i := encode_inode (idata i)) \<and>
      same_upper (s\<lparr>open_inodes := remove1 p (open_inodes s), inode_heap := (inode_heap s)(p := None)\<rparr>) t)) ?s"
  proof (rule cs.put_wp)
    show "cache_ready E ?s" using assms(1) by simp
    fix t assume t: "cache_ready E t" "same_upper ?s t" "contents E t = (contents E ?s)(isector i :=
        put_bytes (nat 0) (encode_inode (idata i)) (contents E ?s (isector i)))"
    have "length (contents E s (isector i)) = 512" using cs.view_length assms(1) by blast
    then have c: "contents E t = (contents E s)(isector i := encode_inode (idata i))" using t(3) len by simp
    have h: "(inode_heap t)(p := None) = (inode_heap s)(p := None)"
      using same_upper_fs(2)[OF t(2)] by (simp add: fun_eq_iff)
    have eq: "?s\<lparr>inode_heap := (inode_heap s)(p := None), file_lock := None\<rparr> =
        s\<lparr>open_inodes := remove1 p (open_inodes s), inode_heap := (inode_heap s)(p := None)\<rparr>"
      using assms(2) by (cases s) simp
    have "same_upper (?s\<lparr>inode_heap := (inode_heap s)(p := None), file_lock := None\<rparr>)
        (t\<lparr>inode_heap := (inode_heap s)(p := None), file_lock := None\<rparr>)"
      by (rule same_upper_file_lock[OF same_upper_inode[OF t(2)]])
    then have "same_upper (s\<lparr>open_inodes := remove1 p (open_inodes s), inode_heap := (inode_heap s)(p := None)\<rparr>)
        (t\<lparr>inode_heap := (inode_heap s)(p := None), file_lock := None\<rparr>)"
      unfolding eq .
    then show "wpK (bindK (inodeK p) (\<lambda>inode.
      thenK (whenK (removed inode) (thenK (inode_delete E p)
        (thenK (free_map_release E (isector inode) 1) (drop_cached (isector inode)))))
      (thenK (modK (\<lambda>s. s\<lparr>inode_heap := (inode_heap s)(p := None)\<rparr>)) file_lock_release)))
      (\<lambda>_ t. cache_ready E t \<and> contents E t = (contents E s)(isector i := encode_inode (idata i)) \<and>
        same_upper (s\<lparr>open_inodes := remove1 p (open_inodes s), inode_heap := (inode_heap s)(p := None)\<rparr>) t) t"
      using t(1) c h same_upper_fs(1,2,8)[OF t(2)] assms(5) by simp
  qed (use len in simp_all)
  with assms(2-5) show ?thesis
    by (simp add: inode_close_def close_last_def)
qed

text \<open>One opener fewer, as long as it is not the last.\<close>

lemma inode_close_more_eq:
  assumes "file_lock s = None" "inode_heap s p = Some i" "open_cnt i \<noteq> 1"
  shows "inode_close E (Some p) s =
    Inr ((), s\<lparr>inode_heap := (inode_heap s)(p \<mapsto> i\<lparr>open_cnt := open_cnt i - 1\<rparr>)\<rparr>)"
proof -
  have f: "s\<lparr>inode_heap := h, file_lock := None\<rparr> = s\<lparr>inode_heap := h\<rparr>" for h
    using assms(1) by (cases s) simp
  have "wpK (inode_close E (Some p)) (\<lambda>_ t. t = s\<lparr>inode_heap := (inode_heap s)(p \<mapsto> i\<lparr>open_cnt := open_cnt i - 1\<rparr>)\<rparr>) s"
    using assms by (simp add: inode_close_def f)
  then show ?thesis by (simp add: wpK_iff)
qed

section \<open>Properties: opening and closing\<close>

text \<open>
  C14. One in-memory inode per sector: opening a sector that is not open, and opening it
  again, gives the same inode, now with two openers, holding what the sector holds.
\<close>

theorem inode_open_shares:
  assumes "heap_ok E" "cache_ready E s" "file_lock s = None"
    and "find_open (inode_heap s) a (open_inodes s) = Inr None"
  shows "\<exists>p t u i. inode_open E a s = Inr (Some p, t) \<and> inode_open E a t = Inr (Some p, u) \<and>
    open_inodes u = p # open_inodes s \<and> inode_heap u p = Some i \<and> open_cnt i = 2 \<and>
    isector i = a \<and> idata i = decode_inode (contents E s a) \<and> contents E u = contents E s"
proof -
  let ?p = "inode_brk s" and ?i = "loaded a 1 (contents E s a)"
  obtain t where t: "inode_open E a s = Inr (Some ?p, t)" "contents E t = contents E s"
      "same_upper (with_inode s ?i) t"
    using inode_open_new_run[OF assms] by (auto simp: wpK_iff)
  have up: "file_lock t = None" "open_inodes t = ?p # open_inodes s" "inode_heap t ?p = Some ?i"
    using same_upper_fs[OF t(3)] by (simp_all add: with_inode_def)
  then have "inode_open E a t =
      Inr (Some ?p, t\<lparr>inode_heap := (inode_heap t)(?p \<mapsto> ?i\<lparr>open_cnt := open_cnt ?i + 1\<rparr>)\<rparr>)"
    by (intro inode_open_again_eq) (simp_all add: loaded_def)
  with t up show ?thesis by (simp add: loaded_def)
qed

theorem inode_open_shares_witness:
  "\<exists>p t u i. inode_open sim_env 9 sim_open = Inr (Some p, t) \<and> inode_open sim_env 9 t = Inr (Some p, u) \<and>
    inode_heap u p = Some i \<and> open_cnt i = 2 \<and> isector i = 9"
  using inode_open_shares[OF sim_heap_ok sim_open_ready, of 9]
  by (auto simp: sim_open_def sim_inode_def sim_fs_def)

text \<open>
  C15. Opening and closing an inode is invisible on disk: when a sector that is not open
  holds an inode, opening it and closing it again succeeds, every sector holds what it held,
  the list of open inodes is as before and the in-memory inode is freed.
\<close>

theorem inode_open_close_roundtrip:
  assumes "heap_ok E" "cache_ready E s" "file_lock s = None"
    and "find_open (inode_heap s) a (open_inodes s) = Inr None"
    and "contents E s a = encode_inode d" "disk_wf d"
  shows "\<exists>t. bindK (inode_open E a) (inode_close E) s = Inr ((), t) \<and> contents E t = contents E s \<and>
    open_inodes t = open_inodes s \<and> inode_heap t = (inode_heap s)(inode_brk s := None) \<and>
    file_lock t = None \<and> cache_ready E t"
proof -
  let ?p = "inode_brk s" and ?i = "loaded a 1 (contents E s a)"
  obtain t where t: "inode_open E a s = Inr (Some ?p, t)" "contents E t = contents E s"
      "same_upper (with_inode s ?i) t" "cache_ready E t"
    using inode_open_new_run[OF assms(1-4)] by (auto simp: wpK_iff)
  have up: "file_lock t = None" "open_inodes t = ?p # open_inodes s" "inode_heap t = (inode_heap s)(?p \<mapsto> ?i)"
    using same_upper_fs[OF t(3)] by (simp_all add: with_inode_def)
  have i: "idata ?i = d" "isector ?i = a" "open_cnt ?i = 1" "\<not> removed ?i"
    using assms(5,6) by (simp_all add: loaded_def)
  obtain u where u: "inode_close E (Some ?p) t = Inr ((), u)" "cache_ready E u"
      "contents E u = (contents E t)(isector ?i := encode_inode (idata ?i))"
      "same_upper (t\<lparr>open_inodes := remove1 ?p (open_inodes t), inode_heap := (inode_heap t)(?p := None)\<rparr>) u"
    using inode_close_last_run[OF t(4) up(1), of ?p ?i] up(3) i assms(6) by (auto simp: wpK_iff)
  have "contents E u = contents E s" using u(3) t(2) i assms(5) by (simp add: fun_eq_iff)
  with t(1) u(1,2) same_upper_fs[OF u(4)] up show ?thesis
    by (auto simp: kstep fun_eq_iff)
qed

lemma le32_0: "le32 0 = replicate 4 0"
  by (simp add: le32_def numeral_eq_Suc)

lemma encode_zero_disk: "encode_inode zero_disk = replicate 512 0"
proof -
  have "bytes_of_words (replicate n 0) = replicate (4 * n) 0" for n
    by (induction n) (simp_all add: bytes_of_words_def le32_0 replicate_add)
  then show ?thesis
    by (intro replicate_eqI) (auto simp: encode_inode_def zero_disk_def le32_0)
qed

lemma sim_contents: "contents sim_env sim_open a = replicate 512 0"
  by (simp add: contents_def sim_open_def sim_fs_def sim_env_def)

theorem inode_open_close_roundtrip_witness:
  "\<exists>t. bindK (inode_open sim_env 9) (inode_close sim_env) sim_open = Inr ((), t) \<and>
    contents sim_env t = contents sim_env sim_open \<and> open_inodes t = open_inodes sim_open"
proof -
  have "find_open (inode_heap sim_open) 9 (open_inodes sim_open) = Inr None" "file_lock sim_open = None"
    by (simp_all add: sim_open_def sim_inode_def sim_fs_def)
  moreover have "disk_wf zero_disk" by (simp add: disk_wf_def zero_disk_def)
  ultimately show ?thesis
    using inode_open_close_roundtrip[OF sim_heap_ok sim_open_ready, of 9 zero_disk] sim_contents encode_zero_disk
    by auto
qed

section \<open>Allocation during growth\<close>

lemma wpK_conj: "wpK m P s \<Longrightarrow> wpK m Q s \<Longrightarrow> wpK m (\<lambda>a t. P a t \<and> Q a t) s"
  by (auto simp: wpK_iff)

lemma all_bits_1: "all_bits b k (Suc 0) v \<longleftrightarrow> k < length b \<and> b ! k = v"
  by (auto simp: all_bits_def)

lemma free_map_full_eq:
  assumes "bitmap_ok E" "length (free_map s) < 2 ^ 32" "\<forall>k<length (free_map s). free_map s ! k"
  shows "free_map_allocate E 1 s = Inr (None, s)"
proof -
  obtain k b where scan: "bitmap_scan_and_flip E (free_map s) 0 1 False = (k, b)" by fastforce
  have "k = BITMAP_ERROR \<and> b = free_map s"
    by (rule bitmap_scan_cases[OF assms(1) scan assms(2)]) (use assms(3) in \<open>auto simp: all_bits_1\<close>)
  with scan show ?thesis by (simp add: free_map_allocate_def kstep)
qed

lemma free_map_avail:
  assumes "fs_lib_ok E Z" "map_writable E Z" "cache_ready E s" "map_open E Z s" "length (free_map s) < 2 ^ 32"
    and "k < length (free_map s)" "\<not> free_map s ! k"
  shows "wpK (free_map_allocate E 1) (\<lambda>r t. r \<noteq> None) s"
proof -
  obtain j b where scan: "bitmap_scan_and_flip E (free_map s) 0 1 False = (j, b)" by fastforce
  have ok: "bitmap_ok E" using assms(1) by (simp add: fs_lib_ok_def)
  have j: "j \<noteq> BITMAP_ERROR \<and> length b = length (free_map s)"
    by (rule bitmap_scan_cases[OF ok scan assms(5)]) (use assms(6,7) in \<open>auto simp: all_bits_1\<close>)
  show ?thesis
  proof (cases "free_map_file s")
    case None
    then show ?thesis using scan j by (simp add: free_map_allocate_def)
  next
    case (Some p)
    then have "map_file E Z b (s\<lparr>free_map := b\<rparr>) p"
      using assms(4) map_file_size[OF ok, of b "free_map s"] j by (simp add: map_open_def)
    then have "wpK (bitmap_write E b (Some p)) (\<lambda>ok _. ok) (s\<lparr>free_map := b\<rparr>)"
      using assms(2,3) by (simp add: map_writable_def)
    then show ?thesis using scan j Some by (simp add: free_map_allocate_def) (elim wpK_mono, simp)
  qed
qed

text \<open>
  What the growth of a new, empty inode up to one block establishes: the direct block is
  \<open>k1\<close>, it reads as zeros, and outside the free map file no other sector changed.
\<close>

definition grew :: "'d env \<Rightarrow> u32 set \<Rightarrow> addr \<Rightarrow> inode \<Rightarrow> off_t \<Rightarrow> u32 \<Rightarrow> 'd fs \<Rightarrow> 'd fs \<Rightarrow> bool" where
  "grew E Z p i len k1 s t \<longleftrightarrow> (\<exists>b k2. cache_ready E t \<and> length b = length (free_map s) \<and>
     same_upper (s\<lparr>free_map := b, inode_heap := (inode_heap s)(p \<mapsto>
       i\<lparr>idata := (idata i)\<lparr>dlength := len, sp := k1, ind := k2\<rparr>\<rparr>)\<rparr>) t \<and>
     (\<forall>a. a \<notin> Z \<longrightarrow> contents E t a = (if a = k1 then replicate 512 0 else contents E s a)))"

lemma zero_block_eq: "0 < n \<Longrightarrow> zero_block E sid off n = cache_put E sid off (replicate (nat n) 0)"
  by (simp add: zero_block_def cache_put_def memset_block_def)

lemma alloc_field_wp:
  assumes "fs_lib_ok E Z" "cache_ready E s" "map_open E Z s" "off_map s p" "length (free_map s) < 2 ^ 32" "inode_heap s p = Some i"
    and "\<And>r b t. wpK (free_map_allocate E 1) (\<lambda>r' _. r' = r) s \<Longrightarrow> cache_ready E t \<Longrightarrow> map_open E Z t \<Longrightarrow> length b = length (free_map s) \<Longrightarrow>
       (\<forall>k. r = Some k \<longrightarrow> unat k < length (free_map s) \<and> \<not> free_map s ! unat k) \<Longrightarrow>
       (\<forall>a. a \<notin> Z \<longrightarrow> contents E t a = contents E s a) \<Longrightarrow>
       (\<forall>k. free_map s ! k \<and> k < length (free_map s) \<longrightarrow> b ! k) \<Longrightarrow>
       same_upper (s\<lparr>free_map := b, inode_heap := (inode_heap s)(p \<mapsto> (case r of None \<Rightarrow> i
         | Some k \<Rightarrow> i\<lparr>idata := f k (idata i)\<rparr>))\<rparr>) t \<Longrightarrow> Q () t"
  shows "wpK (alloc_field E p f) Q s"
proof -
  obtain r t where r: "free_map_allocate E 1 s = Inr (r, t)" "case r of
      None \<Rightarrow> map_step E Z (free_map s) s t
    | Some k \<Rightarrow> all_bits (free_map s) (unat k) 1 False \<and>
        map_step E Z (put_bytes (unat k) (replicate 1 True) (free_map s)) s t"
    using free_map_allocate_run[OF assms(1-3,5), of 1] by (auto simp: wpK_iff)
  have wpr: "wpK (free_map_allocate E 1) (\<lambda>r' _. r' = r) s" using r(1) by (simp add: wpK_iff)
  show ?thesis
  proof (cases r)
    case None
    then have t: "map_step E Z (free_map s) s t" using r(2) by simp
    have "s\<lparr>free_map := free_map s, inode_heap := (inode_heap s)(p \<mapsto> i)\<rparr> = s\<lparr>free_map := free_map s\<rparr>"
      using assms(6) by (cases s) (simp add: fun_upd_idem)
    then have "Q () t"
      using assms(7)[OF wpr, of t "free_map s"] None t by (simp add: map_step_def)
    with None r(1) show ?thesis by (simp add: alloc_field_def wpK_def kstep)
  next
    case (Some k)
    let ?b = "put_bytes (unat k) (replicate 1 True) (free_map s)"
    have t: "map_step E Z ?b s t" and k: "unat k < length (free_map s)" "\<not> free_map s ! unat k"
      using r(2) Some by (simp_all add: all_bits_1)
    let ?h = "(inode_heap s)(p \<mapsto> i\<lparr>idata := f k (idata i)\<rparr>)"
    have h: "inode_heap t = inode_heap s" using t by (auto simp: map_step_def dest: same_upper_fs(2))
    have su: "same_upper (s\<lparr>free_map := ?b\<rparr>) t" "map_open E Z t" using t by (simp_all add: map_step_def)
    have "off_map t p" using assms(4) same_upper_fs(6,10)[OF su(1)] by (simp add: off_map_def)
    from map_open_inode[OF su(2) this] have o: "map_open E Z (t\<lparr>inode_heap := ?h\<rparr>)" using h by simp
    have "Q () (t\<lparr>inode_heap := ?h\<rparr>)"
    proof (rule assms(7)[OF wpr])
      show "same_upper (s\<lparr>free_map := ?b, inode_heap := (inode_heap s)(p \<mapsto> (case r of None \<Rightarrow> i
         | Some k \<Rightarrow> i\<lparr>idata := f k (idata i)\<rparr>))\<rparr>) (t\<lparr>inode_heap := ?h\<rparr>)"
        using t Some same_upper_inode[of "s\<lparr>free_map := ?b\<rparr>" t ?h] by (simp add: map_step_def)
    qed (use t k o Some in \<open>auto simp: map_step_def nth_put_bytes\<close>)
    with Some r(1) h assms(6) show ?thesis
      by (simp add: alloc_field_def wpK_def kstep upd_inode_def inodeK_def)
  qed
qed

section \<open>Growing a new inode to at most one block\<close>

definition full_map :: "'d fs \<Rightarrow> bool" where
  "full_map s \<longleftrightarrow> (\<forall>k<length (free_map s). free_map s ! k)"

text \<open>The sectors in \<open>Z\<close> are on the device and in use.\<close>

definition in_use :: "'d fs \<Rightarrow> u32 set \<Rightarrow> bool" where
  "in_use s Z \<longleftrightarrow> (\<forall>a\<in>Z. unat a < length (free_map s) \<and> free_map s ! unat a)"

text \<open>Which sector the direct block gets: a free one, or the stale pointer on a full disk.\<close>

definition sp_choice :: "'d env \<Rightarrow> u32 set \<Rightarrow> 'd fs \<Rightarrow> inode \<Rightarrow> u32 \<Rightarrow> bool" where
  "sp_choice E Z s i k \<longleftrightarrow> (full_map s \<longrightarrow> k = sp (idata i)) \<and>
     (map_writable E Z \<and> \<not> full_map s \<longrightarrow> unat k < length (free_map s) \<and> \<not> free_map s ! unat k)"

lemma sp_choice_alloc:
  assumes "fs_lib_ok E Z" "cache_ready E s" "map_open E Z s" "length (free_map s) < 2 ^ 32"
    and "wpK (free_map_allocate E 1) (\<lambda>r' _. r' = r) s"
    and "\<forall>k. r = Some k \<longrightarrow> unat k < length (free_map s) \<and> \<not> free_map s ! unat k"
  shows "sp_choice E Z s i (case r of None \<Rightarrow> sp (idata i) | Some k \<Rightarrow> k)"
proof -
  have "r = None" if "full_map s"
    using free_map_full_eq[of E s] assms that by (simp add: fs_lib_ok_def full_map_def wpK_def)
  moreover have "r \<noteq> None" if w: "map_writable E Z" and nf: "\<not> full_map s"
  proof -
    obtain k where "k < length (free_map s)" "\<not> free_map s ! k" using nf by (auto simp: full_map_def)
    from free_map_avail[OF assms(1) w assms(2-4) this] assms(5) show ?thesis by (auto simp: wpK_iff)
  qed
  ultimately show ?thesis using assms(6) by (auto simp: sp_choice_def split: option.splits)
qed

lemma same_upper_map_inode:
  fixes s t :: "'d fs"
  shows "same_upper (s\<lparr>free_map := b, inode_heap := h\<rparr>) t \<Longrightarrow>
   same_upper (t\<lparr>free_map := b', inode_heap := h'\<rparr>) u \<Longrightarrow> same_upper (s\<lparr>free_map := b', inode_heap := h'\<rparr>) u"
  by (cases s; cases t; cases u) (simp add: same_upper_def)

text \<open>The direct block: allocated, then filled with zeros.\<close>

lemma growth_direct_run:
  assumes "fs_lib_ok E Z" "cache_ready E s" "map_open E Z s" "off_map s p" "length (free_map s) < 2 ^ 32" "in_use s Z"
    and "inode_heap s p = Some i" "sp (idata i) \<notin> Z"
  shows "wpK (thenK (alloc_field E p (\<lambda>k d. d\<lparr>sp := k\<rparr>))
      (bindK (inodeK p) (\<lambda>inode. zero_block E (sp (idata inode)) 0 512)))
    (\<lambda>_ t. \<exists>k b. sp_choice E Z s i k \<and> cache_ready E t \<and> map_open E Z t \<and> length b = length (free_map s) \<and>
      same_upper (s\<lparr>free_map := b, inode_heap := (inode_heap s)(p \<mapsto> i\<lparr>idata := (idata i)\<lparr>sp := k\<rparr>\<rparr>)\<rparr>) t \<and>
      (\<forall>a. a \<notin> Z \<longrightarrow> contents E t a = (if a = k then replicate 512 0 else contents E s a))) s"
  unfolding wpK_then
proof (rule alloc_field_wp[OF assms(1-5,7)])
  fix r b t
  assume r: "wpK (free_map_allocate E 1) (\<lambda>r' _. r' = r) s"
      "\<forall>k. r = Some k \<longrightarrow> unat k < length (free_map s) \<and> \<not> free_map s ! unat k"
    and t: "cache_ready E t" "map_open E Z t" "length b = length (free_map s)" "\<forall>a. a \<notin> Z \<longrightarrow> contents E t a = contents E s a"
      "same_upper (s\<lparr>free_map := b, inode_heap := (inode_heap s)(p \<mapsto> (case r of None \<Rightarrow> i
         | Some k \<Rightarrow> i\<lparr>idata := (idata i)\<lparr>sp := k\<rparr>\<rparr>))\<rparr>) t"
  define k where "k = (case r of None \<Rightarrow> sp (idata i) | Some k \<Rightarrow> k)"
  have ch: "sp_choice E Z s i k"
    using sp_choice_alloc[OF assms(1-3,5) r] by (simp add: k_def)
  have i: "(case r of None \<Rightarrow> i | Some k \<Rightarrow> i\<lparr>idata := (idata i)\<lparr>sp := k\<rparr>\<rparr>) = i\<lparr>idata := (idata i)\<lparr>sp := k\<rparr>\<rparr>"
    by (cases r) (simp_all add: k_def)
  let ?i = "i\<lparr>idata := (idata i)\<lparr>sp := k\<rparr>\<rparr>"
  let ?Q = "\<lambda>_ t. \<exists>k b. sp_choice E Z s i k \<and> cache_ready E t \<and> map_open E Z t \<and> length b = length (free_map s) \<and>
      same_upper (s\<lparr>free_map := b, inode_heap := (inode_heap s)(p \<mapsto> i\<lparr>idata := (idata i)\<lparr>sp := k\<rparr>\<rparr>)\<rparr>) t \<and>
      (\<forall>a. a \<notin> Z \<longrightarrow> contents E t a = (if a = k then replicate 512 0 else contents E s a))"
  have su: "same_upper (s\<lparr>free_map := b, inode_heap := (inode_heap s)(p \<mapsto> ?i)\<rparr>) t" using t(5) i by simp
  have h: "inode_heap t p = Some ?i" using same_upper_fs(2)[OF su] by simp
  have "wpK (cache_put E k 0 (replicate 512 0)) ?Q t"
  proof (rule cs.put_wp[OF t(1)])
    fix u assume u: "cache_ready E u" "same_upper t u"
      "contents E u = (contents E t)(k := put_bytes (nat 0) (replicate 512 0) (contents E t k))"
    have "length (contents E t k) = 512" using cs.view_length t(1) by blast
    then have "contents E u a = (if a = k then replicate 512 0 else contents E s a)" if "a \<notin> Z" for a
      using u(3) t(4) that by simp
    moreover have "k \<notin> Z" using r(2) assms(6,8) by (auto simp: k_def in_use_def split: option.splits)
    then have "map_open E Z u" using u(3) by (intro map_open_upper[OF t(2) u(2)]) auto
    ultimately show "?Q () u" using ch u(1) t(3) same_upper_trans[OF su u(2)] by blast
  qed simp_all
  with h show "wpK (bindK (inodeK p) (\<lambda>inode. zero_block E (sp (idata inode)) 0 512)) ?Q t"
    by (simp add: zero_block_eq)
qed

lemma file_growth_small_run:
  assumes "fs_lib_ok E Z" "cache_ready E s" "map_open E Z s" "off_map s p" "length (free_map s) < 2 ^ 32" "in_use s Z"
    and "inode_heap s p = Some i" "sp (idata i) \<notin> Z" "dlength (idata i) = 0" "0 \<le> len" "len \<le> 512"
  shows "wpK (file_growth E p 0 len) (\<lambda>_ t. \<exists>k. sp_choice E Z s i k \<and> grew E Z p i len k s t) s"
proof -
  let ?i = "i\<lparr>idata := (idata i)\<lparr>dlength := len\<rparr>\<rparr>"
  let ?s = "s\<lparr>inode_heap := (inode_heap s)(p \<mapsto> ?i)\<rparr>"
  let ?Q = "\<lambda>_ t. \<exists>k. sp_choice E Z s i k \<and> grew E Z p i len k s t"
  let ?tail = "if len div 512 = 1 \<and> len mod 512 = 0 then retK (word_of_int (len div 512))
      else thenK (alloc_field E p (\<lambda>k d. d\<lparr>ind := k\<rparr>))
        (thenK (growth_ind E p 512 1 (len div 512)) (retK (word_of_int (len div 512))))"
  have ch: "sp_choice E Z ?s ?i k = sp_choice E Z s i k" for k by (simp add: sp_choice_def full_map_def)
  have none: "growth_ind E p 512 1 0 = retK ()"
    by (rule ext) (simp add: growth_ind_def range0_def kstep)
  have "wpK (thenK (alloc_field E p (\<lambda>k d. d\<lparr>sp := k\<rparr>))
      (bindK (inodeK p) (\<lambda>inode. zero_block E (sp (idata inode)) 0 512))) (\<lambda>_. wpK ?tail ?Q) ?s"
  proof (rule wpK_mono[OF growth_direct_run[OF assms(1), of ?s p ?i]])
    fix t assume "\<exists>k b. sp_choice E Z ?s ?i k \<and> cache_ready E t \<and> map_open E Z t \<and> length b = length (free_map ?s) \<and>
      same_upper (?s\<lparr>free_map := b, inode_heap := (inode_heap ?s)(p \<mapsto> ?i\<lparr>idata := (idata ?i)\<lparr>sp := k\<rparr>\<rparr>)\<rparr>) t \<and>
      (\<forall>a. a \<notin> Z \<longrightarrow> contents E t a = (if a = k then replicate 512 0 else contents E ?s a))"
    then obtain k b where k: "sp_choice E Z s i k" "cache_ready E t" "length b = length (free_map s)" "map_open E Z t"
      and su: "same_upper (s\<lparr>free_map := b, inode_heap := (inode_heap s)(p \<mapsto> i\<lparr>idata := (idata i)\<lparr>dlength := len, sp := k\<rparr>\<rparr>)\<rparr>) t"
      and c: "\<forall>a. a \<notin> Z \<longrightarrow> contents E t a = (if a = k then replicate 512 0 else contents E s a)"
      by (auto simp: ch)
    let ?d = "\<lambda>j. (idata i)\<lparr>dlength := len, sp := k, ind := j\<rparr>"
    have id: "(idata i)\<lparr>dlength := len, sp := k\<rparr> = ?d (ind (idata i))" by simp
    show "wpK ?tail ?Q t"
    proof (cases "len = 512")
      case True
      have "grew E Z p i len k s t"
        unfolding grew_def by (intro exI[of _ b] exI[of _ "ind (idata i)"] conjI) (use k su c in simp_all)
      with True k(1) show ?thesis by auto
    next
      case False
      then have len: "len div 512 = 0" using assms(10,11) by simp
      have m: "free_map t = b" "inode_heap t = (inode_heap s)(p \<mapsto> i\<lparr>idata := ?d (ind (idata i))\<rparr>)"
        using same_upper_fs(2,9)[OF su] by simp_all
      have "wpK (alloc_field E p (\<lambda>k d. d\<lparr>ind := k\<rparr>)) (\<lambda>_ u. ?Q () u) t"
      proof (rule alloc_field_wp[OF assms(1) k(2,4)])
        show "off_map t p" using assms(4) same_upper_fs(6,10)[OF su] by (simp add: off_map_def)
        show "length (free_map t) < 2 ^ 32" using m k(3) assms(5) by simp
        show "inode_heap t p = Some (i\<lparr>idata := ?d (ind (idata i))\<rparr>)" using m by simp
        fix r b' u
        assume u: "cache_ready E u" "length b' = length (free_map t)" "\<forall>a. a \<notin> Z \<longrightarrow> contents E u a = contents E t a"
          and su': "same_upper (t\<lparr>free_map := b', inode_heap := (inode_heap t)(p \<mapsto> (case r of
            None \<Rightarrow> i\<lparr>idata := ?d (ind (idata i))\<rparr>
          | Some k \<Rightarrow> i\<lparr>idata := ?d (ind (idata i))\<rparr>\<lparr>idata := (idata (i\<lparr>idata := ?d (ind (idata i))\<rparr>))\<lparr>ind := k\<rparr>\<rparr>))\<rparr>) u"
        define j where "j = (case r of None \<Rightarrow> ind (idata i) | Some k \<Rightarrow> k)"
        have "same_upper (t\<lparr>free_map := b', inode_heap := (inode_heap s)(p \<mapsto> i\<lparr>idata := ?d j\<rparr>)\<rparr>) u"
          using su' m(2) by (cases r) (simp_all add: j_def)
        then have "same_upper (s\<lparr>free_map := b', inode_heap := (inode_heap s)(p \<mapsto> i\<lparr>idata := ?d j\<rparr>)\<rparr>) u"
          by (rule same_upper_map_inode[OF su])
        with u c k m(1) show "?Q () u" by (auto simp: grew_def)
      qed
      with len none show ?thesis by simp
    qed
  qed (use assms map_open_inode[OF assms(3,4)] in \<open>simp_all add: in_use_def off_map_def\<close>)
  moreover have "len sdiv 512 = len div 512" "len smod 512 = len mod 512" "len div 512 < 129" "i32 len = len"
    using assms(10,11) by simp_all
  ultimately show ?thesis
    using assms(7,9)
    by (cases "len div 512 = 1 \<and> len mod 512 = 0") (auto simp: file_growth_def Let_def)
qed

section \<open>Creating a file of at most one block\<close>

definition new_disk :: "off_t \<Rightarrow> bool \<Rightarrow> u32 \<Rightarrow> u32 \<Rightarrow> inode_disk" where
  "new_disk len isdir k j = zero_disk\<lparr>dlength := len, magic := INODE_MAGIC, disdir := isdir,
     sp := k, ind := j, dparent := ROOT_DIR_SECTOR\<rparr>"

lemma new_disk_wf: "0 \<le> len \<Longrightarrow> len \<le> 512 \<Longrightarrow> disk_wf (new_disk len isdir k j)"
  by (simp add: disk_wf_def new_disk_def zero_disk_def)

definition created :: "'d env \<Rightarrow> u32 set \<Rightarrow> u32 \<Rightarrow> off_t \<Rightarrow> bool \<Rightarrow> u32 \<Rightarrow> 'd fs \<Rightarrow> 'd fs \<Rightarrow> bool" where
  "created E Z a len isdir k s t \<longleftrightarrow> (\<exists>b j. cache_ready E t \<and>
     same_upper (s\<lparr>free_map := b, inode_brk := inode_brk s + 1,
       inode_heap := (inode_heap s)(inode_brk s := None)\<rparr>) t \<and>
     (\<forall>x. x \<notin> Z \<longrightarrow> contents E t x = (if x = a then encode_inode (new_disk len isdir k j)
        else if x = k then replicate 512 0 else contents E s x)) \<and>
     contents E t a = encode_inode (new_disk len isdir k j))"

definition blank_inode :: "inode_disk \<Rightarrow> inode" where
  "blank_inode d = \<lparr>isector = 0, open_cnt = 0, removed = False, deny_write_cnt = 0, idata = d,
     iread_cnt = 0, iio = None\<rparr>"

lemma same_upper_create:
  fixes s t u :: "'d fs"
  assumes "same_upper (s\<lparr>file_lock := l, inode_brk := n, inode_heap := h, free_map := b, inode_heap := h'\<rparr>) t"
    "same_upper (t\<lparr>inode_heap := h''\<rparr>) u" "file_lock s = None"
  shows "same_upper (s\<lparr>free_map := b, inode_brk := n, inode_heap := h''\<rparr>) (u\<lparr>file_lock := None\<rparr>)"
  using assms by (cases s; cases t; cases u) (simp add: same_upper_def)

lemma inode_create_run:
  assumes "fs_lib_ok E Z" "cache_ready E s" "map_open E Z s" "length (free_map s) < 2 ^ 32" "in_use s Z"
    and "file_lock s = None" "0 \<le> len" "len \<le> 512"
  shows "wpK (inode_create E a len isdir) (\<lambda>r t. r \<and> (\<exists>k. sp_choice E Z s (blank_inode zero_disk) k \<and>
    created E Z a len isdir k s t)) s"
proof -
  let ?d = "zero_disk\<lparr>magic := INODE_MAGIC, disdir := isdir, dlength := 0\<rparr>"
  let ?p = "inode_brk s" and ?l = "Some (cur_thread s)"
  let ?s = "s\<lparr>file_lock := ?l, inode_brk := ?p + 1, inode_heap := (inode_heap s)(?p \<mapsto> blank_inode ?d)\<rparr>"
  let ?Q = "\<lambda>r t. r \<and> (\<exists>k. sp_choice E Z s (blank_inode zero_disk) k \<and> created E Z a len isdir k s t)"
  have m: "map_open E Z ?s" "off_map ?s ?p"
    using map_open_new[of E Z "s\<lparr>file_lock := ?l\<rparr>"] assms(3) by (simp_all add: off_map_def)
  have z: "0 \<notin> Z" using assms(3) by (simp add: map_open_def FREE_MAP_SECTOR_def)
  have "wpK (file_growth E ?p 0 len) (\<lambda>_. wpK (bindK (inodeK ?p) (\<lambda>i.
      thenK (modK (\<lambda>s. s\<lparr>inode_heap := (inode_heap s)(?p := None)\<rparr>))
     (thenK (cache_put E a 0 (encode_inode ((idata i)\<lparr>dparent := ROOT_DIR_SECTOR\<rparr>)))
     (thenK file_lock_release (retK True))))) ?Q) ?s"
  proof (rule wpK_mono[OF file_growth_small_run[OF assms(1)]])
    fix t assume "\<exists>k. sp_choice E Z ?s (blank_inode ?d) k \<and> grew E Z ?p (blank_inode ?d) len k ?s t"
    then obtain k b j where k: "sp_choice E Z ?s (blank_inode ?d) k" and t: "cache_ready E t"
      and su: "same_upper (?s\<lparr>free_map := b, inode_heap := (inode_heap ?s)(?p \<mapsto> (blank_inode ?d)\<lparr>idata :=
          (idata (blank_inode ?d))\<lparr>dlength := len, sp := k, ind := j\<rparr>\<rparr>)\<rparr>) t"
      and c: "\<forall>x. x \<notin> Z \<longrightarrow> contents E t x = (if x = k then replicate 512 0 else contents E ?s x)"
      by (auto simp: grew_def)
    have h: "inode_heap t ?p = Some ((blank_inode ?d)\<lparr>idata := ?d\<lparr>dlength := len, sp := k, ind := j\<rparr>\<rparr>)"
        "(inode_heap t)(?p := None) = (inode_heap s)(?p := None)" "cur_thread t = cur_thread s" "file_lock t = ?l"
      using same_upper_fs(1,2,8)[OF su] by (simp_all add: blank_inode_def)
    let ?n = "new_disk len isdir k j"
    have n: "?d\<lparr>dlength := len, sp := k, ind := j, dparent := ROOT_DIR_SECTOR\<rparr> = ?n" by (simp add: new_disk_def zero_disk_def)
    have wf: "length (encode_inode ?n) = 512" using new_disk_wf[OF assms(7,8)] by simp
    have ch: "sp_choice E Z s (blank_inode zero_disk) k"
      using k by (simp add: sp_choice_def full_map_def blank_inode_def)
    have "wpK (cache_put E a 0 (encode_inode ?n)) (\<lambda>_. wpK (thenK file_lock_release (retK True)) ?Q)
        (t\<lparr>inode_heap := (inode_heap s)(?p := None)\<rparr>)"
    proof (rule cs.put_wp)
      show "cache_ready E (t\<lparr>inode_heap := (inode_heap s)(?p := None)\<rparr>)" using t by simp
      fix u assume u: "cache_ready E u" "same_upper (t\<lparr>inode_heap := (inode_heap s)(?p := None)\<rparr>) u"
        "contents E u = (contents E (t\<lparr>inode_heap := (inode_heap s)(?p := None)\<rparr>))(a :=
          put_bytes (nat 0) (encode_inode ?n) (contents E (t\<lparr>inode_heap := (inode_heap s)(?p := None)\<rparr>) a))"
      have "length (contents E t a) = 512" using cs.view_length t by blast
      then have cu: "contents E u = (contents E t)(a := encode_inode ?n)" using u(3) wf by simp
      have "created E Z a len isdir k s (u\<lparr>file_lock := None\<rparr>)"
        unfolding created_def
        by (intro exI[of _ b] exI[of _ j] conjI)
           (use u(1) cu c same_upper_create[OF su u(2) assms(6)] in simp_all)
      then show "wpK (thenK file_lock_release (retK True)) ?Q u"
        using ch h same_upper_fs(1,8)[OF u(2)] by auto
    qed (use wf in simp_all)
    then show "wpK (bindK (inodeK ?p) (\<lambda>i.
      thenK (modK (\<lambda>s. s\<lparr>inode_heap := (inode_heap s)(?p := None)\<rparr>))
     (thenK (cache_put E a 0 (encode_inode ((idata i)\<lparr>dparent := ROOT_DIR_SECTOR\<rparr>)))
     (thenK file_lock_release (retK True))))) ?Q t"
      using h n by (simp add: blank_inode_def)
  qed (use assms m z in \<open>simp_all add: in_use_def blank_inode_def zero_disk_def\<close>)
  moreover have "heap_ok E" using assms(1) by (simp add: fs_lib_ok_def)
  ultimately show ?thesis
    using assms(6,7) by (simp add: inode_create_def inode_alloc_def heap_ok_def blank_inode_def)
qed

section \<open>Properties: creation and growth\<close>

lemma file_bytes_new:
  assumes "V k = replicate 512 0" "0 \<le> len" "len \<le> 512"
  shows "file_bytes V (new_disk len isdir k j) = replicate (nat len) 0"
proof (rule replicate_eqI)
  show "length (file_bytes V (new_disk len isdir k j)) = nat len" by (simp add: new_disk_def)
  fix y assume "y \<in> set (file_bytes V (new_disk len isdir k j))"
  then obtain m where m: "m < nat len" "y = file_byte V (new_disk len isdir k j) m"
    by (auto simp: file_bytes_def new_disk_def)
  then have "m div 512 = 0" "m mod 512 < 512" using assms(3) by simp_all
  with m(2) assms(1) show "y = 0" by (simp add: file_byte_def blk_sector_def new_disk_def)
qed

text \<open>
  A new file reads as zeros: on a disk with a free sector, creating an inode of at most
  one block in a sector that is in use for it and not open, opening it and reading all of it
  returns that many zero bytes.
\<close>

lemma inode_create_reads_zeros:
  assumes "fs_lib_ok E Z" "map_writable E Z" "cache_ready E s" "map_open E Z s" "length (free_map s) < 2 ^ 32" "in_use s Z"
    and "file_lock s = None" "0 \<le> len" "len \<le> 512" "\<not> full_map s" "in_use s {a}"
    and "find_open ((inode_heap s)(inode_brk s := None)) a (open_inodes s) = Inr None"
  shows "\<exists>t. bindK (inode_create E a len isdir) (\<lambda>ok. bindK (inode_open E a) (\<lambda>p. bindK (ptrK p)
    (\<lambda>p. inode_read_at E p len 0))) s = Inr (replicate (nat len) 0, t) \<and> cache_ready E t"
proof -
  have heap: "heap_ok E" using assms(1) by (simp add: fs_lib_ok_def)
  obtain t k where c: "inode_create E a len isdir s = Inr (True, t)"
      and k: "sp_choice E Z s (blank_inode zero_disk) k" and t: "created E Z a len isdir k s t"
    using inode_create_run[OF assms(1,3-9), of a isdir] by (auto simp: wpK_iff)
  have free: "unat k < length (free_map s)" "\<not> free_map s ! unat k"
    using k assms(2,10) by (simp_all add: sp_choice_def)
  then have "k \<noteq> a" "k \<notin> Z" using assms(6,11) by (auto simp: in_use_def)
  then obtain b j where r: "cache_ready E t" and v: "contents E t k = replicate 512 0"
      and d: "contents E t a = encode_inode (new_disk len isdir k j)"
      and su: "same_upper (s\<lparr>free_map := b, inode_brk := inode_brk s + 1,
        inode_heap := (inode_heap s)(inode_brk s := None)\<rparr>) t"
    using t by (auto simp: created_def)
  let ?d = "new_disk len isdir k j"
  have up: "file_lock t = None" "find_open (inode_heap t) a (open_inodes t) = Inr None"
    using same_upper_fs(2,4,8)[OF su] assms(7,12) by simp_all
  obtain u where u: "inode_open E a t = Inr (Some (inode_brk t), u)" "cache_ready E u"
      "contents E u = contents E t" "same_upper (with_inode t (loaded a 1 (contents E t a))) u"
    using inode_open_new_run[OF heap r up] by (auto simp: wpK_iff)
  let ?i = "loaded a 1 (contents E t a)"
  have i: "inode_heap u (inode_brk t) = Some ?i" "idata ?i = ?d" "iio ?i = None"
    using same_upper_fs(2)[OF u(4)] d new_disk_wf[OF assms(8,9)] by (simp_all add: with_inode_def loaded_def)
  have "length_ok (idata ?i)"
    using i(2) assms(8,9) by (simp add: length_ok_def MAX_LENGTH_def new_disk_def)
  from inode_read_at_run[OF heap u(2) i(1,3) this, of 0 len]
  obtain w where "inode_read_at E (inode_brk t) len 0 u = Inr (take (nat len) (file_bytes (contents E u) ?d), w)"
      "cache_ready E w"
    using i(2) by (auto simp: wpK_iff cache_only_def)
  with c u file_bytes_new[of "contents E u" k len isdir j] v assms(8,9) show ?thesis
    by (simp add: kstep ptrK_def)
qed

definition sim_map :: "bool list" where
  "sim_map = [True, True, True, True, False, True, True, False]"

lemma sim_writable: "map_writable sim_env Z"
  by (simp add: map_writable_def sim_env_def wpK_def kstep)

text \<open>
  C17. On a full disk creating a file destroys the free map's inode: \<^verbatim>\<open>file_growth\<close> ignores
  that \<^verbatim>\<open>free_map_allocate\<close> failed and fills the sector of the still null pointer with zeros.
  \<^verbatim>\<open>inode_create\<close>, here of a file of at most one block, reports success, and sector 0 reads as zeros.
\<close>

theorem inode_create_full_disk_clobbers:
  assumes "fs_lib_ok E Z" "cache_ready E s" "map_open E Z s" "length (free_map s) < 2 ^ 32" "in_use s Z"
    and "file_lock s = None" "0 \<le> len" "len \<le> 512" "full_map s" "a \<noteq> FREE_MAP_SECTOR"
  shows "\<exists>t. inode_create E a len isdir s = Inr (True, t) \<and> contents E t FREE_MAP_SECTOR = replicate 512 0"
proof -
  obtain t k where "inode_create E a len isdir s = Inr (True, t)"
      "sp_choice E Z s (blank_inode zero_disk) k" "created E Z a len isdir k s t"
    using inode_create_run[OF assms(1-8), of a isdir] by (auto simp: wpK_iff)
  moreover from this(2) have "k = FREE_MAP_SECTOR"
    using assms(9) by (simp add: sp_choice_def blank_inode_def zero_disk_def FREE_MAP_SECTOR_def)
  moreover have "FREE_MAP_SECTOR \<notin> Z" using assms(3) by (simp add: map_open_def)
  ultimately show ?thesis using assms(10) by (auto simp: created_def)
qed

theorem inode_create_full_disk_clobbers_witness:
  "\<exists>t. inode_create sim_env 2 0 False (sim_map_fs\<lparr>free_map := replicate 8 True\<rparr>) = Inr (True, t) \<and>
    contents sim_env t FREE_MAP_SECTOR = replicate 512 0"
proof -
  let ?s = "sim_map_fs\<lparr>free_map := replicate 8 True\<rparr>"
  have "cache_ready sim_env ?s" using sim_map_fs_ready by simp
  moreover have "file_lock ?s = None" by (simp add: sim_map_fs_def sim_fs_def)
  moreover have "map_open sim_env {2} ?s"
    using sim_map_open sim_map_file[of ?s sim_env "replicate 8 True"] by (auto simp: map_open_def sim_map_fs_def sim_fs_def sim_env_def)
  ultimately show ?thesis
    using inode_create_full_disk_clobbers[OF sim_env_lib, of ?s "{2}" 0 2 False]
    by (simp add: in_use_def full_map_def FREE_MAP_SECTOR_def)
qed

lemma zero_block_negative:
  assumes "cache_ready E s" "n < 0"
  shows "zero_block E sid off n s = Inl OUT_OF_BOUNDS"
proof -
  obtain c t b where t: "cache_block E sid WRITE_BLOCK s = Inr (c, t)" "cache_wf E {} t" "cache_heap t c = Some b"
    using cache_block_run[OF assms(1), of sid WRITE_BLOCK] by (auto simp: wpK_iff)
  obtain u where "write_cache c t = Inr ((), u)"
    using write_cache_run[OF t(2,3)] by (auto simp: wpK_iff)
  with t(1) assms(2) show ?thesis by (simp add: zero_block_def memset_block_def kstep)
qed

text \<open>
  C18. A write that starts inside the last, partly filled block of a file and ends after the
  end of the file, in the same block, runs \<^verbatim>\<open>memset\<close> with the negative count
  \<open>pos - length\<close>: kernel memory from the cache block on is overwritten.
\<close>

theorem inode_write_at_overlap_overflows:
  assumes "heap_ok E" "cache_ready E s" "inode_heap s p = Some i" "idle i" "deny_write_cnt i = 0"
    and "0 \<le> offset" "offset < dlength (idata i)" "dlength (idata i) < offset + sz"
    and "dlength (idata i) mod 512 \<noteq> 0" "(offset + sz) div 512 = dlength (idata i) div 512"
    and "offset + sz \<le> MAX_LENGTH"
  shows "inode_write_at E p buf sz offset s = Inl OUT_OF_BOUNDS"
proof -
  let ?len = "dlength (idata i)" and ?n = "offset + sz"
  let ?i = "i\<lparr>iio := Some (cur_thread s)\<rparr>"
  let ?j = "?i\<lparr>idata := (idata i)\<lparr>dlength := ?n\<rparr>\<rparr>"
  let ?s = "s\<lparr>inode_heap := (inode_heap s)(p \<mapsto> ?i)\<rparr>"
  let ?t = "s\<lparr>inode_heap := (inode_heap s)(p \<mapsto> ?j)\<rparr>"
  have n: "i32 ?n = ?n" "?n sdiv 512 = ?n div 512" "?len sdiv 512 = ?len div 512" "?len smod 512 = ?len mod 512"
    using assms(6-8,11) by (simp_all add: MAX_LENGTH_def)
  have w: "write_inode p s = Inr ((), ?s)"
    using assms(3,4) by (simp add: write_inode_def idle_def kstep inodeK_def inode_acquire_def upd_inode_def)
  have "wpK (byte_to_sector E p ?len) (\<lambda>b u. cache_only E ?t u \<and>
      b = blk_sector (contents E ?t) (idata ?j) (nat ?len div 512)) ?t"
    by (rule byte_to_sector_run) (use assms in \<open>simp_all add: length_ok_def\<close>)
  then obtain b u where u: "byte_to_sector E p ?len ?t = Inr (b, u)" "cache_ready E u"
    by (auto simp: wpK_iff cache_only_def)
  have "zero_block E b ?len (offset - ?len) u = Inl OUT_OF_BOUNDS"
    using zero_block_negative[OF u(2)] assms(7) by simp
  then have "file_growth E p offset sz ?s = Inl OUT_OF_BOUNDS"
    using u(1) n assms(9,10) by (simp add: file_growth_def Let_def kstep inodeK_def upd_inode_def)
  with w n assms(3-5,8) show ?thesis
    by (simp add: inode_write_at_def kstep inodeK_def idle_def Let_def)
qed

theorem inode_write_at_overlap_overflows_witness:
  "inode_write_at sim_env 0 [1, 2, 3] 3 4 sim_open = Inl OUT_OF_BOUNDS"
  by (rule inode_write_at_overlap_overflows[OF sim_heap_ok sim_open_ready sim_open_inode sim_inode_simps(4,3)])
     (simp_all add: sim_inode_simps MAX_LENGTH_def)

end
