(* ===== verification/Fs_File.thy ===== *)
theory Fs_File
  imports Inode_Life
begin

text \<open>
  Open files, \<^verbatim>\<open>file.c\<close>, and the part of \<^verbatim>\<open>free-map.c\<close> that keeps the free map in a
  file. It is shown that reading in steps is reading at once, that a write is read back after a seek,
  and that denying writes is undone exactly by allowing them again.
\<close>

section \<open>Operations of file.c\<close>

definition fileK :: "addr \<Rightarrow> ('d fs, file_t) K" where
  "fileK p = derefK (\<lambda>s. file_heap s p)"

definition upd_file :: "addr \<Rightarrow> (file_t \<Rightarrow> file_t) \<Rightarrow> ('d fs, unit) K" where
  "upd_file p g = bindK (fileK p) (\<lambda>f. modK (\<lambda>s. s\<lparr>file_heap := (file_heap s)(p \<mapsto> g f)\<rparr>))"

definition file_free :: "addr \<Rightarrow> ('d fs, unit) K" where
  "file_free p = modK (\<lambda>s. s\<lparr>file_heap := (file_heap s)(p := None)\<rparr>)"

definition file_open :: "'d env \<Rightarrow> addr option \<Rightarrow> ('d fs, addr option) K" where
  "file_open E inode = bindK (getK file_brk) (\<lambda>p. case inode of
     Some i \<Rightarrow> if file_mem_ok E p
       then thenK (modK (\<lambda>s. s\<lparr>file_brk := p + 1, file_heap := (file_heap s)(p \<mapsto>
           \<lparr>finode = i, fpos = 0, deny_write = False\<rparr>)\<rparr>)) (retK (Some p))
       else thenK (inode_close E inode) (retK None)
   | None \<Rightarrow> thenK (inode_close E inode) (retK None))"

definition file_reopen :: "'d env \<Rightarrow> addr \<Rightarrow> ('d fs, addr option) K" where
  "file_reopen E p = bindK (fileK p) (\<lambda>f. bindK (inode_reopen (Some (finode f))) (file_open E))"

definition file_deny_write :: "addr option \<Rightarrow> ('d fs, unit) K" where
  "file_deny_write p = thenK (assertK (p \<noteq> None)) (bindK (ptrK p) (\<lambda>p. bindK (fileK p) (\<lambda>f.
     whenK (\<not> deny_write f)
       (thenK (upd_file p (\<lambda>f. f\<lparr>deny_write := True\<rparr>)) (inode_deny_write (finode f))))))"

definition file_allow_write :: "addr option \<Rightarrow> ('d fs, unit) K" where
  "file_allow_write p = thenK (assertK (p \<noteq> None)) (bindK (ptrK p) (\<lambda>p. bindK (fileK p) (\<lambda>f.
     whenK (deny_write f)
       (thenK (upd_file p (\<lambda>f. f\<lparr>deny_write := False\<rparr>)) (inode_allow_write (finode f))))))"

definition file_close :: "'d env \<Rightarrow> addr option \<Rightarrow> ('d fs, unit) K" where
  "file_close E p = (case p of None \<Rightarrow> retK () | Some q \<Rightarrow>
     thenK (file_allow_write p)
     (bindK (fileK q) (\<lambda>f. thenK (inode_close E (Some (finode f))) (file_free q))))"

definition file_get_inode :: "addr \<Rightarrow> ('d fs, addr) K" where
  "file_get_inode p = bindK (fileK p) (\<lambda>f. retK (finode f))"

definition file_read :: "'d env \<Rightarrow> addr \<Rightarrow> off_t \<Rightarrow> ('d fs, byte list) K" where
  "file_read E p sz = bindK (fileK p) (\<lambda>f.
     bindK (inode_read_at E (finode f) sz (fpos f)) (\<lambda>buffer.
     thenK (upd_file p (\<lambda>f. f\<lparr>fpos := fpos f + int (length buffer)\<rparr>)) (retK buffer)))"

definition file_read_at :: "'d env \<Rightarrow> addr \<Rightarrow> off_t \<Rightarrow> off_t \<Rightarrow> ('d fs, byte list) K" where
  "file_read_at E p sz file_ofs = bindK (fileK p) (\<lambda>f. inode_read_at E (finode f) sz file_ofs)"

definition file_write :: "'d env \<Rightarrow> addr \<Rightarrow> byte list \<Rightarrow> off_t \<Rightarrow> ('d fs, off_t) K" where
  "file_write E p buffer sz = bindK (fileK p) (\<lambda>f.
     bindK (inode_write_at E (finode f) buffer sz (fpos f)) (\<lambda>n.
     thenK (upd_file p (\<lambda>f. f\<lparr>fpos := fpos f + n\<rparr>)) (retK n)))"

definition file_write_at :: "'d env \<Rightarrow> addr \<Rightarrow> byte list \<Rightarrow> off_t \<Rightarrow> off_t \<Rightarrow> ('d fs, off_t) K" where
  "file_write_at E p buffer sz file_ofs = bindK (fileK p) (\<lambda>f. inode_write_at E (finode f) buffer sz file_ofs)"

definition file_length :: "addr option \<Rightarrow> ('d fs, off_t) K" where
  "file_length p = thenK (assertK (p \<noteq> None)) (bindK (ptrK p) (\<lambda>p. bindK (fileK p) (\<lambda>f. inode_length (finode f))))"

definition file_seek :: "addr option \<Rightarrow> off_t \<Rightarrow> ('d fs, unit) K" where
  "file_seek p new_pos = thenK (assertK (p \<noteq> None)) (thenK (assertK (new_pos \<ge> 0))
     (bindK (ptrK p) (\<lambda>p. upd_file p (\<lambda>f. f\<lparr>fpos := new_pos\<rparr>))))"

definition file_tell :: "addr option \<Rightarrow> ('d fs, off_t) K" where
  "file_tell p = thenK (assertK (p \<noteq> None)) (bindK (ptrK p) (\<lambda>p. bindK (fileK p) (\<lambda>f. retK (fpos f))))"

section \<open>The free map file\<close>

definition free_map_open :: "'d env \<Rightarrow> ('d fs, unit) K" where
  "free_map_open E = bindK (inode_open E FREE_MAP_SECTOR) (\<lambda>i. bindK (file_open E i) (\<lambda>f.
     thenK (modK (\<lambda>s. s\<lparr>free_map_file := f\<rparr>))
     (if f = None then failK PANIC
      else bindK (getK free_map) (\<lambda>b. bindK (bitmap_read E b f) (\<lambda>(ok, b).
        thenK (modK (\<lambda>s. s\<lparr>free_map := b\<rparr>)) (if ok then retK () else failK PANIC))))))"

definition free_map_close :: "'d env \<Rightarrow> ('d fs, unit) K" where
  "free_map_close E = bindK (getK free_map_file) (file_close E)"

definition free_map_create :: "'d env \<Rightarrow> ('d fs, unit) K" where
  "free_map_create E = bindK (getK (\<lambda>s. bitmap_file_size E (free_map s))) (\<lambda>n.
     bindK (inode_create E FREE_MAP_SECTOR n False) (\<lambda>ok.
     if \<not> ok then failK PANIC
     else bindK (inode_open E FREE_MAP_SECTOR) (\<lambda>i. bindK (file_open E i) (\<lambda>f.
       thenK (modK (\<lambda>s. s\<lparr>free_map_file := f\<rparr>))
       (if f = None then failK PANIC
        else bindK (getK free_map) (\<lambda>b. bindK (bitmap_write E b f) (\<lambda>ok.
          if ok then retK () else failK PANIC)))))))"

section \<open>Lemmas\<close>

lemma fileK_wp [wp, simp]: "wpK (fileK p) Q s \<longleftrightarrow> (\<exists>f. file_heap s p = Some f \<and> Q f s)"
  by (simp add: fileK_def)

lemma upd_file_wp [wp, simp]:
  "wpK (upd_file p g) Q s \<longleftrightarrow>
   (\<exists>f. file_heap s p = Some f \<and> Q () (s\<lparr>file_heap := (file_heap s)(p \<mapsto> g f)\<rparr>))"
  by (simp add: upd_file_def)

text \<open>The inode of an open file, at rest.\<close>

definition open_file :: "'d fs \<Rightarrow> addr \<Rightarrow> file_t \<Rightarrow> inode \<Rightarrow> bool" where
  "open_file s p f i \<longleftrightarrow> file_heap s p = Some f \<and> inode_heap s (finode f) = Some i \<and> idle i \<and>
     0 \<le> fpos f \<and> length_ok (idata i)"

lemma file_read_run:
  assumes "heap_ok E" "cache_ready E s" "open_file s p f i"
  shows "wpK (file_read E p sz) (\<lambda>r t. r = take (nat sz) (drop (nat (fpos f)) (file_bytes (contents E s) (idata i))) \<and>
    cache_ready E t \<and> contents E t = contents E s \<and> inode_heap t = inode_heap s \<and>
    file_heap t = (file_heap s)(p \<mapsto> f\<lparr>fpos := fpos f + int (length r)\<rparr>)) s"
proof -
  have "wpK (inode_read_at E (finode f) sz (fpos f)) (\<lambda>r t. cache_only E s t \<and>
      r = take (nat sz) (drop (nat (fpos f)) (file_bytes (contents E s) (idata i)))) s"
    by (rule inode_read_at_run) (use assms in \<open>simp_all add: open_file_def idle_def\<close>)
  then have "wpK (inode_read_at E (finode f) sz (fpos f)) (\<lambda>r. wpK
      (thenK (upd_file p (\<lambda>f. f\<lparr>fpos := fpos f + int (length r)\<rparr>)) (retK r))
      (\<lambda>r t. r = take (nat sz) (drop (nat (fpos f)) (file_bytes (contents E s) (idata i))) \<and>
        cache_ready E t \<and> contents E t = contents E s \<and> inode_heap t = inode_heap s \<and>
        file_heap t = (file_heap s)(p \<mapsto> f\<lparr>fpos := fpos f + int (length r)\<rparr>))) s"
    by (rule wpK_mono) (use assms(3) in \<open>auto simp: cache_only_def open_file_def same_upper_fs\<close>)
  with assms(3) show ?thesis by (simp add: file_read_def open_file_def)
qed

lemma open_file_move:
  "open_file s p f i \<Longrightarrow> inode_heap t = inode_heap s \<Longrightarrow> file_heap t = (file_heap s)(p \<mapsto> f\<lparr>fpos := n\<rparr>) \<Longrightarrow>
   0 \<le> n \<Longrightarrow> open_file t p (f\<lparr>fpos := n\<rparr>) i"
  by (simp add: open_file_def)

lemma file_write_run:
  assumes "heap_ok E" "cache_ready E s" "open_file s p f i" "deny_write_cnt i = 0" "layout_ok (contents E s) (idata i)"
    and "fpos f + int (length buf) \<le> dlength (idata i)"
  shows "wpK (file_write E p buf (int (length buf))) (\<lambda>r t. r = int (length buf) \<and>
    cache_ready E t \<and> inode_heap t = inode_heap s \<and>
    file_heap t = (file_heap s)(p \<mapsto> f\<lparr>fpos := fpos f + int (length buf)\<rparr>) \<and>
    file_bytes (contents E t) (idata i) = put_bytes (nat (fpos f)) buf (file_bytes (contents E s) (idata i))) s"
proof -
  let ?n = "int (length buf)"
  have "wpK (inode_write_at E (finode f) buf ?n (fpos f)) (\<lambda>r t. r = ?n \<and>
      wrote E (idata i) (nat (fpos f)) (take (nat ?n) buf) s t) s"
    by (rule inode_write_at_run) (use assms in \<open>simp_all add: open_file_def\<close>)
  then have "wpK (inode_write_at E (finode f) buf ?n (fpos f)) (\<lambda>r. wpK
      (thenK (upd_file p (\<lambda>f. f\<lparr>fpos := fpos f + r\<rparr>)) (retK r))
      (\<lambda>r t. r = ?n \<and> cache_ready E t \<and> inode_heap t = inode_heap s \<and>
        file_heap t = (file_heap s)(p \<mapsto> f\<lparr>fpos := fpos f + ?n\<rparr>) \<and>
        file_bytes (contents E t) (idata i) = put_bytes (nat (fpos f)) buf (file_bytes (contents E s) (idata i)))) s"
    by (rule wpK_mono) (use assms(3) in \<open>auto simp: wrote_def open_file_def same_upper_fs\<close>)
  with assms(3) show ?thesis by (simp add: file_write_def open_file_def)
qed

lemma take_drop_steps:
  "take (a + b) (drop k F) = take a (drop k F) @ take b (drop (k + length (take a (drop k F))) F)"
proof (cases "a \<le> length F - k")
  case True
  then have "length (take a (drop k F)) = a" by simp
  then show ?thesis by (simp only: take_add drop_drop add.commute)
next
  case False
  then show ?thesis by (cases "k \<le> length F") simp_all
qed

section \<open>Properties\<close>

definition sim_handle :: file_t where
  "sim_handle = \<lparr>finode = 0, fpos = 1, deny_write = False\<rparr>"

definition sim_files :: "(u32 \<Rightarrow> byte list) fs" where
  "sim_files = sim_open\<lparr>file_heap := [4 \<mapsto> sim_handle], file_brk := 5\<rparr>"

lemma sim_files_open: "open_file sim_files 4 sim_handle sim_inode"
  using sim_length_ok by (simp add: open_file_def sim_files_def sim_handle_def sim_open_inode sim_inode_simps)

lemma sim_files_ready: "cache_ready sim_env sim_files"
  using sim_open_ready by (simp add: sim_files_def)

text \<open>
  The file position: reading \<open>m\<close> and then \<open>n\<close> bytes of an open file returns the bytes
  one read of \<open>m + n\<close> returns, and moves the position as far.
\<close>

lemma file_read_in_steps:
  assumes "heap_ok E" "cache_ready E s" "open_file s p f i" "0 \<le> m" "0 \<le> n"
  shows "\<exists>xs ys t u. file_read E p (m + n) s = Inr (xs @ ys, u) \<and>
    bindK (file_read E p m) (\<lambda>xs. bindK (file_read E p n) (\<lambda>ys. retK (xs, ys))) s = Inr ((xs, ys), t) \<and>
    file_heap t = file_heap u \<and> contents E t = contents E s"
proof -
  let ?F = "file_bytes (contents E s) (idata i)" and ?k = "nat (fpos f)"
  have k: "0 \<le> fpos f" using assms(3) by (simp add: open_file_def)
  obtain u where u: "file_read E p (m + n) s = Inr (take (nat (m + n)) (drop ?k ?F), u)"
      "file_heap u = (file_heap s)(p \<mapsto> f\<lparr>fpos := fpos f + int (length (take (nat (m + n)) (drop ?k ?F)))\<rparr>)"
    using file_read_run[OF assms(1-3), of "m + n"] by (auto simp: wpK_iff)
  let ?xs = "take (nat m) (drop ?k ?F)"
  let ?f = "f\<lparr>fpos := fpos f + int (length ?xs)\<rparr>"
  obtain v where v: "file_read E p m s = Inr (?xs, v)" "cache_ready E v" "contents E v = contents E s"
      "inode_heap v = inode_heap s" "file_heap v = (file_heap s)(p \<mapsto> ?f)"
    using file_read_run[OF assms(1-3), of m] by (auto simp: wpK_iff)
  have of: "open_file v p ?f i" using v k by (intro open_file_move[OF assms(3)]) simp_all
  let ?ys = "take (nat n) (drop (?k + length ?xs) ?F)"
  obtain t where t: "file_read E p n v = Inr (?ys, t)" "contents E t = contents E v"
      "file_heap t = (file_heap v)(p \<mapsto> ?f\<lparr>fpos := fpos ?f + int (length ?ys)\<rparr>)"
    using file_read_run[OF assms(1) v(2) of, of n] v(3) k by (auto simp: wpK_iff nat_add_distrib)
  have e: "take (nat (m + n)) (drop ?k ?F) = ?xs @ ?ys"
    using take_drop_steps[of "nat m" "nat n" ?k ?F] assms(4,5) by (simp only: nat_add_distrib)
  have "file_heap u = (file_heap s)(p \<mapsto> f\<lparr>fpos := fpos f + int (length (?xs @ ?ys))\<rparr>)"
    using u(2) unfolding e .
  then have "file_heap t = file_heap u"
    using t(3) v(5) by (simp add: add.assoc)
  moreover have "bindK (file_read E p m) (\<lambda>xs. bindK (file_read E p n) (\<lambda>ys. retK (xs, ys))) s = Inr ((?xs, ?ys), t)"
    using v(1) t(1) by (simp only: bindK_apply sum.case prod.case retK_apply)
  moreover have "contents E t = contents E s" using t(2) v(3) by simp
  ultimately show ?thesis using u(1) unfolding e by blast
qed

text \<open>
  C20. Write, seek back, read: writing a buffer that fits at the current position, seeking
  back to that position and reading as many bytes returns the buffer.
\<close>

theorem file_write_seek_read:
  assumes "heap_ok E" "cache_ready E s" "open_file s p f i" "deny_write_cnt i = 0" "layout_ok (contents E s) (idata i)"
    and "fpos f + int (length buf) \<le> dlength (idata i)"
  shows "\<exists>t. bindK (file_write E p buf (int (length buf))) (\<lambda>n. thenK (file_seek (Some p) (fpos f))
    (file_read E p n)) s = Inr (buf, t) \<and> cache_ready E t"
proof -
  let ?n = "int (length buf)" and ?k = "nat (fpos f)"
  have k: "0 \<le> fpos f" using assms(3) by (simp add: open_file_def)
  obtain t where t: "file_write E p buf ?n s = Inr (?n, t)" "cache_ready E t" "inode_heap t = inode_heap s"
      "file_heap t = (file_heap s)(p \<mapsto> f\<lparr>fpos := fpos f + ?n\<rparr>)"
      "file_bytes (contents E t) (idata i) = put_bytes ?k buf (file_bytes (contents E s) (idata i))"
    using file_write_run[OF assms] by (auto simp: wpK_iff)
  let ?u = "t\<lparr>file_heap := (file_heap s)(p \<mapsto> f)\<rparr>"
  have seek: "file_seek (Some p) (fpos f) t = Inr ((), ?u)"
    using t(4) k by (simp add: file_seek_def kstep ptrK_def upd_file_def fileK_def)
  have "open_file ?u p f i" using assms(3) t(3) by (simp add: open_file_def)
  from file_read_run[OF assms(1) _ this, of ?n] t(2)
  obtain v where v: "file_read E p ?n ?u = Inr (take (length buf) (drop ?k (file_bytes (contents E ?u) (idata i))), v)"
      "cache_ready E v" by (auto simp: wpK_iff)
  have "take (length buf) (drop ?k (file_bytes (contents E ?u) (idata i))) = buf"
    using get_put_bytes[of ?k buf "file_bytes (contents E s) (idata i)" "length buf"] t(5) assms(6) k
    by (simp add: get_bytes_def le_nat_iff)
  with t(1) seek v show ?thesis by (simp add: kstep)
qed

theorem file_write_seek_read_witness:
  "\<exists>t. bindK (file_write sim_env 4 [9, 8, 7] 3) (\<lambda>n. thenK (file_seek (Some 4) 1) (file_read sim_env 4 n)) sim_files
    = Inr ([9, 8, 7], t)"
  using file_write_seek_read[OF sim_heap_ok sim_files_ready sim_files_open sim_inode_simps(3) sim_layout_ok, of "[9, 8, 7]"]
  by (auto simp: sim_handle_def sim_inode_simps)

text \<open>
  Denying writes through a file is undone exactly by allowing them: from a file that has
  not denied writes, whose inode has an opener left to deny, denying and allowing leaves the
  whole state as it was, and denying twice is denying once.
\<close>

lemma file_deny_allow_roundtrip:
  assumes "file_heap s p = Some f" "\<not> deny_write f" "inode_heap s (finode f) = Some i" "iio i = None"
    and "0 \<le> deny_write_cnt i" "deny_write_cnt i < open_cnt i"
  shows "thenK (file_deny_write (Some p)) (file_allow_write (Some p)) s = Inr ((), s) \<and>
    thenK (file_deny_write (Some p)) (file_deny_write (Some p)) s = file_deny_write (Some p) s"
proof -
  let ?f = "f\<lparr>deny_write := True\<rparr>" and ?i = "i\<lparr>deny_write_cnt := deny_write_cnt i + 1\<rparr>"
  let ?t = "s\<lparr>file_heap := (file_heap s)(p \<mapsto> ?f), inode_heap := (inode_heap s)(finode f \<mapsto> ?i)\<rparr>"
  have i: "i\<lparr>deny_write_cnt := c, iio := None\<rparr> = i\<lparr>deny_write_cnt := c\<rparr>" for c using assms(4) by (cases i) simp
  have same: "i\<lparr>deny_write_cnt := deny_write_cnt i, iio := None\<rparr> = i"
    using assms(4) by (cases i) simp
  have same_f: "f\<lparr>deny_write := False\<rparr> = f" using assms(2) by (cases f) simp
  have "wpK (file_deny_write (Some p)) (\<lambda>_ t. t = ?t) s"
    using assms by (simp add: file_deny_write_def inode_deny_write_def i)
  then have deny: "file_deny_write (Some p) s = Inr ((), ?t)" by (simp add: wpK_iff)
  have "s\<lparr>file_heap := (file_heap s)(p \<mapsto> f), inode_heap := (inode_heap s)(finode f \<mapsto> i)\<rparr> = s"
    using assms(1,3) by (simp add: fun_upd_idem)
  then have "wpK (file_allow_write (Some p)) (\<lambda>_ t. t = s) ?t"
    using assms(5,6) same same_f by (simp add: file_allow_write_def inode_allow_write_def assms(4) iio_id)
  moreover have "wpK (file_deny_write (Some p)) (\<lambda>_ t. t = ?t) ?t"
    by (simp add: file_deny_write_def)
  ultimately show ?thesis using deny by (simp add: wpK_iff kstep)
qed

end
