(* ===== verification/Directory_Scan.thy ===== *)
theory Directory_Scan
  imports Directory
begin

text \<open>
  Directories as lists of entries: the abstract view \<open>dir_entries\<close> of a directory file, the
  loop over it, and the theorems on \<^verbatim>\<open>lookup\<close>, \<^verbatim>\<open>dir_add\<close>, path splitting and path
  resolution.
\<close>

section \<open>The abstract directory\<close>

definition dir_entries :: "byte list \<Rightarrow> dir_entry list" where
  "dir_entries F = map (\<lambda>k. decode_entry (get_bytes (20 * k) 20 F)) [0..<length F div 20]"

definition entry_wf :: "dir_entry \<Rightarrow> bool" where
  "entry_wf e \<longleftrightarrow> length (ename e) = 15"

text \<open>The first entry, counted from \<open>k\<close>, at which the loop stops.\<close>

fun scan_list :: "(dir_entry \<Rightarrow> kerror + bool) \<Rightarrow> nat \<Rightarrow> dir_entry list \<Rightarrow> (nat \<times> dir_entry) option" where
  "scan_list stop k [] = None"
| "scan_list stop k (e # es) = (if stop e = Inr True then Some (k, e) else scan_list stop (Suc k) es)"

lemma length_encode_entry: "entry_wf e \<Longrightarrow> length (encode_entry e) = 20"
  by (simp add: encode_entry_def entry_wf_def)

lemma decode_entry_wf: "length x = 20 \<Longrightarrow> entry_wf (decode_entry x)"
  by (simp add: decode_entry_def entry_wf_def)

lemma decode_encode_entry [simp]: "entry_wf e \<Longrightarrow> decode_entry (encode_entry e) = e"
  by (cases e) (simp add: encode_entry_def decode_entry_def entry_wf_def nth_append
      get_bytes_append_left get_bytes_append_right)

lemma length_dir_entries [simp]: "length (dir_entries F) = length F div 20"
  by (simp add: dir_entries_def)

lemma nth_dir_entries: "k < length F div 20 \<Longrightarrow> dir_entries F ! k = decode_entry (get_bytes (20 * k) 20 F)"
  by (simp add: dir_entries_def)

lemma entry_inside: "k < length F div 20 \<Longrightarrow> 20 * k + 20 \<le> length (F :: 'a list)"
  using times_div_less_eq_dividend[of 20 "length F"] by linarith

text \<open>Writing one entry changes that entry.\<close>

lemma get_put_bytes_apart:
  assumes "i + n \<le> k \<or> k + length xs \<le> i" "i + n \<le> length F" "k + length xs \<le> length F"
  shows "get_bytes i n (put_bytes k xs F) = get_bytes i n F"
  using assms by (intro nth_equalityI) (auto simp: nth_put_bytes)

lemma dir_entries_put:
  assumes "k < length F div 20" "entry_wf e"
  shows "dir_entries (put_bytes (20 * k) (encode_entry e) F) = (dir_entries F)[k := e]"
proof (rule nth_equalityI)
  note len = length_encode_entry[OF assms(2)] and k = entry_inside[OF assms(1)]
  then have l: "length (put_bytes (20 * k) (encode_entry e) F) = length F" by simp
  then show "length (dir_entries (put_bytes (20 * k) (encode_entry e) F)) = length ((dir_entries F)[k := e])" by simp
  fix i assume "i < length (dir_entries (put_bytes (20 * k) (encode_entry e) F))"
  then have i: "i < length F div 20" using l by simp
  have "get_bytes (20 * i) 20 (put_bytes (20 * k) (encode_entry e) F) =
      (if i = k then encode_entry e else get_bytes (20 * i) 20 F)"
  proof (cases "i = k")
    case False
    then have "20 * i + 20 \<le> 20 * k \<or> 20 * k + 20 \<le> 20 * i" by linarith
    then show ?thesis using False get_put_bytes_apart[of "20 * i" 20 "20 * k" "encode_entry e" F]
      len k entry_inside[OF i] by simp
  qed (use len k in simp)
  with i l assms show "dir_entries (put_bytes (20 * k) (encode_entry e) F) ! i = (dir_entries F)[k := e] ! i"
    by (simp add: nth_dir_entries nth_list_update)
qed

section \<open>The loop\<close>

definition scan_post :: "'d env \<Rightarrow> (dir_entry \<Rightarrow> kerror + bool) \<Rightarrow> nat \<Rightarrow> dir_entry list \<Rightarrow> 'd fs \<Rightarrow>
    bool \<times> off_t \<times> dir_entry \<Rightarrow> 'd fs \<Rightarrow> bool" where
  "scan_post E stop k es s r t \<longleftrightarrow> cache_only E s t \<and> (case r of (found, ofs, e) \<Rightarrow>
     entry_wf e \<and> (case scan_list stop k es of
       Some (j, e') \<Rightarrow> found \<and> ofs = 20 * int j \<and> e = e'
     | None \<Rightarrow> \<not> found \<and> ofs = 20 * int (k + length es)))"

lemma scan_post_step:
  "stop e = Inr False \<Longrightarrow> cache_only E s t \<Longrightarrow> scan_post E stop (Suc k) es t r u \<Longrightarrow> scan_post E stop k (e # es) s r u"
  by (auto simp: scan_post_def intro: cache_only_trans split: prod.splits option.splits)

lemma scan_entries_run:
  assumes "heap_ok E" "cache_ready E s" "inode_heap s p = Some i" "iio i = None" "length_ok (idata i)" "entry_wf e"
    and "F = file_bytes (contents E s) (idata i)" "k \<le> length F div 20" "length F div 20 - k < n"
    and "\<forall>x\<in>set (dir_entries F). \<exists>b. stop x = Inr b"
  shows "wpK (scan_entries E p stop n (20 * int k) e) (scan_post E stop k (drop k (dir_entries F)) s) s"
  using assms(2-)
proof (induction n arbitrary: k e s)
  case 0
  then show ?case by simp
next
  case (Suc n)
  let ?bs = "take 20 (drop (20 * k) F)"
  have "wpK (inode_read_at E p ENTRY_SIZE (20 * int k)) (\<lambda>r t. cache_only E s t \<and> r = ?bs) s"
    using inode_read_at_run[OF assms(1) Suc.prems(1-4), of "20 * int k" ENTRY_SIZE] Suc.prems(6)
    by (simp add: ENTRY_SIZE_def nat_mult_distrib)
  then show ?case
    unfolding scan_entries.simps wpK_bind
  proof (rule wpK_mono)
    fix bs t assume "cache_only E s t \<and> bs = ?bs"
    then have t: "cache_only E s t" and bs: "bs = ?bs" by simp_all
    let ?e = "decode_entry (put_bytes 0 bs (encode_entry e))"
    let ?body = "let e = ?e in if int (length bs) \<noteq> ENTRY_SIZE then retK (False, 20 * int k, e)
       else bindK (liftK (stop e)) (\<lambda>found. if found then retK (True, 20 * int k, e)
         else scan_entries E p stop n (20 * int k + ENTRY_SIZE) e)"
    have e20: "length (encode_entry e) = 20" using length_encode_entry Suc.prems(5) by simp
    have wf: "entry_wf ?e" using e20 bs by (intro decode_entry_wf) simp
    show "wpK ?body (scan_post E stop k (drop k (dir_entries F)) s) t"
    proof (cases "k < length F div 20")
      case True
      then have "length bs = 20" using bs entry_inside[OF True] by simp
      then have e: "?e = dir_entries F ! k" "int (length bs) = ENTRY_SIZE"
        using True bs e20 by (simp_all add: nth_dir_entries get_bytes_def ENTRY_SIZE_def)
      have es: "drop k (dir_entries F) = ?e # drop (Suc k) (dir_entries F)"
        using True e(1) by (simp add: Cons_nth_drop_Suc)
      obtain b where b: "stop ?e = Inr b" using Suc.prems(9) e(1) True by fastforce
      show ?thesis
      proof (cases b)
        case True
        then show ?thesis using e b es t wf by (auto simp: scan_post_def Let_def)
      next
        case False
        have "wpK (scan_entries E p stop n (20 * int (Suc k)) ?e) (scan_post E stop (Suc k) (drop (Suc k) (dir_entries F)) t) t"
          using t Suc.prems True wf cache_only_inode[OF t]
          by (intro Suc.IH) (auto simp: cache_only_def)
        then have X: "wpK (scan_entries E p stop n (20 * int (Suc k)) ?e) (scan_post E stop k (?e # drop (Suc k) (dir_entries F)) s) t"
          by (rule wpK_mono) (rule scan_post_step, use b False t in simp_all)
        have sz: "20 * int k + ENTRY_SIZE = 20 * int (Suc k)" by (simp add: ENTRY_SIZE_def)
        have "wpK (scan_entries E p stop n (20 * int k + ENTRY_SIZE) ?e) (scan_post E stop k (drop k (dir_entries F)) s) t"
          unfolding sz es by (rule X)
        then show ?thesis using e(2) b False by (auto simp: Let_def)
      qed
    next
      case False
      then have k: "k = length F div 20" using Suc.prems(7) by simp
      then have "length bs < 20" using bs by (simp add: min_def)
      then show ?thesis using t wf k by (simp add: scan_post_def ENTRY_SIZE_def Let_def)
    qed
  qed
qed

text \<open>A directory at rest: its handle, its inode and its bytes.\<close>

definition open_dir :: "'d env \<Rightarrow> 'd fs \<Rightarrow> addr \<Rightarrow> addr \<Rightarrow> inode \<Rightarrow> byte list \<Rightarrow> bool" where
  "open_dir E s p ip i F \<longleftrightarrow> (\<exists>f. file_heap s p = Some f \<and> finode f = ip) \<and> inode_heap s ip = Some i \<and>
     idle i \<and> length_ok (idata i) \<and> F = file_bytes (contents E s) (idata i)"

lemma scan_dir_run:
  assumes "heap_ok E" "cache_ready E s" "open_dir E s p ip i F" "\<forall>x\<in>set (dir_entries F). \<exists>b. stop x = Inr b"
  shows "wpK (scan_dir E ip stop 0) (scan_post E stop 0 (dir_entries F) s) s"
proof -
  have "length F = nat (dlength (idata i))" using assms(3) by (simp add: open_dir_def)
  moreover have "entry_wf stack_entry" by (simp add: entry_wf_def stack_entry_def)
  ultimately show ?thesis
    using scan_entries_run[OF assms(1,2), of ip i stack_entry F 0 "Suc (length F div 20)" stop] assms(3,4)
    by (simp add: scan_dir_def open_dir_def idle_def)
qed

section \<open>Names\<close>

lemma strcmp_eq_terminated:
  "0 \<in> set buf \<Longrightarrow> 0 \<notin> set name \<Longrightarrow> strcmp_eq name buf = Inr (name = takeWhile (\<lambda>b. b \<noteq> 0) buf)"
  by (induction name buf rule: strcmp_eq.induct) auto

text \<open>The names of the entries in use are terminated.\<close>

definition names_ok :: "dir_entry list \<Rightarrow> bool" where
  "names_ok es \<longleftrightarrow> (\<forall>e\<in>set es. in_use_flag e \<longrightarrow> 0 \<in> set (ename e))"

definition entry_name :: "dir_entry \<Rightarrow> cstr" where
  "entry_name e = takeWhile (\<lambda>b. b \<noteq> 0) (ename e)"

lemma name_matches_eq:
  "(in_use_flag e \<longrightarrow> 0 \<in> set (ename e)) \<Longrightarrow> 0 \<notin> set name \<Longrightarrow>
   name_matches name e = Inr (in_use_flag e \<and> name = entry_name e)"
  by (simp add: name_matches_def strcmp_eq_terminated entry_name_def)

lemma names_total:
  "names_ok es \<Longrightarrow> 0 \<notin> set name \<Longrightarrow> \<forall>x\<in>set es. \<exists>b. name_matches name x = Inr b"
  by (auto simp: names_ok_def name_matches_eq)

lemma dir_get_inode_run: "open_dir E s p ip i F \<Longrightarrow> dir_get_inode (Some p) s = Inr (ip, s)"
  by (auto simp: open_dir_def dir_get_inode_def kstep ptrK_def fileK_def)

lemma open_dir_cache_only: "open_dir E s p ip i F \<Longrightarrow> cache_only E s t \<Longrightarrow> open_dir E t p ip i F"
  by (auto simp: open_dir_def cache_only_def same_upper_fs)

lemma lookup_run:
  assumes "heap_ok E" "cache_ready E s" "open_dir E s p ip i F" "names_ok (dir_entries F)" "0 \<notin> set name"
  shows "wpK (lookup E (Some p) name) (\<lambda>r t. cache_only E s t \<and>
    r = map_option (\<lambda>(k, e). (e, 20 * int k)) (scan_list (name_matches name) 0 (dir_entries F))) s"
proof -
  have "wpK (dir_get_inode (Some p)) (\<lambda>j t. j = ip \<and> t = s) s"
    using dir_get_inode_run[OF assms(3)] by (simp add: wpK_iff)
  then have "wpK (dir_get_inode (Some p)) (\<lambda>ip. wpK (bindK (scan_dir E ip (name_matches name) 0) (\<lambda>(found, ofs, e).
      retK (if found then Some (e, ofs) else None))) (\<lambda>r t. cache_only E s t \<and>
      r = map_option (\<lambda>(k, e). (e, 20 * int k)) (scan_list (name_matches name) 0 (dir_entries F)))) s"
  proof (rule wpK_mono)
    fix j t assume "j = ip \<and> t = s"
    moreover have "wpK (bindK (scan_dir E ip (name_matches name) 0) (\<lambda>(found, ofs, e).
      retK (if found then Some (e, ofs) else None))) (\<lambda>r t. cache_only E s t \<and>
      r = map_option (\<lambda>(k, e). (e, 20 * int k)) (scan_list (name_matches name) 0 (dir_entries F))) s"
      unfolding wpK_bind
      by (rule wpK_mono[OF scan_dir_run[OF assms(1-3) names_total[OF assms(4,5)]]])
         (auto simp: scan_post_def split: prod.splits option.splits)
    ultimately show "wpK (bindK (scan_dir E j (name_matches name) 0) (\<lambda>(found, ofs, e).
      retK (if found then Some (e, ofs) else None))) (\<lambda>r t. cache_only E s t \<and>
      r = map_option (\<lambda>(k, e). (e, 20 * int k)) (scan_list (name_matches name) 0 (dir_entries F))) t" by simp
  qed
  then show ?thesis by (simp add: lookup_def)
qed

text \<open>What the scan finds, in terms of the list.\<close>

lemma scan_list_None: "scan_list stop k es = None \<longleftrightarrow> (\<forall>e\<in>set es. stop e \<noteq> Inr True)"
  by (induction es arbitrary: k) auto

lemma scan_list_Some:
  "scan_list stop k es = Some (j, e) \<Longrightarrow> k \<le> j \<and> j < k + length es \<and> es ! (j - k) = e \<and> stop e = Inr True \<and>
   (\<forall>m<j - k. stop (es ! m) \<noteq> Inr True)"
proof (induction es arbitrary: k)
  case (Cons x es)
  show ?case
  proof (cases "stop x = Inr True")
    case False
    then have "Suc k \<le> j \<and> j < Suc k + length es \<and> es ! (j - Suc k) = e \<and> stop e = Inr True \<and>
        (\<forall>m<j - Suc k. stop (es ! m) \<noteq> Inr True)"
      using Cons.IH[of "Suc k"] Cons.prems by simp
    then show ?thesis using False by (auto simp: nth_Cons' less_Suc_eq_0_disj)
  qed (use Cons.prems in simp)
qed simp

lemma scan_list_update:
  "scan_list stop k es = None \<Longrightarrow> j < length es \<Longrightarrow> stop e = Inr True \<Longrightarrow> scan_list stop k (es[j := e]) = Some (k + j, e)"
proof (induction es arbitrary: k j)
  case (Cons x es)
  then show ?case by (cases j) (auto split: if_splits)
qed simp

section \<open>Adding an entry\<close>

lemma strlcpy_props:
  assumes "length buf = 15" "length name \<le> NAME_MAX" "0 \<notin> set name"
  shows "length (strlcpy buf name (NAME_MAX + 1)) = 15" "0 \<in> set (strlcpy buf name (NAME_MAX + 1))"
    "takeWhile (\<lambda>b. b \<noteq> 0) (strlcpy buf name (NAME_MAX + 1)) = name"
proof -
  have e: "strlcpy buf name (NAME_MAX + 1) = name @ 0 # drop (Suc (length name)) buf"
    using assms(2) by (simp add: strlcpy_def put_bytes_def)
  show "length (strlcpy buf name (NAME_MAX + 1)) = 15" using e assms by (simp add: NAME_MAX_def)
  show "0 \<in> set (strlcpy buf name (NAME_MAX + 1))" using e by simp
  show "takeWhile (\<lambda>b. b \<noteq> 0) (strlcpy buf name (NAME_MAX + 1)) = name"
    unfolding e using assms(3) by (subst takeWhile_append2) auto
qed

definition added :: "dir_entry \<Rightarrow> cstr \<Rightarrow> u32 \<Rightarrow> dir_entry" where
  "added e name sector = e\<lparr>in_use_flag := True, ename := strlcpy (ename e) name (NAME_MAX + 1), inode_sector := sector\<rparr>"

lemma dir_add_unfold:
  "dir_add E dir name a = thenK (assertK (dir \<noteq> None))
     (if name = [] \<or> length name > NAME_MAX then retK False
      else bindK (lookup E dir name) (\<lambda>r.
        if r \<noteq> None then retK False
        else bindK (dir_get_inode dir) (\<lambda>ip.
          bindK (scan_dir E ip (\<lambda>e. Inr (\<not> in_use_flag e)) 0) (\<lambda>(_, ofs, e).
          let e = added e name a in
          bindK (inode_write_at E ip (encode_entry e) ENTRY_SIZE ofs) (\<lambda>n.
          retK (n = ENTRY_SIZE))))))"
  unfolding dir_add_def added_def ..

lemma added_props:
  assumes "entry_wf e" "length name \<le> NAME_MAX" "0 \<notin> set name"
  shows "entry_wf (added e name a)" "name_matches name (added e name a) = Inr True" "0 \<in> set (ename (added e name a))"
proof -
  note p = strlcpy_props[of "ename e" name, OF _ assms(2,3)]
  have "length (ename e) = 15" using assms(1) by (simp add: entry_wf_def)
  with p show "entry_wf (added e name a)" "0 \<in> set (ename (added e name a))"
    "name_matches name (added e name a) = Inr True"
    using assms(3) by (simp_all add: entry_wf_def added_def name_matches_def strcmp_eq_terminated)
qed

lemma names_ok_update:
  "names_ok es \<Longrightarrow> 0 \<in> set (ename e) \<Longrightarrow> names_ok (es[k := e])"
  unfolding names_ok_def by (auto dest: set_update_subset_insert[THEN subsetD])

lemma open_dir_wrote:
  "open_dir E s p ip i F \<Longrightarrow> wrote E (idata i) k xs s t \<Longrightarrow> open_dir E t p ip i (put_bytes k xs F)"
  by (auto simp: open_dir_def wrote_def same_upper_fs)

lemma dir_add_run:
  assumes "heap_ok E" "cache_ready E s" "open_dir E s p ip i F" "deny_write_cnt i = 0"
    and "layout_ok (contents E s) (idata i)" "names_ok (dir_entries F)"
    and "name \<noteq> []" "length name \<le> NAME_MAX" "0 \<notin> set name"
    and "scan_list (name_matches name) 0 (dir_entries F) = None"
    and "scan_list (\<lambda>e. Inr (\<not> in_use_flag e)) 0 (dir_entries F) = Some (k, e)"
  shows "wpK (dir_add E (Some p) name a) (\<lambda>r t. r \<and> wrote E (idata i) (20 * k) (encode_entry (added e name a)) s t) s"
proof -
  let ?Q = "\<lambda>r t. r \<and> wrote E (idata i) (20 * k) (encode_entry (added e name a)) s t"
  have k: "k < length F div 20" "e = dir_entries F ! k" using scan_list_Some[OF assms(11)] by auto
  have "length (get_bytes (20 * k) 20 F) = 20" using entry_inside[OF k(1)] by simp
  then have wf: "entry_wf e" using k decode_entry_wf by (simp add: nth_dir_entries)
  have F: "length F = nat (dlength (idata i))" using assms(3) by (simp add: open_dir_def)
  have len: "int (length (encode_entry (added e name a))) = ENTRY_SIZE"
    using length_encode_entry[OF added_props(1)[OF wf assms(8,9)]] by (simp add: ENTRY_SIZE_def)
  have fits: "20 * int k + ENTRY_SIZE \<le> dlength (idata i)"
    using entry_inside[OF k(1)] F by (simp add: ENTRY_SIZE_def)
  have wr: "wpK (inode_write_at E ip (encode_entry (added e name a)) ENTRY_SIZE (20 * int k)) (\<lambda>n.
      wpK (retK (n = ENTRY_SIZE)) ?Q) u" if u: "cache_only E s u" for u
  proof (rule wpK_mono)
    have "open_dir E u p ip i F" by (rule open_dir_cache_only[OF assms(3) u])
    then show "wpK (inode_write_at E ip (encode_entry (added e name a)) ENTRY_SIZE (20 * int k)) (\<lambda>r t. r = ENTRY_SIZE \<and>
        wrote E (idata i) (nat (20 * int k)) (take (nat ENTRY_SIZE) (encode_entry (added e name a))) u t) u"
      using u assms(4,5) len fits
      by (intro inode_write_at_run[OF assms(1)]) (auto simp: cache_only_def open_dir_def ENTRY_SIZE_def)
    fix n t assume "n = ENTRY_SIZE \<and>
        wrote E (idata i) (nat (20 * int k)) (take (nat ENTRY_SIZE) (encode_entry (added e name a))) u t"
    then have n: "n = ENTRY_SIZE" and t: "wrote E (idata i) (20 * k) (encode_entry (added e name a)) u t"
      using len by (simp_all add: nat_mult_distrib ENTRY_SIZE_def)
    have "wrote E (idata i) (20 * k) (encode_entry (added e name a)) s t"
      using t u by (auto simp: wrote_def cache_only_def intro: same_upper_trans)
    then show "wpK (retK (n = ENTRY_SIZE)) ?Q t" using n by simp
  qed
  have scan: "wpK (scan_dir E ip (\<lambda>e. Inr (\<not> in_use_flag e)) 0) (\<lambda>r. wpK (case r of (_, ofs, e) \<Rightarrow>
      let e = added e name a in bindK (inode_write_at E ip (encode_entry e) ENTRY_SIZE ofs) (\<lambda>n.
          retK (n = ENTRY_SIZE))) ?Q) t" if t: "cache_only E s t" for t
  proof (rule wpK_mono[OF scan_dir_run[OF assms(1) _ open_dir_cache_only[OF assms(3) t]]])
    show "cache_ready E t" using t by (simp add: cache_only_def)
    fix r u assume "scan_post E (\<lambda>e. Inr (\<not> in_use_flag e)) 0 (dir_entries F) t r u"
    then have "cache_only E t u" "r = (True, 20 * int k, e)"
      using assms(11) by (auto simp: scan_post_def split: prod.splits)
    with wr[of u] cache_only_trans[OF t]
    show "wpK (case r of (_, ofs, e) \<Rightarrow> let e = added e name a in
        bindK (inode_write_at E ip (encode_entry e) ENTRY_SIZE ofs) (\<lambda>n. retK (n = ENTRY_SIZE))) ?Q u" by simp
  qed simp
  have "wpK (lookup E (Some p) name) (\<lambda>r. wpK (if r \<noteq> None then retK False
        else bindK (dir_get_inode (Some p)) (\<lambda>ip.
          bindK (scan_dir E ip (\<lambda>e. Inr (\<not> in_use_flag e)) 0) (\<lambda>(_, ofs, e).
          let e = added e name a in
          bindK (inode_write_at E ip (encode_entry e) ENTRY_SIZE ofs) (\<lambda>n. retK (n = ENTRY_SIZE))))) ?Q) s"
  proof (rule wpK_mono[OF lookup_run[OF assms(1-3,6,9)]])
    fix r t assume "cache_only E s t \<and>
      r = map_option (\<lambda>(k, e). (e, 20 * int k)) (scan_list (name_matches name) 0 (dir_entries F))"
    then have t: "cache_only E s t" "r = None" using assms(10) by simp_all
    show "wpK (if r \<noteq> None then retK False
        else bindK (dir_get_inode (Some p)) (\<lambda>ip.
          bindK (scan_dir E ip (\<lambda>e. Inr (\<not> in_use_flag e)) 0) (\<lambda>(_, ofs, e).
          let e = added e name a in
          bindK (inode_write_at E ip (encode_entry e) ENTRY_SIZE ofs) (\<lambda>n. retK (n = ENTRY_SIZE))))) ?Q t"
      using scan[OF t(1)] t(2) dir_get_inode_run[OF open_dir_cache_only[OF assms(3) t(1)]]
      by (simp add: wpK_def[of "dir_get_inode (Some p)"])
  qed
  then show ?thesis using assms(7,8) by (simp add: dir_add_unfold)
qed

text \<open>The directory with the new entry, as the loop over it sees it.\<close>

lemma added_found:
  fixes a :: u32
  assumes "names_ok (dir_entries F)" "length name \<le> NAME_MAX" "0 \<notin> set name"
    and "scan_list (name_matches name) 0 (dir_entries F) = None"
    and "scan_list (\<lambda>e. Inr (\<not> in_use_flag e)) 0 (dir_entries F) = Some (k, e)"
  defines "G \<equiv> put_bytes (20 * k) (encode_entry (added e name a)) F"
  shows "scan_list (name_matches name) 0 (dir_entries G) = Some (k, added e name a)" "names_ok (dir_entries G)"
    "entry_name (added e name a) = name"
proof -
  have k: "k < length F div 20" "e = dir_entries F ! k" using scan_list_Some[OF assms(5)] by auto
  have "length (get_bytes (20 * k) 20 F) = 20" using entry_inside[OF k(1)] by simp
  then have "entry_wf e" using k decode_entry_wf by (simp add: nth_dir_entries)
  note ae = added_props[OF this assms(2,3), of a]
  have F: "dir_entries G = (dir_entries F)[k := added e name a]" unfolding G_def by (rule dir_entries_put[OF k(1) ae(1)])
  show "scan_list (name_matches name) 0 (dir_entries G) = Some (k, added e name a)"
    unfolding F using scan_list_update[OF assms(4) _ ae(2)] k(1) by simp
  show "names_ok (dir_entries G)" unfolding F using names_ok_update[OF assms(1) ae(3)] by simp
  show "entry_name (added e name a) = name" using ae(2) name_matches_eq[OF _ assms(3), of "added e name a"] ae(3) by simp
qed

section \<open>Splitting paths\<close>

lemma strtok_token: "\<forall>c\<in>set t. c \<noteq> SLASH \<Longrightarrow> t \<noteq> [] \<Longrightarrow> strtok (t @ SLASH # cs) = t # strtok (SLASH # cs)"
  by (cases t) auto

lemma strtok_last: "\<forall>c\<in>set t. c \<noteq> SLASH \<Longrightarrow> t \<noteq> [] \<Longrightarrow> strtok t = [t]"
  by (cases t) (auto simp: takeWhile_eq_all_conv[THEN iffD2] dropWhile_eq_Nil_conv[THEN iffD2])

lemma strtok_slash [simp]: "strtok (SLASH # cs) = strtok cs"
  by simp

declare strtok.simps(2) [simp del]

section \<open>A directory for concrete runs\<close>

definition sim_dir_inode :: inode where
  "sim_dir_inode = sim_inode\<lparr>idata := zero_disk\<lparr>dlength := 40, sp := 3, disdir := True\<rparr>\<rparr>"

definition sim_dir :: "(u32 \<Rightarrow> byte list) fs" where
  "sim_dir = sim_fs\<lparr>inode_heap := [0 \<mapsto> sim_dir_inode], inode_brk := 1, open_inodes := [0],
     file_heap := [4 \<mapsto> sim_handle], file_brk := 5\<rparr>"

lemma sim_dir_ready: "cache_ready sim_env sim_dir"
  using sim_fs_ready by (simp add: sim_dir_def)

lemma sim_dir_bytes: "file_bytes (contents sim_env sim_dir) (idata sim_dir_inode) = replicate 40 0"
proof (rule replicate_eqI)
  show "length (file_bytes (contents sim_env sim_dir) (idata sim_dir_inode)) = 40" by (simp add: sim_dir_inode_def)
  fix y assume "y \<in> set (file_bytes (contents sim_env sim_dir) (idata sim_dir_inode))"
  then obtain m where m: "m < 40" "y = file_byte (contents sim_env sim_dir) (idata sim_dir_inode) m"
    by (auto simp: file_bytes_def sim_dir_inode_def)
  have "contents sim_env sim_dir a = replicate 512 0" for a
    by (simp add: contents_def sim_dir_def sim_fs_def sim_env_def)
  with m show "y = 0" by (simp add: file_byte_def)
qed

lemma sim_dir_length: "length_ok (idata sim_dir_inode)"
  by (simp add: length_ok_def sim_dir_inode_def MAX_LENGTH_def)

lemma sim_dir_open: "open_dir sim_env sim_dir 4 0 sim_dir_inode (replicate 40 0)"
  using sim_dir_length sim_dir_bytes
  by (simp add: open_dir_def sim_dir_def sim_handle_def idle_def sim_dir_inode_def sim_inode_def)

lemma sim_dir_layout: "layout_ok V (idata sim_dir_inode)"
  using sim_dir_length
  by (simp add: layout_ok_def data_sectors_def index_sectors_def nblocks_def sim_dir_inode_def inj_on_def)

lemma sim_dir_entries: "\<forall>e\<in>set (dir_entries (replicate 40 0)). \<not> in_use_flag e"
  by (auto simp: dir_entries_def decode_entry_def get_bytes_def)

lemma sim_dir_names: "names_ok (dir_entries (replicate 40 0))"
  using sim_dir_entries by (simp add: names_ok_def)

section \<open>Properties\<close>

text \<open>
  C22. \<^verbatim>\<open>lookup\<close> ends and finds exactly what the directory says: it returns the first entry
  in use with the given name together with its byte offset, and nothing if there is none;
  the directory is not changed.
\<close>

theorem lookup_first_match:
  assumes "heap_ok E" "cache_ready E s" "open_dir E s p ip i F" "names_ok (dir_entries F)" "0 \<notin> set name"
  shows "\<exists>r t. lookup E (Some p) name s = Inr (r, t) \<and> contents E t = contents E s \<and> (case r of
      None \<Rightarrow> \<forall>e\<in>set (dir_entries F). in_use_flag e \<longrightarrow> entry_name e \<noteq> name
    | Some (e, ofs) \<Rightarrow> \<exists>k<length (dir_entries F). ofs = 20 * int k \<and> e = dir_entries F ! k \<and>
        in_use_flag e \<and> entry_name e = name \<and>
        (\<forall>j<k. in_use_flag (dir_entries F ! j) \<longrightarrow> entry_name (dir_entries F ! j) \<noteq> name))"
proof -
  let ?es = "dir_entries F"
  have eq: "name_matches name e = Inr (in_use_flag e \<and> name = entry_name e)" if "e \<in> set ?es" for e
    using that assms(4,5) name_matches_eq[of e name] by (simp add: names_ok_def)
  obtain t where t: "lookup E (Some p) name s =
      Inr (map_option (\<lambda>(k, e). (e, 20 * int k)) (scan_list (name_matches name) 0 ?es), t)" "cache_only E s t"
    using lookup_run[OF assms] by (auto simp: wpK_iff)
  show ?thesis
  proof (cases "scan_list (name_matches name) 0 ?es")
    case None
    then have "\<forall>e\<in>set ?es. in_use_flag e \<longrightarrow> entry_name e \<noteq> name"
      using eq by (auto simp: scan_list_None)
    with t None show ?thesis by (auto simp: cache_only_def)
  next
    case (Some ke)
    then obtain k e where ke: "scan_list (name_matches name) 0 ?es = Some (k, e)" by (cases ke) auto
    then have k: "k < length ?es" "e = ?es ! k" "name_matches name e = Inr True"
        "\<forall>j<k. name_matches name (?es ! j) \<noteq> Inr True"
      using scan_list_Some[OF ke] by auto
    have "\<forall>j<k. in_use_flag (?es ! j) \<longrightarrow> entry_name (?es ! j) \<noteq> name"
      using k(1,4) eq nth_mem by fastforce
    moreover have "in_use_flag e" "entry_name e = name"
      using k(1-3) eq[of e] by (simp_all add: nth_mem)
    ultimately show ?thesis using t ke k(1,2) by (auto simp: cache_only_def)
  qed
qed

theorem lookup_first_match_witness:
  "\<exists>r t. lookup sim_env (Some 4) [97] sim_dir = Inr (r, t) \<and> r = None"
  using lookup_first_match[OF sim_heap_ok sim_dir_ready sim_dir_open sim_dir_names, of "[97]"] sim_dir_entries
  by (fastforce split: option.splits)

text \<open>
  C23. Insert and look up: adding a valid name that is not in the directory, when the
  directory has a free slot, succeeds, and looking the name up afterwards returns an entry
  with the sector that was added.
\<close>

theorem dir_add_then_lookup:
  assumes "heap_ok E" "cache_ready E s" "open_dir E s p ip i F" "deny_write_cnt i = 0"
    and "layout_ok (contents E s) (idata i)" "names_ok (dir_entries F)"
    and "name \<noteq> []" "length name \<le> NAME_MAX" "0 \<notin> set name"
    and "\<forall>e\<in>set (dir_entries F). in_use_flag e \<longrightarrow> entry_name e \<noteq> name"
    and "\<exists>e\<in>set (dir_entries F). \<not> in_use_flag e"
  shows "\<exists>t u e ofs. dir_add E (Some p) name a s = Inr (True, t) \<and>
    lookup E (Some p) name t = Inr (Some (e, ofs), u) \<and> inode_sector e = a \<and> entry_name e = name"
proof -
  let ?es = "dir_entries F"
  have none: "scan_list (name_matches name) 0 ?es = None"
    using assms(6,9,10) name_matches_eq[of _ name] by (auto simp: scan_list_None names_ok_def)
  obtain k e where ke: "scan_list (\<lambda>e. Inr (\<not> in_use_flag e)) 0 ?es = Some (k, e)"
    using assms(11) scan_list_None[of "\<lambda>e. Inr (\<not> in_use_flag e)" 0 ?es] by auto
  let ?e = "added e name a"
  let ?F = "put_bytes (20 * k) (encode_entry ?e) F"
  note found = added_found[OF assms(6,8,9) none ke, of a]
  obtain t where t: "dir_add E (Some p) name a s = Inr (True, t)" "wrote E (idata i) (20 * k) (encode_entry ?e) s t"
    using dir_add_run[OF assms(1-9) none ke, of a] by (auto simp: wpK_iff)
  then have r: "cache_ready E t" "open_dir E t p ip i ?F" using open_dir_wrote[OF assms(3)] by (auto simp: wrote_def)
  obtain u where u: "lookup E (Some p) name t = Inr (Some (?e, 20 * int k), u)"
    using lookup_run[OF assms(1) r found(2) assms(9)] found(1) by (auto simp: wpK_iff)
  moreover have "inode_sector ?e = a" by (simp add: added_def)
  ultimately show ?thesis using t(1) u found(3) by blast
qed

theorem dir_add_then_lookup_witness:
  "\<exists>t u e ofs. dir_add sim_env (Some 4) [97, 98] 6 sim_dir = Inr (True, t) \<and>
    lookup sim_env (Some 4) [97, 98] t = Inr (Some (e, ofs), u) \<and> inode_sector e = 6 \<and> entry_name e = [97, 98]"
proof (rule dir_add_then_lookup[OF sim_heap_ok sim_dir_ready sim_dir_open _ sim_dir_layout sim_dir_names])
  show "deny_write_cnt sim_dir_inode = 0" by (simp add: sim_dir_inode_def sim_inode_def)
  show "\<forall>e\<in>set (dir_entries (replicate 40 0)). in_use_flag e \<longrightarrow> entry_name e \<noteq> [97, 98]"
    using sim_dir_entries by simp
  have m: "dir_entries (replicate 40 0) ! 0 \<in> set (dir_entries (replicate 40 0))" by (rule nth_mem) simp
  show "\<exists>e\<in>set (dir_entries (replicate 40 0)). \<not> in_use_flag e"
    by (rule bexI[where P = "\<lambda>e. \<not> in_use_flag e", OF bspec[OF sim_dir_entries m] m])
qed (simp_all add: NAME_MAX_def)

text \<open>
  Splitting a path is the inverse of joining components with slashes: for components
  that are not empty and contain no slash, \<^verbatim>\<open>strtok_r\<close> gives them back one by one.
\<close>

lemma strtok_join:
  assumes "\<forall>t\<in>set ts. t \<noteq> [] \<and> SLASH \<notin> set t"
  shows "strtok (concat (map (\<lambda>t. SLASH # t) ts)) = ts"
  using assms
proof (induction ts)
  case Nil
  then show ?case by simp
next
  case (Cons t ts)
  show ?case
  proof (cases ts)
    case Nil
    then show ?thesis using Cons.prems strtok_last[of t] by auto
  next
    case (Cons u us)
    then have "concat (map (\<lambda>t. SLASH # t) ts) = SLASH # u @ concat (map (\<lambda>t. SLASH # t) us)" by simp
    then have "strtok (t @ concat (map (\<lambda>t. SLASH # t) ts)) = t # strtok (concat (map (\<lambda>t. SLASH # t) ts))"
      using Cons.prems strtok_token[of t] by auto
    then show ?thesis using Cons.IH Cons.prems by simp
  qed
qed

text \<open>
  C25. A leading \<^verbatim>\<open>"."\<close> swallows the rest of a relative path: \<^verbatim>\<open>true_dir\<close> skips the tokens
  after it instead of the dot itself, so opening, creating or removing \<^verbatim>\<open>"./a/b"\<close> does exactly
  what it does for \<^verbatim>\<open>"."\<close>.
\<close>

theorem dot_swallows_path:
  assumes "strtok name = DOT # rest" "hd name \<noteq> SLASH"
  shows "filesys_open E name = filesys_open E DOT \<and>
    filesys_create E name n isdir = filesys_create E DOT n isdir \<and>
    filesys_remove E name = filesys_remove E DOT"
proof -
  have loop: "true_dir_loop E d i DOT ts = true_dir_loop E d i DOT []" for d i ts
    by (induction ts) simp_all
  have ne: "name \<noteq> []" using assms(1) by auto
  have dot: "strtok DOT = [DOT]" "hd DOT \<noteq> SLASH" "DOT \<noteq> []"
    using strtok_last[of DOT] by (simp_all add: DOT_def SLASH_def)
  have "true_dir E name = true_dir E DOT"
    using assms ne dot loop[of _ _ rest] unfolding true_dir_def by (simp cong: option.case_cong if_cong)
  then show ?thesis using ne dot by (simp add: filesys_open_def filesys_create_def filesys_remove_def)
qed

theorem dot_swallows_path_witness:
  "filesys_open sim_env [46, 47, 97] = filesys_open sim_env DOT \<and>
   filesys_create sim_env [46, 47, 97] 0 True = filesys_create sim_env DOT 0 True \<and>
   filesys_remove sim_env [46, 47, 97] = filesys_remove sim_env DOT"
proof (rule dot_swallows_path)
  show "strtok [46, 47, 97] = DOT # [[97]]" by (simp add: DOT_def SLASH_def strtok.simps(2))
qed (simp add: SLASH_def)

text \<open>
  C26. The file system lock is not reentrant: with \<^verbatim>\<open>file_lock\<close> held by the running thread, as
  the \<^verbatim>\<open>create\<close> and \<^verbatim>\<open>open\<close> system calls and \<^verbatim>\<open>load\<close> hold it, opening or creating any file by
  a path that starts at the root trips the assertion of \<^verbatim>\<open>lock_acquire\<close> in \<^verbatim>\<open>inode_open\<close>.
\<close>

theorem filesys_lock_recursion:
  assumes "file_lock s = Some (cur_thread s)" "heap_ok E" "name \<noteq> []" "cur_dir s = None \<or> hd name = SLASH"
  shows "filesys_open E name s = Inl PANIC \<and> filesys_create E name n isdir s = Inl PANIC \<and>
    filesys_remove E name s = Inl PANIC"
proof -
  have "inode_open E a s = Inl PANIC" for a
    using assms(1) by (simp add: inode_open_def kstep file_lock_acquire_def)
  then have root: "dir_open_root E s = Inl PANIC" by (simp add: dir_open_root_def kstep)
  have "malloc_tmp E = retK ()" by (rule malloc_tmp_ok[OF assms(2)])
  with assms(3,4) root have "true_dir E name s = Inl PANIC"
    by (auto simp: true_dir_def kstep split: option.splits)
  then show ?thesis
    using assms(3) by (simp add: filesys_open_def filesys_create_def filesys_remove_def kstep)
qed

theorem filesys_lock_recursion_witness:
  "filesys_open sim_env [47, 97] (sim_fs\<lparr>file_lock := Some 1\<rparr>) = Inl PANIC"
  using filesys_lock_recursion[of "sim_fs\<lparr>file_lock := Some 1\<rparr>" sim_env "[47, 97]"] sim_heap_ok
  by (simp add: sim_fs_def SLASH_def)

text \<open>
  Creating a file at a path of slashes only dereferences a null pointer: \<^verbatim>\<open>true_dir\<close> gives
  no last component and \<^verbatim>\<open>filesys_create\<close> compares it with \<^verbatim>\<open>strcmp\<close> without a test, where
  \<^verbatim>\<open>filesys_open\<close> and \<^verbatim>\<open>filesys_remove\<close> test it.
\<close>

lemma filesys_create_root_null:
  assumes "heap_ok E" "cache_ready E s" "file_lock s = None"
    and "find_open (inode_heap s) ROOT_DIR_SECTOR (open_inodes s) = Inr None"
    and "name \<noteq> []" "strtok name = []" "hd name = SLASH"
  shows "filesys_create E name n isdir s = Inl BAD_POINTER"
proof -
  obtain t where t: "inode_open E ROOT_DIR_SECTOR s = Inr (Some (inode_brk s), t)"
    using inode_open_new_run[OF assms(1-4)] by (auto simp: wpK_iff)
  have mem: "file_mem_ok E p" "malloc_tmp E = retK ()" for p
    using assms(1) by (simp_all add: heap_ok_def malloc_tmp_ok)
  from t mem assms(5-7) have "\<exists>d u. true_dir E name s = Inr (Some (d, None), u)"
    by (auto simp: true_dir_def kstep dir_open_root_def dir_open_def dir_get_inode_def ptrK_def fileK_def
        split: option.splits)
  then show ?thesis using assms(5) by (auto simp: filesys_create_def kstep)
qed

end
