(* ===== verification/Filesys_Facts.thy ===== *)
theory Filesys_Facts
  imports Directory_Scan
begin

text \<open>
  The layers of the file system together: \<^verbatim>\<open>filesys_create\<close> and \<^verbatim>\<open>filesys_open\<close> on a file in the root
  directory, through path resolution, the directory, the free map, the inodes and the cache.
\<close>

section \<open>Files that other operations leave alone\<close>

lemma file_cong:
  assumes "\<forall>a\<in>file_sectors V d. W a = V a"
  shows "file_bytes W d = file_bytes V d" "data_sectors W d = data_sectors V d" "index_sectors W d = index_sectors V d"
    "layout_ok W d = layout_ok V d"
proof -
  note c = layout_cong[OF assms]
  show "data_sectors W d = data_sectors V d" "index_sectors W d = index_sectors V d" "layout_ok W d = layout_ok V d"
    using c(1-3) by simp_all
  have "W (blk_sector V d (k div 512)) = V (blk_sector V d (k div 512))" if "k < nat (dlength d)" for k
    using assms block_in_file[OF that] by (auto simp: file_sectors_def data_sectors_def)
  then show "file_bytes W d = file_bytes V d" using c(4) block_in_file by (auto simp: file_bytes_def file_byte_def)
qed

section \<open>Opening and closing the root directory\<close>

text \<open>The state in which a path of one component is resolved: the root directory is open, with a handle.\<close>

definition in_root :: "'d env \<Rightarrow> 'd fs \<Rightarrow> 'd fs" where
  "in_root E s = (with_inode s (loaded ROOT_DIR_SECTOR 1 (contents E s ROOT_DIR_SECTOR)))\<lparr>file_brk := file_brk s + 1,
     file_heap := (file_heap s)(file_brk s \<mapsto> \<lparr>finode = inode_brk s, fpos = 0, deny_write = False\<rparr>)\<rparr>"

lemma same_upper_files:
  fixes s t :: "'d fs"
  shows "same_upper s t \<Longrightarrow> same_upper (s\<lparr>file_brk := b, file_heap := h\<rparr>) (t\<lparr>file_brk := b, file_heap := h\<rparr>)"
    "same_upper s t \<Longrightarrow> same_upper (s\<lparr>file_heap := h\<rparr>) (t\<lparr>file_heap := h\<rparr>)"
  by (cases s; cases t; simp add: same_upper_def)+

lemma true_dir_root:
  assumes "heap_ok E" "cache_ready E s" "file_lock s = None" "cur_dir s = None"
    and "find_open (inode_heap s) ROOT_DIR_SECTOR (open_inodes s) = Inr None" "name \<noteq> []" "strtok name = [nm]"
  shows "wpK (true_dir E name) (\<lambda>r t. r = Some (Some (file_brk s), Some nm) \<and> cache_ready E t \<and>
    contents E t = contents E s \<and> same_upper (in_root E s) t) s"
proof -
  let ?i = "loaded ROOT_DIR_SECTOR 1 (contents E s ROOT_DIR_SECTOR)"
  obtain t where t: "inode_open E ROOT_DIR_SECTOR s = Inr (Some (inode_brk s), t)" "cache_ready E t" "contents E t = contents E s"
      "same_upper (with_inode s ?i) t"
    using inode_open_new_run[OF assms(1-3,5)] by (auto simp: wpK_iff)
  have "file_brk t = file_brk s" "file_heap t = file_heap s" using same_upper_fs(6,7)[OF t(4)] by (simp_all add: with_inode_def)
  moreover have "same_upper (in_root E s) (t\<lparr>file_brk := file_brk s + 1,
      file_heap := (file_heap s)(file_brk s \<mapsto> \<lparr>finode = inode_brk s, fpos = 0, deny_write = False\<rparr>)\<rparr>)"
    unfolding in_root_def by (rule same_upper_files(1)[OF t(4)])
  moreover have "file_mem_ok E q" "malloc_tmp E = retK ()" for q using assms(1) by (simp_all add: heap_ok_def malloc_tmp_ok)
  ultimately show ?thesis using t assms(4,6,7)
    by (simp add: true_dir_def wpK_def kstep dir_open_root_def dir_open_def dir_get_inode_def ptrK_def fileK_def)
qed

lemma dir_close_run:
  assumes "cache_ready E s" "file_lock s = None" "file_heap s f = Some h" "inode_heap s (finode h) = Some i" "open_cnt i = 1" "\<not> removed i"
    and "disk_wf (idata i)" "contents E s (isector i) = encode_inode (idata i)"
  shows "wpK (dir_close E (Some f)) (\<lambda>_ t. cache_ready E t \<and> contents E t = contents E s \<and>
    same_upper (s\<lparr>open_inodes := remove1 (finode h) (open_inodes s), inode_heap := (inode_heap s)(finode h := None),
      file_heap := (file_heap s)(f := None)\<rparr>) t) s"
proof -
  obtain t where t: "inode_close E (Some (finode h)) s = Inr ((), t)" "cache_ready E t"
      "contents E t = (contents E s)(isector i := encode_inode (idata i))"
      "same_upper (s\<lparr>open_inodes := remove1 (finode h) (open_inodes s), inode_heap := (inode_heap s)(finode h := None)\<rparr>) t"
    using inode_close_last_run[OF assms(1,2,4-7)] by (auto simp: wpK_iff)
  have "contents E t = contents E s" using t(3) assms(8) by (simp add: fun_eq_iff)
  moreover have "file_heap t = file_heap s" using same_upper_fs(6)[OF t(4)] by simp
  ultimately show ?thesis using t(1,2) same_upper_files(2)[OF t(4), of "(file_heap s)(f := None)"] assms(3)
    by (simp add: dir_close_def wpK_def kstep fileK_def file_free_def)
qed

lemma find_open_cong: "(\<And>p. p \<in> set ps \<Longrightarrow> g p = h p) \<Longrightarrow> find_open g a ps = find_open h a ps"
  by (induction ps) (auto split: option.splits)

section \<open>Opening a file in the root directory\<close>

text \<open>The root directory is on disk as \<open>d\<close>, not open, and holds the bytes \<open>F\<close>.\<close>

definition root_is :: "'d env \<Rightarrow> 'd fs \<Rightarrow> inode_disk \<Rightarrow> byte list \<Rightarrow> bool" where
  "root_is E s d F \<longleftrightarrow> contents E s ROOT_DIR_SECTOR = encode_inode d \<and> disk_wf d \<and> layout_ok (contents E s) d \<and>
     F = file_bytes (contents E s) d \<and> names_ok (dir_entries F) \<and>
     find_open (inode_heap s) ROOT_DIR_SECTOR (open_inodes s) = Inr None"

text \<open>The file system between two calls of a thread whose directory is the root.\<close>

definition at_rest :: "'d env \<Rightarrow> 'd fs \<Rightarrow> bool" where
  "at_rest E s \<longleftrightarrow> cache_ready E s \<and> file_lock s = None \<and> cur_dir s = None \<and> (\<forall>p\<ge>inode_brk s. inode_heap s p = None) \<and>
     (\<forall>p\<in>set (open_inodes s). p < inode_brk s)"

lemma in_root_open_dir:
  assumes "at_rest E s" "root_is E s d F" "same_upper (in_root E s) t" "contents E t = contents E s"
  shows "open_dir E t (file_brk s) (inode_brk s) (loaded ROOT_DIR_SECTOR 1 (encode_inode d)) F"
  using assms same_upper_fs(2,6)[OF assms(3)]
  by (simp add: open_dir_def in_root_def with_inode_def loaded_def idle_def root_is_def layout_ok_def)

lemma find_open_in_root:
  assumes "at_rest E s" "same_upper (in_root E s) t" "find_open (inode_heap s) a (open_inodes s) = Inr None" "a \<noteq> ROOT_DIR_SECTOR"
  shows "find_open (inode_heap t) a (open_inodes t) = Inr None"
proof -
  have "find_open (inode_heap t) a (open_inodes s) = find_open (inode_heap s) a (open_inodes s)"
    using assms(1) same_upper_fs(2)[OF assms(2)] by (intro find_open_cong) (auto simp: at_rest_def in_root_def with_inode_def)
  then show ?thesis using same_upper_fs(2,4)[OF assms(2)] assms(3,4) by (simp add: in_root_def with_inode_def loaded_def)
qed

lemma dir_lookup_run:
  assumes "heap_ok E" "cache_ready E s" "open_dir E s p ip i F" "names_ok (dir_entries F)" "0 \<notin> set nm" "file_lock s = None"
    and "scan_list (name_matches nm) 0 (dir_entries F) = Some (k, e)" "find_open (inode_heap s) (inode_sector e) (open_inodes s) = Inr None"
  shows "wpK (dir_lookup E (Some p) nm) (\<lambda>r t. r = Some (inode_brk s) \<and> cache_ready E t \<and> contents E t = contents E s \<and>
    same_upper (with_inode s (loaded (inode_sector e) 1 (contents E s (inode_sector e)))) t) s"
proof -
  obtain u where u: "lookup E (Some p) nm s = Inr (Some (e, 20 * int k), u)" "cache_only E s u"
    using lookup_run[OF assms(1-5)] assms(7) by (auto simp: wpK_iff)
  then have f: "cache_ready E u" "contents E u = contents E s" "same_upper s u" by (simp_all add: cache_only_def)
  have "same_upper (with_inode s j) (with_inode u j)" for j
    using f(3) by (cases s; cases u) (simp add: same_upper_def with_inode_def)
  then have "wpK (inode_open E (inode_sector e)) (\<lambda>r t. r = Some (inode_brk s) \<and> cache_ready E t \<and> contents E t = contents E s \<and>
    same_upper (with_inode s (loaded (inode_sector e) 1 (contents E s (inode_sector e)))) t) u"
    using assms(6,8) f same_upper_fs[OF f(3)]
    by (intro wpK_mono[OF inode_open_new_run[OF assms(1) f(1)]]) (auto intro: same_upper_trans)
  then show ?thesis using u(1) by (simp add: dir_lookup_def wpK_def kstep)
qed

lemma filesys_open_run:
  assumes "heap_ok E" "at_rest E s" "root_is E s d F" "name \<noteq> []" "strtok name = [nm]" "nm \<noteq> DOT" "nm \<noteq> DOTDOT" "0 \<notin> set nm"
    and "scan_list (name_matches nm) 0 (dir_entries F) = Some (k, e)" "inode_sector e \<noteq> ROOT_DIR_SECTOR"
    and "find_open (inode_heap s) (inode_sector e) (open_inodes s) = Inr None"
    and "contents E s (inode_sector e) = encode_inode x" "disk_wf x" "\<not> disdir x"
  shows "wpK (filesys_open E name) (\<lambda>r t. r = Some (file_brk s + 1) \<and> cache_ready E t \<and> contents E t = contents E s \<and>
    file_heap t (file_brk s + 1) = Some \<lparr>finode = inode_brk s + 1, fpos = 0, deny_write = False\<rparr> \<and>
    inode_heap t (inode_brk s + 1) = Some (loaded (inode_sector e) 1 (encode_inode x))) s"
proof -
  let ?p = "inode_brk s" and ?f = "file_brk s" and ?i = "loaded ROOT_DIR_SECTOR 1 (encode_inode d)"
    and ?j = "loaded (inode_sector e) 1 (encode_inode x)"
  have r: "cache_ready E s" "file_lock s = None" "cur_dir s = None" and root: "contents E s ROOT_DIR_SECTOR = encode_inode d" "disk_wf d"
      "find_open (inode_heap s) ROOT_DIR_SECTOR (open_inodes s) = Inr None" "names_ok (dir_entries F)"
    using assms(2,3) by (auto simp: at_rest_def root_is_def)
  obtain t where t: "true_dir E name s = Inr (Some (Some ?f, Some nm), t)" "cache_ready E t" "contents E t = contents E s" "same_upper (in_root E s) t"
    using true_dir_root[OF assms(1) r root(3) assms(4,5)] by (auto simp: wpK_iff)
  have tf: "inode_brk t = ?p + 1" "file_lock t = None" "file_brk t = ?f + 1" "open_inodes t = ?p # open_inodes s"
      "inode_heap t = (inode_heap s)(?p \<mapsto> ?i)" "file_heap t = (file_heap s)(?f \<mapsto> \<lparr>finode = ?p, fpos = 0, deny_write = False\<rparr>)"
    using same_upper_fs[OF t(4)] root(1) by (simp_all add: in_root_def with_inode_def)
  obtain u where u: "dir_lookup E (Some ?f) nm t = Inr (Some (?p + 1), u)" "cache_ready E u" "contents E u = contents E s"
      "same_upper (with_inode t ?j) u"
    using dir_lookup_run[OF assms(1) t(2) in_root_open_dir[OF assms(2,3) t(4,3)] root(4) assms(8) tf(2) assms(9)
        find_open_in_root[OF assms(2) t(4) assms(11,10)]] tf(1) t(3) assms(12)
    by (auto simp: wpK_iff)
  have uf: "file_lock u = None" "file_brk u = ?f + 1" "inode_heap u = (inode_heap s)(?p \<mapsto> ?i, ?p + 1 \<mapsto> ?j)" "file_heap u = file_heap t"
    using same_upper_fs[OF u(4)] tf by (simp_all add: with_inode_def)
  obtain v where v: "dir_close E (Some ?f) u = Inr ((), v)" "cache_ready E v" "contents E v = contents E s"
      "same_upper (u\<lparr>open_inodes := remove1 ?p (open_inodes u), inode_heap := (inode_heap u)(?p := None), file_heap := (file_heap u)(?f := None)\<rparr>) v"
    using dir_close_run[OF u(2) uf(1), of ?f "\<lparr>finode = ?p, fpos = 0, deny_write = False\<rparr>" ?i] uf tf(6) u(3) root(1,2)
    by (auto simp: wpK_iff loaded_def)
  have vf: "inode_heap v (?p + 1) = Some ?j" "file_brk v = ?f + 1" using same_upper_fs(2,7)[OF v(4)] uf by simp_all
  have j: "iio ?j = None" "\<not> disdir (idata ?j)" "?j\<lparr>iio := None\<rparr> = ?j" using assms(13,14) by (simp_all add: loaded_def)
  have "inode_isdir (Some (?p + 1)) v = Inr (False, v)"
  proof -
    have "wpK (inode_isdir (Some (?p + 1))) (\<lambda>b w. \<not> b \<and> w = v) v"
      using vf(1) j by (simp add: inode_isdir_def locked_field_def fun_upd_idem)
    then show ?thesis by (auto simp: wpK_iff)
  qed
  moreover have "file_mem_ok E q" for q using assms(1) by (simp add: heap_ok_def)
  ultimately show ?thesis using t(1) u(1) v(1-3) vf assms(4,6,7)
    by (simp add: filesys_open_def wpK_def kstep file_open_def)
qed

section \<open>Creating a file in the root directory\<close>

text \<open>Free sectors, and the sectors of the root directory, which are in use and apart from the free map file.\<close>

definition free_sector :: "'d fs \<Rightarrow> u32 \<Rightarrow> bool" where
  "free_sector s a \<longleftrightarrow> unat a < length (free_map s) \<and> \<not> free_map s ! unat a"

definition root_kept :: "'d env \<Rightarrow> u32 set \<Rightarrow> 'd fs \<Rightarrow> inode_disk \<Rightarrow> bool" where
  "root_kept E Z s d \<longleftrightarrow> in_use s (insert ROOT_DIR_SECTOR (file_sectors (contents E s) d)) \<and>
     Z \<inter> insert ROOT_DIR_SECTOR (file_sectors (contents E s) d) = {} \<and> ROOT_DIR_SECTOR \<notin> data_sectors (contents E s) d"

lemma free_not_in_use: "in_use s A \<Longrightarrow> free_sector s a \<Longrightarrow> a \<notin> A"
  by (auto simp: in_use_def free_sector_def)

lemma allocate_one:
  assumes "fs_lib_ok E Z" "map_writable E Z" "cache_ready E s" "map_open E Z s" "length (free_map s) < 2 ^ 32" "free_sector s x"
  shows "wpK (free_map_allocate E 1) (\<lambda>r t. \<exists>a. r = Some a \<and> free_sector s a \<and>
    map_step E Z ((free_map s)[unat a := True]) s t) s"
proof -
  have "put_bytes k (replicate 1 True) b = b[k := True]" if "k < length b" for k and b :: "bool list"
    using that by (intro nth_equalityI) (auto simp: nth_put_bytes nth_list_update)
  moreover have "wpK (free_map_allocate E 1) (\<lambda>r t. (case r of None \<Rightarrow> map_step E Z (free_map s) s t
      | Some k \<Rightarrow> all_bits (free_map s) (unat k) 1 False \<and> map_step E Z (put_bytes (unat k) (replicate 1 True) (free_map s)) s t) \<and>
      r \<noteq> None) s"
    using assms(6) free_map_allocate_run[OF assms(1,3-5), of 1] free_map_avail[OF assms(1-5), of "unat x"]
    by (intro wpK_conj) (simp_all add: free_sector_def)
  ultimately show ?thesis by (elim wpK_mono) (auto simp: free_sector_def all_bits_1 split: option.splits)
qed

text \<open>The new file: an inode in the sector \<open>a\<close>, with a first block \<open>k\<close> of zeros, and nothing else changed outside \<open>Z\<close>.\<close>

definition file_made :: "'d env \<Rightarrow> u32 set \<Rightarrow> 'd fs \<Rightarrow> off_t \<Rightarrow> u32 \<Rightarrow> u32 \<Rightarrow> u32 \<Rightarrow> 'd fs \<Rightarrow> bool" where
  "file_made E Z s len a k j t \<longleftrightarrow> cache_ready E t \<and> free_sector s a \<and> free_sector s k \<and> k \<noteq> a \<and>
     contents E t a = encode_inode (new_disk len False k j) \<and> contents E t k = replicate 512 0 \<and>
     (\<forall>x. x \<notin> Z \<union> {a, k} \<longrightarrow> contents E t x = contents E s x)"

lemma sector_and_inode:
  assumes "fs_lib_ok E Z" "map_writable E Z" "cache_ready E s" "map_open E Z s" "length (free_map s) < 2 ^ 32" "in_use s Z" "file_lock s = None"
    and "free_sector s x" "free_sector s y" "x \<noteq> y" "0 \<le> len" "len \<le> 512"
  obtains a t u k j b where "free_map_allocate E 1 s = Inr (Some a, t)" "inode_create E a len False t = Inr (True, u)"
    "file_made E Z s len a k j u" "same_upper (s\<lparr>free_map := b, inode_brk := inode_brk s + 1, inode_heap := (inode_heap s)(inode_brk s := None)\<rparr>) u"
proof -
  obtain a t where a: "free_map_allocate E 1 s = Inr (Some a, t)" "free_sector s a" and t: "cache_ready E t" "free_map t = (free_map s)[unat a := True]"
      "same_upper (s\<lparr>free_map := (free_map s)[unat a := True]\<rparr>) t" "map_open E Z t" "\<forall>z. z \<notin> Z \<longrightarrow> contents E t z = contents E s z"
    using allocate_one[OF assms(1-5,8)] by (auto simp: wpK_iff map_step_def)
  have tf: "file_lock t = None" "inode_brk t = inode_brk s" "inode_heap t = inode_heap s" using same_upper_fs[OF t(3)] assms(7) by simp_all
  have use: "in_use t Z" "in_use t {a}" "length (free_map t) < 2 ^ 32"
    using assms(5,6) a(2) t(2) by (auto simp: in_use_def free_sector_def nth_list_update)
  obtain z where "free_sector s z" "z \<noteq> a" using assms(8-10) by metis
  then have nf: "\<not> full_map t" using t(2) by (auto simp: full_map_def free_sector_def word_unat_eq_iff intro!: exI[of _ "unat z"])
  obtain u k where u: "inode_create E a len False t = Inr (True, u)" and k: "free_sector t k" and c: "created E Z a len False k t u"
    using inode_create_run[OF assms(1) t(1,4) use(3,1) tf(1) assms(11,12), of a False] nf assms(2)
    by (auto simp: wpK_iff sp_choice_def free_sector_def)
  have ka: "k \<noteq> a" "k \<notin> Z" "a \<notin> Z" "free_sector s k"
    using free_not_in_use[OF use(1) k] free_not_in_use[OF use(2) k] free_not_in_use[OF assms(6) a(2)] k t(2) a(2)
    by (auto simp: free_sector_def nth_list_update split: if_splits)
  obtain b j where w: "cache_ready E u" "same_upper (t\<lparr>free_map := b, inode_brk := inode_brk t + 1,
       inode_heap := (inode_heap t)(inode_brk t := None)\<rparr>) u"
      "\<forall>x. x \<notin> Z \<longrightarrow> contents E u x = (if x = a then encode_inode (new_disk len False k j)
        else if x = k then replicate 512 0 else contents E t x)"
    using c by (auto simp: created_def)
  have "same_upper (s\<lparr>free_map := b, inode_brk := inode_brk s + 1, inode_heap := (inode_heap s)(inode_brk s := None)\<rparr>) u"
    using w(2) t(3) tf by (cases s; cases t; cases u) (simp add: same_upper_def)
  moreover have "file_made E Z s len a k j u" using w a(2) ka t(5) by (simp add: file_made_def)
  ultimately show thesis using that a(1) u by blast
qed

lemma filesys_create_run:
  assumes lib: "fs_lib_ok E Z" "map_writable E Z" "map_open E Z s" and s: "at_rest E s" "root_is E s d F" "root_kept E Z s d"
    and map: "length (free_map s) < 2 ^ 32" "in_use s Z" "free_sector s x" "free_sector s y" "x \<noteq> y"
    and name: "name \<noteq> []" "strtok name = [nm]" "nm \<noteq> DOT" "nm \<noteq> DOTDOT" "nm \<noteq> []" "length nm \<le> NAME_MAX" "0 \<notin> set nm"
    and scan: "scan_list (name_matches nm) 0 (dir_entries F) = None"
      "scan_list (\<lambda>e. Inr (\<not> in_use_flag e)) 0 (dir_entries F) = Some (m, e)"
    and len: "0 \<le> len" "len \<le> 512"
  obtains a k j t where "filesys_create E name len False s = Inr (True, t)" "at_rest E t"
    "inode_heap t = inode_heap s" "open_inodes t = open_inodes s" "free_sector s a" "free_sector s k"
    "contents E t a = encode_inode (new_disk len False k j)" "contents E t k = replicate 512 0"
    "root_is E t d (put_bytes (20 * m) (encode_entry (added e nm a)) F)"
proof -
  let ?p = "inode_brk s" and ?f = "file_brk s" and ?i = "loaded ROOT_DIR_SECTOR 1 (encode_inode d)"
  let ?h = "\<lparr>finode = ?p, fpos = 0, deny_write = False\<rparr>"
  have heap: "heap_ok E" using lib(1) by (simp add: fs_lib_ok_def)
  have r: "cache_ready E s" "file_lock s = None" "cur_dir s = None" and fresh: "\<forall>p\<ge>?p. inode_heap s p = None" "\<forall>p\<in>set (open_inodes s). p < ?p"
    and root: "contents E s ROOT_DIR_SECTOR = encode_inode d" "disk_wf d" "layout_ok (contents E s) d" "F = file_bytes (contents E s) d"
      "names_ok (dir_entries F)" "find_open (inode_heap s) ROOT_DIR_SECTOR (open_inodes s) = Inr None"
    using s(1,2) by (auto simp: at_rest_def root_is_def)
  have used: "in_use s (insert ROOT_DIR_SECTOR (file_sectors (contents E s) d))" "Z \<inter> insert ROOT_DIR_SECTOR (file_sectors (contents E s) d) = {}"
      "ROOT_DIR_SECTOR \<notin> data_sectors (contents E s) d" using s(3) by (simp_all add: root_kept_def)
  obtain t where t: "true_dir E name s = Inr (Some (Some ?f, Some nm), t)" "cache_ready E t" "contents E t = contents E s" "same_upper (in_root E s) t"
    using true_dir_root[OF heap r root(6) name(1,2)] by (auto simp: wpK_iff)
  have tf: "inode_brk t = ?p + 1" "file_lock t = None" "free_map t = free_map s" "cur_dir t = None" "open_inodes t = ?p # open_inodes s"
      "inode_heap t = (inode_heap s)(?p \<mapsto> ?i)" "file_heap t = (file_heap s)(?f \<mapsto> ?h)" "file_brk t = ?f + 1"
    using same_upper_fs[OF t(4)] root(1) r(3) by (simp_all add: in_root_def with_inode_def)
  have mo: "map_open E Z t"
  proof -
    have "map_file E Z b t q" if q: "map_file E Z b s q" for b q
    proof (rule map_file_keep[OF q])
      show "file_heap t q = file_heap s q" using q tf(7) by (auto simp: map_file_def)
      show "inode_heap t (finode f) = inode_heap s (finode f)" if "file_heap s q = Some f" for f
        using q that tf(6) by (auto simp: map_file_def)
    qed (use t(3) tf in simp_all)
    moreover have "free_map_file t = free_map_file s" using same_upper_fs(10)[OF t(4)] by (simp add: in_root_def with_inode_def)
    ultimately show ?thesis using lib(3) tf(3) by (simp add: map_open_def)
  qed
  have fs: "free_sector t = free_sector s" "in_use t Z" using tf(3) map(2) by (auto simp: free_sector_def in_use_def fun_eq_iff)
  obtain a v u k j b where alloc: "free_map_allocate E 1 t = Inr (Some a, v)" "inode_create E a len False v = Inr (True, u)"
    and made: "file_made E Z t len a k j u" and su: "same_upper (t\<lparr>free_map := b, inode_brk := inode_brk t + 1, inode_heap := (inode_heap t)(inode_brk t := None)\<rparr>) u"
    by (rule sector_and_inode[OF lib(1,2) t(2) mo _ fs(2) tf(2), of x y len]) (use map fs tf(3) len in simp_all)
  have uf: "inode_brk u = ?p + 2" "file_lock u = None" "cur_dir u = None" "open_inodes u = ?p # open_inodes s"
      "inode_heap u = (inode_heap s)(?p \<mapsto> ?i, ?p + 1 := None)" "file_heap u = file_heap t" "file_brk u = ?f + 1"
    using same_upper_fs[OF su] tf by simp_all
  have u: "cache_ready E u" "free_sector s a" "free_sector s k" "contents E u a = encode_inode (new_disk len False k j)" "contents E u k = replicate 512 0"
      "\<forall>x. x \<notin> Z \<union> {a, k} \<longrightarrow> contents E u x = contents E s x"
    using made t(3) fs(1) by (simp_all add: file_made_def)
  have apart: "x \<notin> Z \<union> {a, k}" if "x \<in> insert ROOT_DIR_SECTOR (file_sectors (contents E s) d)" for x
    using that used(2) free_not_in_use[OF used(1) u(2)] free_not_in_use[OF used(1) u(3)] by auto
  have "\<forall>x\<in>file_sectors (contents E s) d. contents E u x = contents E s x" using apart u(6) by blast
  note cong = file_cong[OF this]
  have od: "open_dir E u ?f ?p ?i F" using uf(5,6) tf(7) root(2-4) cong(1)
    by (simp add: open_dir_def loaded_def idle_def layout_ok_def)
  obtain w where w: "dir_add E (Some ?f) nm a u = Inr (True, w)" "wrote E d (20 * m) (encode_entry (added e nm a)) u w"
    using dir_add_run[OF heap u(1) od _ _ root(5) name(5-7) scan, of a] cong(4) root(2,3) by (auto simp: wpK_iff loaded_def)
  have wc: "cache_ready E w" "same_upper u w" "layout_ok (contents E w) d" "file_bytes (contents E w) d = put_bytes (20 * m) (encode_entry (added e nm a)) F"
      "\<forall>x. x \<notin> data_sectors (contents E s) d \<longrightarrow> contents E w x = contents E u x"
    using w(2) cong(1,2) root(4) by (auto simp: wrote_def)
  have away: "ROOT_DIR_SECTOR \<notin> data_sectors (contents E s) d" "a \<notin> data_sectors (contents E s) d" "k \<notin> data_sectors (contents E s) d"
    using used(3) apart by (auto simp: file_sectors_def)
  have wr: "contents E w ROOT_DIR_SECTOR = encode_inode d" "contents E w a = contents E u a" "contents E w k = contents E u k"
    using wc(5) away u(6) apart root(1) by auto
  note wf = same_upper_fs[OF wc(2)] uf
  obtain z where z: "dir_close E (Some ?f) w = Inr ((), z)" "cache_ready E z" "contents E z = contents E w"
      "same_upper (w\<lparr>open_inodes := remove1 ?p (open_inodes w), inode_heap := (inode_heap w)(?p := None), file_heap := (file_heap w)(?f := None)\<rparr>) z"
    using dir_close_run[OF wc(1), of ?f ?h ?i] wf tf(7) wr(1) root(2) by (auto simp: wpK_iff loaded_def)
  have zf: "inode_heap z = inode_heap s" "open_inodes z = open_inodes s" "inode_brk z = ?p + 2" "file_lock z = None" "cur_dir z = None"
    using same_upper_fs[OF z(4)] wf fresh(1) by (auto simp: fun_eq_iff)
  have "at_rest E z" using z(2) zf fresh by (auto simp: at_rest_def)
  moreover have "root_is E z d (put_bytes (20 * m) (encode_entry (added e nm a)) F)"
    using z(3) zf wr(1) wc(3,4) root(2,6) added_found(2)[OF root(5) name(6,7) scan] by (simp add: root_is_def)
  moreover have "filesys_create E name len False s = Inr (True, z)"
    using t(1) alloc w(1) z(1) name(1-4) by (simp add: filesys_create_def kstep)
  ultimately show thesis using that zf(1,2) u(2-5) z(3) wr(2,3) by simp
qed

section \<open>Property\<close>

definition open_in_use :: "'d fs \<Rightarrow> bool" where
  "open_in_use s \<longleftrightarrow> (\<forall>p\<in>set (open_inodes s). \<exists>i. inode_heap s p = Some i \<and> in_use s {isector i})"

lemma free_not_open:
  assumes "open_in_use s" "free_sector s a"
  shows "find_open (inode_heap s) a (open_inodes s) = Inr None"
proof -
  have "find_open (inode_heap s) a ps = Inr None" if "set ps \<subseteq> set (open_inodes s)" for ps
    using that
  proof (induction ps)
    case (Cons p ps)
    obtain i where "inode_heap s p = Some i" "in_use s {isector i}" using Cons.prems assms(1) by (auto simp: open_in_use_def)
    with Cons free_not_in_use[OF this(2) assms(2)] show ?case by auto
  qed simp
  then show ?thesis by simp
qed

text \<open>
  C16. A new file can be opened and reads as zeros. In a file system at rest with its free map file open or not yet open, two free sectors and a free slot in
  the root directory, \<^verbatim>\<open>filesys_create\<close> of a valid name that is not there, with at most one block, succeeds; \<^verbatim>\<open>filesys_open\<close> of the
  same name then gives a file, and reading it returns as many zeros as were asked for. Path resolution, the
  directory, the free map, the inodes, the files and the cache take part.
\<close>

theorem filesys_create_open_read:
  assumes lib: "fs_lib_ok E Z" "map_writable E Z" "map_open E Z s" and s: "at_rest E s" "root_is E s d F" "root_kept E Z s d" "open_in_use s"
    and map: "length (free_map s) < 2 ^ 32" "in_use s Z" "free_sector s x" "free_sector s y" "x \<noteq> y"
    and name: "strtok name = [nm]" "nm \<noteq> []" "nm \<noteq> DOT" "nm \<noteq> DOTDOT" "length nm \<le> NAME_MAX" "0 \<notin> set nm"
    and slot: "\<forall>e\<in>set (dir_entries F). in_use_flag e \<longrightarrow> entry_name e \<noteq> nm" "\<exists>e\<in>set (dir_entries F). \<not> in_use_flag e"
    and len: "0 \<le> len" "len \<le> 512"
  shows "\<exists>t u v f. filesys_create E name len False s = Inr (True, t) \<and> filesys_open E name t = Inr (Some f, u) \<and>
    file_read E f len u = Inr (replicate (nat len) 0, v)"
proof -
  have heap: "heap_ok E" using lib(1) by (simp add: fs_lib_ok_def)
  have names: "names_ok (dir_entries F)" and nn: "name \<noteq> []" using s(2) name(1) by (auto simp: root_is_def)
  have none: "scan_list (name_matches nm) 0 (dir_entries F) = None"
    using names name(6) slot(1) name_matches_eq[of _ nm] by (auto simp: scan_list_None names_ok_def)
  obtain m e where me: "scan_list (\<lambda>e. Inr (\<not> in_use_flag e)) 0 (dir_entries F) = Some (m, e)"
    using slot(2) scan_list_None[of "\<lambda>e. Inr (\<not> in_use_flag e)" 0 "dir_entries F"] by auto
  obtain a k j t where t: "filesys_create E name len False s = Inr (True, t)" "at_rest E t"
      "inode_heap t = inode_heap s" "open_inodes t = open_inodes s" "free_sector s a" "free_sector s k"
      "contents E t a = encode_inode (new_disk len False k j)" "contents E t k = replicate 512 0"
      "root_is E t d (put_bytes (20 * m) (encode_entry (added e nm a)) F)"
    using filesys_create_run[OF lib s(1-3) map nn name(1,3,4,2,5,6) none me len] .
  have a: "a \<noteq> ROOT_DIR_SECTOR" "find_open (inode_heap t) a (open_inodes t) = Inr None" "inode_sector (added e nm a) = a"
    using s(3) free_not_in_use[OF _ t(5)] free_not_open[OF s(4) t(5)] t(3,4) by (auto simp: root_kept_def added_def)
  let ?n = "new_disk len False k j" and ?f = "file_brk t + 1"
  have wf: "disk_wf ?n" "\<not> disdir ?n" using new_disk_wf[OF len] by (simp_all add: new_disk_def)
  obtain u where u: "filesys_open E name t = Inr (Some ?f, u)" "cache_ready E u" "contents E u = contents E t"
      "file_heap u ?f = Some \<lparr>finode = inode_brk t + 1, fpos = 0, deny_write = False\<rparr>"
      "inode_heap u (inode_brk t + 1) = Some (loaded a 1 (encode_inode ?n))"
    using filesys_open_run[OF heap t(2,9) nn name(1,3,4,6) added_found(1)[OF names name(5,6) none me, of a]]  a t(7) wf
    by (auto simp: wpK_iff)
  have "open_file u ?f \<lparr>finode = inode_brk t + 1, fpos = 0, deny_write = False\<rparr> (loaded a 1 (encode_inode ?n))"
    using u(4,5) wf(1) len by (simp add: open_file_def loaded_def idle_def length_ok_def MAX_LENGTH_def new_disk_def)
  from file_read_run[OF heap u(2) this, of len]
  obtain v where "file_read E ?f len u = Inr (take (nat len) (file_bytes (contents E u) ?n), v)"
    using wf(1) by (auto simp: wpK_iff loaded_def)
  moreover have "file_bytes (contents E u) ?n = replicate (nat len) 0" using file_bytes_new[OF _ len] t(8) u(3) by simp
  ultimately show ?thesis using t(1) u(1) by auto
qed

text \<open>A disk with an empty root directory of two entries in the sector 3.\<close>

definition sim_root :: inode_disk where
  "sim_root = zero_disk\<lparr>dlength := 40, sp := 3, magic := INODE_MAGIC, disdir := True, dparent := 1\<rparr>"

definition sim_volume :: "(u32 \<Rightarrow> byte list) fs" where
  "sim_volume = sim_map_fs\<lparr>fs_device := (\<lambda>a. if a = ROOT_DIR_SECTOR then encode_inode sim_root else []), free_map := sim_map\<rparr>"

lemma sim_volume_contents: "contents sim_env sim_volume a = (if a = ROOT_DIR_SECTOR then encode_inode sim_root else replicate 512 0)"
proof -
  have "length (encode_inode sim_root) = 512" by (simp add: disk_wf_def sim_root_def zero_disk_def)
  then show ?thesis by (simp add: contents_def sim_volume_def sim_map_fs_def sim_fs_def sim_env_def)
qed

lemma sim_volume_rest: "at_rest sim_env sim_volume" "open_in_use sim_volume"
proof -
  have "cache_ready sim_env sim_volume" using sim_env_dev by (simp add: sim_volume_def sim_map_fs_def sim_fs_def cache_ready_def cache_wf_def cache_core_def CACHE_SIZE_def)
  then show "at_rest sim_env sim_volume" "open_in_use sim_volume"
    by (simp_all add: at_rest_def open_in_use_def) (simp_all add: sim_volume_def sim_map_fs_def sim_fs_def in_use_def sim_map_def sim_map_inode_def FREE_MAP_SECTOR_def)
qed

lemma sim_volume_map: "map_open sim_env {2} sim_volume"
  using sim_map_file[of sim_volume sim_env sim_map]
  by (simp add: map_open_def sim_volume_def sim_map_fs_def sim_fs_def FREE_MAP_SECTOR_def) (simp add: sim_env_def sim_map_def)

lemma sim_volume_root:
  "root_is sim_env sim_volume sim_root (replicate 40 0)" "root_kept sim_env {2} sim_volume sim_root"
proof -
  have n: "nblocks sim_root = 1" by (simp add: nblocks_def sim_root_def)
  then have sec: "data_sectors V sim_root = {3}" "index_sectors V sim_root = {}" for V
    by (simp_all add: data_sectors_def index_sectors_def blk_sector_def sim_root_def lessThan_Suc)
  have "file_bytes (contents sim_env sim_volume) sim_root = replicate 40 0"
  proof (rule replicate_eqI)
    show "length (file_bytes (contents sim_env sim_volume) sim_root) = 40" by (simp add: sim_root_def)
    fix y assume "y \<in> set (file_bytes (contents sim_env sim_volume) sim_root)"
    then obtain m where "m < 40" "y = file_byte (contents sim_env sim_volume) sim_root m" by (auto simp: file_bytes_def sim_root_def)
    then show "y = 0" by (simp add: file_byte_def blk_sector_def sim_volume_contents sim_root_def ROOT_DIR_SECTOR_def)
  qed
  moreover have "layout_ok (contents sim_env sim_volume) sim_root" "disk_wf sim_root"
    using sec n by (simp_all add: layout_ok_def length_ok_def MAX_LENGTH_def disk_wf_def lessThan_Suc) (simp_all add: sim_root_def zero_disk_def)
  moreover have "find_open (inode_heap sim_volume) ROOT_DIR_SECTOR (open_inodes sim_volume) = Inr None"
    by (simp add: sim_volume_def sim_map_fs_def sim_map_inode_def FREE_MAP_SECTOR_def ROOT_DIR_SECTOR_def)
  ultimately show "root_is sim_env sim_volume sim_root (replicate 40 0)"
    using sim_dir_names by (simp add: root_is_def sim_volume_contents)
  show "root_kept sim_env {2} sim_volume sim_root"
    using sec by (simp add: root_kept_def file_sectors_def in_use_def sim_volume_def sim_map_def ROOT_DIR_SECTOR_def)
qed

theorem filesys_create_open_read_witness:
  "\<exists>t u v f. filesys_create sim_env [97] 100 False sim_volume = Inr (True, t) \<and> filesys_open sim_env [97] t = Inr (Some f, u) \<and>
    file_read sim_env f 100 u = Inr (replicate 100 0, v)"
proof -
  have m: "free_map sim_volume = sim_map" by (simp add: sim_volume_def)
  have f: "free_sector sim_volume 4" "free_sector sim_volume 7" "length (free_map sim_volume) < 2 ^ 32" "in_use sim_volume {2}"
    by (simp_all add: free_sector_def m sim_map_def in_use_def)
  have e: "\<forall>e\<in>set (dir_entries (replicate 40 0)). in_use_flag e \<longrightarrow> entry_name e \<noteq> [97]" using sim_dir_entries by simp
  have "dir_entries (replicate 40 0) ! 0 \<in> set (dir_entries (replicate 40 0))" by (rule nth_mem) simp
  then have g: "\<exists>e\<in>set (dir_entries (replicate 40 0)). \<not> in_use_flag e" using sim_dir_entries by blast
  have n: "strtok [97] = [[97]]" "[97] \<noteq> DOT" "[97] \<noteq> DOTDOT"
    using strtok_last[of "[97]"] by (simp_all add: SLASH_def DOT_def DOTDOT_def)
  from filesys_create_open_read[OF sim_env_lib sim_writable sim_volume_map sim_volume_rest(1) sim_volume_root sim_volume_rest(2) f(3,4,1,2) _ n(1) _ n(2,3) _ _ e g, of 100]
  show ?thesis by (simp add: NAME_MAX_def)
qed

end
