(* ===== verification/Map_Facts.thy ===== *)
theory Map_Facts
  imports Fs_File
begin

text \<open>
  The hypothesis on \<^verbatim>\<open>bitmap_write\<close> holds for a function that does what \<^verbatim>\<open>bitmap.c\<close> documents: it writes
  the bits through \<^verbatim>\<open>file_write_at\<close>. With it the free map is written to its file on the disk.
\<close>

section \<open>Writing a bitmap through its file\<close>

definition map_bytes :: "bool list \<Rightarrow> byte list" where
  "map_bytes b = map (\<lambda>j. horner_sum of_bool 2 (take 8 (drop (8 * j) b))) [0..<length b div 8]"

definition map_writer :: "'d env \<Rightarrow> bool list \<Rightarrow> addr option \<Rightarrow> ('d fs, bool) K" where
  "map_writer E b f = bindK (ptrK f) (\<lambda>p. bindK (file_write_at E p (map_bytes b) (int (length (map_bytes b))) 0)
     (\<lambda>n. retK (n = int (length (map_bytes b)))))"

lemma wrote_index_sectors:
  assumes "wrote E d off xs s t" "layout_ok (contents E s) d"
  shows "index_sectors (contents E t) d = index_sectors (contents E s) d"
proof -
  have "contents E t (din d) = contents E s (din d)" if "129 < nblocks d"
    using assms that by (auto simp: wrote_def layout_ok_def index_sectors_def)
  then show ?thesis by (force simp: index_sectors_def index_words_def)
qed

lemma map_writer_run:
  assumes "heap_ok E" "cache_ready E s" "map_file E Z b s p" "bitmap_file_size E b = int (length (map_bytes b))"
  shows "wpK (map_writer E b (Some p)) (\<lambda>ok t. ok \<and> cache_ready E t \<and> same_upper s t \<and> map_file E Z b t p \<and>
    (\<forall>a. a \<notin> Z \<longrightarrow> contents E t a = contents E s a)) s"
proof -
  obtain f i where f: "file_heap s p = Some f" "inode_heap s (finode f) = Some i" "finode f < inode_brk s" "p < file_brk s" "idle i"
    "deny_write_cnt i = 0" "layout_ok (contents E s) (idata i)" "file_sectors (contents E s) (idata i) \<subseteq> Z"
    "int (length (map_bytes b)) \<le> dlength (idata i)"
    using assms(3,4) by (auto simp: map_file_def)
  have "wpK (inode_write_at E (finode f) (map_bytes b) (int (length (map_bytes b))) 0) (\<lambda>n t. n = int (length (map_bytes b)) \<and>
      wrote E (idata i) (nat 0) (take (nat (int (length (map_bytes b)))) (map_bytes b)) s t) s"
    by (rule inode_write_at_run[OF assms(1,2) f(2,5,6,7)]) (use f(9) in simp_all)
  then have "wpK (inode_write_at E (finode f) (map_bytes b) (int (length (map_bytes b))) 0) (\<lambda>n t. n = int (length (map_bytes b)) \<and>
      cache_ready E t \<and> same_upper s t \<and> map_file E Z b t p \<and> (\<forall>a. a \<notin> Z \<longrightarrow> contents E t a = contents E s a)) s"
  proof (rule wpK_mono, elim conjE)
    fix n t assume n: "n = int (length (map_bytes b))"
      and w: "wrote E (idata i) (nat 0) (take (nat (int (length (map_bytes b)))) (map_bytes b)) s t"
    have t: "cache_ready E t" "same_upper s t" "layout_ok (contents E t) (idata i)"
      "file_sectors (contents E t) (idata i) = file_sectors (contents E s) (idata i)"
      using w wrote_index_sectors[OF w f(7)] by (simp_all add: wrote_def file_sectors_def)
    have "contents E t a = contents E s a" if "a \<notin> Z" for a
      using w f(8) that by (auto simp: wrote_def file_sectors_def)
    moreover have "map_file E Z b t p"
      unfolding map_file_def using f t assms(4) same_upper_fs[OF t(2)] by (intro exI[of _ f] exI[of _ i]) simp
    ultimately show "n = int (length (map_bytes b)) \<and> cache_ready E t \<and> same_upper s t \<and> map_file E Z b t p \<and>
      (\<forall>a. a \<notin> Z \<longrightarrow> contents E t a = contents E s a)" using n t by simp
  qed
  then show ?thesis using f(1) by (simp add: map_writer_def file_write_at_def ptrK_def)
qed

section \<open>The library of the witnesses with this function\<close>

definition file_env :: "(u32 \<Rightarrow> byte list) env" where
  "file_env = sim_env\<lparr>bitmap_write := map_writer sim_env\<rparr>"

lemma file_env_fields: "block_read file_env = block_read sim_env" "block_write file_env = block_write sim_env"
    "malloc_ok file_env = malloc_ok sim_env" "bitmap_file_size file_env = bitmap_file_size sim_env" "bitmap_write file_env = map_writer sim_env"
    "bitmap_scan_and_flip file_env = bitmap_scan_and_flip sim_env" "bitmap_set_multiple file_env = bitmap_set_multiple sim_env"
    "bitmap_all file_env = bitmap_all sim_env" "tmp_ok file_env = tmp_ok sim_env" "inode_mem_ok file_env = inode_mem_ok sim_env"
    "file_mem_ok file_env = file_mem_ok sim_env"
  by (simp_all add: file_env_def)

lemma file_env_cache: "contents file_env = contents sim_env" "cache_ready file_env s = cache_ready sim_env s"
    "map_file file_env Z b s p = map_file sim_env Z b s p" "map_open file_env Z s = map_open sim_env Z s"
proof -
  show c: "contents file_env = contents sim_env" by (intro ext) (simp add: contents_def file_env_fields split: sum.splits option.splits)
  show "cache_ready file_env s = cache_ready sim_env s"
    unfolding cache_ready_def cache_wf_def cache_core_def block_ok_def device_ok_def mem_ok_def file_env_fields by (rule refl)
  show m: "map_file file_env Z b s p = map_file sim_env Z b s p" for b p
    by (simp add: map_file_def c file_env_fields)
  show "map_open file_env Z s = map_open sim_env Z s" by (simp add: map_open_def m)
qed

lemma file_env_lib: "fs_lib_ok file_env Z" "map_writable file_env Z"
proof -
  have size: "bitmap_file_size sim_env b = int (length (map_bytes b))" for b by (simp add: sim_env_def map_bytes_def zdiv_int)
  note run = map_writer_run[OF sim_heap_ok _ _ size]
  have "bitmap_write_within file_env Z"
    unfolding bitmap_write_within_def file_env_cache file_env_fields by (auto intro: wpK_mono[OF run])
  moreover have "bitmap_ok file_env = bitmap_ok sim_env" "heap_ok file_env = heap_ok sim_env"
    unfolding bitmap_ok_def heap_ok_def file_env_fields by (rule refl)+
  ultimately show "fs_lib_ok file_env Z" using sim_env_lib[of Z] by (simp add: fs_lib_ok_def)
  show "map_writable file_env Z"
    unfolding map_writable_def file_env_cache file_env_fields by (auto intro: wpK_mono[OF run])
qed

text \<open>Two sectors are allocated and released, and the map is written to the sector 2 each time.\<close>

theorem free_map_allocate_release_witness:
  "\<exists>t u. free_map_allocate file_env 2 sim_map_fs = Inr (Some 3, t) \<and> free_map_release file_env 3 2 t = Inr ((), u) \<and>
    free_map u = free_map sim_map_fs \<and> (\<forall>a. a \<notin> {2} \<longrightarrow> contents file_env u a = contents file_env sim_map_fs a)"
proof -
  have m: "cache_ready file_env sim_map_fs" "map_open file_env {2} sim_map_fs" "length (free_map sim_map_fs) < 2 ^ 32"
    using sim_map_fs_ready sim_map_open by (simp_all add: file_env_cache sim_fs_map)
  let ?b = "[True, True, True, True, True, True, False, False]"
  have "map_file file_env {2} ?b (sim_map_fs\<lparr>free_map := ?b\<rparr>) 0"
    using sim_map_file[of sim_map_fs sim_env ?b] by (simp add: file_env_cache sim_map_fs_def sim_env_def)
  then have "wpK (bitmap_write file_env ?b (Some 0)) (\<lambda>ok _. ok) (sim_map_fs\<lparr>free_map := ?b\<rparr>)"
    using file_env_lib(2)[of "{2}"] m(1) by (simp add: map_writable_def)
  then obtain t where "free_map_allocate file_env 2 sim_map_fs = Inr (Some 3, t)"
    using sim_scan_3 sim_map_fs_ready
    by (auto simp: free_map_allocate_def kstep wpK_iff file_env_fields BITMAP_ERROR_def)
  with free_map_allocate_release[OF file_env_lib(1) m(1,2) sim_map_fs_ready(3) m(3) _ this] show ?thesis by auto
qed

end
