(* ===== verification/Page_Dir.thy ===== *)
theory Page_Dir
  imports Pintos_Prelude
begin

text \<open>
  Page directories and page tables: \<^verbatim>\<open>pagedir.c\<close>. A page used as a directory or a table is an
  array of 1024 words; a directory entry points to a table, a table entry to a frame. The
  accessors of \<^verbatim>\<open>threads/pte.h\<close> and \<^verbatim>\<open>threads/vaddr.h\<close> and the page allocator are not part of
  the sources: they are the fields of \<open>mmu\<close>, with their documented behaviour in \<open>mmu_ok\<close>.
  Seen from outside a directory is a map from virtual pages to entries; \<open>Address_Space\<close> states
  this interface as a locale, and this model provides it.
\<close>

section \<open>State and code outside the sources\<close>

definition PGSIZE :: nat where
  "PGSIZE = 4096"

definition TABLE_WORDS :: nat where
  "TABLE_WORDS = 1024"

text \<open>
  Pages used as tables, pages used as data, the directory that maps only the kernel, and the
  page directory base register.
\<close>

record pg =
  tables :: "u32 \<Rightarrow> u32 list option"
  pages :: "u32 \<Rightarrow> byte list option"
  init_page_dir :: u32
  cr3 :: u32

record mmu =
  PHYS_BASE :: u32
  is_user_vaddr :: "u32 \<Rightarrow> bool"
  pg_ofs :: "u32 \<Rightarrow> u32"
  pg_round_down :: "u32 \<Rightarrow> u32"
  pd_no :: "u32 \<Rightarrow> nat"
  pt_no :: "u32 \<Rightarrow> nat"
  vtop :: "u32 \<Rightarrow> u32"
  ptov :: "u32 \<Rightarrow> u32"
  pde_create :: "u32 \<Rightarrow> u32"
  pde_get_pt :: "u32 \<Rightarrow> u32"
  pte_create_user :: "u32 \<Rightarrow> bool \<Rightarrow> u32"
  pte_get_page :: "u32 \<Rightarrow> u32"
  PTE_P :: u32
  PTE_W :: u32
  PTE_A :: u32
  PTE_D :: u32
  init_ram_pages :: nat
  palloc :: "bool \<Rightarrow> (u32 \<Rightarrow> bool) \<Rightarrow> u32 option"
  palloc_junk :: "byte list"

text \<open>
  \<^verbatim>\<open>palloc_get_page\<close> is given which pages are in use and whether the user pool is asked;
  a page that is not wanted zeroed holds arbitrary bytes.
\<close>

definition page_used :: "'z pg_scheme \<Rightarrow> u32 \<Rightarrow> bool" where
  "page_used s p \<longleftrightarrow> tables s p \<noteq> None \<or> pages s p \<noteq> None"

definition palloc_get_data :: "mmu \<Rightarrow> bool \<Rightarrow> bool \<Rightarrow> ('z pg_scheme, u32 option) K" where
  "palloc_get_data M user zero = bindK (getK (\<lambda>s. palloc M user (page_used s))) (\<lambda>r. case r of
     None \<Rightarrow> retK None
   | Some p \<Rightarrow> thenK (modK (\<lambda>s. s\<lparr>pages := (pages s)(p \<mapsto> if zero then replicate PGSIZE 0 else palloc_junk M)\<rparr>))
       (retK (Some p)))"

definition palloc_get_table :: "mmu \<Rightarrow> u32 list \<Rightarrow> ('z pg_scheme, u32 option) K" where
  "palloc_get_table M ws = bindK (getK (\<lambda>s. palloc M False (page_used s))) (\<lambda>r. case r of
     None \<Rightarrow> retK None
   | Some p \<Rightarrow> thenK (modK (\<lambda>s. s\<lparr>tables := (tables s)(p \<mapsto> ws)\<rparr>)) (retK (Some p)))"

text \<open>Freeing a page that is not allocated corrupts the pool.\<close>

definition palloc_free_page :: "u32 \<Rightarrow> ('z pg_scheme, unit) K" where
  "palloc_free_page p = bindK (getK (\<lambda>s. page_used s p)) (\<lambda>u. if u
     then modK (\<lambda>s. s\<lparr>tables := (tables s)(p := None), pages := (pages s)(p := None)\<rparr>) else failK BAD_POINTER)"

section \<open>Words of tables\<close>

definition word_at :: "u32 \<Rightarrow> nat \<Rightarrow> ('z pg_scheme, u32) K" where
  "word_at p i = bindK (derefK (\<lambda>s. tables s p)) (\<lambda>t. if i < length t then retK (t ! i) else failK OUT_OF_BOUNDS)"

definition set_word :: "u32 \<Rightarrow> nat \<Rightarrow> u32 \<Rightarrow> ('z pg_scheme, unit) K" where
  "set_word p i w = bindK (derefK (\<lambda>s. tables s p)) (\<lambda>t. if i < length t
     then modK (\<lambda>s. s\<lparr>tables := (tables s)(p \<mapsto> t[i := w])\<rparr>) else failK OUT_OF_BOUNDS)"

section \<open>Operations of pagedir.c\<close>

definition pagedir_create :: "mmu \<Rightarrow> ('z pg_scheme, u32 option) K" where
  "pagedir_create M = bindK (getK init_page_dir) (\<lambda>ipd. bindK (derefK (\<lambda>s. tables s ipd)) (palloc_get_table M))"

definition free_if_present :: "mmu \<Rightarrow> u32 \<Rightarrow> nat \<Rightarrow> ('z pg_scheme, unit) K" where
  "free_if_present M pt j = bindK (word_at pt j) (\<lambda>pte. whenK (pte AND PTE_P M \<noteq> 0) (palloc_free_page (pte_get_page M pte)))"

definition destroy_entry :: "mmu \<Rightarrow> u32 \<Rightarrow> nat \<Rightarrow> ('z pg_scheme, unit) K" where
  "destroy_entry M pd i = bindK (word_at pd i) (\<lambda>pde. whenK (pde AND PTE_P M \<noteq> 0)
     (let pt = pde_get_pt M pde in
      thenK (forK [0..<TABLE_WORDS] (free_if_present M pt)) (palloc_free_page pt)))"

definition pagedir_destroy :: "mmu \<Rightarrow> u32 option \<Rightarrow> ('z pg_scheme, unit) K" where
  "pagedir_destroy M pd = (case pd of None \<Rightarrow> retK ()
   | Some d \<Rightarrow> bindK (getK init_page_dir) (\<lambda>ipd. thenK (assertK (d \<noteq> ipd))
       (thenK (forK [0..<pd_no M (PHYS_BASE M)] (destroy_entry M d)) (palloc_free_page d))))"

text \<open>The pointer to a page table entry: the table and the index.\<close>

definition lookup_page :: "mmu \<Rightarrow> u32 option \<Rightarrow> u32 \<Rightarrow> bool \<Rightarrow> ('z pg_scheme, (u32 \<times> nat) option) K" where
  "lookup_page M pd vaddr create = (case pd of None \<Rightarrow> failK PANIC | Some d \<Rightarrow>
     thenK (assertK (\<not> create \<or> is_user_vaddr M vaddr))
     (bindK (word_at d (pd_no M vaddr)) (\<lambda>pde.
      if pde = 0 then
        (if create then bindK (palloc_get_table M (replicate TABLE_WORDS 0)) (\<lambda>r. case r of None \<Rightarrow> retK None
           | Some pt \<Rightarrow> thenK (set_word d (pd_no M vaddr) (pde_create M pt))
               (bindK (word_at d (pd_no M vaddr)) (\<lambda>pde. retK (Some (pde_get_pt M pde, pt_no M vaddr)))))
         else retK None)
      else retK (Some (pde_get_pt M pde, pt_no M vaddr)))))"

definition pagedir_set_page :: "mmu \<Rightarrow> u32 option \<Rightarrow> u32 \<Rightarrow> u32 \<Rightarrow> bool \<Rightarrow> ('z pg_scheme, bool) K" where
  "pagedir_set_page M pd upage kpage writable = bindK (getK init_page_dir) (\<lambda>ipd.
     thenK (assertK (pg_ofs M upage = 0)) (thenK (assertK (pg_ofs M kpage = 0))
     (thenK (assertK (is_user_vaddr M upage)) (thenK (assertK (unat (drop_bit 12 (vtop M kpage)) < init_ram_pages M))
     (thenK (assertK (pd \<noteq> Some ipd))
     (bindK (lookup_page M pd upage True) (\<lambda>r. case r of
       None \<Rightarrow> retK False
     | Some (pt, i) \<Rightarrow> bindK (word_at pt i) (\<lambda>pte. thenK (assertK (pte AND PTE_P M = 0))
         (thenK (set_word pt i (pte_create_user M kpage writable)) (retK True))))))))))"

definition pagedir_get_page :: "mmu \<Rightarrow> u32 option \<Rightarrow> u32 \<Rightarrow> ('z pg_scheme, u32 option) K" where
  "pagedir_get_page M pd uaddr = thenK (assertK (is_user_vaddr M uaddr))
     (bindK (lookup_page M pd uaddr False) (\<lambda>r. case r of
       None \<Rightarrow> retK None
     | Some (pt, i) \<Rightarrow> bindK (word_at pt i) (\<lambda>pte.
         retK (if pte AND PTE_P M \<noteq> 0 then Some (pte_get_page M pte + pg_ofs M uaddr) else None))))"

definition pagedir_activate :: "mmu \<Rightarrow> u32 option \<Rightarrow> ('z pg_scheme, unit) K" where
  "pagedir_activate M pd = modK (\<lambda>s. s\<lparr>cr3 := vtop M (case pd of None \<Rightarrow> init_page_dir s | Some d \<Rightarrow> d)\<rparr>)"

definition active_pd :: "mmu \<Rightarrow> ('z pg_scheme, u32) K" where
  "active_pd M = getK (\<lambda>s. ptov M (cr3 s))"

definition invalidate_pagedir :: "mmu \<Rightarrow> u32 \<Rightarrow> ('z pg_scheme, unit) K" where
  "invalidate_pagedir M d = bindK (active_pd M) (\<lambda>a. whenK (a = d) (pagedir_activate M (Some d)))"

definition pagedir_clear_page :: "mmu \<Rightarrow> u32 option \<Rightarrow> u32 \<Rightarrow> ('z pg_scheme, unit) K" where
  "pagedir_clear_page M pd upage = thenK (assertK (pg_ofs M upage = 0)) (thenK (assertK (is_user_vaddr M upage))
     (bindK (lookup_page M pd upage False) (\<lambda>r. case r of
       None \<Rightarrow> retK ()
     | Some (pt, i) \<Rightarrow> bindK (word_at pt i) (\<lambda>pte. whenK (pte AND PTE_P M \<noteq> 0)
         (thenK (set_word pt i (pte AND NOT (PTE_P M))) (invalidate_pagedir M (the pd)))))))"

text \<open>The tests and updates of one flag, which the code repeats for dirty, writable and accessed.\<close>

definition test_flag :: "mmu \<Rightarrow> u32 \<Rightarrow> u32 option \<Rightarrow> u32 \<Rightarrow> ('z pg_scheme, bool) K" where
  "test_flag M flag pd vpage = bindK (lookup_page M pd vpage False) (\<lambda>r. case r of
       None \<Rightarrow> retK False
     | Some (pt, i) \<Rightarrow> bindK (word_at pt i) (\<lambda>pte. retK (pte AND flag \<noteq> 0)))"

definition set_flag :: "mmu \<Rightarrow> u32 \<Rightarrow> u32 option \<Rightarrow> u32 \<Rightarrow> bool \<Rightarrow> ('z pg_scheme, unit) K" where
  "set_flag M flag pd vpage b = bindK (lookup_page M pd vpage False) (\<lambda>r. case r of
       None \<Rightarrow> retK ()
     | Some (pt, i) \<Rightarrow> bindK (word_at pt i) (\<lambda>pte.
         if b then set_word pt i (pte OR flag)
         else thenK (set_word pt i (pte AND NOT flag)) (invalidate_pagedir M (the pd))))"

definition pagedir_is_dirty :: "mmu \<Rightarrow> u32 option \<Rightarrow> u32 \<Rightarrow> ('z pg_scheme, bool) K" where
  "pagedir_is_dirty M = test_flag M (PTE_D M)"

definition pagedir_set_dirty :: "mmu \<Rightarrow> u32 option \<Rightarrow> u32 \<Rightarrow> bool \<Rightarrow> ('z pg_scheme, unit) K" where
  "pagedir_set_dirty M = set_flag M (PTE_D M)"

definition pagedir_set_writable :: "mmu \<Rightarrow> u32 option \<Rightarrow> u32 \<Rightarrow> bool \<Rightarrow> ('z pg_scheme, unit) K" where
  "pagedir_set_writable M = set_flag M (PTE_W M)"

definition pagedir_is_accessed :: "mmu \<Rightarrow> u32 option \<Rightarrow> u32 \<Rightarrow> ('z pg_scheme, bool) K" where
  "pagedir_is_accessed M = test_flag M (PTE_A M)"

definition pagedir_set_accessed :: "mmu \<Rightarrow> u32 option \<Rightarrow> u32 \<Rightarrow> bool \<Rightarrow> ('z pg_scheme, unit) K" where
  "pagedir_set_accessed M = set_flag M (PTE_A M)"

end
