(* ===== verification/Paging.thy ===== *)
theory Paging
  imports Page_Dir Fs_File
begin

text \<open>
  Demand paging: the frame table of \<^verbatim>\<open>frame.c\<close>, the supplemental page tables of \<^verbatim>\<open>suppage.c\<close>,
  swapping and loading of \<^verbatim>\<open>swap.c\<close>, and the functions of \<^verbatim>\<open>process.c\<close> that map pages. The
  state joins page directories, the file system and the threads' own lists; frames, page
  entries and their sharing are objects in typed heaps. A member that \<^verbatim>\<open>malloc\<close> leaves
  uninitialised is null or zero.
\<close>

section \<open>State\<close>

datatype page_type = FILE | MMAP | SWAP | SHARE

record frame_elem =
  kpage :: "u32 option"
  fspt :: "addr option"
  shared :: "addr option"
  fload :: bool
  ffile :: "addr option"
  findex :: u32
  ftype :: page_type
  fofs :: off_t
  page_read_bytes :: u32
  fwritable :: bool

record sup_page_table =
  upage :: u32
  sframe :: addr
  sthread :: tid

record uthread =
  pagedir :: "u32 option"
  page_table :: "addr list"
  mmap_list :: "addr list"
  mmap_file_list :: "addr list"
  next_mapid :: int
  uesp :: u32
  ufile :: "addr option"
  process :: "addr option"
  child_process_list :: "addr list"
  uparent :: int
  ucur_dir :: "addr option"

record 'd vm = pg +
  vfs :: "'d fs"
  uthreads :: "tid \<Rightarrow> uthread option"
  frame_heap :: "addr \<Rightarrow> frame_elem option"
  spt_heap :: "addr \<Rightarrow> sup_page_table option"
  shared_heap :: "addr \<Rightarrow> addr list option"
  vm_brk :: addr
  frame_table :: "addr list"
  frame_lock :: "tid option"
  swap_lock :: "tid option"
  swap_bitmap :: "bool list"
  swap_block :: 'd

text \<open>
  Outside the sources besides \<open>mmu\<close> and \<open>klib\<close>: \<^verbatim>\<open>bitmap_flip\<close>, and whether \<^verbatim>\<open>malloc\<close> gives
  memory for the next object, which the code does not test.
\<close>

record 'd vmlib =
  hw :: mmu
  lib :: "'d env"
  bitmap_flip :: "bool list \<Rightarrow> u32 \<Rightarrow> bool list"
  obj_ok :: "addr \<Rightarrow> bool"

section \<open>Access to the parts of the state\<close>

definition inFs :: "('d fs, 'a) K \<Rightarrow> ('d vm, 'a) K" where
  "inFs m = (\<lambda>s. case m (vfs s) of Inl e \<Rightarrow> Inl e | Inr (a, f) \<Rightarrow> Inr (a, s\<lparr>vfs := f\<rparr>))"

definition me :: "('d vm, tid) K" where
  "me = getK (\<lambda>s. cur_thread (vfs s))"

definition uthreadK :: "tid \<Rightarrow> ('d vm, uthread) K" where
  "uthreadK t = derefK (\<lambda>s. uthreads s t)"

definition cur :: "('d vm, uthread) K" where
  "cur = bindK me uthreadK"

definition upd_cur :: "(uthread \<Rightarrow> uthread) \<Rightarrow> ('d vm, unit) K" where
  "upd_cur f = bindK me (\<lambda>t. bindK (uthreadK t) (\<lambda>x. modK (\<lambda>s. s\<lparr>uthreads := (uthreads s)(t \<mapsto> f x)\<rparr>)))"

definition frameK :: "addr \<Rightarrow> ('d vm, frame_elem) K" where
  "frameK p = derefK (\<lambda>s. frame_heap s p)"

definition upd_frame :: "addr \<Rightarrow> (frame_elem \<Rightarrow> frame_elem) \<Rightarrow> ('d vm, unit) K" where
  "upd_frame p f = bindK (frameK p) (\<lambda>x. modK (\<lambda>s. s\<lparr>frame_heap := (frame_heap s)(p \<mapsto> f x)\<rparr>))"

definition sptK :: "addr \<Rightarrow> ('d vm, sup_page_table) K" where
  "sptK p = derefK (\<lambda>s. spt_heap s p)"

definition sharedK :: "addr \<Rightarrow> ('d vm, addr list) K" where
  "sharedK p = derefK (\<lambda>s. shared_heap s p)"

definition vm_malloc :: "'d vmlib \<Rightarrow> ('d vm, addr) K" where
  "vm_malloc V = bindK (getK vm_brk) (\<lambda>p. if obj_ok V p then thenK (modK (\<lambda>s. s\<lparr>vm_brk := p + 1\<rparr>)) (retK p)
     else failK BAD_POINTER)"

definition frame_lock_acquire :: "('d vm, unit) K" where
  "frame_lock_acquire = bindK (getK (\<lambda>s. acquire_lock (cur_thread (vfs s)) (frame_lock s)))
     (\<lambda>r. bindK (liftK r) (\<lambda>l. modK (\<lambda>s. s\<lparr>frame_lock := l\<rparr>)))"

definition frame_lock_release :: "('d vm, unit) K" where
  "frame_lock_release = bindK (getK (\<lambda>s. release_lock (cur_thread (vfs s)) (frame_lock s)))
     (\<lambda>r. bindK (liftK r) (\<lambda>l. modK (\<lambda>s. s\<lparr>frame_lock := l\<rparr>)))"

definition swap_lock_acquire :: "('d vm, unit) K" where
  "swap_lock_acquire = bindK (getK (\<lambda>s. acquire_lock (cur_thread (vfs s)) (swap_lock s)))
     (\<lambda>r. bindK (liftK r) (\<lambda>l. modK (\<lambda>s. s\<lparr>swap_lock := l\<rparr>)))"

definition swap_lock_release :: "('d vm, unit) K" where
  "swap_lock_release = bindK (getK (\<lambda>s. release_lock (cur_thread (vfs s)) (swap_lock s)))
     (\<lambda>r. bindK (liftK r) (\<lambda>l. modK (\<lambda>s. s\<lparr>swap_lock := l\<rparr>)))"

text \<open>\<^verbatim>\<open>if (lock.holder != thread_current ()) lock_acquire (&lock);\<close>\<close>

definition frame_lock_ensure :: "('d vm, unit) K" where
  "frame_lock_ensure = bindK (getK (\<lambda>s. frame_lock s = Some (cur_thread (vfs s)))) (\<lambda>h. whenK (\<not> h) frame_lock_acquire)"

definition file_lock_ensure :: "('d vm, unit) K" where
  "file_lock_ensure = bindK (getK (\<lambda>s. file_lock (vfs s) = Some (cur_thread (vfs s)))) (\<lambda>h.
     whenK (\<not> h) (inFs file_lock_acquire))"

section \<open>frame.c\<close>

definition frame_table_init :: "('d vm, unit) K" where
  "frame_table_init = modK (\<lambda>s. s\<lparr>frame_table := []\<rparr>)"

definition frame_get_kpage :: "'d vmlib \<Rightarrow> bool \<Rightarrow> bool \<Rightarrow> ('d vm, u32 option) K" where
  "frame_get_kpage V user zero = (if \<not> user then retK None else palloc_get_data (hw V) user zero)"

text \<open>The first frame of a list that holds the given page.\<close>

primrec frame_with :: "(addr \<Rightarrow> frame_elem option) \<Rightarrow> u32 option \<Rightarrow> addr list \<Rightarrow> kerror + addr option" where
  "frame_with h kp [] = Inr None"
| "frame_with h kp (p # ps) = (case h p of None \<Rightarrow> Inl BAD_POINTER
     | Some fe \<Rightarrow> if kpage fe = kp then Inr (Some p) else frame_with h kp ps)"

definition frame_destroy :: "u32 \<Rightarrow> ('d vm, unit) K" where
  "frame_destroy kp = thenK frame_lock_acquire
     (bindK (getK (\<lambda>s. frame_with (frame_heap s) (Some kp) (frame_table s))) (\<lambda>r. bindK (liftK r) (\<lambda>found.
      thenK (case found of None \<Rightarrow> retK ()
        | Some p \<Rightarrow> thenK (modK (\<lambda>s. s\<lparr>frame_table := remove1 p (frame_table s), frame_heap := (frame_heap s)(p := None)\<rparr>))
            (palloc_free_page kp))
      frame_lock_release)))"

definition frame_find :: "u32 option \<Rightarrow> ('d vm, addr option) K" where
  "frame_find kp = thenK frame_lock_acquire
     (bindK (getK (\<lambda>s. frame_with (frame_heap s) kp (frame_table s))) (\<lambda>r. bindK (liftK r) (\<lambda>found.
      thenK frame_lock_release (retK found))))"

text \<open>Unlinking a frame that is not in the frame table corrupts memory.\<close>

definition unlink_frame :: "addr \<Rightarrow> ('d vm, unit) K" where
  "unlink_frame p = bindK (getK (\<lambda>s. list_remove p (frame_table s))) (\<lambda>r. bindK (liftK r) (\<lambda>l.
     modK (\<lambda>s. s\<lparr>frame_table := l\<rparr>)))"

definition free_loaded :: "addr \<Rightarrow> frame_elem \<Rightarrow> ('d vm, unit) K" where
  "free_loaded p fe = thenK (unlink_frame p) (bindK (nonnull (kpage fe)) palloc_free_page)"

definition frame_free :: "'d vmlib \<Rightarrow> addr \<Rightarrow> ('d vm, unit) K" where
  "frame_free V p = thenK frame_lock_ensure (bindK (frameK p) (\<lambda>fe.
     thenK (if shared fe = None then
         thenK (if ftype fe \<noteq> FILE then
             (if fload fe then free_loaded p fe
              else whenK (findex fe \<noteq> - 1) (thenK swap_lock_acquire
                (thenK (modK (\<lambda>s. s\<lparr>swap_bitmap := bitmap_flip V (swap_bitmap s) (findex fe)\<rparr>)) swap_lock_release)))
           else whenK (fload fe) (free_loaded p fe))
         (modK (\<lambda>s. s\<lparr>frame_heap := (frame_heap s)(p := None)\<rparr>))
       else retK ())
     frame_lock_release))"

definition frame_table_insert :: "'d vmlib \<Rightarrow> u32 option \<Rightarrow> addr option \<Rightarrow> page_type \<Rightarrow> off_t \<Rightarrow> u32 \<Rightarrow> bool \<Rightarrow> ('d vm, addr) K" where
  "frame_table_insert V kp file type ofs prb writable = bindK (vm_malloc V) (\<lambda>p.
     let backed = (type = FILE \<or> type = MMAP);
         fe = \<lparr>kpage = kp, fspt = None, shared = None, fload = \<not> backed, ffile = (if backed then file else None),
           findex = - 1, ftype = type, fofs = (if backed then ofs else 0),
           page_read_bytes = (if backed then prb else 0), fwritable = writable\<rparr> in
     thenK (modK (\<lambda>s. s\<lparr>frame_heap := (frame_heap s)(p \<mapsto> fe)\<rparr>))
     (thenK (if backed then retK () else
         thenK frame_lock_acquire (thenK (modK (\<lambda>s. s\<lparr>frame_table := frame_table s @ [p]\<rparr>)) frame_lock_release))
     (retK p)))"

text \<open>
  The search of \<^verbatim>\<open>check_match\<close> for a frame with the same part of the same file. The dirty bit is
  looked up for the address of the frame in the kernel, as the code does.
\<close>

primrec match_in :: "'d vmlib \<Rightarrow> addr option \<Rightarrow> off_t \<Rightarrow> u32 \<Rightarrow> addr list \<Rightarrow> ('d vm, addr option) K" where
  "match_in V file ofs prb [] = retK None"
| "match_in V file ofs prb (p # ps) = bindK (frameK p) (\<lambda>fe. bindK (nonnull (fspt fe)) (\<lambda>pe. bindK (sptK pe) (\<lambda>spt.
     if ffile fe \<noteq> None \<and> file \<noteq> None then
       thenK (assertK (kpage fe \<noteq> None))
       (bindK (uthreadK (sthread spt)) (\<lambda>t. bindK (nonnull (kpage fe)) (\<lambda>kp.
        bindK (pagedir_is_dirty (hw V) (pagedir t) kp) (\<lambda>dirty.
        if dirty then match_in V file ofs prb ps
        else bindK (nonnull (ffile fe)) (\<lambda>f. bindK (inFs (fileK f)) (\<lambda>f. bindK (nonnull file) (\<lambda>g. bindK (inFs (fileK g)) (\<lambda>g.
          if finode f = finode g \<and> fofs fe = ofs \<and> page_read_bytes fe = prb then retK (Some p)
          else match_in V file ofs prb ps))))))))
     else match_in V file ofs prb ps)))"

definition check_match :: "'d vmlib \<Rightarrow> addr option \<Rightarrow> off_t \<Rightarrow> u32 \<Rightarrow> ('d vm, addr option) K" where
  "check_match V file ofs prb = thenK frame_lock_acquire (bindK (getK frame_table) (\<lambda>l.
     bindK (match_in V file ofs prb l) (\<lambda>r. thenK frame_lock_release (retK r))))"

section \<open>suppage.c\<close>

definition spt_init :: "'d vmlib \<Rightarrow> u32 \<Rightarrow> addr \<Rightarrow> ('d vm, addr) K" where
  "spt_init V up frame = bindK (vm_malloc V) (\<lambda>p. bindK me (\<lambda>t.
     thenK (modK (\<lambda>s. s\<lparr>spt_heap := (spt_heap s)(p \<mapsto> \<lparr>upage = up, sframe = frame, sthread = t\<rparr>)\<rparr>))
     (thenK (upd_frame frame (\<lambda>fe. fe\<lparr>fspt := Some p\<rparr>))
     (thenK (upd_cur (\<lambda>x. x\<lparr>page_table := page_table x @ [p]\<rparr>)) (retK p)))))"

definition spt_free :: "'d vmlib \<Rightarrow> addr \<Rightarrow> ('d vm, unit) K" where
  "spt_free V p = bindK (sptK p) (\<lambda>spt. bindK (frameK (sframe spt)) (\<lambda>fe. bindK cur (\<lambda>t.
     thenK (whenK (fload fe) (pagedir_clear_page (hw V) (pagedir t) (upage spt)))
     (bindK (liftK (list_remove p (page_table t))) (\<lambda>l.
      thenK (upd_cur (\<lambda>x. x\<lparr>page_table := l\<rparr>))
     (thenK (case shared fe of None \<Rightarrow> retK ()
        | Some sf \<Rightarrow> thenK frame_lock_ensure (bindK (sharedK sf) (\<lambda>users. bindK (liftK (list_remove p users)) (\<lambda>rest.
            thenK (modK (\<lambda>s. s\<lparr>shared_heap := (shared_heap s)(sf \<mapsto> rest)\<rparr>))
           (thenK (case rest of
                [] \<Rightarrow> thenK (modK (\<lambda>s. s\<lparr>shared_heap := (shared_heap s)(sf := None)\<rparr>))
                  (upd_frame (sframe spt) (\<lambda>fe. fe\<lparr>shared := None\<rparr>))
              | other # _ \<Rightarrow> whenK (fspt fe = Some p) (upd_frame (sframe spt) (\<lambda>fe. fe\<lparr>fspt := Some other\<rparr>)))
            frame_lock_release)))))
     (modK (\<lambda>s. s\<lparr>spt_heap := (spt_heap s)(p := None)\<rparr>))))))))"

text \<open>The first entry of a thread's table for a page, and for a frame.\<close>

primrec spt_with :: "(addr \<Rightarrow> sup_page_table option) \<Rightarrow> u32 \<Rightarrow> addr list \<Rightarrow> kerror + addr option" where
  "spt_with h up [] = Inr None"
| "spt_with h up (p # ps) = (case h p of None \<Rightarrow> Inl BAD_POINTER
     | Some spt \<Rightarrow> if upage spt = up then Inr (Some p) else spt_with h up ps)"

definition find_spt :: "u32 \<Rightarrow> ('d vm, addr option) K" where
  "find_spt up = bindK cur (\<lambda>t. bindK (getK (\<lambda>s. spt_with (spt_heap s) up (page_table t))) liftK)"

primrec page_with :: "(addr \<Rightarrow> sup_page_table option) \<Rightarrow> (addr \<Rightarrow> frame_elem option) \<Rightarrow> u32 option \<Rightarrow> addr list \<Rightarrow>
    kerror + addr option" where
  "page_with h g kp [] = Inr None"
| "page_with h g kp (p # ps) = (case h p of None \<Rightarrow> Inl BAD_POINTER
     | Some spt \<Rightarrow> (case g (sframe spt) of None \<Rightarrow> Inl BAD_POINTER
       | Some fe \<Rightarrow> if fload fe \<and> kpage fe = kp then Inr (Some p) else page_with h g kp ps))"

definition find_page :: "u32 option \<Rightarrow> ('d vm, addr option) K" where
  "find_page kp = bindK cur (\<lambda>t. bindK (getK (\<lambda>s. page_with (spt_heap s) (frame_heap s) kp (page_table t))) liftK)"

section \<open>swap.c\<close>

text \<open>A page has eight sectors. \<^verbatim>\<open>block.h\<close>: a sector outside the device panics.\<close>

definition PAGE_SECTORS :: nat where
  "PAGE_SECTORS = 8"

definition init_swap :: "'d vmlib \<Rightarrow> 'd option \<Rightarrow> ('d vm, unit) K" where
  "init_swap V dev = bindK (nonnull dev) (\<lambda>d.
     bindK (nonnull (bitmap_create (lib V) (block_size (lib V) d div PAGE_SECTORS))) (\<lambda>b.
     modK (\<lambda>s. s\<lparr>swap_block := d, swap_bitmap := map (\<lambda>_. False) b, swap_lock := None, frame_lock := None\<rparr>)))"

definition pageK :: "u32 \<Rightarrow> ('d vm, byte list) K" where
  "pageK kp = derefK (\<lambda>s. pages s kp)"

definition put_page :: "u32 \<Rightarrow> byte list \<Rightarrow> ('d vm, unit) K" where
  "put_page kp bs = bindK (pageK kp) (\<lambda>_. modK (\<lambda>s. s\<lparr>pages := (pages s)(kp \<mapsto> bs)\<rparr>))"

definition swap_sector :: "u32 \<Rightarrow> nat \<Rightarrow> u32" where
  "swap_sector index i = index * of_nat PAGE_SECTORS + of_nat i"

definition write_sector :: "'d vmlib \<Rightarrow> u32 \<Rightarrow> u32 \<Rightarrow> nat \<Rightarrow> ('d vm, unit) K" where
  "write_sector V kp index i = bindK (pageK kp) (\<lambda>b. bindK (getK swap_block) (\<lambda>d.
     thenK (assertK (unat (swap_sector index i) < block_size (lib V) d))
     (modK (\<lambda>s. s\<lparr>swap_block := block_write (lib V) d (swap_sector index i) (get_bytes (512 * i) 512 b)\<rparr>))))"

definition read_sector :: "'d vmlib \<Rightarrow> u32 \<Rightarrow> u32 \<Rightarrow> nat \<Rightarrow> ('d vm, unit) K" where
  "read_sector V kp index i = bindK (pageK kp) (\<lambda>b. bindK (getK swap_block) (\<lambda>d.
     thenK (assertK (unat (swap_sector index i) < block_size (lib V) d))
     (put_page kp (put_bytes (512 * i) (block_read (lib V) d (swap_sector index i)) b))))"

definition sout :: "'d vmlib \<Rightarrow> addr \<Rightarrow> ('d vm, u32) K" where
  "sout V p = thenK swap_lock_acquire (thenK (upd_frame p (\<lambda>fe. fe\<lparr>ftype := SWAP\<rparr>))
     (bindK (getK (\<lambda>s. bitmap_scan_and_flip (lib V) (swap_bitmap s) 0 1 False)) (\<lambda>(index, b).
      thenK (modK (\<lambda>s. s\<lparr>swap_bitmap := b\<rparr>))
     (bindK (frameK p) (\<lambda>fe. bindK (nonnull (kpage fe)) (\<lambda>kp.
      thenK (forK [0..<PAGE_SECTORS] (write_sector V kp index))
     (thenK swap_lock_release (retK index))))))))"

definition sback :: "'d vmlib \<Rightarrow> u32 \<Rightarrow> addr \<Rightarrow> ('d vm, unit) K" where
  "sback V index p = thenK swap_lock_acquire
     (thenK (modK (\<lambda>s. s\<lparr>swap_bitmap := bitmap_flip V (swap_bitmap s) index\<rparr>))
     (bindK (frameK p) (\<lambda>fe. bindK (nonnull (kpage fe)) (\<lambda>kp.
      thenK (forK [0..<PAGE_SECTORS] (read_sector V kp index)) swap_lock_release))))"

text \<open>
  The search of \<^verbatim>\<open>evict\<close> for a victim: the first frame neither accessed nor dirty in the page
  directory of the running thread; accessed bits are cleared on the way.
\<close>

primrec victim_in :: "'d vmlib \<Rightarrow> addr list \<Rightarrow> ('d vm, addr option) K" where
  "victim_in V [] = retK None"
| "victim_in V (p # ps) = bindK (frameK p) (\<lambda>fe. bindK (nonnull (fspt fe)) (\<lambda>pe. bindK (sptK pe) (\<lambda>spt. bindK cur (\<lambda>t.
     bindK (pagedir_is_accessed (hw V) (pagedir t) (upage spt)) (\<lambda>acc.
     if acc then thenK (pagedir_set_accessed (hw V) (pagedir t) (upage spt) False) (victim_in V ps)
     else bindK (pagedir_is_dirty (hw V) (pagedir t) (upage spt)) (\<lambda>dirty.
       if dirty then victim_in V ps else retK (Some p)))))))"

definition clear_user :: "'d vmlib \<Rightarrow> addr \<Rightarrow> ('d vm, unit) K" where
  "clear_user V pe = bindK (sptK pe) (\<lambda>spt. bindK (uthreadK (sthread spt)) (\<lambda>t.
     pagedir_clear_page (hw V) (pagedir t) (upage spt)))"

text \<open>The contents of a victim are kept: in the mapped file if they are dirty there, or in swap.\<close>

definition save_page :: "'d vmlib \<Rightarrow> addr \<Rightarrow> frame_elem \<Rightarrow> u32 \<Rightarrow> sup_page_table \<Rightarrow> ('d vm, unit) K" where
  "save_page V p fe kp spt = bindK cur (\<lambda>t.
     if ftype fe = MMAP then
       bindK (pagedir_is_dirty (hw V) (pagedir t) (upage spt)) (\<lambda>dirty. whenK dirty
         (thenK file_lock_ensure (bindK (nonnull (ffile fe)) (\<lambda>f. bindK (pageK kp) (\<lambda>b.
          bindK (inFs (file_write_at (lib V) f b (sint (page_read_bytes fe)) (fofs fe))) (\<lambda>_.
          inFs file_lock_release))))))
     else
       bindK (if ftype fe \<noteq> FILE then retK True else pagedir_is_dirty (hw V) (pagedir t) (upage spt)) (\<lambda>out.
         whenK out (thenK (upd_frame p (\<lambda>fe. fe\<lparr>ftype := SWAP\<rparr>))
           (bindK (sout V p) (\<lambda>index. upd_frame p (\<lambda>fe. fe\<lparr>findex := index\<rparr>))))))"

text \<open>
  A shared victim: the loop runs over a copy of the list's header, so that its end test never
  meets the tail of the real list and the entry after the last user is followed. The return
  behind it does not release \<^verbatim>\<open>frame_lock\<close>.
\<close>

definition evict_shared :: "'d vmlib \<Rightarrow> u32 \<Rightarrow> addr \<Rightarrow> ('d vm, unit) K" where
  "evict_shared V kp sf = thenK (palloc_free_page kp) (bindK (sharedK sf) (\<lambda>users.
     thenK (forK users (clear_user V)) (failK BAD_POINTER)))"

definition evict :: "'d vmlib \<Rightarrow> ('d vm, unit) K" where
  "evict V = thenK frame_lock_acquire (bindK (getK frame_table) (\<lambda>l. bindK (victim_in V l) (\<lambda>v.
     bindK (nonnull (case v of None \<Rightarrow> (case l of [] \<Rightarrow> None | p # _ \<Rightarrow> Some p) | Some p \<Rightarrow> Some p)) (\<lambda>p.
     thenK (unlink_frame p) (thenK (upd_frame p (\<lambda>fe. fe\<lparr>fload := False\<rparr>))
     (bindK (frameK p) (\<lambda>fe. bindK (nonnull (kpage fe)) (\<lambda>kp. case shared fe of
        Some sf \<Rightarrow> evict_shared V kp sf
      | None \<Rightarrow> bindK (nonnull (fspt fe)) (\<lambda>pe. bindK (sptK pe) (\<lambda>spt.
          thenK (save_page V p fe kp spt)
          (thenK (clear_user V pe) (thenK (palloc_free_page kp) frame_lock_release))))))))))))"

text \<open>
  \<^verbatim>\<open>while (!kpage) { evict (); kpage = ...; }\<close>: every round takes a frame out of the frame
  table, and \<^verbatim>\<open>evict\<close> on an empty table follows a bad pointer, so the table bounds the rounds.
\<close>

primrec kpage_loop :: "'d vmlib \<Rightarrow> bool \<Rightarrow> nat \<Rightarrow> ('d vm, u32) K" where
  "kpage_loop V zero 0 = failK NO_RETURN"
| "kpage_loop V zero (Suc n) = bindK (palloc_get_data (hw V) True zero) (\<lambda>r. case r of
     Some kp \<Rightarrow> retK kp
   | None \<Rightarrow> thenK (evict V) (kpage_loop V zero n))"

definition get_kpage :: "'d vmlib \<Rightarrow> bool \<Rightarrow> ('d vm, u32) K" where
  "get_kpage V zero = bindK (getK (\<lambda>s. length (frame_table s))) (\<lambda>n. kpage_loop V zero (n + 2))"

text \<open>\<^verbatim>\<open>install_page\<close> of \<^verbatim>\<open>process.c\<close>.\<close>

definition install_page :: "'d vmlib \<Rightarrow> u32 \<Rightarrow> u32 \<Rightarrow> bool \<Rightarrow> ('d vm, bool) K" where
  "install_page V up kp writable = bindK cur (\<lambda>t. bindK (pagedir_get_page (hw V) (pagedir t) up) (\<lambda>r.
     if r = None then pagedir_set_page (hw V) (pagedir t) up kp writable else retK False))"

definition page_back :: "'d vmlib \<Rightarrow> addr \<Rightarrow> ('d vm, bool) K" where
  "page_back V pe = bindK (sptK pe) (\<lambda>spt. let p = sframe spt in
     bindK (get_kpage V False) (\<lambda>kp.
     thenK frame_lock_acquire
     (thenK (upd_frame p (\<lambda>fe. fe\<lparr>kpage := Some kp\<rparr>))
     (bindK (frameK p) (\<lambda>fe. thenK (sback V (findex fe) p)
     (bindK (install_page V (upage spt) kp (fwritable fe)) (\<lambda>success.
      thenK (whenK success (thenK (modK (\<lambda>s. s\<lparr>frame_table := frame_table s @ [p]\<rparr>)) (upd_frame p (\<lambda>fe. fe\<lparr>fload := True\<rparr>))))
     (thenK frame_lock_release (retK True)))))))))"

text \<open>Filling a page from its file: the bytes read, then zeros; false after a short read.\<close>

definition fill_page :: "'d vmlib \<Rightarrow> frame_elem \<Rightarrow> u32 \<Rightarrow> ('d vm, bool) K" where
  "fill_page V fe kp = thenK file_lock_ensure (bindK (nonnull (ffile fe)) (\<lambda>f.
     let n = page_read_bytes fe in
     bindK (inFs (file_read_at (lib V) f (sint n) (fofs fe))) (\<lambda>bs. bindK (pageK kp) (\<lambda>b.
     if length bs > PGSIZE then failK OUT_OF_BOUNDS
     else thenK (put_page kp (put_bytes 0 bs b))
      (if int (length bs) \<noteq> sint n then thenK (palloc_free_page kp) (thenK (inFs file_lock_release) (retK False))
       else bindK (pageK kp) (\<lambda>b. thenK (put_page kp (put_bytes (unat n) (replicate (PGSIZE - unat n) 0) b))
         (thenK (inFs file_lock_release) (retK True))))))))"

definition map_for_user :: "'d vmlib \<Rightarrow> u32 \<Rightarrow> addr \<Rightarrow> ('d vm, bool) K" where
  "map_for_user V kp pe = bindK (sptK pe) (\<lambda>pg. bindK (uthreadK (sthread pg)) (\<lambda>t.
     bindK (pagedir_get_page (hw V) (pagedir t) (upage pg)) (\<lambda>r.
     if r = None then pagedir_set_page (hw V) (pagedir t) (upage pg) kp False else retK False)))"

text \<open>The loop over the users of a shared frame; \<open>file_back\<close> runs it over a copied header too.\<close>

primrec map_users :: "'d vmlib \<Rightarrow> u32 \<Rightarrow> bool \<Rightarrow> addr list \<Rightarrow> ('d vm, bool) K" where
  "map_users V kp success [] = retK success"
| "map_users V kp success (q # qs) = bindK (map_for_user V kp q) (\<lambda>b. map_users V kp b qs)"

definition file_back :: "'d vmlib \<Rightarrow> addr \<Rightarrow> ('d vm, bool) K" where
  "file_back V pe = bindK (sptK pe) (\<lambda>spt. let p = sframe spt in
     bindK (frameK p) (\<lambda>fe.
     bindK (get_kpage V (page_read_bytes fe = 0)) (\<lambda>kp.
     thenK (upd_frame p (\<lambda>fe. fe\<lparr>kpage := Some kp\<rparr>))
     (thenK (assertK (\<not> is_user_vaddr (hw V) kp))
     (bindK (frameK p) (\<lambda>fe.
      bindK (if page_read_bytes fe > 0 then fill_page V fe kp else retK True) (\<lambda>filled.
      if \<not> filled then retK False
      else (case shared fe of
        Some sf \<Rightarrow> bindK (sharedK sf) (\<lambda>users. bindK (map_users V kp False users) (\<lambda>_. failK BAD_POINTER))
      | None \<Rightarrow> bindK (install_page V (upage spt) kp (fwritable fe)) (\<lambda>success.
          thenK (whenK success (thenK frame_lock_acquire
            (thenK (upd_frame p (\<lambda>fe. fe\<lparr>fload := True\<rparr>))
            (thenK (modK (\<lambda>s. s\<lparr>frame_table := frame_table s @ [p]\<rparr>)) frame_lock_release))))
          (retK success))))))))))"

text \<open>
  \<^verbatim>\<open>load_back\<close>: the \<^verbatim>\<open>switch\<close> has no case for \<^verbatim>\<open>SHARE\<close>, a type no frame is given; falling off
  the end of the function returns an arbitrary value, here the assertion failure.
\<close>

definition load_back :: "'d vmlib \<Rightarrow> addr option \<Rightarrow> ('d vm, bool) K" where
  "load_back V pe = (case pe of None \<Rightarrow> retK False
   | Some q \<Rightarrow> bindK (sptK q) (\<lambda>spt. bindK (frameK (sframe spt)) (\<lambda>fe. case ftype fe of
       FILE \<Rightarrow> file_back V q | MMAP \<Rightarrow> file_back V q | SWAP \<Rightarrow> page_back V q | SHARE \<Rightarrow> failK PANIC)))"

section \<open>Mapping pages: process.c\<close>

text \<open>
  \<^verbatim>\<open>install_file\<close>. When a frame matches, the new page is linked with
  \<^verbatim>\<open>list_push_back (&match->shared, ...)\<close>: the address of the pointer is taken for the list,
  and the members of the frame are overwritten.
\<close>

definition install_file :: "'d vmlib \<Rightarrow> u32 \<Rightarrow> addr option \<Rightarrow> page_type \<Rightarrow> off_t \<Rightarrow> u32 \<Rightarrow> bool \<Rightarrow> ('d vm, bool) K" where
  "install_file V up file type ofs prb writable = bindK (check_match V file ofs prb) (\<lambda>m.
     case (if type = FILE \<or> type = MMAP then m else None) of
       Some p \<Rightarrow> bindK (frameK p) (\<lambda>fe.
         thenK (if shared fe = None then
             bindK (vm_malloc V) (\<lambda>sf. thenK (modK (\<lambda>s. s\<lparr>shared_heap := (shared_heap s)(sf \<mapsto> [])\<rparr>))
               (thenK (upd_frame p (\<lambda>fe. fe\<lparr>shared := Some sf, fwritable := False\<rparr>))
               (bindK (nonnull (fspt fe)) (\<lambda>pe. bindK (sptK pe) (\<lambda>spt. bindK (uthreadK (sthread spt)) (\<lambda>t.
                bindK (nonnull (kpage fe)) (\<lambda>kp. pagedir_set_writable (hw V) (pagedir t) kp False)))))))
           else retK ())
         (bindK (spt_init V up p) (\<lambda>_. failK OUT_OF_BOUNDS)))
     | None \<Rightarrow> bindK (frame_table_insert V None file type ofs prb writable) (\<lambda>p.
         bindK (spt_init V up p) (\<lambda>pe. thenK (clear_user V pe) (retK True))))"

definition install_frame :: "'d vmlib \<Rightarrow> u32 \<Rightarrow> u32 option \<Rightarrow> bool \<Rightarrow> addr option \<Rightarrow> page_type \<Rightarrow> off_t \<Rightarrow> u32 \<Rightarrow> ('d vm, bool) K" where
  "install_frame V up kp writable file type ofs prb = thenK (assertK (pg_round_down (hw V) up = up))
     (if type = FILE \<or> type = MMAP then install_file V up file type ofs prb writable
      else bindK (frame_table_insert V kp file type ofs prb writable) (\<lambda>p.
        bindK (spt_init V up p) (\<lambda>_. bindK (nonnull kp) (\<lambda>k. install_page V up k writable))))"

end
