(* ===== verification/Threads.thy ===== *)
theory Threads
  imports Pintos_Prelude "HOL-Library.Multiset"
begin

text \<open>
  The scheduler of \<^verbatim>\<open>thread.c\<close> and the synchronisation primitives of \<^verbatim>\<open>synch.c\<close>:
  priority scheduling, priority donation, semaphores, locks and condition variables. A
  \<^verbatim>\<open>struct thread *\<close> or \<^verbatim>\<open>struct lock *\<close> is an address in a typed heap; the semaphore inside
  a lock has the lock's address. A routine that switches to another thread ends its step at
  the switch, with \<open>running\<close> the thread that runs next; \<open>Threads_Facts\<close> holds the lemmas.
\<close>

section \<open>State\<close>

datatype thread_status = THREAD_RUNNING | THREAD_READY | THREAD_SLEEPING | THREAD_BLOCKED | THREAD_DYING

definition PRI_MIN :: int where "PRI_MIN = 0"

definition PRI_DEFAULT :: int where "PRI_DEFAULT = 31"

definition PRI_MAX :: int where "PRI_MAX = 63"

definition TIME_SLICE :: nat where "TIME_SLICE = 4"

definition THREAD_MAGIC :: u32 where "THREAD_MAGIC = 0xcd6abf4b"

record thread =
  ttid :: int
  status :: thread_status
  tname :: string
  priority :: int
  original_priority :: int
  lock_list :: "addr list"
  wait_lock_list :: "addr list"
  user_process :: bool
  tmagic :: u32
  wake_time :: int

record semaphore =
  svalue :: nat
  waiters :: "addr list"

record lock =
  holder :: "addr option"
  lpriority :: int

text \<open>
  Besides the variables of the two files: the running thread (found from the stack pointer),
  the interrupt flag, whether an interrupt handler runs, whether it asked to yield on return
  (\<^verbatim>\<open>interrupt.c\<close>), and the clock that \<^verbatim>\<open>timer_ticks\<close> reads. A \<^verbatim>\<open>struct semaphore_elem\<close> is its
  semaphore, at the same address, and its priority.
\<close>

record sched =
  running :: addr
  threads :: "addr \<Rightarrow> thread option"
  ready_list :: "addr list"
  sleeping_list :: "addr list"
  all_list :: "addr list"
  idle_thread :: "addr option"
  initial_thread :: "addr option"
  semas :: "addr \<Rightarrow> semaphore option"
  locks :: "addr \<Rightarrow> lock option"
  conds :: "addr \<Rightarrow> addr list option"
  selems :: "addr \<Rightarrow> int option"
  thread_ticks :: nat
  idle_ticks :: int
  kernel_ticks :: int
  user_ticks :: int
  sleep_sema :: nat
  intr_on :: bool
  intr_context :: bool
  yield_on_return :: bool
  timer_ticks :: int

text \<open>
  \<^verbatim>\<open>lib/kernel/list.c\<close> is not part of the sources. Of it the code uses, beyond the
  representation of a list, sorting and insertion into a sorted list.
\<close>

record listlib =
  list_sort :: "(addr \<Rightarrow> addr \<Rightarrow> bool) \<Rightarrow> addr list \<Rightarrow> addr list"
  list_insert_ordered :: "(addr \<Rightarrow> addr \<Rightarrow> bool) \<Rightarrow> addr \<Rightarrow> addr list \<Rightarrow> addr list"

text \<open>
  \<^verbatim>\<open>list.h\<close>: sorting gives the same elements in an order in which no element is less than one
  before it; inserting into a list in such an order adds the element and keeps the order.
\<close>

definition in_order :: "(addr \<Rightarrow> addr \<Rightarrow> bool) \<Rightarrow> addr list \<Rightarrow> bool" where
  "in_order lt xs \<longleftrightarrow> sorted_wrt (\<lambda>x y. \<not> lt y x) xs"

definition strict_order :: "(addr \<Rightarrow> addr \<Rightarrow> bool) \<Rightarrow> bool" where
  "strict_order lt \<longleftrightarrow> (\<exists>f :: addr \<Rightarrow> int. \<forall>x y. lt x y \<longleftrightarrow> f x < f y)"

definition listlib_ok :: "listlib \<Rightarrow> bool" where
  "listlib_ok L \<longleftrightarrow> (\<forall>lt xs. strict_order lt \<longrightarrow>
       mset (list_sort L lt xs) = mset xs \<and> in_order lt (list_sort L lt xs)) \<and>
     (\<forall>lt x xs. strict_order lt \<longrightarrow> mset (list_insert_ordered L lt x xs) = add_mset x (mset xs) \<and>
       (in_order lt xs \<longrightarrow> in_order lt (list_insert_ordered L lt x xs)))"

section \<open>Heap cells\<close>

definition threadK :: "addr \<Rightarrow> (sched, thread) K" where
  "threadK t = derefK (\<lambda>s. threads s t)"

definition upd_thread :: "addr \<Rightarrow> (thread \<Rightarrow> thread) \<Rightarrow> (sched, unit) K" where
  "upd_thread t f = bindK (threadK t) (\<lambda>x. modK (\<lambda>s. s\<lparr>threads := (threads s)(t \<mapsto> f x)\<rparr>))"

definition semaK :: "addr \<Rightarrow> (sched, semaphore) K" where
  "semaK p = derefK (\<lambda>s. semas s p)"

definition put_sema :: "addr \<Rightarrow> semaphore \<Rightarrow> (sched, unit) K" where
  "put_sema p x = modK (\<lambda>s. s\<lparr>semas := (semas s)(p \<mapsto> x)\<rparr>)"

definition lockK :: "addr \<Rightarrow> (sched, lock) K" where
  "lockK l = derefK (\<lambda>s. locks s l)"

definition upd_lock :: "addr \<Rightarrow> (lock \<Rightarrow> lock) \<Rightarrow> (sched, unit) K" where
  "upd_lock l f = bindK (lockK l) (\<lambda>x. modK (\<lambda>s. s\<lparr>locks := (locks s)(l \<mapsto> f x)\<rparr>))"

section \<open>thread.c\<close>

definition pri :: "sched \<Rightarrow> addr \<Rightarrow> int" where
  "pri s t = (case threads s t of None \<Rightarrow> 0 | Some x \<Rightarrow> priority x)"

definition small :: "sched \<Rightarrow> addr \<Rightarrow> addr \<Rightarrow> bool" where
  "small s x y \<longleftrightarrow> (case threads s x of None \<Rightarrow> 0 | Some t \<Rightarrow> wake_time t) <
     (case threads s y of None \<Rightarrow> 0 | Some t \<Rightarrow> wake_time t)"

definition big :: "sched \<Rightarrow> addr \<Rightarrow> addr \<Rightarrow> bool" where
  "big s x y \<longleftrightarrow> pri s x > pri s y"

definition is_thread :: "addr \<Rightarrow> (sched, bool) K" where
  "is_thread t = bindK (threadK t) (\<lambda>x. retK (tmagic x = THREAD_MAGIC))"

definition assert_thread :: "addr \<Rightarrow> (sched, unit) K" where
  "assert_thread t = bindK (is_thread t) assertK"

definition thread_current :: "(sched, addr) K" where
  "thread_current = bindK (getK running) (\<lambda>t. thenK (assert_thread t)
     (bindK (threadK t) (\<lambda>x. thenK (assertK (status x = THREAD_RUNNING)) (retK t))))"

definition next_thread_to_run :: "(sched, addr option) K" where
  "next_thread_to_run = bindK (getK ready_list) (\<lambda>l. case l of [] \<Rightarrow> getK idle_thread
     | t # ts \<Rightarrow> thenK (modK (\<lambda>s. s\<lparr>ready_list := ts\<rparr>)) (retK (Some t)))"

text \<open>
  After the switch from \<open>prev\<close>: the new thread is marked running, a dying one is freed.
  (\<^verbatim>\<open>process_activate\<close> loads the page directory and is with the address spaces.)
\<close>

definition thread_schedule_tail :: "addr option \<Rightarrow> (sched, unit) K" where
  "thread_schedule_tail prev = bindK (getK running) (\<lambda>cur.
     bindK (getK intr_on) (\<lambda>on. thenK (assertK (\<not> on))
     (thenK (upd_thread cur (\<lambda>x. x\<lparr>status := THREAD_RUNNING\<rparr>))
     (thenK (modK (\<lambda>s. s\<lparr>thread_ticks := 0\<rparr>))
     (case prev of None \<Rightarrow> retK ()
      | Some p \<Rightarrow> bindK (threadK p) (\<lambda>x. bindK (getK initial_thread) (\<lambda>init.
          whenK (status x = THREAD_DYING \<and> init \<noteq> Some p)
            (thenK (assertK (p \<noteq> cur)) (modK (\<lambda>s. s\<lparr>threads := (threads s)(p := None)\<rparr>))))))))))"

definition wake_sleeper :: "listlib \<Rightarrow> (sched, unit) K" where
  "wake_sleeper L = bindK (getK sleeping_list) (\<lambda>l. case l of [] \<Rightarrow> retK ()
     | t # ts \<Rightarrow> bindK (threadK t) (\<lambda>x. bindK (getK timer_ticks) (\<lambda>now. whenK (now \<ge> wake_time x)
         (thenK (modK (\<lambda>s. s\<lparr>sleeping_list := ts,
            ready_list := list_insert_ordered L (big s) t (ready_list s)\<rparr>))
         (upd_thread t (\<lambda>x. x\<lparr>status := THREAD_READY\<rparr>))))))"

definition schedule :: "listlib \<Rightarrow> (sched, unit) K" where
  "schedule L = bindK (getK running) (\<lambda>cur. thenK (wake_sleeper L)
     (bindK next_thread_to_run (\<lambda>nx. bindK (getK intr_on) (\<lambda>on. thenK (assertK (\<not> on))
     (bindK (threadK cur) (\<lambda>x. thenK (assertK (status x \<noteq> THREAD_RUNNING))
     (case nx of None \<Rightarrow> failK PANIC
      | Some t \<Rightarrow> thenK (assert_thread t)
          (if cur \<noteq> t then thenK (modK (\<lambda>s. s\<lparr>running := t\<rparr>)) (thread_schedule_tail (Some cur))
           else thread_schedule_tail None))))))))"

definition thread_block :: "listlib \<Rightarrow> (sched, unit) K" where
  "thread_block L = bindK (getK intr_context) (\<lambda>ic. thenK (assertK (\<not> ic))
     (bindK (getK intr_on) (\<lambda>on. thenK (assertK (\<not> on))
     (bindK thread_current (\<lambda>t. thenK (upd_thread t (\<lambda>x. x\<lparr>status := THREAD_BLOCKED\<rparr>)) (schedule L))))))"

text \<open>\<^verbatim>\<open>old_level = intr_disable (); ... intr_set_level (old_level);\<close> around a body.\<close>

definition intr_off :: "(sched, 'a) K \<Rightarrow> (sched, 'a) K" where
  "intr_off m = bindK (getK intr_on) (\<lambda>old. thenK (modK (\<lambda>s. s\<lparr>intr_on := False\<rparr>))
     (bindK m (\<lambda>r. thenK (modK (\<lambda>s. s\<lparr>intr_on := old\<rparr>)) (retK r))))"

definition thread_unblock :: "listlib \<Rightarrow> addr \<Rightarrow> (sched, unit) K" where
  "thread_unblock L t = thenK (assert_thread t) (intr_off (bindK (threadK t) (\<lambda>x.
     thenK (assertK (status x = THREAD_BLOCKED))
     (thenK (modK (\<lambda>s. s\<lparr>ready_list := list_insert_ordered L (big s) t (ready_list s)\<rparr>))
     (upd_thread t (\<lambda>x. x\<lparr>status := THREAD_READY\<rparr>))))))"

definition thread_yield :: "listlib \<Rightarrow> (sched, unit) K" where
  "thread_yield L = bindK thread_current (\<lambda>cur. bindK (getK intr_context) (\<lambda>ic. thenK (assertK (\<not> ic))
     (intr_off (bindK (getK idle_thread) (\<lambda>idle.
       thenK (whenK (idle \<noteq> Some cur)
         (modK (\<lambda>s. s\<lparr>ready_list := list_insert_ordered L (big s) cur (ready_list s)\<rparr>)))
       (thenK (upd_thread cur (\<lambda>x. x\<lparr>status := THREAD_READY\<rparr>)) (schedule L)))))))"

definition if_yield :: "listlib \<Rightarrow> (sched, unit) K" where
  "if_yield L = thenK (modK (\<lambda>s. s\<lparr>ready_list := list_sort L (big s) (ready_list s)\<rparr>))
     (bindK (getK intr_context) (\<lambda>ic. bindK (getK ready_list) (\<lambda>l. case l of
        [] \<Rightarrow> retK ()
      | front # _ \<Rightarrow> bindK thread_current (\<lambda>cur. bindK (threadK cur) (\<lambda>c. bindK (threadK front) (\<lambda>f.
          if ic then
            (if priority c < priority f then modK (\<lambda>s. s\<lparr>yield_on_return := True\<rparr>)
             else thenK (modK (\<lambda>s. s\<lparr>thread_ticks := thread_ticks s + 1\<rparr>))
               (bindK (getK thread_ticks) (\<lambda>n. whenK (n \<ge> TIME_SLICE)
                 (modK (\<lambda>s. s\<lparr>yield_on_return := True\<rparr>)))))
          else whenK (priority c < priority f) (thread_yield L)))))))"

definition thread_set_priority :: "listlib \<Rightarrow> int \<Rightarrow> (sched, unit) K" where
  "thread_set_priority L new_priority = intr_off (bindK thread_current (\<lambda>cur. bindK (threadK cur) (\<lambda>c.
     thenK (if priority c > new_priority \<and> lock_list c \<noteq> [] then
         whenK (priority c = original_priority c) (upd_thread cur (\<lambda>x. x\<lparr>priority := new_priority\<rparr>))
       else upd_thread cur (\<lambda>x. x\<lparr>priority := new_priority\<rparr>))
     (thenK (upd_thread cur (\<lambda>x. x\<lparr>original_priority := new_priority\<rparr>)) (if_yield L)))))"

definition thread_get_priority :: "(sched, int) K" where
  "thread_get_priority = bindK thread_current (\<lambda>t. bindK (threadK t) (\<lambda>x. retK (priority x)))"

definition thread_tick :: "(sched, unit) K" where
  "thread_tick = bindK thread_current (\<lambda>t. bindK (threadK t) (\<lambda>x. bindK (getK idle_thread) (\<lambda>idle.
     thenK (modK (\<lambda>s. if idle = Some t then s\<lparr>idle_ticks := idle_ticks s + 1\<rparr>
       else if user_process x then s\<lparr>user_ticks := user_ticks s + 1\<rparr>
       else s\<lparr>kernel_ticks := kernel_ticks s + 1\<rparr>))
     (thenK (modK (\<lambda>s. s\<lparr>thread_ticks := thread_ticks s + 1\<rparr>))
     (bindK (getK thread_ticks) (\<lambda>n. whenK (n \<ge> TIME_SLICE) (modK (\<lambda>s. s\<lparr>yield_on_return := True\<rparr>))))))))"

definition init_thread :: "addr \<Rightarrow> string \<Rightarrow> int \<Rightarrow> (sched, unit) K" where
  "init_thread t name pr = thenK (assertK (PRI_MIN \<le> pr \<and> pr \<le> PRI_MAX))
     (modK (\<lambda>s. s\<lparr>threads := (threads s)(t \<mapsto> \<lparr>ttid = 0, status = THREAD_BLOCKED, tname = take 15 name,
        priority = pr, original_priority = pr, lock_list = [], wait_lock_list = [], user_process = False,
        tmagic = THREAD_MAGIC, wake_time = 0\<rparr>), all_list := all_list s @ [t]\<rparr>))"

fun exists_tid :: "(addr \<Rightarrow> thread option) \<Rightarrow> int \<Rightarrow> addr list \<Rightarrow> kerror + bool" where
  "exists_tid h tid [] = Inr False"
| "exists_tid h tid (t # ts) = (case h t of None \<Rightarrow> Inl BAD_POINTER
     | Some x \<Rightarrow> if ttid x = tid then Inr True else exists_tid h tid ts)"

definition thread_exist :: "int \<Rightarrow> (sched, bool) K" where
  "thread_exist tid = bindK (getK (\<lambda>s. exists_tid (threads s) tid (all_list s))) liftK"

definition thread_sleep :: "listlib \<Rightarrow> int \<Rightarrow> (sched, unit) K" where
  "thread_sleep L ticks = bindK thread_current (\<lambda>cur. bindK (getK sleep_sema) (\<lambda>v.
     if v = 0 then failK NO_RETURN
     else intr_off (bindK (getK idle_thread) (\<lambda>idle. whenK (idle \<noteq> Some cur)
       (bindK (getK timer_ticks) (\<lambda>now.
        thenK (upd_thread cur (\<lambda>x. x\<lparr>status := THREAD_SLEEPING, wake_time := now + ticks\<rparr>))
       (thenK (modK (\<lambda>s. s\<lparr>sleeping_list := list_insert_ordered L (small s) cur (sleeping_list s), sleep_sema := 1\<rparr>))
       (schedule L))))))))"

text \<open>
  \<^verbatim>\<open>thread_foreach\<close> for a function that leaves \<^verbatim>\<open>all_list\<close> as it is, the name of the running thread, and the
  functions of the other scheduler, which the code leaves open.
\<close>

definition thread_foreach :: "(addr \<Rightarrow> (sched, unit) K) \<Rightarrow> (sched, unit) K" where
  "thread_foreach func = bindK (getK intr_on) (\<lambda>on. thenK (assertK (\<not> on)) (bindK (getK all_list) (\<lambda>l. forK l func)))"

definition thread_name :: "(sched, string) K" where
  "thread_name = bindK thread_current (\<lambda>t. bindK (threadK t) (\<lambda>x. retK (tname x)))"

definition thread_set_nice :: "int \<Rightarrow> (sched, unit) K" where
  "thread_set_nice nice = retK ()"

definition thread_get_nice :: "(sched, int) K" where
  "thread_get_nice = retK 0"

definition thread_get_load_avg :: "(sched, int) K" where
  "thread_get_load_avg = retK 0"

definition thread_get_recent_cpu :: "(sched, int) K" where
  "thread_get_recent_cpu = retK 0"

section \<open>synch.c\<close>

text \<open>
  \<^verbatim>\<open>donate_lock\<close>: the depth of the recursion is the fuel; every level raises the priority of
  another thread, so the number of threads is enough (lemma \<open>donate_lock_run\<close> of \<open>Threads_Facts\<close>).
\<close>

primrec donate_lock :: "nat \<Rightarrow> addr \<Rightarrow> addr \<Rightarrow> (sched, unit) K" where
  "donate_lock 0 l cur = failK NO_RETURN"
| "donate_lock (Suc n) l cur = bindK (lockK l) (\<lambda>lk. case holder lk of None \<Rightarrow> retK ()
     | Some t \<Rightarrow> bindK (threadK cur) (\<lambda>c.
         thenK (whenK (lpriority lk < priority c) (upd_lock l (\<lambda>lk. lk\<lparr>lpriority := priority c\<rparr>)))
         (bindK (threadK t) (\<lambda>x. whenK (priority x < priority c)
           (thenK (upd_thread t (\<lambda>x. x\<lparr>priority := priority c\<rparr>))
           (forK (wait_lock_list x) (\<lambda>l'. donate_lock n l' t)))))))"

definition lock_big :: "sched \<Rightarrow> addr \<Rightarrow> addr \<Rightarrow> bool" where
  "lock_big s x y \<longleftrightarrow> (case locks s x of None \<Rightarrow> 0 | Some l \<Rightarrow> lpriority l) >
     (case locks s y of None \<Rightarrow> 0 | Some l \<Rightarrow> lpriority l)"

definition cond_big :: "sched \<Rightarrow> addr \<Rightarrow> addr \<Rightarrow> bool" where
  "cond_big s x y \<longleftrightarrow> (case selems s x of None \<Rightarrow> 0 | Some p \<Rightarrow> p) > (case selems s y of None \<Rightarrow> 0 | Some p \<Rightarrow> p)"

definition sema_init :: "addr \<Rightarrow> nat \<Rightarrow> (sched, unit) K" where
  "sema_init p v = put_sema p \<lparr>svalue = v, waiters = []\<rparr>"

text \<open>
  One test of the \<^verbatim>\<open>while\<close> loop of \<^verbatim>\<open>sema_down\<close>: true when the semaphore was decremented and
  the function returns, false when the thread was put to sleep and will test again.
\<close>

definition sema_down :: "listlib \<Rightarrow> addr \<Rightarrow> (sched, bool) K" where
  "sema_down L p = bindK (getK intr_context) (\<lambda>ic. thenK (assertK (\<not> ic)) (intr_off (bindK (semaK p) (\<lambda>x.
     if svalue x = 0 then
       bindK thread_current (\<lambda>cur.
       thenK (modK (\<lambda>s. s\<lparr>semas := (semas s)(p \<mapsto> x\<lparr>waiters := list_insert_ordered L (big s) cur (waiters x)\<rparr>)\<rparr>))
       (thenK (thread_block L) (retK False)))
     else thenK (put_sema p (x\<lparr>svalue := svalue x - 1\<rparr>)) (retK True)))))"

definition sema_try_down :: "addr \<Rightarrow> (sched, bool) K" where
  "sema_try_down p = intr_off (bindK (semaK p) (\<lambda>x.
     if svalue x > 0 then thenK (put_sema p (x\<lparr>svalue := svalue x - 1\<rparr>)) (retK True) else retK False))"

definition sema_up :: "listlib \<Rightarrow> addr \<Rightarrow> (sched, unit) K" where
  "sema_up L p = intr_off (bindK (semaK p) (\<lambda>x.
     thenK (if waiters x = [] then retK () else
       bindK (getK (\<lambda>s. list_sort L (big s) (waiters x))) (\<lambda>ws. case ws of [] \<Rightarrow> failK BAD_POINTER
       | w # ws \<Rightarrow> thenK (put_sema p (x\<lparr>waiters := ws\<rparr>)) (thread_unblock L w)))
     (bindK (semaK p) (\<lambda>x. thenK (put_sema p (x\<lparr>svalue := svalue x + 1\<rparr>)) (if_yield L)))))"

definition lock_init :: "addr \<Rightarrow> (sched, unit) K" where
  "lock_init l = thenK (modK (\<lambda>s. s\<lparr>locks := (locks s)(l \<mapsto>
     \<lparr>holder = None, lpriority = (case locks s l of None \<Rightarrow> 0 | Some x \<Rightarrow> lpriority x)\<rparr>)\<rparr>)) (sema_init l 1)"

definition lock_held_by_current_thread :: "addr \<Rightarrow> (sched, bool) K" where
  "lock_held_by_current_thread l = bindK (lockK l) (\<lambda>x. bindK thread_current (\<lambda>t. retK (holder x = Some t)))"

text \<open>
  \<^verbatim>\<open>lock_acquire\<close> up to its first test of the semaphore, and from a successful test on: true
  when the lock was acquired. A thread that slept goes on with \<open>lock_acquire_retry\<close>.
\<close>

definition lock_acquire_retry :: "listlib \<Rightarrow> addr \<Rightarrow> (sched, bool) K" where
  "lock_acquire_retry L l = bindK (sema_down L l) (\<lambda>got. if \<not> got then retK False else
     bindK thread_current (\<lambda>cur.
     thenK (upd_lock l (\<lambda>x. x\<lparr>holder := Some cur\<rparr>))
     (bindK (threadK cur) (\<lambda>c. bindK (liftK (list_remove l (wait_lock_list c))) (\<lambda>w.
      thenK (upd_thread cur (\<lambda>x. x\<lparr>wait_lock_list := w\<rparr>))
     (thenK (upd_lock l (\<lambda>x. x\<lparr>lpriority := original_priority c\<rparr>))
     (bindK (getK (\<lambda>s. list_insert_ordered L (lock_big s) l (lock_list c))) (\<lambda>ls.
      thenK (upd_thread cur (\<lambda>x. x\<lparr>lock_list := ls\<rparr>)) (retK True)))))))))"

definition lock_acquire :: "listlib \<Rightarrow> addr \<Rightarrow> (sched, bool) K" where
  "lock_acquire L l = bindK thread_current (\<lambda>cur. bindK (getK intr_context) (\<lambda>ic. thenK (assertK (\<not> ic))
     (bindK (lock_held_by_current_thread l) (\<lambda>held. thenK (assertK (\<not> held))
     (thenK (intr_off (thenK (upd_thread cur (\<lambda>x. x\<lparr>wait_lock_list := wait_lock_list x @ [l]\<rparr>))
        (bindK (getK (\<lambda>s. Suc (length (all_list s)))) (\<lambda>n. donate_lock n l cur))))
     (lock_acquire_retry L l))))))"

definition lock_try_acquire :: "addr \<Rightarrow> (sched, bool) K" where
  "lock_try_acquire l = bindK (lock_held_by_current_thread l) (\<lambda>held. thenK (assertK (\<not> held))
     (bindK thread_current (\<lambda>cur. bindK (threadK cur) (\<lambda>c. bindK (lockK l) (\<lambda>x.
      thenK (case holder x of None \<Rightarrow> retK ()
        | Some h \<Rightarrow> bindK (threadK h) (\<lambda>y. whenK (priority y < priority c)
            (upd_thread h (\<lambda>y. y\<lparr>priority := priority c\<rparr>))))
     (bindK (sema_try_down l) (\<lambda>success.
      thenK (whenK success (upd_lock l (\<lambda>x. x\<lparr>holder := Some cur\<rparr>))) (retK success))))))))"

definition lock_release :: "listlib \<Rightarrow> addr \<Rightarrow> (sched, unit) K" where
  "lock_release L l = bindK (lock_held_by_current_thread l) (\<lambda>held. thenK (assertK held)
     (bindK (getK running) (\<lambda>t. bindK (threadK t) (\<lambda>x.
      bindK (liftK (list_remove l (lock_list x))) (\<lambda>ls.
      bindK (getK (\<lambda>s. list_sort L (lock_big s) ls)) (\<lambda>ls.
      thenK (upd_thread t (\<lambda>x. x\<lparr>lock_list := ls\<rparr>))
     (thenK (case ls of [] \<Rightarrow> upd_thread t (\<lambda>x. x\<lparr>priority := original_priority x\<rparr>)
        | f # _ \<Rightarrow> bindK (lockK f) (\<lambda>y. upd_thread t (\<lambda>x. x\<lparr>priority :=
            if original_priority x \<ge> lpriority y then original_priority x else lpriority y\<rparr>)))
     (thenK (upd_lock l (\<lambda>y. y\<lparr>holder := None\<rparr>)) (sema_up L l)))))))))"

definition cond_init :: "addr \<Rightarrow> (sched, unit) K" where
  "cond_init c = modK (\<lambda>s. s\<lparr>conds := (conds s)(c \<mapsto> [])\<rparr>)"

definition condK :: "addr \<Rightarrow> (sched, addr list) K" where
  "condK c = derefK (\<lambda>s. conds s c)"

text \<open>
  \<^verbatim>\<open>cond_wait\<close> with \<open>w\<close>, its \<^verbatim>\<open>struct semaphore_elem\<close> on the stack: up to the release of the
  lock, after which another thread may run, and the rest, which the thread repeats until the
  result is true: waiting for the semaphore, then for the lock.
\<close>

definition cond_wait_begin :: "listlib \<Rightarrow> addr \<Rightarrow> addr \<Rightarrow> addr \<Rightarrow> (sched, unit) K" where
  "cond_wait_begin L c l w = bindK (getK intr_context) (\<lambda>ic. thenK (assertK (\<not> ic))
     (bindK (lock_held_by_current_thread l) (\<lambda>held. thenK (assertK held)
     (thenK (sema_init w 0)
     (bindK thread_current (\<lambda>t. bindK (threadK t) (\<lambda>x.
      thenK (modK (\<lambda>s. s\<lparr>selems := (selems s)(w \<mapsto> priority x)\<rparr>))
     (bindK (condK c) (\<lambda>ws.
      thenK (modK (\<lambda>s. s\<lparr>conds := (conds s)(c \<mapsto> list_insert_ordered L (cond_big s) w ws)\<rparr>))
     (lock_release L l))))))))))"

definition cond_wait_end :: "listlib \<Rightarrow> addr \<Rightarrow> addr \<Rightarrow> (sched, bool) K" where
  "cond_wait_end L l w = bindK (sema_down L w) (\<lambda>up. if up then lock_acquire L l else retK False)"

definition cond_signal :: "listlib \<Rightarrow> addr \<Rightarrow> addr \<Rightarrow> (sched, unit) K" where
  "cond_signal L c l = bindK (getK intr_context) (\<lambda>ic. thenK (assertK (\<not> ic))
     (bindK (lock_held_by_current_thread l) (\<lambda>held. thenK (assertK held)
     (bindK (condK c) (\<lambda>ws. if ws = [] then retK () else
       bindK (getK (\<lambda>s. list_sort L (cond_big s) ws)) (\<lambda>ws. case ws of [] \<Rightarrow> failK BAD_POINTER
       | w # ws \<Rightarrow> thenK (modK (\<lambda>s. s\<lparr>conds := (conds s)(c \<mapsto> ws)\<rparr>)) (sema_up L w)))))))"

text \<open>One round of the loop of \<^verbatim>\<open>cond_broadcast\<close>: true when no waiter is left.\<close>

definition cond_broadcast_round :: "listlib \<Rightarrow> addr \<Rightarrow> addr \<Rightarrow> (sched, bool) K" where
  "cond_broadcast_round L c l = bindK (condK c) (\<lambda>ws. if ws = [] then retK True
     else thenK (cond_signal L c l) (retK False))"

text \<open>The end of \<^verbatim>\<open>thread_exit\<close>, after \<^verbatim>\<open>process_exit\<close> and the release of the locks still held.\<close>

definition thread_exit_final :: "listlib \<Rightarrow> (sched, unit) K" where
  "thread_exit_final L = thenK (modK (\<lambda>s. s\<lparr>intr_on := False\<rparr>))
     (bindK thread_current (\<lambda>t. bindK (getK (\<lambda>s. list_remove t (all_list s))) (\<lambda>r. bindK (liftK r) (\<lambda>al.
      thenK (modK (\<lambda>s. s\<lparr>all_list := al\<rparr>))
     (thenK (upd_thread t (\<lambda>x. x\<lparr>status := THREAD_DYING\<rparr>)) (schedule L))))))"

end
