(* ===== verification/User_State.thy ===== *)
theory User_State
  imports Paging Directory Threads
begin

text \<open>
  The state of user processes and the descriptors and mappings they own. It joins memory and
  files (\<open>vm\<close>), the scheduler (\<open>sched\<close>) and the objects of \<^verbatim>\<open>process.c\<close> and \<^verbatim>\<open>syscall.c\<close>: child
  records, descriptor elements and mapping elements. A thread is the address of its
  \<^verbatim>\<open>struct thread\<close> in all of them. The operations here are those of \<^verbatim>\<open>process.c\<close> on child records,
  of \<^verbatim>\<open>syscall.c\<close> on descriptors and on mapped files, and the kernel's access to user memory.
\<close>

section \<open>State\<close>

text \<open>
  \<^verbatim>\<open>struct child_process_elem\<close>; the barriers are the values of their semaphores. \<^verbatim>\<open>malloc\<close> leaves
  \<^verbatim>\<open>status\<close> undefined: zero here, and read only after it is set.
\<close>

record child_process_elem =
  pid :: int
  waited :: bool
  exited :: bool
  loaded :: bool
  cstatus :: int
  file_list :: "addr list"
  load_barrier :: nat
  wait_barrier :: nat
  next_fd :: int

record file_elem =
  fefile :: addr
  fd :: int

record mmap_elem =
  mapid :: int
  mfile :: addr
  mwritable :: bool
  mspt :: "addr option"

datatype thread_func = IDLE | CACHE_WRITEBACK | START_PROCESS | SEMA_TEST

record 'd usr =
  sys :: "'d vm"
  sch :: sched
  children :: "addr \<Rightarrow> child_process_elem option"
  fd_heap :: "addr \<Rightarrow> file_elem option"
  mmap_heap :: "addr \<Rightarrow> mmap_elem option"
  kernel_frames :: "addr \<Rightarrow> (thread_func \<times> u32) option"
  usr_brk :: addr
  next_tid :: int
  tid_lock :: "tid option"
  console :: "byte list"
  keys :: "byte list"
  powered_off :: bool
  page_fault_cnt :: int

text \<open>
  Outside the sources: the numbers of \<^verbatim>\<open>syscall-nr.h\<close>, the flag of \<^verbatim>\<open>exception.h\<close> and the selectors
  of \<^verbatim>\<open>gdt.h\<close>. \<open>third_arg\<close> is what \<^verbatim>\<open>filesys_create\<close> finds as its third argument when \<^verbatim>\<open>create\<close> calls
  it with two.
\<close>

datatype syscall_nr = SYS_HALT | SYS_EXIT | SYS_EXEC | SYS_WAIT | SYS_CREATE | SYS_REMOVE | SYS_OPEN
  | SYS_FILESIZE | SYS_READ | SYS_WRITE | SYS_SEEK | SYS_TELL | SYS_CLOSE | SYS_MMAP | SYS_MUNMAP

record 'd ulib =
  vml :: "'d vmlib"
  lists :: listlib
  syscall_no :: "int \<Rightarrow> syscall_nr option"
  PF_P :: u32
  SEL_UCSEG :: u32
  SEL_KCSEG :: u32
  third_arg :: bool

definition inVm :: "('d vm, 'a) K \<Rightarrow> ('d usr, 'a) K" where
  "inVm m = (\<lambda>s. case m (sys s) of Inl e \<Rightarrow> Inl e | Inr (a, x) \<Rightarrow> Inr (a, s\<lparr>sys := x\<rparr>))"

abbreviation onFs :: "('d fs, 'a) K \<Rightarrow> ('d usr, 'a) K" where
  "onFs m \<equiv> inVm (inFs m)"

definition childK :: "addr \<Rightarrow> ('d usr, child_process_elem) K" where
  "childK p = derefK (\<lambda>s. children s p)"

definition upd_child :: "addr \<Rightarrow> (child_process_elem \<Rightarrow> child_process_elem) \<Rightarrow> ('d usr, unit) K" where
  "upd_child p f = bindK (childK p) (\<lambda>c. modK (\<lambda>s. s\<lparr>children := (children s)(p \<mapsto> f c)\<rparr>))"

definition fdK :: "addr \<Rightarrow> ('d usr, file_elem) K" where
  "fdK p = derefK (\<lambda>s. fd_heap s p)"

definition mmapK :: "addr \<Rightarrow> ('d usr, mmap_elem) K" where
  "mmapK p = derefK (\<lambda>s. mmap_heap s p)"

definition usr_malloc :: "'d ulib \<Rightarrow> ('d usr, addr) K" where
  "usr_malloc U = bindK (getK usr_brk) (\<lambda>p. if obj_ok (vml U) p
     then thenK (modK (\<lambda>s. s\<lparr>usr_brk := p + 1\<rparr>)) (retK p) else failK BAD_POINTER)"

text \<open>\<^verbatim>\<open>thread_current()->process\<close>.\<close>

definition my_process :: "('d usr, addr) K" where
  "my_process = bindK (inVm cur) (\<lambda>t. nonnull (process t))"

section \<open>User memory\<close>

text \<open>
  The kernel reads and writes user memory at user addresses, through the page directory of the
  running thread. An access to a page that is not mapped faults in the kernel; the model stops
  there, and a write needs a page that is mapped writable. The accessed and dirty bits that the processor sets are not updated.
\<close>

definition user_kaddr :: "'d vmlib \<Rightarrow> u32 \<Rightarrow> ('d vm, u32) K" where
  "user_kaddr V a = bindK cur (\<lambda>t. bindK (pagedir_get_page (hw V) (pagedir t) a) nonnull)"

definition get_user :: "'d vmlib \<Rightarrow> u32 \<Rightarrow> ('d vm, byte) K" where
  "get_user V a = bindK (user_kaddr V a) (\<lambda>k. bindK (pageK (pg_round_down (hw V) k)) (\<lambda>b.
     let i = unat (pg_ofs (hw V) k) in if i < length b then retK (b ! i) else failK OUT_OF_BOUNDS))"

definition put_user :: "'d vmlib \<Rightarrow> u32 \<Rightarrow> byte \<Rightarrow> ('d vm, unit) K" where
  "put_user V a x = bindK (user_kaddr V a) (\<lambda>k. bindK cur (\<lambda>t.
     bindK (test_flag (hw V) (PTE_W (hw V)) (pagedir t) a) (\<lambda>w. if \<not> w then failK BAD_POINTER else
     bindK (pageK (pg_round_down (hw V) k)) (\<lambda>b. let i = unat (pg_ofs (hw V) k) in
     if i < length b then put_page (pg_round_down (hw V) k) (b[i := x]) else failK OUT_OF_BOUNDS))))"

primrec user_read :: "'d vmlib \<Rightarrow> u32 \<Rightarrow> nat \<Rightarrow> ('d vm, byte list) K" where
  "user_read V a 0 = retK []"
| "user_read V a (Suc n) = bindK (get_user V a) (\<lambda>x. bindK (user_read V (a + 1) n) (\<lambda>xs. retK (x # xs)))"

primrec user_write :: "'d vmlib \<Rightarrow> u32 \<Rightarrow> byte list \<Rightarrow> ('d vm, unit) K" where
  "user_write V a [] = retK ()"
| "user_write V a (x # xs) = thenK (put_user V a x) (user_write V (a + 1) xs)"

lemma user_string_measure:
  fixes a :: u32
  assumes "a \<noteq> - 1"
  shows "2 ^ 32 - unat (a + 1) < 2 ^ 32 - unat a"
proof -
  have "1 + a \<noteq> 0" using assms by (simp add: eq_neg_iff_add_eq_0 add.commute)
  from unatSuc[OF this] have u: "unat (a + 1) = Suc (unat a)" unfolding add.commute[of a] .
  have "unat (a + 1) < 2 ^ 32" using unsigned_less[of "a + 1", where ?'a = nat] by simp
  then show ?thesis unfolding u by (rule diff_less_mono2[OF lessI Suc_lessD])
qed

text \<open>The string at a user address: the bytes up to the zero.\<close>

function user_string :: "'d vmlib \<Rightarrow> u32 \<Rightarrow> ('d vm, cstr) K" where
  "user_string V a = bindK (get_user V a) (\<lambda>x. if x = 0 then retK []
     else if a = - 1 then failK OUT_OF_BOUNDS
     else bindK (user_string V (a + 1)) (\<lambda>xs. retK (x # xs)))"
  by pat_completeness auto
termination
  by (relation "measure (\<lambda>(V, a). 2 ^ 32 - unat a)")
    (rule wf_measure, unfold in_measure prod.case, erule user_string_measure)

declare user_string.simps [simp del]

section \<open>Child records: process.c\<close>

definition child_init :: "child_process_elem \<Rightarrow> child_process_elem" where
  "child_init c = c\<lparr>waited := False, exited := False, next_fd := 2, file_list := []\<rparr>"

definition create_child :: "'d ulib \<Rightarrow> int \<Rightarrow> ('d usr, addr) K" where
  "create_child U p = bindK (usr_malloc U) (\<lambda>child.
     let c = child_init \<lparr>pid = p, waited = False, exited = False, loaded = False, cstatus = 0, file_list = [],
       load_barrier = 0, wait_barrier = 0, next_fd = 0\<rparr> in
     thenK (modK (\<lambda>s. s\<lparr>children := (children s)(child \<mapsto> c)\<rparr>))
     (thenK (inVm (upd_cur (\<lambda>t. t\<lparr>child_process_list := child_process_list t @ [child]\<rparr>))) (retK child)))"

primrec child_with :: "(addr \<Rightarrow> child_process_elem option) \<Rightarrow> int \<Rightarrow> addr list \<Rightarrow> kerror + addr option" where
  "child_with h p [] = Inr None"
| "child_with h p (c # cs) = (case h c of None \<Rightarrow> Inl BAD_POINTER
     | Some x \<Rightarrow> if pid x = p then Inr (Some c) else child_with h p cs)"

definition get_child :: "int \<Rightarrow> ('d usr, addr option) K" where
  "get_child p = bindK (inVm cur) (\<lambda>t. bindK (getK (\<lambda>s. child_with (children s) p (child_process_list t))) liftK)"

definition remove_child :: "addr \<Rightarrow> ('d usr, unit) K" where
  "remove_child c = bindK (inVm cur) (\<lambda>t. bindK (liftK (list_remove c (child_process_list t))) (\<lambda>l.
     thenK (inVm (upd_cur (\<lambda>t. t\<lparr>child_process_list := l\<rparr>))) (modK (\<lambda>s. s\<lparr>children := (children s)(c := None)\<rparr>))))"

definition wait_return :: "addr \<Rightarrow> ('d usr, unit) K" where
  "wait_return c = bindK (childK c) (\<lambda>x. bindK (liftK (down_sema (wait_barrier x))) (\<lambda>v.
     upd_child c (\<lambda>x. x\<lparr>wait_barrier := v\<rparr>)))"

text \<open>
  \<^verbatim>\<open>process_wait\<close> up to the point where it may sleep, and from there on; a result in the first
  part is returned at once.
\<close>

definition process_wait_begin :: "int \<Rightarrow> ('d usr, addr option) K" where
  "process_wait_begin child_tid = bindK (get_child child_tid) (\<lambda>child. case child of None \<Rightarrow> retK None
   | Some c \<Rightarrow> bindK (childK c) (\<lambda>x. if waited x then retK None
       else thenK (upd_child c (\<lambda>x. x\<lparr>waited := True\<rparr>)) (retK (Some c))))"

definition process_wait_end :: "addr \<Rightarrow> ('d usr, int) K" where
  "process_wait_end c = thenK (wait_return c) (bindK (childK c) (\<lambda>x.
     thenK (whenK (\<not> exited x) (upd_child c (\<lambda>x. x\<lparr>cstatus := - 1\<rparr>)))
     (bindK (childK c) (\<lambda>x. thenK (remove_child c) (retK (cstatus x))))))"

definition process_wait :: "int \<Rightarrow> ('d usr, int) K" where
  "process_wait child_tid = bindK (process_wait_begin child_tid) (\<lambda>r. case r of
     None \<Rightarrow> retK (- 1) | Some c \<Rightarrow> process_wait_end c)"

section \<open>Descriptors: syscall.c\<close>

text \<open>
  \<^verbatim>\<open>create\<close> also ends the process when the name is a null pointer; the handler has refused such a
  pointer before the call.
\<close>

definition create_call :: "'d ulib \<Rightarrow> cstr \<Rightarrow> u32 \<Rightarrow> ('d usr, bool) K" where
  "create_call U name initial_size = thenK (onFs file_lock_acquire)
     (bindK (onFs (filesys_create (lib (vml U)) name (sint initial_size) (third_arg U))) (\<lambda>success.
      thenK (onFs file_lock_release) (retK success)))"

definition remove_call :: "'d ulib \<Rightarrow> cstr \<Rightarrow> ('d usr, bool) K" where
  "remove_call U name = onFs (filesys_remove (lib (vml U)) name)"

definition open_call :: "'d ulib \<Rightarrow> cstr \<Rightarrow> ('d usr, int) K" where
  "open_call U name = thenK (onFs file_lock_acquire)
     (bindK (onFs (filesys_open (lib (vml U)) name)) (\<lambda>r. case r of
        None \<Rightarrow> thenK (onFs file_lock_release) (retK (- 1))
      | Some f \<Rightarrow> bindK (usr_malloc U) (\<lambda>fe. bindK my_process (\<lambda>p. bindK (childK p) (\<lambda>c.
          thenK (upd_child p (\<lambda>c. c\<lparr>file_list := file_list c @ [fe], next_fd := next_fd c + 1\<rparr>))
          (thenK (modK (\<lambda>s. s\<lparr>fd_heap := (fd_heap s)(fe \<mapsto> \<lparr>fefile = f, fd = next_fd c\<rparr>)\<rparr>))
          (thenK (onFs file_lock_release) (retK (next_fd c)))))))))"

text \<open>The first element of a descriptor list with the given number.\<close>

primrec fd_with :: "(addr \<Rightarrow> file_elem option) \<Rightarrow> int \<Rightarrow> addr list \<Rightarrow> kerror + (addr \<times> file_elem) option" where
  "fd_with h n [] = Inr None"
| "fd_with h n (p # ps) = (case h p of None \<Rightarrow> Inl BAD_POINTER
     | Some fe \<Rightarrow> if fd fe = n then Inr (Some (p, fe)) else fd_with h n ps)"

definition find_file :: "addr \<Rightarrow> int \<Rightarrow> ('d usr, addr option) K" where
  "find_file p n = bindK (childK p) (\<lambda>c. bindK (getK (\<lambda>s. fd_with (fd_heap s) n (file_list c))) (\<lambda>r.
     bindK (liftK r) (\<lambda>r. retK (map_option (\<lambda>(p, fe). fefile fe) r))))"

definition my_file :: "int \<Rightarrow> ('d usr, addr option) K" where
  "my_file n = bindK my_process (\<lambda>p. find_file p n)"

definition filesize :: "int \<Rightarrow> ('d usr, int) K" where
  "filesize n = bindK (my_file n) (\<lambda>f. if f = None then retK (- 1) else onFs (file_length f))"

text \<open>
  \<^verbatim>\<open>read\<close> from the keyboard takes the keys and stores none: the loop assigns the key to the
  pointer. Without a key \<^verbatim>\<open>input_getc\<close> sleeps.
\<close>

primrec getc_loop :: "nat \<Rightarrow> ('d usr, unit) K" where
  "getc_loop 0 = retK ()"
| "getc_loop (Suc n) = bindK (getK keys) (\<lambda>ks. case ks of [] \<Rightarrow> failK BLOCKED
     | k # ks \<Rightarrow> thenK (modK (\<lambda>s. s\<lparr>keys := ks\<rparr>)) (getc_loop n))"

definition read_call :: "'d ulib \<Rightarrow> int \<Rightarrow> u32 \<Rightarrow> u32 \<Rightarrow> ('d usr, int) K" where
  "read_call U n buffer len = (if n = 0 then thenK (getc_loop (unat len)) (retK (sint len))
     else thenK (onFs file_lock_acquire) (bindK (my_file n) (\<lambda>f. case f of
        None \<Rightarrow> thenK (onFs file_lock_release) (retK (- 1))
      | Some f \<Rightarrow> bindK (onFs (file_read (lib (vml U)) f (sint len))) (\<lambda>bs.
          thenK (inVm (user_write (vml U) buffer bs))
          (thenK (onFs file_lock_release) (retK (int (length bs))))))))"

definition write_call :: "'d ulib \<Rightarrow> int \<Rightarrow> u32 \<Rightarrow> u32 \<Rightarrow> ('d usr, int) K" where
  "write_call U n buffer len = (if n = 1 then bindK (inVm (user_read (vml U) buffer (unat len))) (\<lambda>bs.
       thenK (modK (\<lambda>s. s\<lparr>console := console s @ bs\<rparr>)) (retK (sint len)))
     else thenK (onFs file_lock_acquire) (bindK (my_file n) (\<lambda>f. case f of
        None \<Rightarrow> thenK (onFs file_lock_release) (retK (- 1))
      | Some f \<Rightarrow> bindK (inVm (user_read (vml U) buffer (nat (sint len)))) (\<lambda>bs.
          bindK (onFs (file_write (lib (vml U)) f bs (sint len))) (\<lambda>ret.
          thenK (onFs file_lock_release) (retK ret))))))"

definition seek :: "int \<Rightarrow> u32 \<Rightarrow> ('d usr, unit) K" where
  "seek n position = thenK (onFs file_lock_acquire) (bindK (my_file n) (\<lambda>f.
     if f = None then onFs file_lock_release
     else thenK (onFs (file_seek f (sint position))) (onFs file_lock_release)))"

definition tell :: "int \<Rightarrow> ('d usr, u32) K" where
  "tell n = bindK (my_file n) (\<lambda>f. if f = None then retK (- 1)
     else bindK (onFs (file_tell f)) (\<lambda>x. retK (word_of_int x)))"

definition close_call :: "'d ulib \<Rightarrow> int \<Rightarrow> ('d usr, unit) K" where
  "close_call U n = bindK my_process (\<lambda>p. bindK (childK p) (\<lambda>c.
     bindK (getK (\<lambda>s. fd_with (fd_heap s) n (file_list c))) (\<lambda>r. bindK (liftK r) (\<lambda>r. case r of
       None \<Rightarrow> retK ()
     | Some (q, fe) \<Rightarrow> thenK (onFs file_lock_acquire) (thenK (onFs (file_close (lib (vml U)) (Some (fefile fe))))
         (thenK (upd_child p (\<lambda>c. c\<lparr>file_list := remove1 q (file_list c)\<rparr>))
         (thenK (modK (\<lambda>s. s\<lparr>fd_heap := (fd_heap s)(q := None)\<rparr>)) (onFs file_lock_release))))))))"

definition close_front :: "'d ulib \<Rightarrow> addr \<Rightarrow> ('d usr, unit) K" where
  "close_front U q = bindK my_process (\<lambda>p. thenK (upd_child p (\<lambda>c. c\<lparr>file_list := tl (file_list c)\<rparr>))
     (bindK (fdK q) (\<lambda>fe. thenK (onFs (file_close (lib (vml U)) (Some (fefile fe))))
     (modK (\<lambda>s. s\<lparr>fd_heap := (fd_heap s)(q := None)\<rparr>)))))"

definition close_all :: "'d ulib \<Rightarrow> ('d usr, unit) K" where
  "close_all U = bindK my_process (\<lambda>p. bindK (childK p) (\<lambda>c. forK (file_list c) (close_front U)))"

section \<open>Mapped files: syscall.c\<close>

definition CODE_BASE :: u32 where
  "CODE_BASE = 0x08048000"

definition check_mmap_addr :: "'d vmlib \<Rightarrow> u32 \<Rightarrow> ('d vm, bool) K" where
  "check_mmap_addr V up = (if up \<ge> PHYS_BASE (hw V) \<or> up < CODE_BASE \<or> pg_round_down (hw V) up \<noteq> up then retK False
     else bindK (find_spt up) (\<lambda>r. retK (r = None)))"

text \<open>The list \<^verbatim>\<open>mmap_file_list\<close> is a member of \<^verbatim>\<open>struct thread\<close> that \<^verbatim>\<open>thread.h\<close> does not declare.\<close>

primrec mapped_with :: "addr \<Rightarrow> addr list \<Rightarrow> ('d usr, addr option) K" where
  "mapped_with f [] = retK None"
| "mapped_with f (p # ps) = bindK (fdK p) (\<lambda>fe. bindK (onFs (fileK (fefile fe))) (\<lambda>x. bindK (onFs (fileK f)) (\<lambda>y.
     if finode x = finode y then retK (Some p) else mapped_with f ps)))"

definition find_mapped_file :: "addr \<Rightarrow> ('d usr, addr option) K" where
  "find_mapped_file f = bindK (inVm cur) (\<lambda>t. mapped_with f (mmap_file_list t))"

text \<open>Giving back one mapped page: a dirty page goes to its file first.\<close>

definition unmap_page :: "'d vmlib \<Rightarrow> addr \<Rightarrow> ('d vm, unit) K" where
  "unmap_page V pe = bindK (sptK pe) (\<lambda>spt. bindK (frameK (sframe spt)) (\<lambda>fe. bindK cur (\<lambda>t.
     thenK (whenK (fload fe) (thenK
       (bindK (pagedir_is_dirty (hw V) (pagedir t) (upage spt)) (\<lambda>dirty. whenK dirty
         (bindK (nonnull (ffile fe)) (\<lambda>f. bindK (nonnull (kpage fe)) (\<lambda>kp. bindK (pageK kp) (\<lambda>b.
          bindK (inFs (file_write_at (lib V) f b (sint (page_read_bytes fe)) (fofs fe))) (\<lambda>_. retK ())))))))
       (pagedir_clear_page (hw V) (pagedir t) (upage spt))))
     (thenK (spt_free V pe) (frame_free V (sframe spt))))))"

definition unlink_mapped :: "addr \<Rightarrow> ('d usr, unit) K" where
  "unlink_mapped q = bindK (inVm cur) (\<lambda>t. bindK (liftK (list_remove q (mmap_file_list t))) (\<lambda>l.
     thenK (inVm (upd_cur (\<lambda>t. t\<lparr>mmap_file_list := l\<rparr>))) (modK (\<lambda>s. s\<lparr>fd_heap := (fd_heap s)(q := None)\<rparr>))))"

definition free_mmap :: "addr \<Rightarrow> ('d usr, unit) K" where
  "free_mmap p = modK (\<lambda>s. s\<lparr>mmap_heap := (mmap_heap s)(p := None)\<rparr>)"

definition munmap_elem :: "'d ulib \<Rightarrow> int \<Rightarrow> addr \<Rightarrow> ('d usr, unit) K" where
  "munmap_elem U m p = bindK (mmapK p) (\<lambda>mm. whenK (mapid mm = m)
     (bindK (nonnull (mspt mm)) (\<lambda>pe. thenK (inVm (unmap_page (vml U) pe))
     (bindK (inVm cur) (\<lambda>t. bindK (liftK (list_remove p (mmap_list t))) (\<lambda>l.
      thenK (inVm (upd_cur (\<lambda>t. t\<lparr>mmap_list := l\<rparr>)))
     (bindK (find_mapped_file (mfile mm)) (\<lambda>fe.
      thenK (case fe of None \<Rightarrow> retK ()
        | Some q \<Rightarrow> bindK (fdK q) (\<lambda>x. thenK (onFs (file_close (lib (vml U)) (Some (fefile x)))) (unlink_mapped q)))
      (free_mmap p)))))))))"

definition munmap :: "'d ulib \<Rightarrow> int \<Rightarrow> ('d usr, unit) K" where
  "munmap U m = bindK (inVm cur) (\<lambda>t. forK (mmap_list t) (munmap_elem U m))"

definition munmap_front :: "'d ulib \<Rightarrow> addr \<Rightarrow> ('d usr, unit) K" where
  "munmap_front U p = thenK (inVm (upd_cur (\<lambda>t. t\<lparr>mmap_list := tl (mmap_list t)\<rparr>)))
     (bindK (mmapK p) (\<lambda>mm. bindK (nonnull (mspt mm)) (\<lambda>pe. thenK (inVm (unmap_page (vml U) pe))
     (bindK (find_mapped_file (mfile mm)) (\<lambda>fe.
      thenK (case fe of None \<Rightarrow> retK () | Some q \<Rightarrow> unlink_mapped q) (free_mmap p))))))"

definition munmap_all :: "'d ulib \<Rightarrow> ('d usr, unit) K" where
  "munmap_all U = bindK (inVm cur) (\<lambda>t. forK (mmap_list t) (munmap_front U))"

text \<open>
  The loop of \<^verbatim>\<open>mmap\<close>, one page a round; false after a page that was not installed. The counters
  are signed, and \<open>zero_bytes\<close> only falls, so a file of \<open>n\<close> bytes takes \<open>n / 4096\<close> rounds, rounded up.
\<close>

primrec mmap_loop :: "'d ulib \<Rightarrow> addr \<Rightarrow> bool \<Rightarrow> int \<Rightarrow> nat \<Rightarrow> u32 \<Rightarrow> off_t \<Rightarrow> int \<Rightarrow> int \<Rightarrow> ('d usr, bool) K" where
  "mmap_loop U f writable m 0 up ofs rbs zbs = (if rbs > 0 \<or> zbs > 0 then failK NO_RETURN else retK True)"
| "mmap_loop U f writable m (Suc n) up ofs rbs zbs = (if \<not> (rbs > 0 \<or> zbs > 0) then retK True else
     let prb = (if rbs < int PGSIZE then word_of_int rbs else of_nat PGSIZE) :: u32; pzb = of_nat PGSIZE - prb in
     bindK (inVm (install_frame (vml U) up None writable (Some f) MMAP ofs prb)) (\<lambda>success.
     if \<not> success then thenK (munmap U m) (retK False)
     else bindK (usr_malloc U) (\<lambda>p. bindK (inVm (find_spt up)) (\<lambda>pe. bindK (onFs (fileK f)) (\<lambda>x.
       thenK (modK (\<lambda>s. s\<lparr>mmap_heap := (mmap_heap s)(p \<mapsto>
         \<lparr>mapid = m, mfile = f, mwritable = \<not> deny_write x, mspt = pe\<rparr>)\<rparr>))
       (thenK (inVm (upd_cur (\<lambda>t. t\<lparr>mmap_list := mmap_list t @ [p]\<rparr>)))
       (mmap_loop U f writable m n (up + of_nat PGSIZE) (i32 (ofs + uint prb)) (i32 (rbs - uint prb)) (i32 (zbs - uint pzb)))))))))"

text \<open>The error returns of \<^verbatim>\<open>mmap\<close> leave \<^verbatim>\<open>file_lock\<close> held.\<close>

definition mmap :: "'d ulib \<Rightarrow> int \<Rightarrow> u32 \<Rightarrow> ('d usr, int) K" where
  "mmap U n up = bindK (inVm (check_mmap_addr (vml U) up)) (\<lambda>ok. if \<not> ok then retK (- 1) else
     thenK (onFs file_lock_acquire) (bindK (filesize n) (\<lambda>len. if len \<le> 0 then retK (- 1) else
     bindK (my_file n) (\<lambda>mf. bindK (nonnull mf) (\<lambda>mf. bindK (onFs (file_reopen (lib (vml U)) mf)) (\<lambda>r. case r of
       None \<Rightarrow> retK (- 1)
     | Some f \<Rightarrow> thenK (onFs (file_seek (Some f) 0)) (bindK (inVm cur) (\<lambda>t. let m = next_mapid t in
         thenK (inVm (upd_cur (\<lambda>t. t\<lparr>next_mapid := m + 1\<rparr>)))
         (bindK (onFs (fileK f)) (\<lambda>x.
          bindK (mmap_loop U f (\<not> deny_write x) m (Suc (nat len div PGSIZE)) up 0 len 0) (\<lambda>ok.
          if \<not> ok then retK (- 1)
          else bindK (usr_malloc U) (\<lambda>p.
            thenK (modK (\<lambda>s. s\<lparr>fd_heap := (fd_heap s)(p \<mapsto> \<lparr>fefile = f, fd = 0\<rparr>)\<rparr>))
            (thenK (inVm (upd_cur (\<lambda>t. t\<lparr>mmap_file_list := mmap_file_list t @ [p]\<rparr>)))
            (thenK (onFs file_lock_release) (retK m)))))))))))))) )"

end
