(* ===== verification/Process.thy ===== *)
theory Process
  imports User_State
begin

text \<open>
  Processes: creating and ending threads (the parts of \<^verbatim>\<open>thread.c\<close> that go beyond the scheduler),
  and \<^verbatim>\<open>process.c\<close>: command lines, loading of executables, the initial stack and the end of a
  process. A call that may switch to another thread ends its step at the switch, as in
  \<open>Threads\<close>; the running thread of the scheduler is then the one whose address space, files and
  directory are current.
\<close>

section \<open>Threads and address spaces\<close>

definition process_activate :: "'d vmlib \<Rightarrow> ('d vm, unit) K" where
  "process_activate V = bindK cur (\<lambda>t. pagedir_activate (hw V) (pagedir t))"

text \<open>
  What \<^verbatim>\<open>thread_schedule_tail\<close> does beyond the scheduler after a switch: the new thread's address
  space is activated, and the page of a thread that died is freed. The current directory is a
  member of the thread; it is saved and loaded here.
\<close>

definition switch_process :: "'d vmlib \<Rightarrow> sched \<Rightarrow> tid \<Rightarrow> ('d vm, unit) K" where
  "switch_process V x old = bindK (getK (\<lambda>s. cur_dir (vfs s))) (\<lambda>d.
     thenK (upd_cur (\<lambda>t. t\<lparr>ucur_dir := d\<rparr>))
     (thenK (modK (\<lambda>s. s\<lparr>vfs := (vfs s)\<lparr>cur_thread := running x\<rparr>\<rparr>))
     (bindK cur (\<lambda>t. thenK (modK (\<lambda>s. s\<lparr>vfs := (vfs s)\<lparr>cur_dir := ucur_dir t\<rparr>\<rparr>))
     (thenK (process_activate V)
     (whenK (threads x old = None) (thenK (modK (\<lambda>s. s\<lparr>uthreads := (uthreads s)(old := None)\<rparr>))
       (palloc_free_page (of_nat old)))))))))"

definition inSched :: "'d ulib \<Rightarrow> (sched, 'a) K \<Rightarrow> ('d usr, 'a) K" where
  "inSched U m = (\<lambda>s. case m (sch s) of Inl e \<Rightarrow> Inl e
     | Inr (a, x) \<Rightarrow> thenK (modK (\<lambda>s. s\<lparr>sch := x\<rparr>))
         (thenK (whenK (running x \<noteq> running (sch s)) (inVm (switch_process (vml U) x (running (sch s))))) (retK a)) s)"

text \<open>
  A call in the middle of a routine: when it switches to another thread, the rest of the routine waits for the
  thread's next turn, which is beyond the step.
\<close>

definition unswitched :: "('d usr, 'a) K \<Rightarrow> ('d usr, 'a) K" where
  "unswitched m = bindK (getK (\<lambda>s. running (sch s))) (\<lambda>t. bindK m (\<lambda>a.
     bindK (getK (\<lambda>s. running (sch s))) (\<lambda>t'. if t' = t then retK a else failK BLOCKED)))"

definition thread_tid :: "(sched, int) K" where
  "thread_tid = bindK thread_current (\<lambda>t. bindK (threadK t) (\<lambda>x. retK (ttid x)))"

definition allocate_tid :: "('d usr, int) K" where
  "allocate_tid = bindK (inVm me) (\<lambda>t. bindK (getK (\<lambda>s. acquire_lock t (tid_lock s))) (\<lambda>r. bindK (liftK r) (\<lambda>l.
     thenK (modK (\<lambda>s. s\<lparr>tid_lock := l\<rparr>)) (bindK (getK next_tid) (\<lambda>n.
     thenK (modK (\<lambda>s. s\<lparr>next_tid := n + 1\<rparr>))
     (bindK (getK (\<lambda>s. release_lock t (tid_lock s))) (\<lambda>r. bindK (liftK r) (\<lambda>l.
      thenK (modK (\<lambda>s. s\<lparr>tid_lock := l\<rparr>)) (retK n)))))))))"

definition TID_ERROR :: int where
  "TID_ERROR = - 1"

text \<open>The members of \<^verbatim>\<open>struct thread\<close> outside the scheduler, as \<^verbatim>\<open>init_thread\<close> leaves them.\<close>

definition fresh_uthread :: uthread where
  "fresh_uthread = \<lparr>pagedir = None, page_table = [], mmap_list = [], mmap_file_list = [], next_mapid = 1, uesp = 0,
     ufile = None, process = None, child_process_list = [], uparent = 0, ucur_dir = None\<rparr>"

definition upd_uthread :: "tid \<Rightarrow> (uthread \<Rightarrow> uthread) \<Rightarrow> ('d vm, unit) K" where
  "upd_uthread t f = bindK (uthreadK t) (\<lambda>x. modK (\<lambda>s. s\<lparr>uthreads := (uthreads s)(t \<mapsto> f x)\<rparr>))"

definition name_string :: "cstr \<Rightarrow> string" where
  "name_string n = map (\<lambda>b. char_of (unat b)) n"

definition thread_create :: "'d ulib \<Rightarrow> cstr option \<Rightarrow> int \<Rightarrow> thread_func \<Rightarrow> u32 \<Rightarrow> ('d usr, int) K" where
  "thread_create U name pr func aux = bindK (inVm (palloc_get_data (hw (vml U)) False True)) (\<lambda>r. case r of
     None \<Rightarrow> retK TID_ERROR
   | Some pg \<Rightarrow> let t = unat pg in
       thenK (assertK (name \<noteq> None))
       (thenK (inSched U (init_thread t (name_string (the name)) pr))
       (thenK (inVm (modK (\<lambda>s. s\<lparr>uthreads := (uthreads s)(t \<mapsto> fresh_uthread)\<rparr>)))
       (bindK allocate_tid (\<lambda>tid.
        thenK (inSched U (upd_thread t (\<lambda>x. x\<lparr>ttid := tid\<rparr>)))
       (thenK (modK (\<lambda>s. s\<lparr>kernel_frames := (kernel_frames s)(t \<mapsto> (func, aux))\<rparr>))
       (bindK (inSched U thread_tid) (\<lambda>par.
        bindK (create_child U tid) (\<lambda>child.
        thenK (inVm (upd_uthread t (\<lambda>x. x\<lparr>uparent := par, process := Some child\<rparr>)))
       (bindK (onFs (getK cur_dir)) (\<lambda>cd.
        bindK (case cd of None \<Rightarrow> retK None | Some d \<Rightarrow> onFs (dir_reopen (lib (vml U)) d)) (\<lambda>nd.
        thenK (inVm (upd_uthread t (\<lambda>x. x\<lparr>ucur_dir := nd\<rparr>)))
       (thenK (inSched U (thread_unblock (lists U) t))
       (thenK (inSched U (intr_off (if_yield (lists U)))) (retK tid)))))))))))))))"

section \<open>Command lines\<close>

definition SPACE :: byte where
  "SPACE = 32"

text \<open>The tokens \<^verbatim>\<open>strtok_r(s, " ", &save)\<close> returns one after the other.\<close>

function tokens :: "cstr \<Rightarrow> cstr list" where
  "tokens [] = []"
| "tokens (c # cs) = (if c = SPACE then tokens cs
     else (c # takeWhile (\<lambda>b. b \<noteq> SPACE) cs) # tokens (dropWhile (\<lambda>b. b \<noteq> SPACE) cs))"
  by pat_completeness auto
termination by (relation "measure length") (auto simp: le_imp_less_Suc length_dropWhile_le)

text \<open>The name of the program, a pointer into a copy of the command line; \<open>None\<close> is null.\<close>

definition determine_argument :: "cstr \<Rightarrow> cstr option" where
  "determine_argument file_name = (case tokens file_name of [] \<Rightarrow> None | t # _ \<Rightarrow> Some t)"

text \<open>
  \<^verbatim>\<open>free(execute_file_name)\<close>: after spaces at the front the pointer is not the one \<^verbatim>\<open>malloc\<close> gave,
  and freeing it corrupts the heap.
\<close>

definition free_name :: "cstr \<Rightarrow> ('s, unit) K" where
  "free_name file_name = (case file_name of c # _ \<Rightarrow> if c = SPACE \<and> determine_argument file_name \<noteq> None
     then failK BAD_POINTER else retK () | [] \<Rightarrow> retK ())"

definition process_execute :: "'d ulib \<Rightarrow> cstr \<Rightarrow> ('d usr, int) K" where
  "process_execute U file_name = bindK (inVm (palloc_get_data (hw (vml U)) False False)) (\<lambda>r. case r of
     None \<Rightarrow> retK TID_ERROR
   | Some fn_copy \<Rightarrow> bindK (inVm (pageK fn_copy)) (\<lambda>b.
       thenK (inVm (put_page fn_copy (strlcpy b file_name PGSIZE)))
       (bindK (unswitched (thread_create U (determine_argument file_name) PRI_DEFAULT START_PROCESS fn_copy)) (\<lambda>tid.
        thenK (whenK (tid = TID_ERROR) (inVm (palloc_free_page fn_copy)))
       (thenK (free_name file_name) (retK tid))))))"

section \<open>The end of a process\<close>

definition free_page_entry :: "'d vmlib \<Rightarrow> addr \<Rightarrow> ('d vm, unit) K" where
  "free_page_entry V pe = bindK (sptK pe) (\<lambda>spt. thenK (spt_free V pe) (frame_free V (sframe spt)))"

definition free_child :: "addr \<Rightarrow> ('d usr, unit) K" where
  "free_child c = thenK (inVm (upd_cur (\<lambda>t. t\<lparr>child_process_list := tl (child_process_list t)\<rparr>)))
     (modK (\<lambda>s. s\<lparr>children := (children s)(c := None)\<rparr>))"

definition process_exit :: "'d ulib \<Rightarrow> ('d usr, unit) K" where
  "process_exit U = thenK (munmap_all U)
     (thenK (bindK (inVm cur) (\<lambda>t. inVm (forK (page_table t) (free_page_entry (vml U)))))
     (thenK (bindK (inVm cur) (\<lambda>t. forK (child_process_list t) free_child))
     (thenK (bindK (inVm cur) (\<lambda>t. onFs (file_close (lib (vml U)) (ufile t))))
     (thenK (bindK (inVm cur) (\<lambda>t. case process t of None \<Rightarrow> retK ()
        | Some p \<Rightarrow> thenK (upd_child p (\<lambda>c. c\<lparr>wait_barrier := wait_barrier c + 1\<rparr>)) (close_all U)))
     (bindK (inVm cur) (\<lambda>t. case pagedir t of None \<Rightarrow> retK ()
        | Some pd \<Rightarrow> thenK (inVm (upd_cur (\<lambda>t. t\<lparr>pagedir := None\<rparr>)))
            (thenK (inVm (pagedir_activate (hw (vml U)) None)) (inVm (pagedir_destroy (hw (vml U)) (Some pd))))))))))"

text \<open>
  The locks a dying thread still holds are released. \<^verbatim>\<open>thread_exit\<close> unlinks each lock twice; with
  three or more locks the second time follows links that sorting has changed, and the model
  stops there.
\<close>

definition release_held :: "'d ulib \<Rightarrow> ('d usr, unit) K" where
  "release_held U = bindK (inVm me) (\<lambda>t.
     thenK (bindK (getK (\<lambda>s. file_lock (vfs (sys s)) = Some t)) (\<lambda>h. whenK h (onFs file_lock_release)))
     (thenK (bindK (getK (\<lambda>s. frame_lock (sys s) = Some t)) (\<lambda>h. whenK h (inVm frame_lock_release)))
     (thenK (bindK (getK (\<lambda>s. swap_lock (sys s) = Some t)) (\<lambda>h. whenK h (inVm swap_lock_release)))
     (bindK (inSched U (bindK thread_current threadK)) (\<lambda>x.
      if length (lock_list x) > 2 then failK BAD_POINTER
      else forK (lock_list x) (\<lambda>l. unswitched (inSched U (lock_release (lists U) l))))))))"

definition thread_exit :: "'d ulib \<Rightarrow> ('d usr, unit) K" where
  "thread_exit U = bindK (inSched U (getK intr_context)) (\<lambda>ic. thenK (assertK (\<not> ic))
     (thenK (process_exit U) (thenK (release_held U) (inSched U (thread_exit_final (lists U))))))"

text \<open>\<^verbatim>\<open>exit\<close> of \<^verbatim>\<open>syscall.c\<close>, without the message it prints.\<close>

definition exit_call :: "'d ulib \<Rightarrow> int \<Rightarrow> ('d usr, unit) K" where
  "exit_call U st = bindK (inVm cur) (\<lambda>t. bindK (inSched U (thread_exist (uparent t))) (\<lambda>ex.
     thenK (whenK ex (bindK my_process (\<lambda>p. upd_child p (\<lambda>c. c\<lparr>cstatus := st, exited := True\<rparr>))))
     (thread_exit U)))"

end
