(* ===== verification/Elf_Load.thy ===== *)
theory Elf_Load
  imports Process
begin

text \<open>
  Loading an executable, the second half of \<^verbatim>\<open>process.c\<close>: the ELF headers, the checks on a
  segment, the pages a segment gets, the initial stack with the arguments, and the thread
  function that starts a process.
\<close>

section \<open>Headers\<close>

definition un_le16 :: "byte list \<Rightarrow> 16 word" where
  "un_le16 bs = ucast (bs ! 0) OR push_bit 8 (ucast (bs ! 1))"

record Elf32_Ehdr =
  e_ident :: "byte list"
  e_type :: "16 word"
  e_machine :: "16 word"
  e_version :: u32
  e_entry :: u32
  e_phoff :: u32
  e_shoff :: u32
  e_flags :: u32
  e_ehsize :: "16 word"
  e_phentsize :: "16 word"
  e_phnum :: "16 word"
  e_shentsize :: "16 word"
  e_shnum :: "16 word"
  e_shstrndx :: "16 word"

record Elf32_Phdr =
  p_type :: u32
  p_offset :: u32
  p_vaddr :: u32
  p_paddr :: u32
  p_filesz :: u32
  p_memsz :: u32
  p_flags :: u32
  p_align :: u32

definition EHDR_SIZE :: nat where
  "EHDR_SIZE = 52"

definition PHDR_SIZE :: nat where
  "PHDR_SIZE = 32"

text \<open>A header is filled by reading its bytes, in the layout of the i386.\<close>

definition decode_ehdr :: "byte list \<Rightarrow> Elf32_Ehdr" where
  "decode_ehdr x = \<lparr>e_ident = get_bytes 0 16 x, e_type = un_le16 (get_bytes 16 2 x),
     e_machine = un_le16 (get_bytes 18 2 x), e_version = un_le32 (get_bytes 20 4 x),
     e_entry = un_le32 (get_bytes 24 4 x), e_phoff = un_le32 (get_bytes 28 4 x),
     e_shoff = un_le32 (get_bytes 32 4 x), e_flags = un_le32 (get_bytes 36 4 x),
     e_ehsize = un_le16 (get_bytes 40 2 x), e_phentsize = un_le16 (get_bytes 42 2 x),
     e_phnum = un_le16 (get_bytes 44 2 x), e_shentsize = un_le16 (get_bytes 46 2 x),
     e_shnum = un_le16 (get_bytes 48 2 x), e_shstrndx = un_le16 (get_bytes 50 2 x)\<rparr>"

definition decode_phdr :: "byte list \<Rightarrow> Elf32_Phdr" where
  "decode_phdr x = \<lparr>p_type = un_le32 (get_bytes 0 4 x), p_offset = un_le32 (get_bytes 4 4 x),
     p_vaddr = un_le32 (get_bytes 8 4 x), p_paddr = un_le32 (get_bytes 12 4 x),
     p_filesz = un_le32 (get_bytes 16 4 x), p_memsz = un_le32 (get_bytes 20 4 x),
     p_flags = un_le32 (get_bytes 24 4 x), p_align = un_le32 (get_bytes 28 4 x)\<rparr>"

definition PT_LOAD :: u32 where "PT_LOAD = 1"

definition PT_DYNAMIC :: u32 where "PT_DYNAMIC = 2"

definition PT_INTERP :: u32 where "PT_INTERP = 3"

definition PT_SHLIB :: u32 where "PT_SHLIB = 5"

definition PF_W :: u32 where "PF_W = 2"

text \<open>\<^verbatim>\<open>\177ELF\1\1\1\<close>\<close>

definition ELF_MAGIC :: "byte list" where
  "ELF_MAGIC = [127, 69, 76, 70, 1, 1, 1]"

definition ehdr_ok :: "Elf32_Ehdr \<Rightarrow> bool" where
  "ehdr_ok h \<longleftrightarrow> take 7 (e_ident h) = ELF_MAGIC \<and> e_type h = 2 \<and> e_machine h = 3 \<and> e_version h = 1 \<and>
     e_phentsize h = of_nat PHDR_SIZE \<and> e_phnum h \<le> 1024"

section \<open>Segments\<close>

text \<open>\<^verbatim>\<open>PGMASK\<close> of \<^verbatim>\<open>vaddr.h\<close> and \<^verbatim>\<open>ROUND_UP (x, PGSIZE)\<close> of \<^verbatim>\<open>round.h\<close>.\<close>

definition PGMASK :: u32 where
  "PGMASK = 0xfff"

definition round_up_page :: "u32 \<Rightarrow> u32" where
  "round_up_page x = (x + of_nat PGSIZE - 1) div of_nat PGSIZE * of_nat PGSIZE"

text \<open>\<open>flen\<close> is \<^verbatim>\<open>file_length (file)\<close>.\<close>

definition segment_valid :: "mmu \<Rightarrow> Elf32_Phdr \<Rightarrow> off_t \<Rightarrow> bool" where
  "segment_valid M ph flen = (
     if p_offset ph AND PGMASK \<noteq> p_vaddr ph AND PGMASK then False
     else if p_offset ph > word_of_int flen then False
     else if p_memsz ph < p_filesz ph then False
     else if p_memsz ph = 0 then False
     else if \<not> is_user_vaddr M (p_vaddr ph) then False
     else if \<not> is_user_vaddr M (p_vaddr ph + p_memsz ph) then False
     else if p_vaddr ph + p_memsz ph < p_vaddr ph then False
     else if p_vaddr ph < of_nat PGSIZE then False
     else True)"

text \<open>The part of the file and of memory that \<^verbatim>\<open>load\<close> hands to \<^verbatim>\<open>load_segment\<close>.\<close>

record seg_layout =
  file_page :: u32
  mem_page :: u32
  read_bytes :: u32
  zero_bytes :: u32

definition segment_layout :: "Elf32_Phdr \<Rightarrow> seg_layout" where
  "segment_layout ph = (let page_offset = p_vaddr ph AND PGMASK in
     if p_filesz ph > 0 then
       \<lparr>file_page = p_offset ph AND NOT PGMASK, mem_page = p_vaddr ph AND NOT PGMASK,
        read_bytes = page_offset + p_filesz ph,
        zero_bytes = round_up_page (page_offset + p_memsz ph) - (page_offset + p_filesz ph)\<rparr>
     else
       \<lparr>file_page = p_offset ph AND NOT PGMASK, mem_page = p_vaddr ph AND NOT PGMASK,
        read_bytes = 0, zero_bytes = round_up_page (page_offset + p_memsz ph)\<rparr>)"

definition validate_segment :: "'d vmlib \<Rightarrow> Elf32_Phdr \<Rightarrow> addr \<Rightarrow> ('d vm, bool) K" where
  "validate_segment V ph f = bindK (inFs (file_length (Some f))) (\<lambda>n. retK (segment_valid (hw V) ph n))"

text \<open>
  The loop of \<^verbatim>\<open>load_segment\<close>. The fuel is the number of pages; \<open>load_segment_loop\<close> without fuel and
  bytes left is a loop that goes on.
\<close>

primrec load_segment_loop :: "'d vmlib \<Rightarrow> addr \<Rightarrow> bool \<Rightarrow> nat \<Rightarrow> off_t \<Rightarrow> u32 \<Rightarrow> u32 \<Rightarrow> u32 \<Rightarrow> ('d vm, unit) K" where
  "load_segment_loop V f writable 0 ofs up rbs zbs = (if rbs > 0 \<or> zbs > 0 then failK NO_RETURN else retK ())"
| "load_segment_loop V f writable (Suc n) ofs up rbs zbs = (if \<not> (rbs > 0 \<or> zbs > 0) then retK () else
     let prb = (if rbs < of_nat PGSIZE then rbs else of_nat PGSIZE); pzb = of_nat PGSIZE - prb in
     bindK (install_frame V up None writable (Some f) FILE ofs prb) (\<lambda>_.
     load_segment_loop V f writable n (i32 (ofs + uint prb)) (up + of_nat PGSIZE) (rbs - prb) (zbs - pzb)))"

definition load_segment :: "'d vmlib \<Rightarrow> addr \<Rightarrow> off_t \<Rightarrow> u32 \<Rightarrow> u32 \<Rightarrow> u32 \<Rightarrow> bool \<Rightarrow> ('d vm, bool) K" where
  "load_segment V f ofs up rbs zbs writable = thenK (assertK ((rbs + zbs) mod of_nat PGSIZE = 0))
     (thenK (assertK (pg_ofs (hw V) up = 0)) (thenK (assertK (ofs smod int PGSIZE = 0))
     (thenK (inFs (file_seek (Some f) ofs))
     (thenK (load_segment_loop V f writable ((unat rbs + unat zbs) div PGSIZE) ofs up rbs zbs) (retK True)))))"

section \<open>The initial stack\<close>

definition check_esp :: "mmu \<Rightarrow> u32 \<Rightarrow> bool" where
  "check_esp M esp = (if esp \<le> 0x08048000 \<or> esp > PHYS_BASE M then False else True)"

definition ARGV_SIZE :: nat where
  "ARGV_SIZE = 64"

text \<open>The strings, each below the one before; the result is the stack pointer and \<^verbatim>\<open>argv\<close>.\<close>

primrec push_strings :: "'d vmlib \<Rightarrow> cstr list \<Rightarrow> u32 \<Rightarrow> u32 list \<Rightarrow> ('d vm, (u32 \<times> u32 list) option) K" where
  "push_strings V [] esp argv = retK (Some (esp, argv))"
| "push_strings V (t # ts) esp argv = (let e = esp - (of_nat (length t) + 1) in
     if \<not> check_esp (hw V) e then retK None
     else thenK (user_write V e (t @ [0]))
       (if length argv + 1 \<ge> ARGV_SIZE then retK None else push_strings V ts e (argv @ [e])))"

definition push_word :: "'d vmlib \<Rightarrow> u32 \<Rightarrow> u32 \<Rightarrow> ('d vm, u32) K" where
  "push_word V esp w = thenK (user_write V (esp - 4) (le32 w)) (retK (esp - 4))"

primrec push_words :: "'d vmlib \<Rightarrow> u32 \<Rightarrow> u32 list \<Rightarrow> ('d vm, u32) K" where
  "push_words V esp [] = retK esp"
| "push_words V esp (w # ws) = bindK (push_word V esp w) (\<lambda>esp. push_words V esp ws)"

text \<open>\<^verbatim>\<open>argv[argc..0]\<close>, \<^verbatim>\<open>argv\<close>, \<^verbatim>\<open>argc\<close> and a return address, below the aligned end of the strings.\<close>

definition push_arguments :: "'d vmlib \<Rightarrow> u32 \<Rightarrow> u32 list \<Rightarrow> ('d vm, u32 option) K" where
  "push_arguments V esp argv = (let argc = of_nat (length argv) :: u32 in
     if \<not> check_esp (hw V) (esp - 4 - 1 - argc * 4 - 4 - 4 - 4) then retK None
     else bindK (push_words V (esp - esp mod 4) (rev (argv @ [0]))) (\<lambda>esp.
       bindK (push_word V esp esp) (\<lambda>esp. bindK (push_word V esp argc) (\<lambda>esp. bindK (push_word V esp 0) (\<lambda>esp.
       retK (Some esp))))))"

text \<open>The first page comes from \<^verbatim>\<open>palloc_get_page\<close>, after evictions if there is none.\<close>

definition setup_stack :: "'d vmlib \<Rightarrow> cstr \<Rightarrow> ('d vm, u32 option) K" where
  "setup_stack V file_name = bindK (get_kpage V True) (\<lambda>kp. let base = PHYS_BASE (hw V) in
     bindK (install_frame V (base - of_nat PGSIZE) (Some kp) True None SWAP 0 0) (\<lambda>success.
     if \<not> success then thenK (frame_destroy kp) (retK None)
     else thenK (upd_cur (\<lambda>t. t\<lparr>uesp := base - of_nat PGSIZE\<rparr>))
       (bindK (push_strings V (tokens file_name) base []) (\<lambda>r. case r of
          None \<Rightarrow> retK None
        | Some (esp, argv) \<Rightarrow> push_arguments V esp argv))))"

section \<open>load and start\_process\<close>

definition load_phdr :: "'d vmlib \<Rightarrow> addr \<Rightarrow> Elf32_Phdr \<Rightarrow> ('d vm, bool) K" where
  "load_phdr V f ph = (if p_type ph = PT_DYNAMIC \<or> p_type ph = PT_INTERP \<or> p_type ph = PT_SHLIB then retK False
     else if p_type ph = PT_LOAD then
       bindK (validate_segment V ph f) (\<lambda>ok. if \<not> ok then retK False else
         let l = segment_layout ph in
         load_segment V f (sint (file_page l)) (mem_page l) (read_bytes l) (zero_bytes l) (p_flags ph AND PF_W \<noteq> 0))
     else retK True)"

primrec load_phdrs :: "'d vmlib \<Rightarrow> addr \<Rightarrow> nat \<Rightarrow> off_t \<Rightarrow> ('d vm, bool) K" where
  "load_phdrs V f 0 ofs = retK True"
| "load_phdrs V f (Suc n) ofs = bindK (inFs (file_length (Some f))) (\<lambda>len.
     if ofs < 0 \<or> ofs > len then retK False
     else thenK (inFs (file_seek (Some f) ofs)) (bindK (inFs (file_read (lib V) f (int PHDR_SIZE))) (\<lambda>bs.
       if length bs \<noteq> PHDR_SIZE then retK False
       else bindK (load_phdr V f (decode_phdr bs)) (\<lambda>ok. if \<not> ok then retK False
         else load_phdrs V f n (i32 (ofs + int PHDR_SIZE))))))"

text \<open>The entry point and the stack pointer, if the image can be loaded.\<close>

definition load_image :: "'d vmlib \<Rightarrow> addr \<Rightarrow> cstr \<Rightarrow> ('d vm, (u32 \<times> u32) option) K" where
  "load_image V f file_name = bindK (inFs (file_read (lib V) f (int EHDR_SIZE))) (\<lambda>bs.
     if length bs \<noteq> EHDR_SIZE then retK None else let h = decode_ehdr bs in
     if \<not> ehdr_ok h then retK None
     else thenK (free_name file_name) (bindK (load_phdrs V f (unat (e_phnum h)) (sint (e_phoff h))) (\<lambda>ok.
       if \<not> ok then retK None
       else bindK (setup_stack V file_name) (\<lambda>esp. retK (case esp of None \<Rightarrow> None | Some esp \<Rightarrow> Some (e_entry h, esp))))))"

text \<open>
  \<^verbatim>\<open>load\<close>: every path ends at \<^verbatim>\<open>done\<close>, where \<^verbatim>\<open>file_lock\<close> is released, held or not.
\<close>

definition load :: "'d ulib \<Rightarrow> cstr \<Rightarrow> ('d usr, (u32 \<times> u32) option) K" where
  "load U file_name = (let V = vml U in
     bindK (inVm (pagedir_create (hw V))) (\<lambda>pd.
     thenK (inVm (upd_cur (\<lambda>t. t\<lparr>pagedir := pd\<rparr>)))
     (bindK (case pd of None \<Rightarrow> retK (None, None)
       | Some _ \<Rightarrow> thenK (inVm (process_activate V)) (thenK (onFs file_lock_acquire)
           (bindK (nonnull (determine_argument file_name)) (\<lambda>name. bindK (onFs (filesys_open (lib V) name)) (\<lambda>r. case r of
              None \<Rightarrow> retK (None, None)
            | Some f \<Rightarrow> thenK (onFs (file_deny_write (Some f)))
                (bindK (inVm (load_image V f file_name)) (\<lambda>r. retK (r, Some f)))))))) (\<lambda>(result, file_p).
     thenK (inVm (upd_cur (\<lambda>t. t\<lparr>ufile := file_p\<rparr>)))
     (bindK my_process (\<lambda>p. thenK (upd_child p (\<lambda>c. c\<lparr>loaded := (result \<noteq> None)\<rparr>))
     (thenK (onFs file_lock_release)
     (thenK (upd_child p (\<lambda>c. c\<lparr>load_barrier := load_barrier c + 1\<rparr>)) (retK result)))))))))"

text \<open>The registers a new process starts with, or \<open>None\<close> when it could not be loaded and has exited.\<close>

definition start_process :: "'d ulib \<Rightarrow> u32 \<Rightarrow> ('d usr, (u32 \<times> u32) option) K" where
  "start_process U file_name = thenK (inVm (upd_cur (\<lambda>t. t\<lparr>page_table := []\<rparr>)))
     (bindK (inVm (pageK file_name)) (\<lambda>b. bindK (liftK (cstr_of b)) (\<lambda>cmd.
      bindK (load U cmd) (\<lambda>r. thenK (inVm (palloc_free_page file_name))
      (thenK (whenK (r = None) (exit_call U (- 1))) (retK r))))))"

end
