(* ===== verification/Syscall.thy ===== *)
theory Syscall
  imports Elf_Load
begin

text \<open>
  Entry into the kernel from user programs: the system call handler of \<^verbatim>\<open>syscall.c\<close> with its checks
  of user pointers, and the exception handlers of \<^verbatim>\<open>exception.c\<close>.
\<close>

section \<open>User pointers\<close>

text \<open>
  A page for the stack below \<open>ptr\<close>, which \<^verbatim>\<open>check_valid_esp\<close> and \<^verbatim>\<open>page_fault\<close> set up with the same
  statements; false when it could not be mapped.
\<close>

definition grow_stack :: "'d vmlib \<Rightarrow> u32 \<Rightarrow> ('d vm, bool) K" where
  "grow_stack V ptr = bindK (get_kpage V True) (\<lambda>kp.
     bindK (install_frame V (pg_round_down (hw V) ptr) (Some kp) True None SWAP 0 0) (\<lambda>success.
     if success then thenK (upd_cur (\<lambda>t. t\<lparr>uesp := pg_round_down (hw V) ptr\<rparr>)) (retK True)
     else thenK (frame_destroy kp) (retK False)))"

text \<open>A page that is not present: it is loaded, or the stack grows; false when neither is possible.\<close>

definition bring_in :: "'d vmlib \<Rightarrow> u32 \<Rightarrow> u32 \<Rightarrow> ('d vm, bool) K" where
  "bring_in V ptr esp = bindK (find_spt (pg_round_down (hw V) ptr)) (\<lambda>pe.
     if pe \<noteq> None then load_back V pe
     else if ptr > esp - 33 then grow_stack V ptr else retK False)"

text \<open>\<^verbatim>\<open>check_valid_esp\<close> ends the process when the pointer is not valid: the result is false then.\<close>

definition check_valid_esp :: "'d ulib \<Rightarrow> u32 \<Rightarrow> u32 \<Rightarrow> ('d usr, bool) K" where
  "check_valid_esp U ptr esp = (let V = vml U in
     bindK (if ptr \<ge> PHYS_BASE (hw V) \<or> ptr \<le> CODE_BASE then retK False
       else bindK (inVm cur) (\<lambda>t. bindK (inVm (pagedir_get_page (hw V) (pagedir t) ptr)) (\<lambda>a.
         if a \<noteq> None then retK True else inVm (bring_in V ptr esp)))) (\<lambda>ok.
     thenK (whenK (\<not> ok) (exit_call U (- 1))) (retK ok)))"

section \<open>System calls that wait\<close>

definition halt :: "('d usr, unit) K" where
  "halt = modK (\<lambda>s. s\<lparr>powered_off := True\<rparr>)"

text \<open>\<^verbatim>\<open>exec\<close> up to the wait for the child to load, and from there on.\<close>

definition exec_begin :: "'d ulib \<Rightarrow> cstr \<Rightarrow> ('d usr, int \<times> addr) K" where
  "exec_begin U cmd_line = bindK (process_execute U cmd_line) (\<lambda>p. bindK (get_child p) (\<lambda>c.
     bindK (nonnull c) (\<lambda>c. retK (p, c))))"

definition exec_end :: "int \<Rightarrow> addr \<Rightarrow> ('d usr, int) K" where
  "exec_end p c = bindK (childK c) (\<lambda>x. bindK (liftK (down_sema (load_barrier x))) (\<lambda>v.
     thenK (upd_child c (\<lambda>x. x\<lparr>load_barrier := v\<rparr>)) (bindK (childK c) (\<lambda>x.
     retK (if loaded x then p else - 1)))))"

definition exec :: "'d ulib \<Rightarrow> cstr \<Rightarrow> ('d usr, int) K" where
  "exec U cmd_line = bindK (exec_begin U cmd_line) (\<lambda>(p, c). exec_end p c)"

definition wait :: "int \<Rightarrow> ('d usr, int) K" where
  "wait p = process_wait p"

section \<open>The handler\<close>

record intr_frame =
  if_esp :: u32
  if_cs :: u32
  if_error_code :: u32

text \<open>What became of the call: the process has exited, or it returns with \<^verbatim>\<open>eax\<close> set or not.\<close>

datatype outcome = Exited | Returned "u32 option"

definition checked :: "'d ulib \<Rightarrow> u32 \<Rightarrow> ('d usr, outcome) K \<Rightarrow> ('d usr, outcome) K" where
  "checked U ptr m = bindK (inVm cur) (\<lambda>t. bindK (check_valid_esp U ptr (uesp t)) (\<lambda>ok.
     if ok then m else retK Exited))"

text \<open>The loop that checks every byte of a buffer.\<close>

primrec checked_range :: "'d ulib \<Rightarrow> u32 \<Rightarrow> nat \<Rightarrow> ('d usr, outcome) K \<Rightarrow> ('d usr, outcome) K" where
  "checked_range U ptr 0 m = m"
| "checked_range U ptr (Suc n) m = checked U ptr (checked_range U (ptr + 1) n m)"

definition user_word :: "'d ulib \<Rightarrow> u32 \<Rightarrow> ('d usr, u32) K" where
  "user_word U a = bindK (inVm (user_read (vml U) a 4)) (\<lambda>bs. retK (un_le32 bs))"

definition with_word :: "'d ulib \<Rightarrow> u32 \<Rightarrow> (u32 \<Rightarrow> ('d usr, outcome) K) \<Rightarrow> ('d usr, outcome) K" where
  "with_word U a k = checked U a (bindK (user_word U a) k)"

text \<open>A pointer argument: it is read, checked and read again; for a buffer every byte is checked.\<close>

definition with_pointer :: "'d ulib \<Rightarrow> u32 \<Rightarrow> (u32 \<Rightarrow> ('d usr, outcome) K) \<Rightarrow> ('d usr, outcome) K" where
  "with_pointer U a k = bindK (user_word U a) (\<lambda>p. checked U p (bindK (user_word U a) k))"

definition with_range :: "'d ulib \<Rightarrow> u32 \<Rightarrow> nat \<Rightarrow> (u32 \<Rightarrow> ('d usr, outcome) K) \<Rightarrow> ('d usr, outcome) K" where
  "with_range U a n k = bindK (user_word U a) (\<lambda>p. checked_range U p n (bindK (user_word U a) k))"

definition eax :: "('d usr, 'a) K \<Rightarrow> ('a \<Rightarrow> u32) \<Rightarrow> ('d usr, outcome) K" where
  "eax m f = bindK m (\<lambda>a. retK (Returned (Some (f a))))"

definition no_eax :: "('d usr, unit) K \<Rightarrow> ('d usr, outcome) K" where
  "no_eax m = thenK m (retK (Returned None))"

definition ubool :: "bool \<Rightarrow> u32" where
  "ubool b = (if b then 1 else 0)"

text \<open>The string of \<^verbatim>\<open>remove\<close> is read at the kernel address of its page.\<close>

definition kernel_string :: "'d vmlib \<Rightarrow> u32 \<Rightarrow> ('d vm, cstr) K" where
  "kernel_string V a = bindK (user_kaddr V a) (\<lambda>k. bindK (pageK (pg_round_down (hw V) k)) (\<lambda>b.
     liftK (cstr_of (drop (unat (pg_ofs (hw V) k)) b))))"

definition syscall_handler :: "'d ulib \<Rightarrow> intr_frame \<Rightarrow> ('d usr, outcome) K" where
  "syscall_handler U f = (let esp = if_esp f; V = vml U in with_word U esp (\<lambda>nr.
     case syscall_no U (sint nr) of None \<Rightarrow> retK (Returned None) | Some n \<Rightarrow> (case n of
       SYS_HALT \<Rightarrow> no_eax halt
     | SYS_EXIT \<Rightarrow> with_word U (esp + 4) (\<lambda>st. thenK (exit_call U (sint st)) (retK Exited))
     | SYS_EXEC \<Rightarrow> checked U (esp + 4) (with_pointer U (esp + 4) (\<lambda>p. bindK (inVm (user_string V p)) (\<lambda>cmd.
         eax (exec U cmd) word_of_int)))
     | SYS_WAIT \<Rightarrow> with_word U (esp + 4) (\<lambda>p. eax (wait (sint p)) word_of_int)
     | SYS_CREATE \<Rightarrow> checked U (esp + 4) (checked U (esp + 8) (with_pointer U (esp + 4) (\<lambda>p.
         bindK (user_word U (esp + 8)) (\<lambda>sz. bindK (inVm (user_string V p)) (\<lambda>name. eax (create_call U name sz) ubool)))))
     | SYS_REMOVE \<Rightarrow> checked U (esp + 4) (with_pointer U (esp + 4) (\<lambda>p. bindK (inVm (kernel_string V p)) (\<lambda>name.
         eax (remove_call U name) ubool)))
     | SYS_OPEN \<Rightarrow> checked U (esp + 4) (with_pointer U (esp + 4) (\<lambda>p. bindK (inVm (user_string V p)) (\<lambda>name.
         eax (open_call U name) word_of_int)))
     | SYS_FILESIZE \<Rightarrow> with_word U (esp + 4) (\<lambda>n. eax (filesize (sint n)) word_of_int)
     | SYS_READ \<Rightarrow> checked U (esp + 4) (checked U (esp + 8) (with_word U (esp + 12) (\<lambda>sz.
         bindK (user_word U (esp + 4)) (\<lambda>n. with_range U (esp + 8) (unat sz) (\<lambda>buffer.
         eax (read_call U (sint n) buffer sz) word_of_int)))))
     | SYS_WRITE \<Rightarrow> checked U (esp + 4) (checked U (esp + 8) (with_word U (esp + 12) (\<lambda>sz.
         with_range U (esp + 8) (unat sz) (\<lambda>buffer.
         bindK (user_word U (esp + 4)) (\<lambda>n. eax (write_call U (sint n) buffer sz) word_of_int)))))
     | SYS_SEEK \<Rightarrow> checked U (esp + 4) (with_word U (esp + 8) (\<lambda>pos. bindK (user_word U (esp + 4)) (\<lambda>n.
         no_eax (seek (sint n) pos))))
     | SYS_TELL \<Rightarrow> with_word U (esp + 4) (\<lambda>n. eax (tell (sint n)) id)
     | SYS_CLOSE \<Rightarrow> with_word U (esp + 4) (\<lambda>n. no_eax (close_call U (sint n)))
     | SYS_MMAP \<Rightarrow> with_word U (esp + 4) (\<lambda>n. bindK (user_word U (esp + 8)) (\<lambda>up. eax (mmap U (sint n) up) word_of_int))
     | SYS_MUNMAP \<Rightarrow> with_word U (esp + 4) (\<lambda>m. no_eax (munmap U (sint m))))))"

section \<open>exception.c\<close>

text \<open>
  \<^verbatim>\<open>page_fault\<close>, with the faulting address from \<^verbatim>\<open>cr2\<close>: true when the program goes on. A fault on a
  page that is present ends the process.
\<close>

definition page_fault :: "'d ulib \<Rightarrow> intr_frame \<Rightarrow> u32 \<Rightarrow> ('d usr, bool) K" where
  "page_fault U f fault_addr = (let V = vml U; not_present = (if_error_code f AND PF_P U = 0) in
     thenK (inSched U (modK (\<lambda>x. x\<lparr>intr_on := True\<rparr>)))
     (thenK (modK (\<lambda>s. s\<lparr>page_fault_cnt := page_fault_cnt s + 1\<rparr>))
     (bindK (if \<not> not_present \<or> fault_addr \<ge> PHYS_BASE (hw V) \<or> fault_addr \<le> 0x08048000 then retK False
       else bindK (inVm cur) (\<lambda>t. bindK (inVm (pagedir_get_page (hw V) (pagedir t) fault_addr)) (\<lambda>a.
         if a \<noteq> None then retK False else inVm (bring_in V fault_addr (if_esp f))))) (\<lambda>ok.
      thenK (whenK (\<not> ok) (exit_call U (- 1))) (retK ok)))))"

definition kill :: "'d ulib \<Rightarrow> intr_frame \<Rightarrow> ('d usr, unit) K" where
  "kill U f = (if if_cs f = SEL_UCSEG U then thread_exit U
     else if if_cs f = SEL_KCSEG U then failK PANIC
     else thread_exit U)"

text \<open>
  The registrations of \<^verbatim>\<open>exception_init\<close> in their order: the vector, the privilege level from which an \<^verbatim>\<open>int\<close>
  instruction may raise it, whether interrupts are on in the handler, and the handler, which is given the
  frame and the fault address in \<^verbatim>\<open>CR2\<close>.
\<close>

definition exception_init :: "'d ulib \<Rightarrow> (nat \<times> nat \<times> bool \<times> (intr_frame \<Rightarrow> u32 \<Rightarrow> ('d usr, unit) K)) list" where
  "exception_init U = map (\<lambda>(vec, dpl). (vec, dpl, True, \<lambda>f _. kill U f))
       [(3, 3), (4, 3), (5, 3), (0, 0), (1, 0), (6, 0), (7, 0), (11, 0), (12, 0), (13, 0), (16, 0), (19, 0)]
     @ [(14, 0, False, \<lambda>f cr2. thenK (page_fault U f cr2) (retK ()))]"

end
