(* ===== verification/Fs_Util.thy ===== *)
theory Fs_Util
  imports User_State
begin

text \<open>
  The actions of the kernel command line on files, \<^verbatim>\<open>fsutil.c\<close>: listing the root directory,
  printing and deleting a file, and copying between the file system and a tar archive on the
  scratch device. Of the output the names of \<^verbatim>\<open>fsutil_ls\<close> and the dumps of \<^verbatim>\<open>fsutil_cat\<close> go to the
  console; messages are left out.
\<close>

section \<open>State and code outside the sources\<close>

datatype block_type = BLOCK_FILESYS | BLOCK_SCRATCH | BLOCK_SWAP

text \<open>The kernel, the devices by role (\<^verbatim>\<open>block_get_role\<close>), and the static variables of \<^verbatim>\<open>fsutil.c\<close>.\<close>

record 'd util =
  kern :: "'d usr"
  roles :: "block_type \<Rightarrow> 'd option"
  extract_sector :: u32
  append_sector :: u32

datatype ustar_type = USTAR_REGULAR | USTAR_DIRECTORY | USTAR_EOF

text \<open>
  \<^verbatim>\<open>ustar.h\<close>: parsing and making the header of an archive member, with \<open>None\<close> for an error, and
  \<^verbatim>\<open>hex_dump\<close> of \<^verbatim>\<open>stdio.h\<close>. \<open>behind\<close> is the byte of memory after the sector buffer of \<^verbatim>\<open>fsutil_append\<close>,
  which writes a sector that begins in the second byte of that buffer.
\<close>

record toolbox =
  ustar_parse_header :: "byte list \<Rightarrow> (cstr \<times> ustar_type \<times> int) option"
  ustar_make_header :: "cstr \<Rightarrow> ustar_type \<Rightarrow> int \<Rightarrow> byte list option"
  hex_dump :: "int \<Rightarrow> byte list \<Rightarrow> byte list"
  behind :: byte

definition inKern :: "('d usr, 'a) K \<Rightarrow> (('d, 'z) util_scheme, 'a) K" where
  "inKern m = (\<lambda>s. case m (kern s) of Inl e \<Rightarrow> Inl e | Inr (a, x) \<Rightarrow> Inr (a, s\<lparr>kern := x\<rparr>))"

abbreviation utilFs :: "('d fs, 'a) K \<Rightarrow> (('d, 'z) util_scheme, 'a) K" where
  "utilFs m \<equiv> inKern (onFs m)"

definition print :: "byte list \<Rightarrow> (('d, 'z) util_scheme, unit) K" where
  "print bs = inKern (modK (\<lambda>s. s\<lparr>console := console s @ bs\<rparr>))"

text \<open>A failed test of the code that ends in \<^verbatim>\<open>PANIC\<close>.\<close>

definition expect :: "'a option \<Rightarrow> ('s, 'a) K" where
  "expect r = (case r of None \<Rightarrow> failK PANIC | Some a \<Rightarrow> retK a)"

definition sector_buffer :: "'d ulib \<Rightarrow> (('d, 'z) util_scheme, unit) K" where
  "sector_buffer U = bindK (utilFs (getK (tmp_ok (lib (vml U))))) assertK"

definition scratchK :: "(('d, 'z) util_scheme, 'd) K" where
  "scratchK = bindK (getK (\<lambda>s. roles s BLOCK_SCRATCH)) expect"

text \<open>Reading and writing a sector of the scratch device; outside of it the block layer panics.\<close>

definition scratch_read :: "'d ulib \<Rightarrow> u32 \<Rightarrow> (('d, 'z) util_scheme, byte list) K" where
  "scratch_read U k = bindK scratchK (\<lambda>d. thenK (assertK (unat k < block_size (lib (vml U)) d))
     (retK (block_read (lib (vml U)) d k)))"

definition scratch_write :: "'d ulib \<Rightarrow> u32 \<Rightarrow> byte list \<Rightarrow> (('d, 'z) util_scheme, unit) K" where
  "scratch_write U k bs = bindK scratchK (\<lambda>d. thenK (assertK (unat k < block_size (lib (vml U)) d))
     (modK (\<lambda>s. s\<lparr>roles := (roles s)(BLOCK_SCRATCH \<mapsto> block_write (lib (vml U)) d k bs)\<rparr>)))"

section \<open>ls, cat and rm\<close>

text \<open>The loops get one round more than the directory has entries, and the file pages.\<close>

primrec ls_loop :: "'d ulib \<Rightarrow> addr \<Rightarrow> nat \<Rightarrow> (('d, 'z) util_scheme, unit) K" where
  "ls_loop U dir 0 = failK NO_RETURN"
| "ls_loop U dir (Suc n) = bindK (utilFs (dir_readdir (lib (vml U)) dir)) (\<lambda>r. case r of
     None \<Rightarrow> retK ()
   | Some name \<Rightarrow> thenK (print (name @ [10])) (ls_loop U dir n))"

definition fsutil_ls :: "'d ulib \<Rightarrow> (('d, 'z) util_scheme, unit) K" where
  "fsutil_ls U = bindK (utilFs (dir_open_root (lib (vml U)))) (\<lambda>r. bindK (expect r) (\<lambda>dir.
     bindK (utilFs (fileK dir)) (\<lambda>d. bindK (utilFs (inodeK (finode d))) (\<lambda>i.
     ls_loop U dir (Suc (nat (dlength (idata i)) div 20))))))"

primrec cat_loop :: "'d ulib \<Rightarrow> toolbox \<Rightarrow> addr \<Rightarrow> u32 \<Rightarrow> nat \<Rightarrow> (('d, 'z) util_scheme, unit) K" where
  "cat_loop U X f buffer 0 = failK NO_RETURN"
| "cat_loop U X f buffer (Suc n) = bindK (utilFs (file_tell (Some f))) (\<lambda>pos.
     bindK (utilFs (file_read (lib (vml U)) f (int PGSIZE))) (\<lambda>bs.
     bindK (inKern (inVm (pageK buffer))) (\<lambda>b. thenK (inKern (inVm (put_page buffer (put_bytes 0 bs b))))
     (if bs = [] then retK ()
      else thenK (print (hex_dump X pos bs)) (cat_loop U X f buffer n)))))"

definition fsutil_cat :: "'d ulib \<Rightarrow> toolbox \<Rightarrow> cstr \<Rightarrow> (('d, 'z) util_scheme, unit) K" where
  "fsutil_cat U X file_name = bindK (utilFs (filesys_open (lib (vml U)) file_name)) (\<lambda>r. bindK (expect r) (\<lambda>f.
     bindK (inKern (inVm (palloc_get_data (hw (vml U)) False False))) (\<lambda>r. bindK (expect r) (\<lambda>buffer.
     bindK (utilFs (file_length (Some f))) (\<lambda>n.
     thenK (cat_loop U X f buffer (nat n div PGSIZE + 2))
     (thenK (inKern (inVm (palloc_free_page buffer))) (utilFs (file_close (lib (vml U)) (Some f)))))))))"

definition fsutil_rm :: "'d ulib \<Rightarrow> cstr \<Rightarrow> (('d, 'z) util_scheme, unit) K" where
  "fsutil_rm U file_name = bindK (utilFs (filesys_remove (lib (vml U)) file_name)) assertK"

section \<open>Archives\<close>

definition next_extract :: "'d ulib \<Rightarrow> (('d, 'z) util_scheme, byte list) K" where
  "next_extract U = bindK (getK extract_sector) (\<lambda>k. thenK (modK (\<lambda>s. s\<lparr>extract_sector := k + 1\<rparr>)) (scratch_read U k))"

definition chunk_size :: "int \<Rightarrow> int" where
  "chunk_size sz = (if sz > 512 then 512 else sz)"

text \<open>The copying loops recur on the number of sectors that are left.\<close>

primrec copy_in :: "'d ulib \<Rightarrow> addr \<Rightarrow> nat \<Rightarrow> int \<Rightarrow> (('d, 'z) util_scheme, unit) K" where
  "copy_in U dst 0 sz = (if sz > 0 then failK NO_RETURN else retK ())"
| "copy_in U dst (Suc n) sz = (if \<not> sz > 0 then retK () else
     bindK (next_extract U) (\<lambda>bs. bindK (utilFs (file_write (lib (vml U)) dst bs (chunk_size sz))) (\<lambda>w.
     thenK (assertK (w = chunk_size sz)) (copy_in U dst n (sz - chunk_size sz)))))"

definition extract_file :: "'d ulib \<Rightarrow> cstr \<Rightarrow> int \<Rightarrow> (('d, 'z) util_scheme, unit) K" where
  "extract_file U file_name sz = bindK (utilFs (filesys_create (lib (vml U)) file_name sz False)) (\<lambda>ok.
     thenK (assertK ok) (bindK (utilFs (filesys_open (lib (vml U)) file_name)) (\<lambda>r. bindK (expect r) (\<lambda>dst.
     thenK (copy_in U dst (nat ((sz + 511) div 512)) sz) (utilFs (file_close (lib (vml U)) (Some dst)))))))"

text \<open>Every member takes a sector of the device, so the size of the device bounds the rounds.\<close>

primrec extract_loop :: "'d ulib \<Rightarrow> toolbox \<Rightarrow> nat \<Rightarrow> (('d, 'z) util_scheme, unit) K" where
  "extract_loop U X 0 = failK NO_RETURN"
| "extract_loop U X (Suc n) = bindK (next_extract U) (\<lambda>header. bindK (expect (ustar_parse_header X header)) (\<lambda>(name, type, sz).
     case type of USTAR_EOF \<Rightarrow> retK ()
     | USTAR_DIRECTORY \<Rightarrow> extract_loop U X n
     | USTAR_REGULAR \<Rightarrow> thenK (extract_file U name sz) (extract_loop U X n)))"

definition fsutil_extract :: "'d ulib \<Rightarrow> toolbox \<Rightarrow> (('d, 'z) util_scheme, unit) K" where
  "fsutil_extract U X = thenK (sector_buffer U) (thenK (sector_buffer U) (bindK scratchK (\<lambda>d.
     thenK (extract_loop U X (Suc (block_size (lib (vml U)) d)))
     (thenK (scratch_write U 0 (replicate 512 0)) (scratch_write U 1 (replicate 512 0))))))"

definition next_append :: "'d ulib \<Rightarrow> byte list \<Rightarrow> (('d, 'z) util_scheme, unit) K" where
  "next_append U bs = bindK (getK append_sector) (\<lambda>k. thenK (modK (\<lambda>s. s\<lparr>append_sector := k + 1\<rparr>)) (scratch_write U k bs))"

primrec copy_out :: "'d ulib \<Rightarrow> addr \<Rightarrow> nat \<Rightarrow> int \<Rightarrow> (('d, 'z) util_scheme, unit) K" where
  "copy_out U src 0 sz = (if sz > 0 then failK NO_RETURN else retK ())"
| "copy_out U src (Suc n) sz = (if \<not> sz > 0 then retK () else
     bindK scratchK (\<lambda>d. bindK (getK append_sector) (\<lambda>k. thenK (assertK (unat k < block_size (lib (vml U)) d))
     (bindK (utilFs (file_read (lib (vml U)) src (chunk_size sz))) (\<lambda>bs.
      thenK (assertK (int (length bs) = chunk_size sz))
     (thenK (next_append U (bs @ replicate (512 - length bs) 0)) (copy_out U src n (sz - chunk_size sz))))))))"

text \<open>
  \<^verbatim>\<open>fsutil_append\<close>. The end of the archive is written twice to the same sector, the second time
  from the second byte of the buffer on.
\<close>

definition fsutil_append :: "'d ulib \<Rightarrow> toolbox \<Rightarrow> cstr \<Rightarrow> (('d, 'z) util_scheme, unit) K" where
  "fsutil_append U X file_name = thenK (sector_buffer U)
     (bindK (utilFs (filesys_open (lib (vml U)) file_name)) (\<lambda>r. bindK (expect r) (\<lambda>src.
      bindK (utilFs (file_length (Some src))) (\<lambda>sz. bindK scratchK (\<lambda>_.
      bindK (expect (ustar_make_header X file_name USTAR_REGULAR sz)) (\<lambda>header.
      thenK (next_append U header)
     (thenK (copy_out U src (nat ((sz + 511) div 512)) sz)
     (bindK (getK append_sector) (\<lambda>k.
      thenK (scratch_write U k (replicate 512 0))
     (thenK (scratch_write U k (replicate 511 0 @ [behind X]))
     (utilFs (file_close (lib (vml U)) (Some src)))))))))))))"

end
