(* ===== verification/Kernel_Start.thy ===== *)
theory Kernel_Start
  imports Syscall Fs_Util
begin

text \<open>
  The start of the kernel: \<^verbatim>\<open>init.c\<close>, from the command line that the loader left in memory to the
  actions it asks for, and the start of the scheduler in \<^verbatim>\<open>thread.c\<close>. The parts of \<^verbatim>\<open>main\<close> before and
  after the wait of \<^verbatim>\<open>thread_start\<close> for the idle thread are separate steps.
\<close>

section \<open>State and code outside the sources\<close>

datatype shutdown_type = SHUTDOWN_NONE | SHUTDOWN_POWER_OFF | SHUTDOWN_REBOOT

text \<open>The variables that options set.\<close>

record 'd boot = "'d util" +
  format_filesys :: bool
  filesys_bdev_name :: "cstr option"
  scratch_bdev_name :: "cstr option"
  swap_bdev_name :: "cstr option"
  user_page_limit :: u32
  thread_mlfqs :: bool
  shutdown_how :: shutdown_type

text \<open>
  What the loader, the linker and the drivers provide: the number and the bytes of the arguments,
  the bounds of the kernel's code, the entry for a kernel page (\<^verbatim>\<open>pte.h\<close>), and the block devices in
  probe order with their names and types.
\<close>

record 'd machine =
  loader_arg_cnt :: u32
  loader_args :: "byte list"
  start_text :: u32
  end_kernel_text :: u32
  pte_create_kernel :: "u32 \<Rightarrow> bool \<Rightarrow> u32"
  devices :: "(cstr \<times> block_type option \<times> 'd) list"

definition lit :: "string \<Rightarrow> cstr" where
  "lit s = map of_char s"

section \<open>The command line\<close>

definition ARGV_MAX :: nat where
  "ARGV_MAX = 65"

text \<open>
  The loop of \<^verbatim>\<open>read_command_line\<close>: \<open>n\<close> arguments to go, the next one the \<open>i\<close>-th, the bytes \<open>p\<close> up to
  the end. A last argument without a zero would be read beyond the area by the loop that prints.
\<close>

primrec split_args :: "nat \<Rightarrow> nat \<Rightarrow> byte list \<Rightarrow> kerror + cstr list" where
  "split_args 0 i p = (if i < ARGV_MAX then Inr [] else Inl OUT_OF_BOUNDS)"
| "split_args (Suc n) i p = (if p = [] then Inl PANIC
     else if i \<ge> ARGV_MAX \<or> 0 \<notin> set p then Inl OUT_OF_BOUNDS
     else let arg = takeWhile (\<lambda>b. b \<noteq> 0) p in
       case split_args n (i + 1) (drop (length arg + 1) p) of Inl e \<Rightarrow> Inl e | Inr args \<Rightarrow> Inr (arg # args))"

definition read_command_line :: "'d machine \<Rightarrow> kerror + cstr list" where
  "read_command_line X = (if sint (loader_arg_cnt X) < 0 then Inl OUT_OF_BOUNDS
     else split_args (unat (loader_arg_cnt X)) 0 (loader_args X))"

definition DASH :: byte where "DASH = 45"

definition EQUALS :: byte where "EQUALS = 61"

text \<open>\<^verbatim>\<open>strtok_r (*argv, "=", &save)\<close> and \<^verbatim>\<open>strtok_r (NULL, "", &save)\<close> on an argument that begins with \<^verbatim>\<open>-\<close>.\<close>

definition opt_name :: "cstr \<Rightarrow> cstr" where
  "opt_name a = takeWhile (\<lambda>b. b \<noteq> EQUALS) a"

definition opt_value :: "cstr \<Rightarrow> cstr option" where
  "opt_value a = (let r = drop (length (opt_name a) + 1) a in if r = [] then None else Some r)"

text \<open>\<^verbatim>\<open>atoi\<close> of decimal digits with a sign, after spaces; the value wraps at 32 bits.\<close>

primrec digits :: "u32 \<Rightarrow> cstr \<Rightarrow> u32" where
  "digits x [] = x"
| "digits x (b # bs) = (if 48 \<le> b \<and> b \<le> 57 then digits (x * 10 + ucast (b - 48)) bs else x)"

definition atoi :: "cstr \<Rightarrow> u32" where
  "atoi a = (case dropWhile (\<lambda>b. b \<in> {9, 10, 11, 12, 13, 32}) a of [] \<Rightarrow> 0
     | b # bs \<Rightarrow> if b = DASH then - digits 0 bs else if b = 43 then digits 0 bs else digits 0 (b # bs))"

text \<open>
  \<^verbatim>\<open>parse_options\<close>: the arguments after the options, or \<open>None\<close> when the help text was printed and the
  machine is off. The seed of the random number generator is not modelled.
\<close>

primrec parse_options :: "cstr list \<Rightarrow> ('d boot, cstr list option) K" where
  "parse_options [] = retK (Some [])"
| "parse_options (a # as) = (if a = [] \<or> hd a \<noteq> DASH then retK (Some (a # as))
     else let nm = opt_name a; val = opt_value a in
     if nm = lit ''-h'' then thenK (inKern (modK (\<lambda>s. s\<lparr>powered_off := True\<rparr>))) (retK None)
     else thenK (
       if nm = lit ''-q'' then modK (\<lambda>s. s\<lparr>shutdown_how := SHUTDOWN_POWER_OFF\<rparr>)
       else if nm = lit ''-r'' then modK (\<lambda>s. s\<lparr>shutdown_how := SHUTDOWN_REBOOT\<rparr>)
       else if nm = lit ''-f'' then modK (\<lambda>s. s\<lparr>format_filesys := True\<rparr>)
       else if nm = lit ''-filesys'' then modK (\<lambda>s. s\<lparr>filesys_bdev_name := val\<rparr>)
       else if nm = lit ''-scratch'' then modK (\<lambda>s. s\<lparr>scratch_bdev_name := val\<rparr>)
       else if nm = lit ''-swap'' then modK (\<lambda>s. s\<lparr>swap_bdev_name := val\<rparr>)
       else if nm = lit ''-rs'' then bindK (nonnull val) (\<lambda>_. retK ())
       else if nm = lit ''-mlfqs'' then modK (\<lambda>s. s\<lparr>thread_mlfqs := True\<rparr>)
       else if nm = lit ''-ul'' then bindK (nonnull val) (\<lambda>v. modK (\<lambda>s. s\<lparr>user_page_limit := atoi v\<rparr>))
       else failK PANIC)
     (parse_options as))"

section \<open>The kernel's page tables\<close>

text \<open>One round of the loop of \<^verbatim>\<open>paging_init\<close>: \<open>pt\<close> is the page table of the round before.\<close>

definition map_kernel_page :: "mmu \<Rightarrow> 'd machine \<Rightarrow> nat \<Rightarrow> u32 option \<Rightarrow> ('z pg_scheme, u32 option) K" where
  "map_kernel_page M X page pt = (let vaddr = ptov M (of_nat page * of_nat PGSIZE);
       in_kernel_text = (start_text X \<le> vaddr \<and> vaddr < end_kernel_text X) in
     bindK (getK init_page_dir) (\<lambda>pd. bindK (word_at pd (pd_no M vaddr)) (\<lambda>pde.
     bindK (if pde = 0 then bindK (palloc_get_table M (replicate TABLE_WORDS 0)) (\<lambda>r. bindK (expect r) (\<lambda>p.
         thenK (set_word pd (pd_no M vaddr) (pde_create M p)) (retK p)))
       else nonnull pt) (\<lambda>p.
     thenK (set_word p (pt_no M vaddr) (pte_create_kernel X vaddr (\<not> in_kernel_text))) (retK (Some p))))))"

primrec map_kernel :: "mmu \<Rightarrow> 'd machine \<Rightarrow> nat list \<Rightarrow> u32 option \<Rightarrow> ('z pg_scheme, unit) K" where
  "map_kernel M X [] pt = retK ()"
| "map_kernel M X (page # ps) pt = bindK (map_kernel_page M X page pt) (map_kernel M X ps)"

definition paging_init :: "mmu \<Rightarrow> 'd machine \<Rightarrow> ('z pg_scheme, unit) K" where
  "paging_init M X = bindK (palloc_get_table M (replicate TABLE_WORDS 0)) (\<lambda>r. bindK (expect r) (\<lambda>pd.
     thenK (modK (\<lambda>s. s\<lparr>init_page_dir := pd\<rparr>))
     (thenK (map_kernel M X [0..<init_ram_pages M] None) (modK (\<lambda>s. s\<lparr>cr3 := vtop M pd\<rparr>)))))"

section \<open>The scheduler starts: thread.c\<close>

text \<open>\<^verbatim>\<open>thread_init\<close> makes the code that is running into the first thread.\<close>

definition thread_init :: "'d ulib \<Rightarrow> ('d usr, unit) K" where
  "thread_init U = bindK (inSched U (getK intr_on)) (\<lambda>on. thenK (assertK (\<not> on))
     (thenK (modK (\<lambda>s. s\<lparr>tid_lock := None\<rparr>))
     (thenK (inSched U (modK (\<lambda>s. s\<lparr>ready_list := [], all_list := [], sleeping_list := [], sleep_sema := 1\<rparr>)))
     (thenK (inVm frame_table_init)
     (bindK (inSched U (getK running)) (\<lambda>t.
      thenK (inSched U (modK (\<lambda>s. s\<lparr>initial_thread := Some t\<rparr>)))
     (thenK (inSched U (init_thread t ''main'' PRI_DEFAULT))
     (thenK (inVm (modK (\<lambda>s. s\<lparr>uthreads := (uthreads s)(t \<mapsto> fresh_uthread)\<rparr>)))
     (thenK (inSched U (upd_thread t (\<lambda>x. x\<lparr>status := THREAD_RUNNING\<rparr>)))
     (bindK allocate_tid (\<lambda>tid.
      thenK (inSched U (upd_thread t (\<lambda>x. x\<lparr>ttid := tid\<rparr>)))
     (onFs (modK (\<lambda>s. s\<lparr>cur_dir := None\<rparr>))))))))))))))"

text \<open>
  \<^verbatim>\<open>thread_start\<close> up to the first test of its semaphore, which is at the address \<open>sema\<close> on the stack of the
  first thread: true when it need not wait.
\<close>

definition thread_start :: "'d ulib \<Rightarrow> addr \<Rightarrow> ('d usr, bool) K" where
  "thread_start U sema = thenK (inSched U (sema_init sema 0))
     (bindK (unswitched (thread_create U (Some (lit ''idle'')) PRI_MIN IDLE (of_nat sema))) (\<lambda>_.
      thenK (inSched U (modK (\<lambda>s. s\<lparr>intr_on := True\<rparr>))) (inSched U (sema_down (lists U) sema))))"

text \<open>
  The idle thread up to its call of \<^verbatim>\<open>sema_up\<close>, which gives the processor back to the first thread, and a round
  of the loop that it enters when it runs again.
\<close>

definition idle_round :: "'d ulib \<Rightarrow> ('d usr, unit) K" where
  "idle_round U = thenK (inSched U (modK (\<lambda>s. s\<lparr>intr_on := False\<rparr>)))
     (thenK (inSched U (thread_block (lists U))) (inSched U (modK (\<lambda>s. s\<lparr>intr_on := True\<rparr>))))"

definition idle :: "'d ulib \<Rightarrow> addr \<Rightarrow> ('d usr, unit) K" where
  "idle U sema = bindK (inSched U thread_current) (\<lambda>t.
     thenK (inSched U (modK (\<lambda>s. s\<lparr>idle_thread := Some t\<rparr>)))
     (inSched U (sema_up (lists U) sema)))"

text \<open>
  The first step of a new thread. The write-back thread begins with a sleep of 100 ticks, as it does
  after each round; a process goes to user mode or has exited; the helper of \<^verbatim>\<open>sema_self_test\<close> enters its loop.
\<close>

definition writeback_round :: "'d ulib \<Rightarrow> ('d usr, unit) K" where
  "writeback_round U = thenK (onFs (cache_writeback_func (lib (vml U)))) (inSched U (thread_sleep (lists U) 100))"

definition kernel_thread :: "'d ulib \<Rightarrow> ('d usr, unit) K" where
  "kernel_thread U = bindK (inSched U (getK running)) (\<lambda>t. bindK (derefK (\<lambda>s. kernel_frames s t)) (\<lambda>(func, aux).
     thenK (inSched U (modK (\<lambda>s. s\<lparr>intr_on := True\<rparr>)))
     (case func of IDLE \<Rightarrow> idle U (unat aux)
      | CACHE_WRITEBACK \<Rightarrow> inSched U (thread_sleep (lists U) 100)
      | START_PROCESS \<Rightarrow> bindK (start_process U aux) (\<lambda>_. retK ())
      | SEMA_TEST \<Rightarrow> retK ())))"

definition syscall_init :: "('d usr, unit) K" where
  "syscall_init = onFs (modK (\<lambda>s. s\<lparr>file_lock := None\<rparr>))"

section \<open>Devices and actions\<close>

definition locate_block_device :: "'d machine \<Rightarrow> block_type \<Rightarrow> cstr option \<Rightarrow> ('d boot, unit) K" where
  "locate_block_device X role nm = bindK (case nm of
       Some n \<Rightarrow> bindK (expect (find (\<lambda>(m, _, _). m = n) (devices X))) (\<lambda>(_, _, d). retK (Some d))
     | None \<Rightarrow> retK (map_option (\<lambda>(_, _, d). d) (find (\<lambda>(_, ty, _). ty = Some role) (devices X)))) (\<lambda>block.
     case block of None \<Rightarrow> retK () | Some d \<Rightarrow> modK (\<lambda>s. s\<lparr>roles := (roles s)(role \<mapsto> d)\<rparr>))"

definition locate_block_devices :: "'d ulib \<Rightarrow> 'd machine \<Rightarrow> ('d boot, unit) K" where
  "locate_block_devices U X = thenK (bindK (getK filesys_bdev_name) (locate_block_device X BLOCK_FILESYS))
     (thenK (bindK (getK scratch_bdev_name) (locate_block_device X BLOCK_SCRATCH))
     (thenK (bindK (getK swap_bdev_name) (locate_block_device X BLOCK_SWAP))
     (bindK (getK (\<lambda>s. roles s BLOCK_SWAP)) (\<lambda>d. inKern (inVm (init_swap (vml U) d))))))"

datatype action = RUN | LS | CAT | RM | EXTRACT | APPEND

text \<open>The table of actions: the name, the number of arguments after it, the function.\<close>

definition actions :: "(cstr \<times> nat \<times> action) list" where
  "actions = [(lit ''run'', 1, RUN), (lit ''ls'', 0, LS), (lit ''cat'', 1, CAT), (lit ''rm'', 1, RM),
     (lit ''extract'', 0, EXTRACT), (lit ''append'', 1, APPEND)]"

definition run_task :: "'d ulib \<Rightarrow> cstr \<Rightarrow> ('d usr, unit) K" where
  "run_task U task = bindK (process_execute U task) (\<lambda>t. bindK (process_wait t) (\<lambda>_. retK ()))"

definition invoke :: "'d ulib \<Rightarrow> toolbox \<Rightarrow> action \<Rightarrow> cstr list \<Rightarrow> ('d boot, unit) K" where
  "invoke U T a args = (case a of RUN \<Rightarrow> inKern (run_task U (hd args)) | LS \<Rightarrow> fsutil_ls U
     | CAT \<Rightarrow> fsutil_cat U T (hd args) | RM \<Rightarrow> fsutil_rm U (hd args) | EXTRACT \<Rightarrow> fsutil_extract U T
     | APPEND \<Rightarrow> fsutil_append U T (hd args))"

function run_actions :: "'d ulib \<Rightarrow> toolbox \<Rightarrow> cstr list \<Rightarrow> ('d boot, unit) K" where
  "run_actions U T [] = retK ()"
| "run_actions U T (a # args) = (case find (\<lambda>(m, _, _). m = a) actions of None \<Rightarrow> failK PANIC
     | Some (_, n, act) \<Rightarrow> if length args < n then failK PANIC
         else thenK (invoke U T act (take n args)) (run_actions U T (drop n args)))"
  by pat_completeness auto
termination by (relation "measure (\<lambda>(U, T, args). length args)") auto

text \<open>
  \<^verbatim>\<open>main\<close> until \<^verbatim>\<open>thread_start\<close> may have to wait: the actions to run later, \<open>None\<close> when the machine is off.
  And \<^verbatim>\<open>main\<close> from there on; the thread that \<^verbatim>\<open>cache_system_init\<close> creates does not run before the next switch,
  since it has the priority of the first thread.
\<close>

definition main_begin :: "'d ulib \<Rightarrow> 'd machine \<Rightarrow> addr \<Rightarrow> ('d boot, (cstr list \<times> bool) option) K" where
  "main_begin U X sema = bindK (liftK (read_command_line X)) (\<lambda>argv. bindK (parse_options argv) (\<lambda>r. case r of
     None \<Rightarrow> retK None
   | Some argv \<Rightarrow> thenK (inKern (thread_init U)) (thenK (inKern (inVm (paging_init (hw (vml U)) X)))
       (thenK (inKern syscall_init) (bindK (inKern (thread_start U sema)) (\<lambda>b. retK (Some (argv, b))))))))"

definition main_end :: "'d ulib \<Rightarrow> 'd machine \<Rightarrow> toolbox \<Rightarrow> cstr list \<Rightarrow> ('d boot, unit) K" where
  "main_end U X T argv = thenK (locate_block_devices U X)
     (bindK (getK (\<lambda>s. roles s BLOCK_FILESYS)) (\<lambda>d. bindK (getK format_filesys) (\<lambda>fmt.
      thenK (utilFs (filesys_init (lib (vml U)) d fmt))
     (bindK (inKern (unswitched (thread_create U (Some (lit ''cwf'')) PRI_DEFAULT CACHE_WRITEBACK 0))) (\<lambda>_.
      thenK (run_actions U T argv)
     (bindK (getK shutdown_how) (\<lambda>how.
      thenK (whenK (how \<noteq> SHUTDOWN_NONE) (inKern (modK (\<lambda>s. s\<lparr>powered_off := True\<rparr>))))
     (inKern (thread_exit U)))))))))"

end
