(* ===== verification/Address_Space.thy ===== *)
theory Address_Space
  imports Pintos_Prelude
begin

text \<open>
  The interface that demand paging needs of a page directory, as a locale: a map from virtual
  pages to entries, zero where there is none, with the operations that look a page up, map
  and unmap it. The laws say which entry an operation changes and that it changes no other, and
  mapping succeeds exactly when there is room for the entry.
\<close>

locale address_space =
  fixes entry :: "'s \<Rightarrow> u32 \<Rightarrow> u32"
    and ready :: "'s \<Rightarrow> bool"
    and user :: "u32 \<Rightarrow> bool"
    and vpage :: "u32 \<Rightarrow> 'p"
    and aligned :: "u32 \<Rightarrow> bool"
    and frame_ok :: "u32 \<Rightarrow> bool"
    and mk :: "u32 \<Rightarrow> bool \<Rightarrow> u32"
    and present :: "u32 \<Rightarrow> bool"
    and frame_of :: "u32 \<Rightarrow> u32"
    and writable :: "u32 \<Rightarrow> bool"
    and room :: "'s \<Rightarrow> u32 \<Rightarrow> bool"
    and unset :: "u32 \<Rightarrow> u32"
    and offset :: "u32 \<Rightarrow> u32"
    and get :: "u32 \<Rightarrow> ('s, u32 option) K"
    and map_page :: "u32 \<Rightarrow> u32 \<Rightarrow> bool \<Rightarrow> ('s, bool) K"
    and clear :: "u32 \<Rightarrow> ('s, unit) K"
  assumes mk_present: "frame_ok k \<Longrightarrow> present (mk k w)"
    and mk_frame: "frame_ok k \<Longrightarrow> frame_of (mk k w) = k"
    and mk_writable: "frame_ok k \<Longrightarrow> writable (mk k w) = w"
    and unset_absent: "\<not> present (unset e)"
    and entry_page: "vpage u = vpage v \<Longrightarrow> entry s u = entry s v"
    and get_law: "ready s \<Longrightarrow> user v \<Longrightarrow> wpK (get v)
      (\<lambda>r t. t = s \<and> r = (if present (entry s v) then Some (frame_of (entry s v) + offset v) else None)) s"
    and map_law: "ready s \<Longrightarrow> user u \<Longrightarrow> aligned u \<Longrightarrow> frame_ok k \<Longrightarrow> \<not> present (entry s u) \<Longrightarrow> wpK (map_page u k w)
      (\<lambda>r t. ready t \<and> r = room s u \<and> entry t u = (if r then mk k w else entry s u) \<and>
        (\<forall>v. user v \<longrightarrow> vpage v \<noteq> vpage u \<longrightarrow> entry t v = entry s v)) s"
    and clear_law: "ready s \<Longrightarrow> user u \<Longrightarrow> aligned u \<Longrightarrow> wpK (clear u)
      (\<lambda>_ t. ready t \<and> entry t u = unset (entry s u) \<and>
        (\<forall>v. user v \<longrightarrow> vpage v \<noteq> vpage u \<longrightarrow> entry t v = entry s v)) s"
begin

text \<open>The address that a lookup gives, as a function of the entry.\<close>

definition translate :: "'s \<Rightarrow> u32 \<Rightarrow> u32 option" where
  "translate s v = (if present (entry s v) then Some (frame_of (entry s v) + offset v) else None)"

lemma get_wp: "ready s \<Longrightarrow> user v \<Longrightarrow> Q (translate s v) s \<Longrightarrow> wpK (get v) Q s"
  by (rule wpK_mono[OF get_law]) (auto simp: translate_def)

text \<open>The entries after mapping a page: if there is room, all addresses in the page have the new one.\<close>

lemma map_entries:
  assumes "ready s" "user u" "aligned u" "frame_ok k" "translate s u = None"
  shows "wpK (map_page u k w) (\<lambda>r t. ready t \<and> r = room s u \<and> (\<forall>v. user v \<longrightarrow> entry t v =
    (if room s u \<and> vpage v = vpage u then mk k w else entry s v))) s"
proof -
  have "\<not> present (entry s u)" using assms(5) by (auto simp: translate_def split: if_splits)
  from map_law[OF assms(1-4) this, of w] show ?thesis
  proof (rule wpK_mono, intro conjI allI impI)
    fix r t v assume t: "ready t \<and> r = room s u \<and> entry t u = (if r then mk k w else entry s u) \<and>
        (\<forall>v. user v \<longrightarrow> vpage v \<noteq> vpage u \<longrightarrow> entry t v = entry s v)" and v: "user v"
    show "entry t v = (if room s u \<and> vpage v = vpage u then mk k w else entry s v)"
    proof (cases "vpage v = vpage u")
      case True
      then show ?thesis using t entry_page[OF True, of t] entry_page[OF True, of s] by simp
    qed (use t v in simp)
  qed simp_all
qed

text \<open>A page that was mapped is found, at every address in it, with the wanted access, and no other page has changed.\<close>

lemma map_translate:
  assumes "ready s" "user u" "aligned u" "frame_ok k" "translate s u = None"
  shows "wpK (map_page u k w) (\<lambda>r t. ready t \<and> r = room s u \<and> (\<forall>v. user v \<longrightarrow> translate t v =
    (if room s u \<and> vpage v = vpage u then Some (k + offset v) else translate s v) \<and>
    (room s u \<longrightarrow> vpage v = vpage u \<longrightarrow> writable (entry t v) = w))) s"
  by (rule wpK_mono[OF map_entries[OF assms]])
     (use mk_present[OF assms(4)] mk_frame[OF assms(4)] mk_writable[OF assms(4)] in \<open>auto simp: translate_def\<close>)

text \<open>The entries after clearing a page, which is not found then.\<close>

lemma clear_entries:
  assumes "ready s" "user u" "aligned u"
  shows "wpK (clear u) (\<lambda>_ t. ready t \<and> (\<forall>v. user v \<longrightarrow> entry t v =
    (if vpage v = vpage u then unset (entry s v) else entry s v))) s"
proof (rule wpK_mono[OF clear_law[OF assms]], intro conjI allI impI)
  fix r :: unit and t v
  assume t: "ready t \<and> entry t u = unset (entry s u) \<and> (\<forall>v. user v \<longrightarrow> vpage v \<noteq> vpage u \<longrightarrow> entry t v = entry s v)" and v: "user v"
  show "entry t v = (if vpage v = vpage u then unset (entry s v) else entry s v)"
  proof (cases "vpage v = vpage u")
    case True
    then show ?thesis using t entry_page[OF True, of t] entry_page[OF True, of s] by simp
  qed (use t v in simp)
qed simp

lemma clear_translate:
  assumes "ready s" "user u" "aligned u"
  shows "wpK (clear u) (\<lambda>_ t. ready t \<and> (\<forall>v. user v \<longrightarrow> translate t v =
    (if vpage v = vpage u then None else translate s v))) s"
  by (rule wpK_mono[OF clear_entries[OF assms]]) (use unset_absent in \<open>auto simp: translate_def\<close>)

text \<open>Mapping a page and clearing it again leaves every translation as it was.\<close>

lemma map_clear:
  assumes "ready s" "user u" "aligned u" "frame_ok k" "translate s u = None"
  shows "wpK (thenK (map_page u k w) (clear u)) (\<lambda>_ t. ready t \<and> (\<forall>v. user v \<longrightarrow> translate t v = translate s v)) s"
  unfolding wpK_then
proof (rule wpK_mono[OF map_translate[OF assms]])
  have same: "translate s v = None" if "vpage v = vpage u" for v
    using entry_page[OF that, of s] assms(5) by (auto simp: translate_def split: if_splits)
  fix r :: bool and t
  assume t: "ready t \<and> r = room s u \<and> (\<forall>v. user v \<longrightarrow> translate t v =
    (if room s u \<and> vpage v = vpage u then Some (k + offset v) else translate s v) \<and>
    (room s u \<longrightarrow> vpage v = vpage u \<longrightarrow> writable (entry t v) = w))"
  then have "ready t" by blast
  from clear_translate[OF this assms(2,3)]
  show "wpK (clear u) (\<lambda>_ t. ready t \<and> (\<forall>v. user v \<longrightarrow> translate t v = translate s v)) t"
    by (rule wpK_mono) (use t same in auto)
qed

end

end
