(* ===== verification/Page_Dir_Facts.thy ===== *)
theory Page_Dir_Facts
  imports Page_Dir Address_Space
begin

text \<open>
  What the operations on page directories do, in terms of the entry of each user page: the
  documented behaviour of the page table accessors, a well-formedness invariant of
  directories, and the interpretation of \<open>address_space\<close>.
\<close>

section \<open>The documented behaviour of pte.h, vaddr.h and palloc.c\<close>

definition kernel_page :: "mmu \<Rightarrow> u32 \<Rightarrow> bool" where
  "kernel_page M k \<longleftrightarrow> PHYS_BASE M \<le> k \<and> pg_ofs M k = 0 \<and> unat (drop_bit 12 (vtop M k)) < init_ram_pages M"

definition pte_flags :: "mmu \<Rightarrow> u32 set" where
  "pte_flags M = {PTE_P M, PTE_W M, PTE_A M, PTE_D M}"

text \<open>
  \<^verbatim>\<open>vaddr.h\<close>: the low 12 bits of an address are the offset in its page, addresses below
  \<^verbatim>\<open>PHYS_BASE\<close>, a multiple of 4 MB, are the user's; \<^verbatim>\<open>pte.h\<close>: the upper 10 bits select the
  directory entry and the next 10 the table entry, and entries hold a page and flags.
\<close>

definition vaddr_ok :: "mmu \<Rightarrow> bool" where
  "vaddr_ok M \<longleftrightarrow> (\<forall>v. is_user_vaddr M v \<longleftrightarrow> v < PHYS_BASE M) \<and> (\<forall>v. unat (pg_ofs M v) = unat v mod 4096) \<and>
     (\<forall>v. pg_round_down M v = v - pg_ofs M v) \<and> (\<forall>v. pd_no M v = unat v div 2 ^ 22) \<and>
     (\<forall>v. pt_no M v = unat v div 4096 mod 1024) \<and> unat (PHYS_BASE M) mod 2 ^ 22 = 0"

definition pte_ok :: "mmu \<Rightarrow> bool" where
  "pte_ok M \<longleftrightarrow> (\<forall>k w. kernel_page M k \<longrightarrow> pde_create M k \<noteq> 0 \<and> pde_create M k AND PTE_P M \<noteq> 0 \<and>
       pde_get_pt M (pde_create M k) = k \<and> pte_get_page M (pte_create_user M k w) = k \<and>
       pte_create_user M k w AND PTE_P M \<noteq> 0 \<and> pte_create_user M k w AND PTE_A M = 0 \<and>
       pte_create_user M k w AND PTE_D M = 0 \<and> (pte_create_user M k w AND PTE_W M \<noteq> 0) = w \<and> ptov M (vtop M k) = k) \<and>
     (\<forall>f\<in>pte_flags M. \<forall>x. pte_get_page M (x OR f) = pte_get_page M x \<and>
       pte_get_page M (x AND NOT f) = pte_get_page M x) \<and>
     PTE_P M \<noteq> 0 \<and> (\<forall>f\<in>pte_flags M - {PTE_P M}. PTE_P M AND f = 0)"

text \<open>\<^verbatim>\<open>palloc.c\<close>: an allocated page is a page of the kernel's that is not in use.\<close>

definition palloc_ok :: "mmu \<Rightarrow> bool" where
  "palloc_ok M \<longleftrightarrow> (\<forall>u used p. palloc M u used = Some p \<longrightarrow> \<not> used p \<and> kernel_page M p) \<and>
     length (palloc_junk M) = PGSIZE"

definition mmu_ok :: "mmu \<Rightarrow> bool" where
  "mmu_ok M \<longleftrightarrow> vaddr_ok M \<and> pte_ok M \<and> palloc_ok M"

section \<open>Running the table operations\<close>

lemma word_at_wp [wp, simp]:
  "wpK (word_at p i) Q s \<longleftrightarrow> (\<exists>t. tables s p = Some t \<and> i < length t \<and> Q (t ! i) s)"
  by (auto simp: word_at_def)

lemma set_word_wp [wp, simp]:
  "wpK (set_word p i w) Q s \<longleftrightarrow> (\<exists>t. tables s p = Some t \<and> i < length t \<and> Q () (s\<lparr>tables := (tables s)(p \<mapsto> t[i := w])\<rparr>))"
  by (auto simp: set_word_def)

lemma palloc_get_table_wp:
  "wpK (palloc_get_table M ws) Q s \<longleftrightarrow> (case palloc M False (page_used s) of None \<Rightarrow> Q None s
     | Some p \<Rightarrow> Q (Some p) (s\<lparr>tables := (tables s)(p \<mapsto> ws)\<rparr>))"
  by (simp add: palloc_get_table_def split: option.splits)

lemma invalidate_pagedir_wp [wp, simp]:
  "wpK (invalidate_pagedir M d) Q s = Q () (if ptov M (cr3 s) = d then s\<lparr>cr3 := vtop M d\<rparr> else s)"
  by (simp add: invalidate_pagedir_def active_pd_def pagedir_activate_def)

lemma and_not_absent:
  fixes x p :: u32
  assumes "x AND p = 0"
  shows "x AND NOT p = x"
proof (rule bit_word_eqI)
  fix n assume "n < LENGTH(32)"
  moreover have "\<not> bit (x AND p) n" using assms by simp
  ultimately show "bit (x AND NOT p) n = bit x n" by (auto simp: bit_and_iff bit_not_iff)
qed

section \<open>Directories as maps\<close>

text \<open>The entry of a page, zero when its table does not exist.\<close>

definition entry_of :: "mmu \<Rightarrow> (u32 \<Rightarrow> u32 list option) \<Rightarrow> u32 \<Rightarrow> u32 \<Rightarrow> u32" where
  "entry_of M T d v = (case T d of None \<Rightarrow> 0 | Some t \<Rightarrow>
     if t ! pd_no M v = 0 then 0 else (case T (pde_get_pt M (t ! pd_no M v)) of None \<Rightarrow> 0
       | Some pt \<Rightarrow> pt ! pt_no M v))"

text \<open>
  A directory of a process: 1024 entries, of which the ones for user addresses are zero or
  point to tables of 1024 entries, no two to the same one, and none to the directory.
\<close>

definition pd_ok :: "mmu \<Rightarrow> (u32 \<Rightarrow> u32 list option) \<Rightarrow> u32 \<Rightarrow> bool" where
  "pd_ok M T d \<longleftrightarrow> (\<exists>t. T d = Some t \<and> length t = 1024 \<and>
     (\<forall>i<pd_no M (PHYS_BASE M). t ! i \<noteq> 0 \<longrightarrow> pde_get_pt M (t ! i) \<noteq> d \<and>
       (\<exists>pt. T (pde_get_pt M (t ! i)) = Some pt \<and> length pt = 1024)) \<and>
     (\<forall>i<pd_no M (PHYS_BASE M). \<forall>j<pd_no M (PHYS_BASE M). t ! i \<noteq> 0 \<longrightarrow> t ! j \<noteq> 0 \<longrightarrow>
       pde_get_pt M (t ! i) = pde_get_pt M (t ! j) \<longrightarrow> i = j))"

lemma div_less_aligned:
  fixes a n k :: nat
  assumes "a < n" "n mod k = 0"
  shows "a div k < n div k"
proof -
  have "a < n div k * k" using assms mult_div_mod_eq[of k n] by (simp add: mult.commute)
  then show ?thesis by (rule less_mult_imp_div_less)
qed

lemma user_pd_no:
  assumes "vaddr_ok M" "is_user_vaddr M v"
  shows "pd_no M v < pd_no M (PHYS_BASE M)" "pd_no M v < 1024"
proof -
  have "unat v < unat (PHYS_BASE M)" using assms by (simp add: vaddr_ok_def word_less_nat_alt)
  then have "unat v div 2 ^ 22 < unat (PHYS_BASE M) div 2 ^ 22"
    by (rule div_less_aligned) (use assms(1) in \<open>simp add: vaddr_ok_def\<close>)
  then show "pd_no M v < pd_no M (PHYS_BASE M)" using assms(1) by (simp add: vaddr_ok_def)
  have "unat v < 2 ^ 32" using unsigned_less[of v, where ?'a = nat] by simp
  then show "pd_no M v < 1024" using assms(1) by (simp add: vaddr_ok_def)
qed

lemma pt_no_less: "vaddr_ok M \<Longrightarrow> pt_no M v < 1024"
  by (simp add: vaddr_ok_def)

text \<open>Where the entry of \<open>v\<close> is: the table \<open>pt\<close> of the directory \<open>d\<close>, with the words \<open>w\<close>.\<close>

definition table_of :: "mmu \<Rightarrow> (u32 \<Rightarrow> u32 list option) \<Rightarrow> u32 \<Rightarrow> u32 \<Rightarrow> u32 \<Rightarrow> u32 list \<Rightarrow> bool" where
  "table_of M T d v pt w \<longleftrightarrow> (\<exists>t. T d = Some t \<and> t ! pd_no M v \<noteq> 0 \<and> pt = pde_get_pt M (t ! pd_no M v)) \<and>
     T pt = Some w \<and> length w = 1024"

lemma table_of_entry: "table_of M T d v pt w \<Longrightarrow> entry_of M T d v = w ! pt_no M v"
  by (auto simp: table_of_def entry_of_def)

text \<open>Looking a page up without creating its table.\<close>

lemma lookup_page_run:
  assumes "vaddr_ok M" "pd_ok M (tables s) d" "is_user_vaddr M v"
    and "entry_of M (tables s) d v = 0 \<Longrightarrow> Q None s"
    and "\<And>pt w. table_of M (tables s) d v pt w \<Longrightarrow> Q (Some (pt, pt_no M v)) s"
  shows "wpK (lookup_page M (Some d) v False) Q s"
proof -
  obtain t where t: "tables s d = Some t" "length t = 1024" and tb: "\<forall>i<pd_no M (PHYS_BASE M). t ! i \<noteq> 0 \<longrightarrow>
      (\<exists>pt. tables s (pde_get_pt M (t ! i)) = Some pt \<and> length pt = 1024)"
    using assms(2) unfolding pd_ok_def by blast
  note i = user_pd_no[OF assms(1,3)]
  show ?thesis
  proof (cases "t ! pd_no M v = 0")
    case True
    then have "entry_of M (tables s) d v = 0" using t by (simp add: entry_of_def)
    then show ?thesis using assms(4) t i True by (simp add: lookup_page_def)
  next
    case False
    then obtain w where "tables s (pde_get_pt M (t ! pd_no M v)) = Some w" "length w = 1024" using tb i by blast
    then have "table_of M (tables s) d v (pde_get_pt M (t ! pd_no M v)) w" using t False by (simp add: table_of_def)
    then show ?thesis using assms(5) t i False by (simp add: lookup_page_def)
  qed
qed

text \<open>Writing one word of a table changes the entries of one page.\<close>

lemma pd_ok_unfold:
  assumes "pd_ok M T d"
  obtains t where "T d = Some t" "length t = 1024"
    "\<And>i. i < pd_no M (PHYS_BASE M) \<Longrightarrow> t ! i \<noteq> 0 \<Longrightarrow> pde_get_pt M (t ! i) \<noteq> d \<and>
      (\<exists>pt. T (pde_get_pt M (t ! i)) = Some pt \<and> length pt = 1024)"
    "\<And>i j. i < pd_no M (PHYS_BASE M) \<Longrightarrow> j < pd_no M (PHYS_BASE M) \<Longrightarrow> t ! i \<noteq> 0 \<Longrightarrow> t ! j \<noteq> 0 \<Longrightarrow>
      pde_get_pt M (t ! i) = pde_get_pt M (t ! j) \<Longrightarrow> i = j"
  using assms unfolding pd_ok_def by blast

lemma write_entry:
  fixes x :: u32
  assumes V: "vaddr_ok M" and ok: "pd_ok M T d" and u: "is_user_vaddr M u" and tb: "table_of M T d u pt w"
  defines "T' \<equiv> T(pt \<mapsto> w[pt_no M u := x])"
  shows "pd_ok M T' d" "entry_of M T' d u = x"
    "\<And>v. is_user_vaddr M v \<Longrightarrow> (pd_no M v, pt_no M v) \<noteq> (pd_no M u, pt_no M u) \<Longrightarrow> entry_of M T' d v = entry_of M T d v"
proof -
  obtain t where t: "T d = Some t" "length t = 1024" and e: "\<And>i. i < pd_no M (PHYS_BASE M) \<Longrightarrow> t ! i \<noteq> 0 \<Longrightarrow>
      pde_get_pt M (t ! i) \<noteq> d \<and> (\<exists>pt. T (pde_get_pt M (t ! i)) = Some pt \<and> length pt = 1024)"
    and inj: "\<And>i j. i < pd_no M (PHYS_BASE M) \<Longrightarrow> j < pd_no M (PHYS_BASE M) \<Longrightarrow> t ! i \<noteq> 0 \<Longrightarrow> t ! j \<noteq> 0 \<Longrightarrow>
      pde_get_pt M (t ! i) = pde_get_pt M (t ! j) \<Longrightarrow> i = j"
    using pd_ok_unfold[OF ok] by blast
  have pt: "t ! pd_no M u \<noteq> 0" "pt = pde_get_pt M (t ! pd_no M u)" "T pt = Some w" "length w = 1024"
    using tb t by (auto simp: table_of_def)
  note iu = user_pd_no[OF V u]
  have d: "pt \<noteq> d" using e[OF iu(1) pt(1)] pt(2) by blast
  then have t': "T' d = Some t" by (simp add: T'_def t)
  have len: "\<exists>q. T' (pde_get_pt M (t ! i)) = Some q \<and> length q = 1024"
    if "i < pd_no M (PHYS_BASE M)" "t ! i \<noteq> 0" for i
    using e[OF that] pt(4) by (auto simp: T'_def)
  then show "pd_ok M T' d" unfolding pd_ok_def using t' t(2) e inj by blast
  show "entry_of M T' d u = x" using t' pt pt_no_less[OF V, of u] by (simp add: entry_of_def T'_def)
  fix v assume v: "is_user_vaddr M v" and ne: "(pd_no M v, pt_no M v) \<noteq> (pd_no M u, pt_no M u)"
  show "entry_of M T' d v = entry_of M T d v"
  proof (cases "t ! pd_no M v = 0 \<or> pde_get_pt M (t ! pd_no M v) \<noteq> pt")
    case True
    then show ?thesis using t' t by (auto simp: entry_of_def T'_def)
  next
    case False
    then have "pd_no M v = pd_no M u" using inj[OF user_pd_no(1)[OF V v] iu(1)] pt by simp
    then show ?thesis using t' t pt ne by (simp add: entry_of_def T'_def)
  qed
qed

text \<open>A new, empty table for \<open>u\<close> changes no entry.\<close>

lemma new_table:
  assumes V: "vaddr_ok M" and ok: "pd_ok M T d" and u: "is_user_vaddr M u" and t: "T d = Some t" "t ! pd_no M u = 0"
    and p: "T p = None" "pde_get_pt M x = p" "x \<noteq> 0"
  defines "T' \<equiv> T(p \<mapsto> replicate 1024 0, d \<mapsto> t[pd_no M u := x])"
  shows "pd_ok M T' d" "table_of M T' d u p (replicate 1024 0)" "entry_of M T' d u = 0"
    "\<And>v. is_user_vaddr M v \<Longrightarrow> entry_of M T' d v = entry_of M T d v"
proof -
  obtain len: "length t = 1024" and tab: "\<And>i. i < pd_no M (PHYS_BASE M) \<Longrightarrow> t ! i \<noteq> 0 \<Longrightarrow>
      pde_get_pt M (t ! i) \<noteq> d \<and> (\<exists>pt. T (pde_get_pt M (t ! i)) = Some pt \<and> length pt = 1024)"
    and inj: "\<And>i j. i < pd_no M (PHYS_BASE M) \<Longrightarrow> j < pd_no M (PHYS_BASE M) \<Longrightarrow> t ! i \<noteq> 0 \<Longrightarrow> t ! j \<noteq> 0 \<Longrightarrow>
      pde_get_pt M (t ! i) = pde_get_pt M (t ! j) \<Longrightarrow> i = j"
    using pd_ok_unfold[OF ok] t(1) by (metis option.inject)
  note iu = user_pd_no[OF V u]
  let ?t = "t[pd_no M u := x]"
  have pd: "p \<noteq> d" using t p by auto
  have T': "T' d = Some ?t" "T' p = Some (replicate 1024 0)" using pd by (simp_all add: T'_def)
  have other: "?t ! i = t ! i" if "i \<noteq> pd_no M u" for i using that by simp
  have np: "pde_get_pt M (t ! i) \<noteq> p" if "i < pd_no M (PHYS_BASE M)" "t ! i \<noteq> 0" for i using tab[OF that] p by auto
  have xu: "?t ! pd_no M u = x" using iu len by simp
  have "pde_get_pt M (?t ! i) \<noteq> d \<and> (\<exists>pt. T' (pde_get_pt M (?t ! i)) = Some pt \<and> length pt = 1024)"
    if "i < pd_no M (PHYS_BASE M)" "?t ! i \<noteq> 0" for i
  proof (cases "i = pd_no M u")
    case True
    then show ?thesis using p pd T' xu by simp
  next
    case False
    then show ?thesis using tab[of i] np[of i] that other[OF False] by (auto simp: T'_def)
  qed
  moreover have "i = j" if "i < pd_no M (PHYS_BASE M)" "j < pd_no M (PHYS_BASE M)" "?t ! i \<noteq> 0" "?t ! j \<noteq> 0"
      "pde_get_pt M (?t ! i) = pde_get_pt M (?t ! j)" for i j
    using inj[of i j] that np[of i] np[of j] xu p(2) other[of i] other[of j] by metis
  ultimately show "pd_ok M T' d" unfolding pd_ok_def using T'(1) len by (metis length_list_update)
  show tb: "table_of M T' d u p (replicate 1024 0)" using T' xu p by (simp add: table_of_def)
  show e: "entry_of M T' d u = 0" using table_of_entry[OF tb] pt_no_less[OF V, of u] by simp
  fix v assume v: "is_user_vaddr M v"
  show "entry_of M T' d v = entry_of M T d v"
  proof (cases "pd_no M v = pd_no M u")
    case True
    then show ?thesis using T' t xu p pt_no_less[OF V, of v] by (simp add: entry_of_def)
  next
    case False
    then show ?thesis
      using T' t np[OF user_pd_no(1)[OF V v]] tab[OF user_pd_no(1)[OF V v]] other[of "pd_no M v"]
      by (simp add: entry_of_def) (simp add: T'_def)
  qed
qed

section \<open>The operations in terms of entries\<close>

lemma test_flag_wp:
  assumes "vaddr_ok M" "pd_ok M (tables s) d" "is_user_vaddr M v" "Q (entry_of M (tables s) d v AND f \<noteq> 0) s"
  shows "wpK (test_flag M f (Some d) v) Q s"
  unfolding test_flag_def wpK_bind
  by (rule lookup_page_run[OF assms(1-3)])
     (use assms pt_no_less[OF assms(1), of v] in \<open>auto simp: table_of_entry, auto simp: table_of_def\<close>)

lemma get_page_wp:
  assumes "vaddr_ok M" "pd_ok M (tables s) d" "is_user_vaddr M v"
    "Q (if entry_of M (tables s) d v AND PTE_P M \<noteq> 0
      then Some (pte_get_page M (entry_of M (tables s) d v) + pg_ofs M v) else None) s"
  shows "wpK (pagedir_get_page M (Some d) v) Q s"
proof -
  have "wpK (lookup_page M (Some d) v False) (\<lambda>r. wpK (case r of None \<Rightarrow> retK None
     | Some (pt, i) \<Rightarrow> bindK (word_at pt i) (\<lambda>pte.
         retK (if pte AND PTE_P M \<noteq> 0 then Some (pte_get_page M pte + pg_ofs M v) else None))) Q) s"
  proof (rule lookup_page_run[OF assms(1-3)])
    fix pt w assume tb: "table_of M (tables s) d v pt w"
    then have "tables s pt = Some w" "length w = 1024" by (simp_all add: table_of_def)
    then show "wpK (case Some (pt, pt_no M v) of None \<Rightarrow> retK None | Some (pt, i) \<Rightarrow> bindK (word_at pt i) (\<lambda>pte.
         retK (if pte AND PTE_P M \<noteq> 0 then Some (pte_get_page M pte + pg_ofs M v) else None))) Q s"
      using assms(4) pt_no_less[OF assms(1), of v]
      by (cases "w ! pt_no M v AND PTE_P M = 0") (simp_all add: table_of_entry[OF tb])
  qed (use assms(4) in simp)
  then show ?thesis using assms(3) by (simp add: pagedir_get_page_def)
qed

text \<open>The new entry \<open>x\<close> of the page of \<open>u\<close>, with the entries of all other pages as before.\<close>

definition entry_set :: "mmu \<Rightarrow> u32 \<Rightarrow> u32 \<Rightarrow> u32 \<Rightarrow> 'z pg_scheme \<Rightarrow> 'z pg_scheme \<Rightarrow> bool" where
  "entry_set M d u x s t \<longleftrightarrow> pd_ok M (tables t) d \<and> entry_of M (tables t) d u = x \<and>
     (\<forall>v. is_user_vaddr M v \<longrightarrow> (pd_no M v, pt_no M v) \<noteq> (pd_no M u, pt_no M u) \<longrightarrow>
       entry_of M (tables t) d v = entry_of M (tables s) d v) \<and>
     (\<exists>T c. t = s\<lparr>tables := T, cr3 := c\<rparr>)"

lemma entry_set_same: "pd_ok M (tables s) d \<Longrightarrow> entry_of M (tables s) d u = x \<Longrightarrow> entry_set M d u x s s"
  unfolding entry_set_def by (auto intro!: exI[of _ "tables s"] exI[of _ "cr3 s"])

lemma entry_set_write:
  assumes "vaddr_ok M" "pd_ok M (tables s) d" "is_user_vaddr M u" "table_of M (tables s) d u pt w"
  shows "entry_set M d u x s (s\<lparr>tables := (tables s)(pt \<mapsto> w[pt_no M u := x]), cr3 := c\<rparr>)"
  unfolding entry_set_def using write_entry[OF assms, where x = x] by (auto simp del: fun_upd_apply)

lemma entry_set_write_same:
  assumes "vaddr_ok M" "pd_ok M (tables s) d" "is_user_vaddr M u" "table_of M (tables s) d u pt w"
  shows "entry_set M d u x s (s\<lparr>tables := (tables s)(pt \<mapsto> w[pt_no M u := x])\<rparr>)"
  using entry_set_write[OF assms, of x "cr3 s"] by simp

lemma clear_page_wp:
  assumes "vaddr_ok M" "pd_ok M (tables s) d" "is_user_vaddr M u" "pg_ofs M u = 0"
    and Q: "\<And>t. entry_set M d u (entry_of M (tables s) d u AND NOT (PTE_P M)) s t \<Longrightarrow> tables t = tables s \<or>
      (\<exists>pt w x. table_of M (tables s) d u pt w \<and> tables t = (tables s)(pt \<mapsto> w[pt_no M u := x])) \<Longrightarrow> Q () t"
  shows "wpK (pagedir_clear_page M (Some d) u) Q s"
proof -
  let ?e = "entry_of M (tables s) d u"
  have keep: "Q () s" if "?e AND PTE_P M = 0"
  proof -
    have "?e AND NOT (PTE_P M) = ?e" using that by (rule and_not_absent)
    then show ?thesis using Q[OF entry_set_same[OF assms(2)]] by simp
  qed
  have "wpK (lookup_page M (Some d) u False) (\<lambda>r. wpK (case r of None \<Rightarrow> retK ()
     | Some (pt, i) \<Rightarrow> bindK (word_at pt i) (\<lambda>pte. whenK (pte AND PTE_P M \<noteq> 0)
         (thenK (set_word pt i (pte AND NOT (PTE_P M))) (invalidate_pagedir M d)))) Q) s"
  proof (rule lookup_page_run[OF assms(1-3)])
    fix pt w assume tb: "table_of M (tables s) d u pt w"
    then have w: "tables s pt = Some w" "length w = 1024" by (simp_all add: table_of_def)
    let ?x = "w ! pt_no M u AND NOT (PTE_P M)"
    have q: "Q () (s\<lparr>tables := (tables s)(pt \<mapsto> w[pt_no M u := ?x]), cr3 := c\<rparr>)" for c
    proof (rule Q)
      show "entry_set M d u (?e AND NOT (PTE_P M)) s (s\<lparr>tables := (tables s)(pt \<mapsto> w[pt_no M u := ?x]), cr3 := c\<rparr>)"
        using entry_set_write[OF assms(1-3) tb] by (simp only: table_of_entry[OF tb])
    qed (use tb in \<open>auto simp del: fun_upd_apply\<close>)
    have q': "Q () (s\<lparr>tables := (tables s)(pt \<mapsto> w[pt_no M u := ?x])\<rparr>)" using q[of "cr3 s"] by simp
    show "wpK (case Some (pt, pt_no M u) of None \<Rightarrow> retK () | Some (pt, i) \<Rightarrow> bindK (word_at pt i) (\<lambda>pte.
        whenK (pte AND PTE_P M \<noteq> 0) (thenK (set_word pt i (pte AND NOT (PTE_P M))) (invalidate_pagedir M d)))) Q s"
      using w keep q q' pt_no_less[OF assms(1), of u] table_of_entry[OF tb]
      by (cases "w ! pt_no M u AND PTE_P M = 0") simp_all
  qed (use keep in simp)
  then show ?thesis unfolding pagedir_clear_page_def option.sel using assms(3,4) by simp
qed

text \<open>There is room for an entry when its page table exists or a page for it can be allocated.\<close>

definition table_room :: "mmu \<Rightarrow> u32 \<Rightarrow> 'z pg_scheme \<Rightarrow> u32 \<Rightarrow> bool" where
  "table_room M d s u \<longleftrightarrow> (\<exists>t. tables s d = Some t \<and> t ! pd_no M u \<noteq> 0) \<or> palloc M False (page_used s) \<noteq> None"

lemma set_page_wp:
  assumes M: "mmu_ok M" and ok: "pd_ok M (tables s) d" and u: "is_user_vaddr M u" "pg_ofs M u = 0"
    and k: "kernel_page M k" and ne: "d \<noteq> init_page_dir s" and free: "entry_of M (tables s) d u AND PTE_P M = 0"
    and none: "\<And>t. \<not> table_room M d s u \<Longrightarrow> entry_set M d u (entry_of M (tables s) d u) s t \<Longrightarrow> Q False t"
    and some: "\<And>t. table_room M d s u \<Longrightarrow> entry_set M d u (pte_create_user M k w) s t \<Longrightarrow> Q True t"
  shows "wpK (pagedir_set_page M (Some d) u k w) Q s"
proof -
  have V: "vaddr_ok M" and P: "pte_ok M" and A: "palloc_ok M" using M by (simp_all add: mmu_ok_def)
  obtain t where t: "tables s d = Some t" "length t = 1024" using ok unfolding pd_ok_def by blast
  note iu = user_pd_no[OF V u(1)]
  have asserts: "pg_ofs M k = 0" "unat (drop_bit 12 (vtop M k)) < init_ram_pages M" using k by (simp_all add: kernel_page_def)
  show ?thesis
  proof (cases "t ! pd_no M u = 0")
    case False
    then obtain pt v where tb: "table_of M (tables s) d u pt v" and pt: "pt = pde_get_pt M (t ! pd_no M u)"
      using ok t iu unfolding pd_ok_def table_of_def by fastforce
    then have v: "tables s pt = Some v" "length v = 1024" by (simp_all add: table_of_def)
    show ?thesis
      using False t iu pt v asserts u ne free table_of_entry[OF tb] pt_no_less[OF V, of u]
        some[OF _ entry_set_write_same[OF V ok u(1) tb]]
      by (simp add: pagedir_set_page_def lookup_page_def table_room_def)
  next
    case True
    then have e0: "entry_of M (tables s) d u = 0" using t by (simp add: entry_of_def)
    show ?thesis
    proof (cases "palloc M False (page_used s)")
      case None
      then show ?thesis using True t iu asserts u ne none[OF _ entry_set_same[OF ok refl]]
        by (simp add: pagedir_set_page_def lookup_page_def palloc_get_table_wp table_room_def)
    next
      case (Some p)
      then have p: "\<not> page_used s p" "kernel_page M p" using A by (auto simp: palloc_ok_def)
      then have pn: "tables s p = None" by (simp add: page_used_def)
      have x: "pde_get_pt M (pde_create M p) = p" "pde_create M p \<noteq> 0" using P p(2) by (auto simp: pte_ok_def)
      let ?t = "t[pd_no M u := pde_create M p]"
      let ?T = "(tables s)(p \<mapsto> replicate 1024 0, d \<mapsto> ?t)"
      note new = new_table[OF V ok u(1) t(1) True pn x]
      have pd: "p \<noteq> d" using t pn by auto
      note wr = write_entry[OF V new(1) u(1) new(2), where x = "pte_create_user M k w"]
      let ?T2 = "?T(p \<mapsto> (replicate 1024 0)[pt_no M u := pte_create_user M k w])"
      have "entry_set M d u (pte_create_user M k w) s (s\<lparr>tables := ?T2\<rparr>)"
        unfolding entry_set_def using wr new(4) by (auto simp del: fun_upd_apply intro!: exI[of _ ?T2] exI[of _ "cr3 s"])
      from some[OF _ this] show ?thesis
        using True Some t iu asserts u ne x pd pt_no_less[OF V, of u]
        by (simp add: pagedir_set_page_def lookup_page_def palloc_get_table_wp TABLE_WORDS_def fun_upd_twist table_room_def)
    qed
  qed
qed

lemma set_flag_wp:
  assumes "vaddr_ok M" "pd_ok M (tables s) d" "is_user_vaddr M u"
    and Q: "\<And>t x. entry_set M d u x s t \<Longrightarrow> x \<in> (if b then {entry_of M (tables s) d u, entry_of M (tables s) d u OR f}
      else {entry_of M (tables s) d u AND NOT f}) \<Longrightarrow>
      (entry_of M (tables s) d u \<noteq> 0 \<Longrightarrow> b \<Longrightarrow> x = entry_of M (tables s) d u OR f) \<Longrightarrow> Q () t"
  shows "wpK (set_flag M f (Some d) u b) Q s"
proof -
  let ?e = "entry_of M (tables s) d u"
  have "wpK (lookup_page M (Some d) u False) (\<lambda>r. wpK (case r of None \<Rightarrow> retK ()
     | Some (pt, i) \<Rightarrow> bindK (word_at pt i) (\<lambda>pte. if b then set_word pt i (pte OR f)
         else thenK (set_word pt i (pte AND NOT f)) (invalidate_pagedir M d))) Q) s"
  proof (rule lookup_page_run[OF assms(1-3)])
    assume "?e = 0"
    then show "wpK (case None of None \<Rightarrow> retK () | Some (pt, i) \<Rightarrow> bindK (word_at pt i) (\<lambda>pte.
        if b then set_word pt i (pte OR f) else thenK (set_word pt i (pte AND NOT f)) (invalidate_pagedir M d))) Q s"
      using Q[OF entry_set_same[OF assms(2) refl]] by (cases b) simp_all
  next
    fix pt w assume tb: "table_of M (tables s) d u pt w"
    then have w: "tables s pt = Some w" "length w = 1024" by (simp_all add: table_of_def)
    show "wpK (case Some (pt, pt_no M u) of None \<Rightarrow> retK () | Some (pt, i) \<Rightarrow> bindK (word_at pt i) (\<lambda>pte.
        if b then set_word pt i (pte OR f) else thenK (set_word pt i (pte AND NOT f)) (invalidate_pagedir M d))) Q s"
      using w Q[OF entry_set_write[OF assms(1-3) tb]] Q[OF entry_set_write_same[OF assms(1-3) tb]]
        pt_no_less[OF assms(1), of u] table_of_entry[OF tb]
      by (cases b) simp_all
  qed
  then show ?thesis unfolding set_flag_def option.sel by simp
qed

text \<open>
  A directory of a process provides the interface: the entries of its pages, for the
  documented behaviour of the accessors.
\<close>

definition dir_ready :: "mmu \<Rightarrow> u32 \<Rightarrow> 'z pg_scheme \<Rightarrow> bool" where
  "dir_ready M d s \<longleftrightarrow> mmu_ok M \<and> pd_ok M (tables s) d \<and> d \<noteq> init_page_dir s"

lemma entry_set_dir_ready: "dir_ready M d s \<Longrightarrow> entry_set M d u x s t \<Longrightarrow> dir_ready M d t"
  by (auto simp: dir_ready_def entry_set_def)

lemma entry_set_other:
  "entry_set M d u x s t \<Longrightarrow> is_user_vaddr M v \<Longrightarrow> (pd_no M v, pt_no M v) \<noteq> (pd_no M u, pt_no M u) \<Longrightarrow>
    entry_of M (tables t) d v = entry_of M (tables s) d v"
  by (simp add: entry_set_def)

interpretation pd: address_space "\<lambda>s. entry_of M (tables s) d" "dir_ready M d" "is_user_vaddr M"
  "\<lambda>v. (pd_no M v, pt_no M v)" "\<lambda>v. pg_ofs M v = 0" "\<lambda>k. mmu_ok M \<and> kernel_page M k" "pte_create_user M"
  "\<lambda>e. e AND PTE_P M \<noteq> 0" "pte_get_page M" "\<lambda>e. e AND PTE_W M \<noteq> 0" "table_room M d" "\<lambda>e. e AND NOT (PTE_P M)" "pg_ofs M"
  "pagedir_get_page M (Some d)" "pagedir_set_page M (Some d)" "pagedir_clear_page M (Some d)" for M d
proof (unfold_locales, goal_cases)
  case (1 k w)
  then show ?case by (auto simp: mmu_ok_def pte_ok_def)
next
  case (2 k w)
  then show ?case by (auto simp: mmu_ok_def pte_ok_def)
next
  case (3 k w)
  then show ?case by (auto simp: mmu_ok_def pte_ok_def)
next
  case (4 e)
  show ?case by (simp add: and.assoc)
next
  case (5 u v s)
  then show ?case by (simp add: entry_of_def split: option.splits)
next
  case (6 s v)
  then show ?case by (intro get_page_wp) (auto simp: dir_ready_def mmu_ok_def)
next
  case (7 s u k w)
  then show ?case
    by (intro set_page_wp) (auto simp: dir_ready_def entry_set_def)
next
  case (8 s u)
  then show ?case
    by (intro clear_page_wp) (auto simp: dir_ready_def entry_set_def mmu_ok_def)
qed

section \<open>The i386 layout\<close>

text \<open>
  The accessors as the processor's manual has them: an entry is the physical address of a
  page in its upper 20 bits and flags in the lower 12.
\<close>

definition i386 :: "u32 list \<Rightarrow> mmu" where
  "i386 pool = \<lparr>PHYS_BASE = 0xC0000000, is_user_vaddr = (\<lambda>v. v < 0xC0000000), pg_ofs = take_bit 12,
     pg_round_down = (\<lambda>v. v - take_bit 12 v), pd_no = (\<lambda>v. unat v div 2 ^ 22), pt_no = (\<lambda>v. unat v div 4096 mod 1024),
     vtop = (\<lambda>k. k - 0xC0000000), ptov = (\<lambda>k. k + 0xC0000000),
     pde_create = (\<lambda>k. (k - 0xC0000000) OR 7), pde_get_pt = (\<lambda>e. (e AND NOT 0xFFF) + 0xC0000000),
     pte_create_user = (\<lambda>k w. (k - 0xC0000000) OR (if w then 7 else 5)),
     pte_get_page = (\<lambda>e. (e AND NOT 0xFFF) + 0xC0000000),
     PTE_P = 1, PTE_W = 2, PTE_A = 32, PTE_D = 64, init_ram_pages = 1024,
     palloc = (\<lambda>_ used. find (\<lambda>p. \<not> used p) pool), palloc_junk = replicate PGSIZE 204\<rparr>"

lemma i386_fields [simp]:
  "PHYS_BASE (i386 pool) = 0xC0000000" "is_user_vaddr (i386 pool) = (\<lambda>v. v < 0xC0000000)" "pg_ofs (i386 pool) = take_bit 12"
  "pg_round_down (i386 pool) = (\<lambda>v. v - take_bit 12 v)" "pd_no (i386 pool) = (\<lambda>v. unat v div 2 ^ 22)"
  "pt_no (i386 pool) = (\<lambda>v. unat v div 4096 mod 1024)" "vtop (i386 pool) = (\<lambda>k. k - 0xC0000000)"
  "ptov (i386 pool) = (\<lambda>k. k + 0xC0000000)" "pde_create (i386 pool) = (\<lambda>k. (k - 0xC0000000) OR 7)"
  "pde_get_pt (i386 pool) = (\<lambda>e. (e AND NOT 0xFFF) + 0xC0000000)"
  "pte_create_user (i386 pool) = (\<lambda>k w. (k - 0xC0000000) OR (if w then 7 else 5))"
  "pte_get_page (i386 pool) = (\<lambda>e. (e AND NOT 0xFFF) + 0xC0000000)"
  "PTE_P (i386 pool) = 1" "PTE_W (i386 pool) = 2" "PTE_A (i386 pool) = 32" "PTE_D (i386 pool) = 64"
  "init_ram_pages (i386 pool) = 1024" "palloc (i386 pool) = (\<lambda>_ used. find (\<lambda>p. \<not> used p) pool)"
  "palloc_junk (i386 pool) = replicate PGSIZE 204"
  by (simp_all add: i386_def)

lemma vaddr_ok_i386: "vaddr_ok (i386 pool)"
  by (simp add: vaddr_ok_def unsigned_take_bit_eq take_bit_eq_mod unat_mod)

lemma page_mask:
  fixes x f :: u32
  assumes "take_bit 12 x = 0" "f AND NOT 0xFFF = 0"
  shows "(x OR f) AND NOT 0xFFF = x"
proof -
  have "0xFFF = (mask 12 :: u32)" by (simp add: mask_numeral)
  moreover have "x AND NOT (mask 12) = x" using assms(1) by (intro and_not_absent) (simp add: take_bit_eq_mask)
  ultimately show ?thesis using assms(2) by (simp add: bit.conj_disj_distrib2)
qed

lemma aligned_vtop: "take_bit 12 (k :: u32) = 0 \<Longrightarrow> take_bit 12 (k - 0xC0000000) = 0"
proof -
  assume "take_bit 12 k = 0"
  then have "2 ^ 12 dvd k" by (simp only: take_bit_eq_0_iff)
  moreover have "2 ^ 12 * 0xC0000 = (0xC0000000 :: u32)" by simp
  then have "2 ^ 12 dvd (0xC0000000 :: u32)" by (metis dvd_triv_left)
  ultimately show ?thesis by (simp only: take_bit_eq_0_iff dvd_diff)
qed

lemma flag_zero:
  fixes x f g :: u32
  assumes "take_bit 12 x = 0" "g AND NOT 0xFFF = 0" "f AND g = 0"
  shows "(x OR f) AND g = 0"
proof -
  have "0xFFF = (mask 12 :: u32)" by (simp add: mask_numeral)
  then have "g = take_bit 12 g" using assms(2) and_not_absent[of g "NOT (mask 12)"] by (simp add: take_bit_eq_mask)
  then have "x AND g = take_bit 12 x AND g" by (metis take_bit_and take_bit_take_bit min.idem take_bit_eq_mask and.assoc and.commute)
  then show ?thesis using assms(1,3) by (simp add: bit.conj_disj_distrib2)
qed

lemma pte_ok_i386: "pte_ok (i386 pool)"
  unfolding pte_ok_def
proof (intro conjI allI impI ballI)
  fix k w assume "kernel_page (i386 pool) k"
  then have a: "take_bit 12 (k - 0xC0000000) = 0" by (intro aligned_vtop) (simp add: kernel_page_def)
  have ne: "(k - 0xC0000000 OR f) AND 1 \<noteq> 0" if "f AND 1 \<noteq> 0" for f :: u32
    using that by (simp add: bit.conj_disj_distrib2 or_eq_0_iff)
  show "pde_create (i386 pool) k AND PTE_P (i386 pool) \<noteq> 0" "pte_create_user (i386 pool) k w AND PTE_P (i386 pool) \<noteq> 0"
    using ne[of 7] ne[of 5] by simp_all
  then show "pde_create (i386 pool) k \<noteq> 0" by auto
  show "pde_get_pt (i386 pool) (pde_create (i386 pool) k) = k"
    "pte_get_page (i386 pool) (pte_create_user (i386 pool) k w) = k" "ptov (i386 pool) (vtop (i386 pool) k) = k"
    using page_mask[OF a, of 7] page_mask[OF a, of 5] by simp_all
  show "pte_create_user (i386 pool) k w AND PTE_A (i386 pool) = 0" "pte_create_user (i386 pool) k w AND PTE_D (i386 pool) = 0"
    using flag_zero[OF a, of _ 7] flag_zero[OF a, of _ 5] by simp_all
  show "(pte_create_user (i386 pool) k w AND PTE_W (i386 pool) \<noteq> 0) = w"
    using flag_zero[OF a, of 2 5] by (cases w) (simp_all add: bit.conj_disj_distrib2 or_eq_0_iff)
next
  fix f x assume "f \<in> pte_flags (i386 pool)"
  then have f: "f AND NOT 0xFFF = 0" by (auto simp: pte_flags_def)
  then show "pte_get_page (i386 pool) (x OR f) = pte_get_page (i386 pool) x" by (simp add: bit.conj_disj_distrib2)
  have "NOT f AND NOT 0xFFF = NOT (0xFFF :: u32)" using and_not_absent[of "NOT 0xFFF" f] f by (simp add: and.commute)
  then show "pte_get_page (i386 pool) (x AND NOT f) = pte_get_page (i386 pool) x" by (simp add: and.assoc)
qed (auto simp: pte_flags_def)

definition pool_ok :: "u32 list \<Rightarrow> bool" where
  "pool_ok pool \<longleftrightarrow> (\<forall>p\<in>set pool. 0xC0000000 \<le> p \<and> take_bit 12 p = 0 \<and> unat (drop_bit 12 (p - 0xC0000000)) < 1024)"

lemma mmu_ok_i386: "pool_ok pool \<Longrightarrow> mmu_ok (i386 pool)"
  by (auto simp: mmu_ok_def vaddr_ok_i386 pte_ok_i386 palloc_ok_def kernel_page_def pool_ok_def find_Some_iff)

section \<open>Mapping and unmapping a page\<close>

lemma vpage_iff:
  assumes "vaddr_ok M"
  shows "(pd_no M v, pt_no M v) = (pd_no M u, pt_no M u) \<longleftrightarrow> unat v div 4096 = unat u div 4096"
proof -
  have pd: "n div 2 ^ 22 = n div 4096 div 1024" for n :: nat using div_mult2_eq[of n 4096 1024] by simp
  have "pd_no M w = unat w div 4096 div 1024 \<and> pt_no M w = unat w div 4096 mod 1024" for w
    using assms pd[of "unat w"] by (simp add: vaddr_ok_def)
  then show ?thesis by (metis mult_div_mod_eq prod.inject)
qed

lemma round_down_unat:
  assumes "vaddr_ok M"
  shows "unat (pg_round_down M v) = unat v div 4096 * 4096" "unat (pg_ofs M v) = unat v mod 4096"
proof -
  have o: "unat (pg_ofs M v) = unat v mod 4096" using assms by (simp add: vaddr_ok_def)
  then show "unat (pg_ofs M v) = unat v mod 4096" .
  have "pg_ofs M v \<le> v" using o by (simp add: word_le_nat_alt)
  then have "unat (v - pg_ofs M v) = unat v - unat v mod 4096" using o by (simp add: unat_sub)
  then show "unat (pg_round_down M v) = unat v div 4096 * 4096" using assms by (simp add: vaddr_ok_def minus_mod_eq_div_mult)
qed

lemma aligned_unat: "vaddr_ok M \<Longrightarrow> pg_ofs M u = 0 \<longleftrightarrow> unat u mod 4096 = 0"
  using round_down_unat(2)[of M u] by (metis unat_0 unat_eq_zero)

lemma same_page_iff:
  assumes "vaddr_ok M" "pg_ofs M u = 0"
  shows "(pd_no M v, pt_no M v) = (pd_no M u, pt_no M u) \<longleftrightarrow> pg_round_down M v = u"
proof -
  have "pg_round_down M v = u \<longleftrightarrow> unat v div 4096 * 4096 = unat u"
    using round_down_unat(1)[OF assms(1), of v] by (metis word_unat_eq_iff)
  also have "\<dots> \<longleftrightarrow> unat v div 4096 = unat u div 4096"
    using aligned_unat[OF assms(1), of u] assms(2) by auto
  finally show ?thesis using vpage_iff[OF assms(1)] by blast
qed

text \<open>A lookup gives the translation of the interface.\<close>

lemma get_page_translate:
  assumes "dir_ready M d s" "is_user_vaddr M v"
  shows "pagedir_get_page M (Some d) v s = Inr (pd.translate M d s v, s)"
  using pd.get_law[OF assms] by (auto simp: wpK_iff pd.translate_def)

lemma test_flag_entry:
  assumes "dir_ready M d s" "is_user_vaddr M v"
  shows "test_flag M f (Some d) v s = Inr (entry_of M (tables s) d v AND f \<noteq> 0, s)"
  using test_flag_wp[of M s d v "\<lambda>r t. r = (entry_of M (tables s) d v AND f \<noteq> 0) \<and> t = s" f] assms
  by (auto simp: dir_ready_def mmu_ok_def wpK_iff)

text \<open>An address is found in the same place and with the same flags as before.\<close>

definition same_view :: "mmu \<Rightarrow> u32 \<Rightarrow> u32 \<Rightarrow> 'z pg_scheme \<Rightarrow> 'z pg_scheme \<Rightarrow> bool" where
  "same_view M d v s t \<longleftrightarrow> (\<exists>x. pagedir_get_page M (Some d) v s = Inr (x, s) \<and> pagedir_get_page M (Some d) v t = Inr (x, t)) \<and>
     (\<forall>f. \<exists>b. test_flag M f (Some d) v s = Inr (b, s) \<and> test_flag M f (Some d) v t = Inr (b, t))"

lemma same_entry_view:
  assumes "dir_ready M d s" "dir_ready M d t" "is_user_vaddr M v" "entry_of M (tables t) d v = entry_of M (tables s) d v"
  shows "same_view M d v s t"
  using assms(4) get_page_translate[OF assms(1,3)] get_page_translate[OF assms(2,3)] test_flag_entry[OF assms(1,3)] test_flag_entry[OF assms(2,3)]
  by (simp add: same_view_def pd.translate_def)

lemma flag_unset: "p AND f = 0 \<Longrightarrow> e AND NOT p AND f = e AND (f :: u32)"
  by (metis and.assoc and.commute and_not_absent)

text \<open>
  C34. \<^verbatim>\<open>pagedir_set_page\<close>, \<^verbatim>\<open>pagedir_clear_page\<close> and the lookups make a directory a map from pages to frames. Mapping a
  page that was not mapped succeeds exactly when its page table exists or a page for a new one can be allocated. Then
  every address in the page is found at its offset in the frame, writable as wanted, neither dirty nor accessed;
  all other user addresses, and all when it fails, are found where they were and with the flags they had. Clearing
  a page, mapped or not, ends with no address in it found but its other flags kept, and changes no other page.
\<close>

theorem pagedir_set_get_clear:
  assumes "dir_ready M d s" "is_user_vaddr M u" "pg_ofs M u = 0" "kernel_page M k"
  shows "(pagedir_get_page M (Some d) u s = Inr (None, s) \<longrightarrow>
      (\<exists>t. pagedir_set_page M (Some d) u k w s = Inr (table_room M d s u, t) \<and> dir_ready M d t \<and>
        (\<forall>v. is_user_vaddr M v \<longrightarrow> (if table_room M d s u \<and> pg_round_down M v = u
          then pagedir_get_page M (Some d) v t = Inr (Some (k + pg_ofs M v), t) \<and> test_flag M (PTE_W M) (Some d) v t = Inr (w, t) \<and>
            pagedir_is_dirty M (Some d) v t = Inr (False, t) \<and> pagedir_is_accessed M (Some d) v t = Inr (False, t)
          else same_view M d v s t)))) \<and>
    (\<exists>t. pagedir_clear_page M (Some d) u s = Inr ((), t) \<and> dir_ready M d t \<and>
      (\<forall>v. is_user_vaddr M v \<longrightarrow> (if pg_round_down M v = u
        then pagedir_get_page M (Some d) v t = Inr (None, t) \<and>
          (\<forall>f. PTE_P M AND f = 0 \<longrightarrow> (\<exists>b. test_flag M f (Some d) v s = Inr (b, s) \<and> test_flag M f (Some d) v t = Inr (b, t)))
        else same_view M d v s t)))"
proof (intro conjI impI)
  have M: "mmu_ok M" "vaddr_ok M" "pte_ok M" using assms(1) by (simp_all add: dir_ready_def mmu_ok_def)
  note page = same_page_iff[OF M(2) assms(3), unfolded prod.inject]
  {
    assume "pagedir_get_page M (Some d) u s = Inr (None, s)"
    then have n: "pd.translate M d s u = None" using get_page_translate[OF assms(1,2)] by simp
    obtain t where t: "pagedir_set_page M (Some d) u k w s = Inr (table_room M d s u, t)" "dir_ready M d t"
      "\<And>v. is_user_vaddr M v \<Longrightarrow> entry_of M (tables t) d v =
        (if table_room M d s u \<and> pg_round_down M v = u then pte_create_user M k w else entry_of M (tables s) d v)"
      using pd.map_entries[where M = M and w = w, OF assms(1-3) conjI[OF M(1) assms(4)] n] by (auto simp: wpK_iff page)
    have "pte_create_user M k w AND PTE_P M \<noteq> 0" "pte_get_page M (pte_create_user M k w) = k" "(pte_create_user M k w AND PTE_W M \<noteq> 0) = w"
      "pte_create_user M k w AND PTE_D M = 0" "pte_create_user M k w AND PTE_A M = 0"
      using M(3) assms(4) by (auto simp: pte_ok_def)
    moreover have "same_view M d v s t" if "is_user_vaddr M v" "\<not> (table_room M d s u \<and> pg_round_down M v = u)" for v
      using same_entry_view[OF assms(1) t(2) that(1)] t(3)[OF that(1)] that(2) by auto
    ultimately show "\<exists>t. pagedir_set_page M (Some d) u k w s = Inr (table_room M d s u, t) \<and> dir_ready M d t \<and>
        (\<forall>v. is_user_vaddr M v \<longrightarrow> (if table_room M d s u \<and> pg_round_down M v = u
          then pagedir_get_page M (Some d) v t = Inr (Some (k + pg_ofs M v), t) \<and> test_flag M (PTE_W M) (Some d) v t = Inr (w, t) \<and>
            pagedir_is_dirty M (Some d) v t = Inr (False, t) \<and> pagedir_is_accessed M (Some d) v t = Inr (False, t)
          else same_view M d v s t))"
      using t get_page_translate[OF t(2)] test_flag_entry[OF t(2)]
      by (intro exI[of _ t]) (simp add: pagedir_is_dirty_def pagedir_is_accessed_def pd.translate_def)
  next
    obtain t where t: "pagedir_clear_page M (Some d) u s = Inr ((), t)" "dir_ready M d t"
      "\<And>v. is_user_vaddr M v \<Longrightarrow> entry_of M (tables t) d v =
        (if pg_round_down M v = u then entry_of M (tables s) d v AND NOT (PTE_P M) else entry_of M (tables s) d v)"
      using pd.clear_entries[where M = M, OF assms(1-3)] by (auto simp: wpK_iff page)
    then show "\<exists>t. pagedir_clear_page M (Some d) u s = Inr ((), t) \<and> dir_ready M d t \<and>
      (\<forall>v. is_user_vaddr M v \<longrightarrow> (if pg_round_down M v = u
        then pagedir_get_page M (Some d) v t = Inr (None, t) \<and>
          (\<forall>f. PTE_P M AND f = 0 \<longrightarrow> (\<exists>b. test_flag M f (Some d) v s = Inr (b, s) \<and> test_flag M f (Some d) v t = Inr (b, t)))
        else same_view M d v s t))"
      using same_entry_view[OF assms(1) t(2)] get_page_translate[OF t(2)] test_flag_entry[OF t(2)] test_flag_entry[OF assms(1)]
      by (intro exI[of _ t]) (auto simp: pd.translate_def and.assoc flag_unset)
  }
qed

text \<open>A machine with a kernel directory, an empty directory of a process and two free pages.\<close>

definition sim_pool :: "u32 list" where
  "sim_pool = [0xC0002000, 0xC0003000, 0xC0004000, 0xC0005000]"

definition sim_pg :: pg where
  "sim_pg = \<lparr>tables = [0xC0000000 \<mapsto> replicate 1024 0, 0xC0001000 \<mapsto> replicate 1024 0], pages = Map.empty,
     init_page_dir = 0xC0000000, cr3 = 0x1000\<rparr>"

lemma sim_pool_ok: "mmu_ok (i386 sim_pool)"
  by (rule mmu_ok_i386) (simp add: pool_ok_def sim_pool_def)

lemma empty_pd_ok: "T d = Some (replicate 1024 0) \<Longrightarrow> pd_no M (PHYS_BASE M) \<le> 1024 \<Longrightarrow> pd_ok M T d"
  by (auto simp: pd_ok_def)

lemma sim_pg_ready: "dir_ready (i386 sim_pool) 0xC0001000 sim_pg"
  unfolding dir_ready_def
  by (intro conjI sim_pool_ok empty_pd_ok) (simp_all add: sim_pg_def)

lemma sim_pg_get:
  assumes "v < 0xC0000000"
  shows "pagedir_get_page (i386 sim_pool) (Some 0xC0001000) v sim_pg = Inr (None, sim_pg)"
proof -
  have "is_user_vaddr (i386 sim_pool) v" using assms by simp
  moreover from user_pd_no(2)[OF vaddr_ok_i386 this] have "entry_of (i386 sim_pool) (tables sim_pg) 0xC0001000 v = 0"
    by (simp add: entry_of_def sim_pg_def)
  ultimately show ?thesis by (simp only: get_page_translate[OF sim_pg_ready] pd.translate_def) simp
qed

theorem pagedir_set_get_clear_witness:
  "\<exists>t u. pagedir_set_page (i386 sim_pool) (Some 0xC0001000) 0x8048000 0xC0005000 True sim_pg = Inr (True, t) \<and>
    pagedir_get_page (i386 sim_pool) (Some 0xC0001000) 0x8048123 t = Inr (Some 0xC0005123, t) \<and>
    test_flag (i386 sim_pool) 2 (Some 0xC0001000) 0x8048123 t = Inr (True, t) \<and>
    pagedir_clear_page (i386 sim_pool) (Some 0xC0001000) 0x8048000 t = Inr ((), u) \<and>
    pagedir_get_page (i386 sim_pool) (Some 0xC0001000) 0x8048123 u = Inr (None, u)"
proof -
  have k: "kernel_page (i386 sim_pool) 0xC0005000" by (simp add: kernel_page_def)
  have u: "is_user_vaddr (i386 sim_pool) 0x8048000" "pg_ofs (i386 sim_pool) 0x8048000 = 0" "is_user_vaddr (i386 sim_pool) 0x8048123"
    "pg_round_down (i386 sim_pool) 0x8048123 = 0x8048000" "pg_ofs (i386 sim_pool) 0x8048123 = 0x123" by simp_all
  have g: "pagedir_get_page (i386 sim_pool) (Some 0xC0001000) 0x8048000 sim_pg = Inr (None, sim_pg)"
    by (rule sim_pg_get) simp
  have m: "table_room (i386 sim_pool) 0xC0001000 sim_pg 0x8048000"
    by (simp add: table_room_def page_used_def sim_pg_def sim_pool_def)
  have W: "PTE_W (i386 sim_pool) = 2" by simp
  obtain t where t: "pagedir_set_page (i386 sim_pool) (Some 0xC0001000) 0x8048000 0xC0005000 True sim_pg = Inr (True, t)"
    "dir_ready (i386 sim_pool) 0xC0001000 t" "pagedir_get_page (i386 sim_pool) (Some 0xC0001000) 0x8048123 t = Inr (Some (0xC0005000 + 0x123), t)"
    "test_flag (i386 sim_pool) 2 (Some 0xC0001000) 0x8048123 t = Inr (True, t)"
    using pagedir_set_get_clear[OF sim_pg_ready u(1,2) k, of True, THEN conjunct1, THEN mp, OF g] m u(3-5) W by metis
  moreover obtain x where "pagedir_clear_page (i386 sim_pool) (Some 0xC0001000) 0x8048000 t = Inr ((), x)"
    "pagedir_get_page (i386 sim_pool) (Some 0xC0001000) 0x8048123 x = Inr (None, x)"
    using pagedir_set_get_clear[OF t(2) u(1,2) k, THEN conjunct2] u(3,4) by metis
  ultimately show ?thesis by auto
qed

end
