(* ===== verification/Boot_Facts.thy ===== *)
theory Boot_Facts
  imports Kernel_Start Page_Dir_Facts
begin

text \<open>
  The page tables that \<^verbatim>\<open>paging_init\<close> builds: every page of memory is mapped at its kernel address, the code
  of the kernel read-only, and no user page is mapped, neither there nor in a directory that \<^verbatim>\<open>pagedir_create\<close>
  makes from it.
\<close>

section \<open>Kernel addresses\<close>

text \<open>
  \<^verbatim>\<open>vaddr.h\<close> and the loader: physical memory is mapped from \<^verbatim>\<open>PHYS_BASE\<close> on and fits above it.
\<close>

definition ram_ok :: "mmu \<Rightarrow> bool" where
  "ram_ok M \<longleftrightarrow> unat (PHYS_BASE M) + init_ram_pages M * 4096 \<le> 2 ^ 32 \<and>
     (\<forall>p. unat p < init_ram_pages M * 4096 \<longrightarrow> ptov M p = p + PHYS_BASE M)"

definition kaddr :: "mmu \<Rightarrow> nat \<Rightarrow> u32" where
  "kaddr M page = ptov M (of_nat page * of_nat PGSIZE)"

definition kernel_pte :: "mmu \<Rightarrow> 'd machine \<Rightarrow> nat \<Rightarrow> u32" where
  "kernel_pte M X page = pte_create_kernel X (kaddr M page) (\<not> (start_text X \<le> kaddr M page \<and> kaddr M page < end_kernel_text X))"

lemma kaddr_unat:
  assumes "ram_ok M" "page < init_ram_pages M"
  shows "unat (kaddr M page) = unat (PHYS_BASE M) + page * 4096"
proof -
  have le: "page * 4096 < init_ram_pages M * 4096" "unat (PHYS_BASE M) + init_ram_pages M * 4096 \<le> 2 ^ 32"
    using assms by (simp_all add: ram_ok_def)
  have u: "unat (of_nat page * of_nat PGSIZE :: u32) = page * 4096"
    unfolding of_nat_mult[symmetric] PGSIZE_def unat_of_nat using le by simp
  then have "kaddr M page = of_nat page * of_nat PGSIZE + PHYS_BASE M" using assms le(1) by (simp add: kaddr_def ram_ok_def)
  then show ?thesis using u le by (simp add: unat_word_ariths PGSIZE_def)
qed

abbreviation kbase :: "mmu \<Rightarrow> nat" where
  "kbase M \<equiv> pd_no M (PHYS_BASE M)"

lemma kaddr_index:
  assumes "vaddr_ok M" "ram_ok M" "page < init_ram_pages M"
  shows "pd_no M (kaddr M page) = kbase M + page div 1024" "pt_no M (kaddr M page) = page mod 1024"
    "kbase M + page div 1024 < 1024"
proof -
  obtain b where b: "unat (PHYS_BASE M) = b * 2 ^ 22" using assms(1) by (auto simp: vaddr_ok_def)
  have u: "unat (kaddr M page) = b * 2 ^ 22 + page * 4096" using kaddr_unat[OF assms(2,3)] b by simp
  have kb: "kbase M = b" using assms(1) b by (simp add: vaddr_ok_def)
  have "(b * 2 ^ 22 + page * 4096) div 4096 = b * 1024 + page" by simp
  then show "pt_no M (kaddr M page) = page mod 1024" using assms(1) u by (simp add: vaddr_ok_def)
  have "(b * 2 ^ 22 + page * 4096) div 2 ^ 22 = b + page div 1024"
    using div_mult_mult1[of 4096 page 1024] by (simp add: mult.commute)
  then show pd: "pd_no M (kaddr M page) = kbase M + page div 1024" using assms(1) u kb by (simp add: vaddr_ok_def)
  have "unat (kaddr M page) < 2 ^ 32" using unsigned_less[of "kaddr M page", where ?'a = nat] by simp
  then have "pd_no M (kaddr M page) < 1024" using assms(1) by (simp add: vaddr_ok_def)
  then show "kbase M + page div 1024 < 1024" using pd by simp
qed

section \<open>The loop\<close>

text \<open>
  After \<open>n\<close> pages: the directory \<open>d\<close> has no entries but those of the tables \<open>ts\<close>, from that of \<^verbatim>\<open>PHYS_BASE\<close> on, and
  the tables have the entries of the pages; \<open>used\<close> were in use before.
\<close>

definition kdir :: "mmu \<Rightarrow> u32 list \<Rightarrow> u32 list" where
  "kdir M ts = replicate (kbase M) 0 @ map (pde_create M) ts @ replicate (1024 - kbase M - length ts) 0"

definition ktables :: "mmu \<Rightarrow> 'd machine \<Rightarrow> (u32 \<Rightarrow> bool) \<Rightarrow> u32 \<Rightarrow> nat \<Rightarrow> u32 list \<Rightarrow> 'z pg_scheme \<Rightarrow> bool" where
  "ktables M X used d n ts s \<longleftrightarrow> distinct (d # ts) \<and> (\<forall>p\<in>set ts. kernel_page M p) \<and>
     tables s d = Some (kdir M ts) \<and> page_used s = (\<lambda>p. used p \<or> p \<in> set (d # ts)) \<and> init_page_dir s = d \<and>
     (\<forall>k<length ts. \<exists>w. tables s (ts ! k) = Some w \<and> length w = 1024 \<and>
       (\<forall>j<n. j div 1024 = k \<longrightarrow> w ! (j mod 1024) = kernel_pte M X j))"

lemma kdir_nth:
  assumes "kbase M + k < 1024"
  shows "kdir M ts ! (kbase M + k) = (if k < length ts then pde_create M (ts ! k) else 0)"
proof -
  have "length ts - k = 0" if "\<not> k < length ts" using that by simp
  then show ?thesis using assms by (auto simp: kdir_def nth_append)
qed

lemma kdir_new:
  assumes "kbase M + length ts < 1024"
  shows "(kdir M ts)[kbase M + length ts := pde_create M p] = kdir M (ts @ [p])"
proof -
  obtain m where m: "1024 - kbase M - length ts = Suc m" using assms by (cases "1024 - kbase M - length ts") auto
  then show ?thesis using assms by (simp add: kdir_def list_update_append)
qed

text \<open>Enough free pages for the directory and its tables.\<close>

definition spare :: "mmu \<Rightarrow> (u32 \<Rightarrow> bool) \<Rightarrow> nat \<Rightarrow> bool" where
  "spare M used n \<longleftrightarrow> (\<forall>xs. distinct xs \<longrightarrow> length xs < n \<longrightarrow> (\<forall>x\<in>set xs. \<not> used x) \<longrightarrow>
     palloc M False (\<lambda>p. used p \<or> p \<in> set xs) \<noteq> None)"

lemma ktables_write:
  assumes kt: "ktables M X used d n ts s" and k: "n div 1024 < length ts"
    and w: "tables s (ts ! (n div 1024)) = Some w"
  shows "ktables M X used d (Suc n) ts (s\<lparr>tables := (tables s)(ts ! (n div 1024) \<mapsto> w[n mod 1024 := kernel_pte M X n])\<rparr>)"
    (is "ktables M X used d (Suc n) ts ?t")
proof -
  let ?p = "ts ! (n div 1024)"
  have "?p \<in> set ts" using k by simp
  then have dp: "?p \<noteq> d" using kt by (auto simp: ktables_def)
  have "page_used ?t = page_used s" using w by (auto simp: page_used_def fun_eq_iff)
  moreover have "\<exists>v. tables ?t (ts ! i) = Some v \<and> length v = 1024 \<and> (\<forall>j<Suc n. j div 1024 = i \<longrightarrow> v ! (j mod 1024) = kernel_pte M X j)"
    if i: "i < length ts" for i
  proof -
    obtain v where v: "tables s (ts ! i) = Some v" "length v = 1024" "\<forall>j<n. j div 1024 = i \<longrightarrow> v ! (j mod 1024) = kernel_pte M X j"
      using kt i by (auto simp: ktables_def)
    have inj: "ts ! i = ?p \<longleftrightarrow> i = n div 1024" using kt i k by (auto simp: ktables_def nth_eq_iff_index_eq)
    show ?thesis
    proof (cases "i = n div 1024")
      case True
      have "(w[n mod 1024 := kernel_pte M X n]) ! (j mod 1024) = kernel_pte M X j" if "j < Suc n" "j div 1024 = i" for j
      proof (cases "j = n")
        case False
        then have "j mod 1024 \<noteq> n mod 1024" using that(2) True by (metis mult_div_mod_eq)
        then show ?thesis using v that False True w by (auto simp: nth_list_update)
      qed (use v True w in simp)
      then show ?thesis using True v w by auto
    next
      case False
      then show ?thesis using v inj by (auto simp: less_Suc_eq)
    qed
  qed
  ultimately show ?thesis using kt dp by (simp add: ktables_def)
qed

lemma ktables_new:
  assumes kt: "ktables M X used d n ts s" and p: "kernel_page M p" "\<not> page_used s p" and b: "kbase M + length ts < 1024"
    and n: "n \<le> length ts * 1024"
  shows "ktables M X used d n (ts @ [p]) (s\<lparr>tables := (tables s)(p \<mapsto> replicate 1024 0, d \<mapsto> kdir M (ts @ [p]))\<rparr>)"
    (is "ktables M X used d n (ts @ [p]) ?t")
proof -
  have new: "p \<noteq> d" "p \<notin> set ts" using kt p(2) by (auto simp: ktables_def)
  have "page_used ?t = (\<lambda>q. used q \<or> q \<in> set (d # ts @ [p]))"
    using kt by (auto simp: ktables_def page_used_def fun_eq_iff)
  moreover have "\<exists>v. tables ?t ((ts @ [p]) ! i) = Some v \<and> length v = 1024 \<and> (\<forall>j<n. j div 1024 = i \<longrightarrow> v ! (j mod 1024) = kernel_pte M X j)"
    if "i < length (ts @ [p])" for i
  proof (cases "i < length ts")
    case True
    then have "ts ! i \<in> set ts" by simp
    then have "ts ! i \<noteq> d" "ts ! i \<noteq> p" using kt new(2) by (auto simp: ktables_def)
    with True kt show ?thesis by (auto simp: ktables_def nth_append)
  next
    case False
    then have i: "i = length ts" using that by simp
    have "j div 1024 \<noteq> i" if "j < n" for j using that n i by auto
    with i new show ?thesis by auto
  qed
  ultimately show ?thesis using kt p(1) new by (simp add: ktables_def)
qed

lemma spareD:
  assumes "spare M used n" "ktables M X used d k ts s" "\<not> used d" "\<forall>p\<in>set ts. \<not> used p" "Suc (length ts) < n"
  shows "palloc M False (page_used s) \<noteq> None"
proof -
  have "page_used s = (\<lambda>p. used p \<or> p \<in> set (d # ts))" "distinct (d # ts)" using assms(2) by (simp_all add: ktables_def)
  then show ?thesis using assms(1)[unfolded spare_def, rule_format, of "d # ts"] assms(3-5) by auto
qed

lemma round_up_tables:
  fixes n :: nat
  shows "(n + 1023) div 1024 = (if n mod 1024 = 0 then n div 1024 else Suc (n div 1024))" "(Suc n + 1023) div 1024 = Suc (n div 1024)"
proof -
  have r: "n mod 1024 < 1024" by simp
  have "n + 1023 = (n mod 1024 + 1023) + 1024 * (n div 1024)" using mult_div_mod_eq[of 1024 n] by linarith
  then have "(n + 1023) div 1024 = (n mod 1024 + 1023) div 1024 + n div 1024" by (metis div_mult_self2 zero_neq_numeral add.commute)
  also have "(n mod 1024 + 1023) div 1024 = (if n mod 1024 = 0 then 0 else 1)" using r by (auto intro: div_nat_eqI)
  finally show "(n + 1023) div 1024 = (if n mod 1024 = 0 then n div 1024 else Suc (n div 1024))" by simp
  have "Suc n + 1023 = n + 1024" by simp
  then show "(Suc n + 1023) div 1024 = Suc (n div 1024)" by simp
qed

text \<open>Where the loop is: the table of the page before, and the number of tables.\<close>

definition kloop :: "mmu \<Rightarrow> 'd machine \<Rightarrow> (u32 \<Rightarrow> bool) \<Rightarrow> u32 \<Rightarrow> nat \<Rightarrow> u32 option \<Rightarrow> 'z pg_scheme \<Rightarrow> bool" where
  "kloop M X used d n pt s \<longleftrightarrow> (\<exists>ts. ktables M X used d n ts s \<and> length ts = (n + 1023) div 1024 \<and>
     (\<forall>p\<in>set ts. \<not> used p) \<and> (n \<noteq> 0 \<longrightarrow> pt = Some (last ts)))"

lemma map_kernel_page_kaddr:
  "map_kernel_page M X page pt = bindK (getK init_page_dir) (\<lambda>pd. bindK (word_at pd (pd_no M (kaddr M page))) (\<lambda>pde.
     bindK (if pde = 0 then bindK (palloc_get_table M (replicate TABLE_WORDS 0)) (\<lambda>r. bindK (expect r) (\<lambda>p.
         thenK (set_word pd (pd_no M (kaddr M page)) (pde_create M p)) (retK p)))
       else nonnull pt) (\<lambda>p. thenK (set_word p (pt_no M (kaddr M page)) (kernel_pte M X page)) (retK (Some p)))))"
  unfolding map_kernel_page_def kernel_pte_def kaddr_def Let_def by (rule refl)

lemma map_kernel_page_run:
  assumes M: "mmu_ok M" and R: "ram_ok M" and n: "n < init_ram_pages M" and sp: "spare M used (1 + (init_ram_pages M + 1023) div 1024)"
    and d: "\<not> used d" and loop: "kloop M X used d n pt s"
  shows "wpK (map_kernel_page M X n pt) (\<lambda>pt. kloop M X used d (Suc n) pt) s"
proof -
  have V: "vaddr_ok M" and P: "pte_ok M" and A: "palloc_ok M" using M by (simp_all add: mmu_ok_def)
  obtain ts where kt: "ktables M X used d n ts s" and len: "length ts = (n + 1023) div 1024" and nu: "\<forall>p\<in>set ts. \<not> used p"
    and pt: "n \<noteq> 0 \<Longrightarrow> pt = Some (last ts)" using loop by (auto simp: kloop_def)
  note ix = kaddr_index[OF V R n] and nth = kdir_nth[OF kaddr_index(3)[OF V R n]]
  have dir: "tables s d = Some (kdir M ts)" "init_page_dir s = d" using kt by (simp_all add: ktables_def)
  have dl: "length (kdir M ts) = 1024" if "length ts \<le> 1024 - kbase M" for ts using that ix(3) by (simp add: kdir_def)
  have lb: "length ts \<le> 1024 - kbase M" using len ix(3) round_up_tables(1)[of n] by (auto split: if_splits)
  show ?thesis
  proof (cases "n mod 1024 = 0")
    case True
    then have k: "n div 1024 = length ts" "n = length ts * 1024" using len round_up_tables(1)[of n] by auto
    have "Suc n + 1023 \<le> init_ram_pages M + 1023" using n by simp
    then have "length ts < (init_ram_pages M + 1023) div 1024" using div_le_mono[of "Suc n + 1023" _ 1024] k(1) round_up_tables(2)[of n] by fastforce
    then obtain p where p: "palloc M False (page_used s) = Some p" using spareD[OF sp kt d nu] by fastforce
    then have pk: "kernel_page M p" "\<not> page_used s p" using A by (auto simp: palloc_ok_def)
    have bl: "kbase M + length ts < 1024" using ix(3) k(1) by simp
    note new = ktables_new[OF kt pk bl, unfolded k(2)[symmetric], OF order_refl]
    have "p \<noteq> d" using pk(2) dir by (auto simp: page_used_def)
    note wr = ktables_write[OF new, of "replicate 1024 0"]
    have "\<not> used p" using pk(2) kt by (auto simp: ktables_def)
    then have "kloop M X used d (Suc n) (Some p) (s\<lparr>tables := (tables s)(p \<mapsto> (replicate 1024 0)[0 := kernel_pte M X n], d \<mapsto> kdir M (ts @ [p]))\<rparr>)"
      unfolding kloop_def using wr k nu \<open>p \<noteq> d\<close> True by (intro exI[of _ "ts @ [p]"]) (auto simp: nth_append fun_upd_twist)
    then show ?thesis
      using dir ix nth k(1) p kdir_new[OF bl, of p] dl[OF lb] True \<open>p \<noteq> d\<close>
      by (simp add: map_kernel_page_kaddr palloc_get_table_wp TABLE_WORDS_def expect_def fun_upd_twist)
  next
    case False
    then have n0: "n \<noteq> 0" by (cases n) auto
    have k: "n div 1024 < length ts" "length ts - 1 = n div 1024" "length ts = (Suc n + 1023) div 1024"
      using len False round_up_tables[of n] by simp_all
    have "ts \<noteq> []" using k(1) by auto
    then have last: "last ts = ts ! (n div 1024)" using k(2) by (simp add: last_conv_nth)
    obtain w where w: "tables s (ts ! (n div 1024)) = Some w" "length w = 1024" using kt k(1) by (auto simp: ktables_def)
    have "kernel_page M (ts ! (n div 1024))" using kt k(1) by (simp add: ktables_def)
    then have ne: "pde_create M (ts ! (n div 1024)) \<noteq> 0" using P by (simp add: pte_ok_def)
    have "kloop M X used d (Suc n) (Some (last ts)) (s\<lparr>tables := (tables s)(ts ! (n div 1024) \<mapsto> w[n mod 1024 := kernel_pte M X n])\<rparr>)"
      unfolding kloop_def using ktables_write[OF kt k(1) w(1)] k(3) nu by blast
    then show ?thesis
      using dir ix nth k(1) pt[OF n0] last w ne dl[OF lb]
      by (simp add: map_kernel_page_kaddr)
  qed
qed

lemma map_kernel_run:
  fixes s :: "'z pg_scheme"
  assumes "mmu_ok M" "ram_ok M" "spare M used (1 + (init_ram_pages M + 1023) div 1024)" "\<not> used d"
    and "n + m = init_ram_pages M" "kloop M X used d n pt s"
  shows "wpK (map_kernel M X [n..<init_ram_pages M] pt) (\<lambda>_ t. \<exists>pt. kloop M X used d (init_ram_pages M) pt t) s"
  using assms(5,6)
proof (induction m arbitrary: n pt s)
  case (Suc m)
  then have n: "n < init_ram_pages M" by simp
  have "wpK (map_kernel M X [Suc n..<init_ram_pages M] pt) (\<lambda>_ t. \<exists>pt. kloop M X used d (init_ram_pages M) pt t) t"
    if "kloop M X used d (Suc n) pt t" for pt and t :: "'z pg_scheme" using Suc.IH[of "Suc n" pt t] Suc.prems(1) that by simp
  then show ?case using map_kernel_page_run[OF assms(1,2) n assms(3,4) Suc.prems(2)]
    by (auto simp: upt_conv_Cons[OF n] elim: wpK_mono)
qed auto

section \<open>The directory\<close>

text \<open>A directory with the entries of \<open>kdir\<close> maps the pages of memory and no user page.\<close>

lemma kdir_entries:
  assumes M: "mmu_ok M" and R: "ram_ok M" and T: "T d = Some (kdir M ts)" and len: "length ts = (init_ram_pages M + 1023) div 1024"
    and ts: "\<forall>p\<in>set ts. kernel_page M p" "\<forall>k<length ts. \<exists>w. T (ts ! k) = Some w \<and>
       (\<forall>j<init_ram_pages M. j div 1024 = k \<longrightarrow> w ! (j mod 1024) = kernel_pte M X j)"
  shows "page < init_ram_pages M \<Longrightarrow> entry_of M T d (kaddr M page) = kernel_pte M X page"
    "is_user_vaddr M v \<Longrightarrow> entry_of M T d v = 0" "length ts \<le> 1024 - kbase M \<Longrightarrow> pd_ok M T d"
proof -
  have V: "vaddr_ok M" and P: "pte_ok M" using M by (simp_all add: mmu_ok_def)
  have low: "kdir M ts ! i = 0" if "i < kbase M" for i using that by (simp add: kdir_def nth_append)
  then show "is_user_vaddr M v \<Longrightarrow> entry_of M T d v = 0" using user_pd_no(1)[OF V, of v] T by (simp add: entry_of_def)
  have "kbase M < 1024" using unsigned_less[of "PHYS_BASE M", where ?'a = nat] V by (simp add: vaddr_ok_def)
  then show "length ts \<le> 1024 - kbase M \<Longrightarrow> pd_ok M T d" using T low by (auto simp: pd_ok_def) (simp add: kdir_def)
  assume page: "page < init_ram_pages M"
  note ix = kaddr_index[OF V R page]
  have "Suc page + 1023 \<le> init_ram_pages M + 1023" using page by simp
  then have k: "page div 1024 < length ts" using div_le_mono[of "Suc page + 1023" _ 1024] len round_up_tables(2)[of page] by fastforce
  then obtain w where w: "T (ts ! (page div 1024)) = Some w" "w ! (page mod 1024) = kernel_pte M X page" using ts(2) page by blast
  have "kernel_page M (ts ! (page div 1024))" using ts(1) k by simp
  then have "pde_create M (ts ! (page div 1024)) \<noteq> 0" "pde_get_pt M (pde_create M (ts ! (page div 1024))) = ts ! (page div 1024)"
    using P by (auto simp: pte_ok_def)
  then show "entry_of M T d (kaddr M page) = kernel_pte M X page"
    using T w ix kdir_nth[OF ix(3), of ts] k by (simp add: entry_of_def)
qed

text \<open>What \<^verbatim>\<open>paging_init\<close> leaves behind.\<close>

definition kernel_space :: "mmu \<Rightarrow> 'd machine \<Rightarrow> u32 \<Rightarrow> 'z pg_scheme \<Rightarrow> bool" where
  "kernel_space M X d s \<longleftrightarrow> (\<forall>page<init_ram_pages M. entry_of M (tables s) d (kaddr M page) = kernel_pte M X page) \<and>
     (\<forall>v. is_user_vaddr M v \<longrightarrow> entry_of M (tables s) d v = 0)"

lemma tables_bound:
  assumes "vaddr_ok M" "ram_ok M"
  shows "(init_ram_pages M + 1023) div 1024 \<le> 1024 - kbase M"
proof (cases "init_ram_pages M")
  case (Suc n)
  then have "n < init_ram_pages M" by simp
  from kaddr_index(3)[OF assms this] show ?thesis using Suc round_up_tables(2)[of n] by simp
qed simp

lemma pagedir_create_run:
  assumes M: "mmu_ok M" and R: "ram_ok M" and loop: "kloop M X used d (init_ram_pages M) pt s"
  shows "kernel_space M X d s" "init_page_dir s = d"
    "wpK (pagedir_create M) (\<lambda>r t. \<forall>e. r = Some e \<longrightarrow> dir_ready M e t \<and> kernel_space M X e t) (s\<lparr>cr3 := c\<rparr>)"
proof -
  obtain ts where kt: "ktables M X used d (init_ram_pages M) ts s" and len: "length ts = (init_ram_pages M + 1023) div 1024"
    using loop by (auto simp: kloop_def)
  have V: "vaddr_ok M" and A: "palloc_ok M" using M by (simp_all add: mmu_ok_def)
  have s: "tables s d = Some (kdir M ts)" "init_page_dir s = d" "\<forall>p\<in>set ts. kernel_page M p"
    "\<forall>k<length ts. \<exists>w. tables s (ts ! k) = Some w \<and>
       (\<forall>j<init_ram_pages M. j div 1024 = k \<longrightarrow> w ! (j mod 1024) = kernel_pte M X j)"
    using kt by (auto simp: ktables_def)
  show "init_page_dir s = d" by fact
  show "kernel_space M X d s" using kdir_entries[OF M R s(1) len s(3,4)] by (simp add: kernel_space_def)
  have "dir_ready M e (s\<lparr>cr3 := c, tables := (tables s)(e \<mapsto> kdir M ts)\<rparr>) \<and> kernel_space M X e (s\<lparr>cr3 := c, tables := (tables s)(e \<mapsto> kdir M ts)\<rparr>)"
    if "tables s e = None" for e
  proof -
    let ?T = "(tables s)(e \<mapsto> kdir M ts)"
    have "\<forall>k<length ts. \<exists>w. ?T (ts ! k) = Some w \<and> (\<forall>j<init_ram_pages M. j div 1024 = k \<longrightarrow> w ! (j mod 1024) = kernel_pte M X j)"
      using s(4) that by fastforce
    from kdir_entries[OF M R _ len s(3) this, of e] have "pd_ok M ?T e" "\<And>page. page < init_ram_pages M \<Longrightarrow> entry_of M ?T e (kaddr M page) = kernel_pte M X page"
      "\<And>v. is_user_vaddr M v \<Longrightarrow> entry_of M ?T e v = 0" using tables_bound[OF V R] len by (simp_all del: fun_upd_apply add: fun_upd_same)
    then show ?thesis using M s(1,2) that by (auto simp: dir_ready_def kernel_space_def simp del: fun_upd_apply)
  qed
  moreover have "tables s e = None" if "palloc M False (page_used (s\<lparr>cr3 := c\<rparr>)) = Some e" for e
  proof -
    have "\<not> page_used (s\<lparr>cr3 := c\<rparr>) e" using A that by (auto simp: palloc_ok_def)
    then show ?thesis by (simp add: page_used_def)
  qed
  ultimately show "wpK (pagedir_create M) (\<lambda>r t. \<forall>e. r = Some e \<longrightarrow> dir_ready M e t \<and> kernel_space M X e t) (s\<lparr>cr3 := c\<rparr>)"
    using s(1,2) by (simp add: pagedir_create_def palloc_get_table_wp split: option.splits)
qed

text \<open>
  C12. With enough free memory \<^verbatim>\<open>paging_init\<close> ends and switches to a directory in which every page of memory is mapped
  at its kernel address, read-only where it holds the code of the kernel and writable elsewhere. A directory
  that \<^verbatim>\<open>pagedir_create\<close> then makes for a process maps the kernel in the same way, and looking up any user
  address in it finds nothing.
\<close>

theorem paging_init_maps_kernel:
  assumes "mmu_ok M" "ram_ok M" "spare M (page_used s) (1 + (init_ram_pages M + 1023) div 1024)"
  shows "wpK (paging_init M X) (\<lambda>_ t. cr3 t = vtop M (init_page_dir t) \<and>
      (\<forall>page<init_ram_pages M. entry_of M (tables t) (init_page_dir t) (kaddr M page) = kernel_pte M X page) \<and>
      wpK (pagedir_create M) (\<lambda>r u. \<forall>d. r = Some d \<longrightarrow> dir_ready M d u \<and>
        (\<forall>page<init_ram_pages M. entry_of M (tables u) d (kaddr M page) = kernel_pte M X page) \<and>
        (\<forall>v. is_user_vaddr M v \<longrightarrow> pagedir_get_page M (Some d) v u = Inr (None, u))) t) s"
proof -
  obtain d where d: "palloc M False (page_used s) = Some d"
    using assms(3)[unfolded spare_def, rule_format, of "[]"] by auto
  have V: "vaddr_ok M" using assms(1) by (simp add: mmu_ok_def)
  have nd: "\<not> page_used s d" using assms(1) d by (auto simp: mmu_ok_def palloc_ok_def)
  let ?s = "s\<lparr>tables := (tables s)(d \<mapsto> replicate 1024 0), init_page_dir := d\<rparr>"
  have "kbase M \<le> 1024" using unsigned_less[of "PHYS_BASE M", where ?'a = nat] V by (simp add: vaddr_ok_def)
  then have "kdir M [] = replicate 1024 0" by (simp add: kdir_def replicate_add[symmetric])
  then have "kloop M X (page_used s) d 0 None ?s"
    by (auto simp: kloop_def ktables_def page_used_def fun_eq_iff)
  from map_kernel_run[OF assms nd _ this, of "init_ram_pages M"]
  have run: "wpK (map_kernel M X [0..<init_ram_pages M] None) (\<lambda>_ t. \<exists>pt. kloop M X (page_used s) d (init_ram_pages M) pt t) ?s" by simp
  have get: "pagedir_get_page M (Some e) v u = Inr (None, u)"
    if "dir_ready M e u" "kernel_space M X e u" "is_user_vaddr M v" for e v and u :: "'a pg_scheme"
    using get_page_translate[OF that(1,3)] that(2,3) by (simp add: pd.translate_def kernel_space_def)
  have "wpK (map_kernel M X [0..<init_ram_pages M] None) (\<lambda>_ t. kernel_space M X d t \<and> init_page_dir t = d \<and>
      wpK (pagedir_create M) (\<lambda>r u. \<forall>e. r = Some e \<longrightarrow> dir_ready M e u \<and> kernel_space M X e u) (t\<lparr>cr3 := vtop M d\<rparr>)) ?s"
    by (rule wpK_mono[OF run]) (elim exE, intro conjI pagedir_create_run[OF assms(1,2)], assumption+)
  then show ?thesis using d
    by (auto simp: paging_init_def palloc_get_table_wp expect_def TABLE_WORDS_def kernel_space_def get elim!: wpK_mono)
qed

text \<open>The kernel's code in two pages from 128 kB on, nothing allocated yet.\<close>

definition sim_machine :: "unit machine" where
  "sim_machine = \<lparr>loader_arg_cnt = 0, loader_args = [], start_text = 0xC0020000, end_kernel_text = 0xC0022000,
     pte_create_kernel = (\<lambda>v w. (v - 0xC0000000) OR (if w then 3 else 1)), devices = []\<rparr>"

definition blank_pg :: pg where
  "blank_pg = \<lparr>tables = Map.empty, pages = Map.empty, init_page_dir = 0, cr3 = 0\<rparr>"

lemma sim_spare: "spare (i386 sim_pool) (page_used blank_pg) 2"
proof -
  have "(\<exists>p\<in>set sim_pool. p \<notin> set xs)" if "length xs < 2" for xs
    using that by (cases xs) (auto simp: sim_pool_def)
  then show ?thesis by (auto simp: spare_def page_used_def blank_pg_def find_None_iff)
qed

theorem paging_init_maps_kernel_witness:
  "wpK (paging_init (i386 sim_pool) sim_machine) (\<lambda>_ t. cr3 t = init_page_dir t - 0xC0000000 \<and>
     entry_of (i386 sim_pool) (tables t) (init_page_dir t) 0xC0020000 = 0x20001 \<and>
     entry_of (i386 sim_pool) (tables t) (init_page_dir t) 0xC0000000 = 3) blank_pg"
proof -
  have ram: "ram_ok (i386 sim_pool)" by (simp add: ram_ok_def)
  have k: "kaddr (i386 sim_pool) 32 = 0xC0020000" "kaddr (i386 sim_pool) 0 = 0xC0000000" by (simp_all add: kaddr_def PGSIZE_def)
  have e: "kernel_pte (i386 sim_pool) sim_machine 32 = 0x20001" "kernel_pte (i386 sim_pool) sim_machine 0 = 3"
    by (simp_all add: kernel_pte_def k sim_machine_def)
  have sp: "spare (i386 sim_pool) (page_used blank_pg) (1 + (init_ram_pages (i386 sim_pool) + 1023) div 1024)"
    using sim_spare by (simp add: numeral_2_eq_2)
  from paging_init_maps_kernel[OF sim_pool_ok ram sp, of sim_machine] show ?thesis
  proof (rule wpK_mono, elim conjE, intro conjI)
    fix t :: pg
    assume m: "\<forall>page<init_ram_pages (i386 sim_pool). entry_of (i386 sim_pool) (tables t) (init_page_dir t) (kaddr (i386 sim_pool) page) =
      kernel_pte (i386 sim_pool) sim_machine page"
    from m[rule_format, of 32] m[rule_format, of 0] k e
    show "entry_of (i386 sim_pool) (tables t) (init_page_dir t) 0xC0020000 = 0x20001"
      "entry_of (i386 sim_pool) (tables t) (init_page_dir t) 0xC0000000 = 3" by simp_all
  qed simp
qed

end
