(* ===== verification/Threads_Facts.thy ===== *)
theory Threads_Facts
  imports Threads
begin

text \<open>
  Theorems on scheduling and synchronisation: priority donation ends and leaves no thread
  waiting for a holder of lower priority that did not wait so before; releasing a lock drops
  the donations it brought; yielding leaves a thread of the highest priority running; raising
  a semaphore wakes the waiter of the highest priority.
\<close>

section \<open>Running heap operations\<close>

lemma threadK_wp [wp, simp]: "wpK (threadK t) Q s \<longleftrightarrow> (\<exists>x. threads s t = Some x \<and> Q x s)"
  by (simp add: threadK_def)

lemma upd_thread_wp [wp, simp]:
  "wpK (upd_thread t f) Q s \<longleftrightarrow> (\<exists>x. threads s t = Some x \<and> Q () (s\<lparr>threads := (threads s)(t \<mapsto> f x)\<rparr>))"
  by (simp add: upd_thread_def)

lemma lockK_wp [wp, simp]: "wpK (lockK l) Q s \<longleftrightarrow> (\<exists>x. locks s l = Some x \<and> Q x s)"
  by (simp add: lockK_def)

lemma upd_lock_wp [wp, simp]:
  "wpK (upd_lock l f) Q s \<longleftrightarrow> (\<exists>x. locks s l = Some x \<and> Q () (s\<lparr>locks := (locks s)(l \<mapsto> f x)\<rparr>))"
  by (simp add: upd_lock_def)

lemma semaK_wp [wp, simp]: "wpK (semaK p) Q s \<longleftrightarrow> (\<exists>x. semas s p = Some x \<and> Q x s)"
  by (simp add: semaK_def)

lemma put_sema_wp [wp, simp]: "wpK (put_sema p x) Q s = Q () (s\<lparr>semas := (semas s)(p \<mapsto> x)\<rparr>)"
  by (simp add: put_sema_def)

lemma assert_thread_wp [wp, simp]:
  "wpK (assert_thread t) Q s \<longleftrightarrow> (\<exists>x. threads s t = Some x \<and> tmagic x = THREAD_MAGIC \<and> Q () s)"
  by (auto simp: assert_thread_def is_thread_def)

text \<open>The running thread is a thread and marked as running.\<close>

definition running_ok :: "sched \<Rightarrow> bool" where
  "running_ok s \<longleftrightarrow> (\<exists>x. threads s (running s) = Some x \<and> tmagic x = THREAD_MAGIC \<and> status x = THREAD_RUNNING)"

lemma thread_current_wp [wp, simp]: "wpK thread_current Q s \<longleftrightarrow> running_ok s \<and> Q (running s) s"
  by (auto simp: thread_current_def running_ok_def)

lemma intr_off_wp [wp]:
  "wpK (intr_off m) Q s = wpK m (\<lambda>r t. Q r (t\<lparr>intr_on := intr_on s\<rparr>)) (s\<lparr>intr_on := False\<rparr>)"
  by (simp add: intr_off_def wpK_def kstep split: sum.splits)

section \<open>Priority donation\<close>

text \<open>A thread waits, by its own record, for a lock whose holder has a lower priority.\<close>

definition inverted :: "sched \<Rightarrow> (addr \<times> addr) set" where
  "inverted s = {(t, l). \<exists>x lk h y. threads s t = Some x \<and> l \<in> set (wait_lock_list x) \<and> locks s l = Some lk \<and>
     holder lk = Some h \<and> threads s h = Some y \<and> priority y < priority x}"

definition waits_ok :: "sched \<Rightarrow> bool" where
  "waits_ok s \<longleftrightarrow> finite (dom (threads s)) \<and>
     (\<forall>t x l. threads s t = Some x \<longrightarrow> l \<in> set (wait_lock_list x) \<longrightarrow> locks s l \<noteq> None) \<and>
     (\<forall>l lk h. locks s l = Some lk \<longrightarrow> holder lk = Some h \<longrightarrow> threads s h \<noteq> None)"

definition low :: "int \<Rightarrow> sched \<Rightarrow> addr set" where
  "low p s = {t. \<exists>x. threads s t = Some x \<and> priority x < p}"

text \<open>What a donation of priority \<open>p\<close> may change: priorities, upwards to \<open>p\<close>.\<close>

definition raised :: "int \<Rightarrow> thread option \<Rightarrow> thread option \<Rightarrow> bool" where
  "raised p a b \<longleftrightarrow> (case a of None \<Rightarrow> b = None
     | Some x \<Rightarrow> b = Some x \<or> priority x < p \<and> b = Some (x\<lparr>priority := p\<rparr>))"

definition lock_raised :: "lock option \<Rightarrow> lock option \<Rightarrow> bool" where
  "lock_raised a b \<longleftrightarrow> (case a of None \<Rightarrow> b = None
     | Some x \<Rightarrow> (\<exists>q\<ge>lpriority x. b = Some (x\<lparr>lpriority := q\<rparr>)))"

definition donated :: "int \<Rightarrow> sched \<Rightarrow> sched \<Rightarrow> bool" where
  "donated p s t \<longleftrightarrow> (\<forall>a. raised p (threads s a) (threads t a)) \<and>
     (\<forall>l. lock_raised (locks s l) (locks t l)) \<and> t = s\<lparr>threads := threads t, locks := locks t\<rparr>"

lemma raised_refl: "raised p a a"
  by (simp add: raised_def split: option.splits)

lemma raised_trans: "raised p a b \<Longrightarrow> raised p b c \<Longrightarrow> raised p a c"
  by (auto simp: raised_def split: option.splits)

lemma lock_raised_refl: "lock_raised a a"
proof (cases a)
  case (Some x)
  then show ?thesis by (auto simp: lock_raised_def intro!: exI[of _ "lpriority x"])
qed (simp add: lock_raised_def)

lemma lock_raised_trans:
  assumes "lock_raised a b" "lock_raised b c"
  shows "lock_raised a c"
proof (cases a)
  case None
  with assms show ?thesis by (simp add: lock_raised_def)
next
  case (Some x)
  then obtain q where q: "lpriority x \<le> q" "b = Some (x\<lparr>lpriority := q\<rparr>)"
    using assms(1) by (auto simp: lock_raised_def)
  then obtain r where "q \<le> r" "c = Some (x\<lparr>lpriority := r\<rparr>)"
    using assms(2) by (auto simp: lock_raised_def)
  with q(1) Some show ?thesis by (auto simp: lock_raised_def intro!: exI[of _ r])
qed

lemma donated_refl: "donated p s s"
  by (simp add: donated_def raised_refl lock_raised_refl)

lemma donated_trans:
  assumes "donated p s t" "donated p t u"
  shows "donated p s u"
proof -
  have "u = t\<lparr>threads := threads u, locks := locks u\<rparr>" "t = s\<lparr>threads := threads t, locks := locks t\<rparr>"
    using assms by (simp_all add: donated_def)
  then have "u = s\<lparr>threads := threads u, locks := locks u\<rparr>" by (cases s; cases t; cases u) simp
  with assms show ?thesis
    unfolding donated_def by (blast intro: raised_trans lock_raised_trans)
qed

lemma donated_thread:
  assumes "donated p s t" "threads s a = Some x"
  shows "threads t a = Some x \<or> priority x < p \<and> threads t a = Some (x\<lparr>priority := p\<rparr>)"
proof -
  have "raised p (threads s a) (threads t a)" using assms(1) by (simp add: donated_def)
  with assms(2) show ?thesis by (simp add: raised_def)
qed

lemma donated_thread_back:
  assumes "donated p s t" "threads t a = Some y"
  obtains x where "threads s a = Some x" "wait_lock_list y = wait_lock_list x" "priority x \<le> priority y"
proof (cases "threads s a")
  case None
  have "raised p (threads s a) (threads t a)" using assms(1) by (simp add: donated_def)
  with None assms(2) show ?thesis by (simp add: raised_def)
next
  case (Some x)
  with donated_thread[OF assms(1) Some] assms(2) that show ?thesis by auto
qed

lemma donated_lock:
  assumes "donated p s t" "locks s l = Some lk"
  shows "\<exists>q\<ge>lpriority lk. locks t l = Some (lk\<lparr>lpriority := q\<rparr>)"
proof -
  have "lock_raised (locks s l) (locks t l)" using assms(1) by (simp add: donated_def)
  with assms(2) show ?thesis by (simp add: lock_raised_def)
qed

lemma donated_lock_back:
  assumes "donated p s t" "locks t l = Some lk"
  obtains lk' where "locks s l = Some lk'" "holder lk' = holder lk"
proof (cases "locks s l")
  case None
  have "lock_raised (locks s l) (locks t l)" using assms(1) by (simp add: donated_def)
  with None assms(2) show ?thesis by (simp add: lock_raised_def)
next
  case (Some x)
  with donated_lock[OF assms(1) Some] assms(2) that show ?thesis by auto
qed

lemma donated_dom: "donated p s t \<Longrightarrow> dom (threads t) = dom (threads s)"
  by (auto dest: donated_thread elim: donated_thread_back)

lemma donated_waits_ok:
  assumes "donated p s t" "waits_ok s"
  shows "waits_ok t"
  unfolding waits_ok_def
proof (intro conjI allI impI)
  show "finite (dom (threads t))" using assms donated_dom by (simp add: waits_ok_def)
next
  fix a y l assume "threads t a = Some y" "l \<in> set (wait_lock_list y)"
  then obtain x where "threads s a = Some x" "l \<in> set (wait_lock_list x)"
    using donated_thread_back[OF assms(1)] by metis
  then have "locks s l \<noteq> None" using assms(2) unfolding waits_ok_def by blast
  then show "locks t l \<noteq> None" using donated_lock[OF assms(1)] by fastforce
next
  fix l lk h assume "locks t l = Some lk" "holder lk = Some h"
  then obtain lk' where "locks s l = Some lk'" "holder lk' = Some h"
    using donated_lock_back[OF assms(1)] by metis
  then have "threads s h \<noteq> None" using assms(2) unfolding waits_ok_def by blast
  then show "threads t h \<noteq> None" using donated_thread[OF assms(1)] by fastforce
qed

lemma donated_low: "donated p s t \<Longrightarrow> low p t \<subseteq> low p s"
  by (force simp: low_def elim: donated_thread_back)

lemma low_finite: "waits_ok s \<Longrightarrow> finite (low p s)"
  by (rule finite_subset[of _ "dom (threads s)"]) (auto simp: low_def waits_ok_def)

lemma inverted_lock_priority:
  "locks s l = Some lk \<Longrightarrow> inverted (s\<lparr>locks := (locks s)(l \<mapsto> lk\<lparr>lpriority := q\<rparr>)\<rparr>) = inverted s"
  by (auto simp: inverted_def split: if_splits)

text \<open>Raising the holder \<open>t\<close> of \<open>l\<close> to \<open>p\<close> ends the inversion at \<open>l\<close>; new ones are behind \<open>t\<close>.\<close>

lemma inverted_raise:
  assumes "threads s cur = Some c" "priority c = p" "locks s l = Some lk" "holder lk = Some t"
    "threads s t = Some x" "priority x < p"
  shows "inverted (s\<lparr>threads := (threads s)(t \<mapsto> x\<lparr>priority := p\<rparr>)\<rparr>)
    \<subseteq> (inverted s - {(cur, l)}) \<union> {t} \<times> set (wait_lock_list x)"
  using assms by (auto simp: inverted_def split: if_splits)

lemma low_raise:
  assumes "waits_ok s" "threads s t = Some x" "priority x < p"
  shows "card (low p (s\<lparr>threads := (threads s)(t \<mapsto> x\<lparr>priority := p\<rparr>)\<rparr>)) < card (low p s)"
proof (rule psubset_card_mono)
  show "finite (low p s)" using low_finite[OF assms(1)] .
  show "low p (s\<lparr>threads := (threads s)(t \<mapsto> x\<lparr>priority := p\<rparr>)\<rparr>) \<subset> low p s"
    using assms(2,3) by (auto simp: low_def split: if_splits)
qed

lemma donated_raise_thread:
  "threads s t = Some x \<Longrightarrow> priority x < p \<Longrightarrow> donated p s (s\<lparr>threads := (threads s)(t \<mapsto> x\<lparr>priority := p\<rparr>)\<rparr>)"
  by (simp add: donated_def raised_refl lock_raised_refl) (simp add: raised_def)

lemma donated_raise_lock:
  assumes "locks s l = Some lk" "lpriority lk \<le> q"
  shows "donated p s (s\<lparr>locks := (locks s)(l \<mapsto> lk\<lparr>lpriority := q\<rparr>)\<rparr>)"
  using assms by (simp add: donated_def raised_refl lock_raised_refl) (auto simp: lock_raised_def)

text \<open>The state of the loop over the locks \<open>W\<close> that the raised thread \<open>t\<close> waits for.\<close>

definition donating :: "int \<Rightarrow> (addr \<times> addr) set \<Rightarrow> sched \<Rightarrow> addr \<Rightarrow> addr list \<Rightarrow> nat \<Rightarrow> sched \<Rightarrow> bool" where
  "donating p B s t W i s' \<longleftrightarrow> donated p s s' \<and> inverted s' \<subseteq> B \<union> {t} \<times> set (drop i W)"

lemma donating_step:
  assumes "donating p B s t W i u" "donated p u v" "inverted v \<subseteq> inverted u - {(t, W ! i)}" "i < length W"
  shows "donating p B s t W (Suc i) v"
proof -
  have "set (drop i W) \<subseteq> insert (W ! i) (set (drop (Suc i) W))" using assms(4) by (simp add: Cons_nth_drop_Suc[symmetric])
  then show ?thesis using assms(1-3) unfolding donating_def by (blast intro: donated_trans)
qed

text \<open>One level of the recursion: the lock's priority, then the holder's, then the locks it waits for.\<close>

definition lock_up :: "sched \<Rightarrow> addr \<Rightarrow> lock \<Rightarrow> int \<Rightarrow> sched" where
  "lock_up s l lk p = (if lpriority lk < p then s\<lparr>locks := (locks s)(l \<mapsto> lk\<lparr>lpriority := p\<rparr>)\<rparr> else s)"

lemma lock_up_facts:
  assumes "locks s l = Some lk"
  shows "donated p s (lock_up s l lk p)" "inverted (lock_up s l lk p) = inverted s"
    "threads (lock_up s l lk p) = threads s" "low p (lock_up s l lk p) = low p s"
  using assms by (simp_all add: lock_up_def donated_refl donated_raise_lock inverted_lock_priority low_def)

lemma lock_up_holder: "locks s l = Some lk \<Longrightarrow> \<exists>lk'. locks (lock_up s l lk p) l = Some lk' \<and> holder lk' = holder lk"
  by (simp add: lock_up_def)

lemma donate_lock_level:
  assumes "locks s l = Some lk" "holder lk = Some t" "threads s cur = Some c" "threads s t = Some x"
  shows "wpK (donate_lock (Suc n) l cur) Q s = (if priority x < priority c
     then wpK (forK (wait_lock_list x) (\<lambda>l'. donate_lock n l' t)) Q
       ((lock_up s l lk (priority c))\<lparr>threads := (threads s)(t \<mapsto> x\<lparr>priority := priority c\<rparr>)\<rparr>)
     else Q () (lock_up s l lk (priority c)))"
  using assms by (simp add: lock_up_def)

text \<open>The loop, from a state in which \<open>t\<close> has the donated priority.\<close>

lemma donate_loop:
  assumes step: "\<And>u l c. waits_ok u \<Longrightarrow> threads u t = Some c \<Longrightarrow> priority c = p \<Longrightarrow> locks u l \<noteq> None \<Longrightarrow>
      card (low p u) < n \<Longrightarrow>
      wpK (donate_lock n l t) (\<lambda>_ v. donated p u v \<and> inverted v \<subseteq> inverted u - {(t, l)}) u"
    and w: "waits_ok s" and t: "threads s t = Some x" "priority x = p" and card: "card (low p s) < n"
    and start: "inverted s \<subseteq> B \<union> {t} \<times> set (wait_lock_list x)"
  shows "wpK (forK (wait_lock_list x) (\<lambda>l'. donate_lock n l' t)) (\<lambda>_ v. donated p s v \<and> inverted v \<subseteq> B) s"
proof -
  let ?W = "wait_lock_list x"
  have "wpK (forK ?W (\<lambda>l'. donate_lock n l' t)) (\<lambda>_. donating p B s t ?W (length ?W)) s"
  proof (rule wpK_forK)
    show "donating p B s t ?W 0 s" using start by (simp add: donating_def donated_refl)
    fix i u assume i: "i < length ?W" and u: "donating p B s t ?W i u"
    then have du: "donated p s u" by (simp add: donating_def)
    have wu: "waits_ok u" using donated_waits_ok[OF du w] .
    have tu: "threads u t = Some x" using donated_thread[OF du t(1)] t(2) by simp
    have "?W ! i \<in> set ?W" using i by simp
    with wu tu have lu: "locks u (?W ! i) \<noteq> None" unfolding waits_ok_def by blast
    have "card (low p u) < n" using card_mono[OF low_finite[OF w] donated_low[OF du]] card by simp
    from step[OF wu tu t(2) lu this] show "wpK (donate_lock n (?W ! i) t) (\<lambda>_. donating p B s t ?W (Suc i)) u"
      by (rule wpK_mono) (auto intro: donating_step[OF u _ _ i])
  qed
  then show ?thesis by (rule wpK_mono) (simp add: donating_def)
qed

lemma donate_lock_run:
  assumes "waits_ok s" "threads s cur = Some c" "priority c = p" "locks s l \<noteq> None" "card (low p s) < n"
  shows "wpK (donate_lock n l cur) (\<lambda>_ s'. donated p s s' \<and> inverted s' \<subseteq> inverted s - {(cur, l)}) s"
  using assms
proof (induction n arbitrary: s cur c l)
  case 0
  then show ?case by simp
next
  case (Suc n)
  from Suc.prems(4) obtain lk where lk: "locks s l = Some lk" by blast
  show ?case
  proof (cases "holder lk")
    case None
    with lk show ?thesis by (auto simp: donated_refl inverted_def)
  next
    case (Some t)
    with Suc.prems(1) lk obtain x where x: "threads s t = Some x" unfolding waits_ok_def by blast
    define s1 where "s1 = lock_up s l lk p"
    note s1 = lock_up_facts[OF lk, of p, folded s1_def]
    note level = donate_lock_level[OF lk Some Suc.prems(2) x, unfolded Suc.prems(3), folded s1_def]
    have w1: "waits_ok s1" using donated_waits_ok[OF s1(1) Suc.prems(1)] .
    show ?thesis
    proof (cases "priority x < p")
      case False
      then have "(cur, l) \<notin> inverted s" using Suc.prems(2,3) lk Some x by (auto simp: inverted_def)
      then show ?thesis unfolding level using False s1(1,2) by simp
    next
      case True
      have x1: "threads s1 t = Some x" using x s1(3) by simp
      let ?x = "x\<lparr>priority := p\<rparr>"
      define s2 where "s2 = s1\<lparr>threads := (threads s1)(t \<mapsto> ?x)\<rparr>"
      obtain lk1 where lk1: "locks s1 l = Some lk1" "holder lk1 = Some t"
        using lock_up_holder[OF lk, of p] Some s1_def by auto
      have d2: "donated p s1 s2" unfolding s2_def by (rule donated_raise_thread[OF x1 True])
      have "wpK (forK (wait_lock_list ?x) (\<lambda>l'. donate_lock n l' t))
          (\<lambda>_ v. donated p s2 v \<and> inverted v \<subseteq> inverted s - {(cur, l)}) s2"
      proof (rule donate_loop[OF Suc.IH])
        show "waits_ok s2" by (rule donated_waits_ok[OF d2 w1])
        show "card (low p s2) < n" using low_raise[OF w1 x1 True] s1(4) Suc.prems(5) by (simp add: s2_def)
        show "inverted s2 \<subseteq> (inverted s - {(cur, l)}) \<union> {t} \<times> set (wait_lock_list ?x)"
          using inverted_raise[OF _ Suc.prems(3) lk1 x1 True, of cur] Suc.prems(2) s1(2,3) by (simp add: s2_def)
      qed (simp_all add: s2_def)
      then have "wpK (forK (wait_lock_list x) (\<lambda>l'. donate_lock n l' t))
          (\<lambda>_ v. donated p s v \<and> inverted v \<subseteq> inverted s - {(cur, l)}) s2"
        by (auto elim!: wpK_mono intro: donated_trans[OF donated_trans[OF s1(1) d2]])
      then show ?thesis unfolding level using True by (simp add: s2_def s1(3))
    qed
  qed
qed

section \<open>Scheduling\<close>

text \<open>What a switch may change of the threads: their status.\<close>

definition core :: "thread \<Rightarrow> thread" where
  "core x = x\<lparr>status := THREAD_READY\<rparr>"

definition status_only :: "sched \<Rightarrow> sched \<Rightarrow> bool" where
  "status_only s t \<longleftrightarrow> (\<forall>a. map_option core (threads t a) = map_option core (threads s a)) \<and>
     locks t = locks s \<and> semas t = semas s \<and> conds t = conds s \<and> selems t = selems s \<and> all_list t = all_list s \<and>
     idle_thread t = idle_thread s \<and> intr_context t = intr_context s"

lemma status_only_refl: "status_only s s"
  by (simp add: status_only_def)

lemma status_only_trans: "status_only s t \<Longrightarrow> status_only t u \<Longrightarrow> status_only s u"
  by (simp add: status_only_def)

lemma core_fields:
  "core x = core y \<Longrightarrow> priority x = priority y \<and> tmagic x = tmagic y \<and> wait_lock_list x = wait_lock_list y
     \<and> lock_list x = lock_list y \<and> original_priority x = original_priority y"
  by (cases x; cases y) (simp add: core_def)

lemma core_status [simp]: "core (x\<lparr>status := v\<rparr>) = core x"
  by (simp add: core_def)

lemma status_only_thread:
  assumes "status_only s t" "threads s a = Some x"
  obtains y where "threads t a = Some y" "core y = core x"
proof -
  have "map_option core (threads t a) = Some (core x)" using assms by (simp add: status_only_def)
  then show ?thesis using that by auto
qed

lemma status_only_sym: "status_only s t \<Longrightarrow> status_only t s"
  by (simp add: status_only_def)

lemma pri_core: "pri s a = (case map_option core (threads s a) of None \<Rightarrow> 0 | Some x \<Rightarrow> priority x)"
  by (simp add: pri_def core_def split: option.splits)

lemma status_only_pri: "status_only s t \<Longrightarrow> pri t a = pri s a"
  by (simp add: pri_core status_only_def)

lemma status_only_big: "status_only s t \<Longrightarrow> big t = big s"
  by (rule ext, rule ext) (simp add: big_def status_only_pri)

text \<open>A pointer to a thread: mapped, with the magic number.\<close>

definition good :: "sched \<Rightarrow> addr \<Rightarrow> bool" where
  "good s t \<longleftrightarrow> (\<exists>x. threads s t = Some x \<and> tmagic x = THREAD_MAGIC)"

lemma good_core: "good s a \<longleftrightarrow> (\<exists>y. map_option core (threads s a) = Some y \<and> tmagic y = THREAD_MAGIC)"
  by (auto simp: good_def core_def)

lemma status_only_good: "status_only s t \<Longrightarrow> good t a = good s a"
  by (simp add: good_core status_only_def del: map_option_eq_Some)

text \<open>
  The run queue and the sleepers are threads, there is a thread to run, the idle thread, and,
  if \<open>od\<close>, the run queue is in the order of the priorities.
\<close>

definition queues_ok :: "bool \<Rightarrow> sched \<Rightarrow> bool" where
  "queues_ok od s \<longleftrightarrow> (\<forall>t\<in>set (ready_list s) \<union> set (sleeping_list s). good s t) \<and>
     (od \<longrightarrow> in_order (big s) (ready_list s)) \<and> (\<exists>i. idle_thread s = Some i \<and> good s i)"

lemma strict_big: "strict_order (big s)"
  unfolding strict_order_def big_def by (rule exI[of _ "\<lambda>t. - pri s t"]) simp

lemma strict_lock_big: "strict_order (lock_big s)"
  unfolding strict_order_def lock_big_def
  by (rule exI[of _ "\<lambda>l. - (case locks s l of None \<Rightarrow> 0 | Some k \<Rightarrow> lpriority k)"]) simp

lemma insert_big:
  assumes "listlib_ok L"
  shows "mset (list_insert_ordered L (big s) t xs) = add_mset t (mset xs)"
    "set (list_insert_ordered L (big s) t xs) = insert t (set xs)"
    "in_order (big s) xs \<Longrightarrow> in_order (big s) (list_insert_ordered L (big s) t xs)"
proof -
  show m: "mset (list_insert_ordered L (big s) t xs) = add_mset t (mset xs)"
    using assms strict_big by (simp add: listlib_ok_def)
  show "set (list_insert_ordered L (big s) t xs) = insert t (set xs)"
    using arg_cong[OF m, of set_mset] by simp
  show "in_order (big s) xs \<Longrightarrow> in_order (big s) (list_insert_ordered L (big s) t xs)"
    using assms strict_big by (simp add: listlib_ok_def)
qed

lemma sort_ordered:
  assumes "listlib_ok L" "strict_order lt"
  shows "mset (list_sort L lt xs) = mset xs" "set (list_sort L lt xs) = set xs" "in_order lt (list_sort L lt xs)"
proof -
  show m: "mset (list_sort L lt xs) = mset xs" using assms by (simp add: listlib_ok_def)
  show "set (list_sort L lt xs) = set xs" using arg_cong[OF m, of set_mset] by simp
  show "in_order lt (list_sort L lt xs)" using assms by (simp add: listlib_ok_def)
qed

lemma in_order_head: "in_order (big s) (x # xs) \<Longrightarrow> y \<in> set xs \<Longrightarrow> pri s y \<le> pri s x"
  by (fastforce simp: in_order_def big_def)

lemma in_order_tail: "in_order lt (x # xs) \<Longrightarrow> in_order lt xs"
  by (simp add: in_order_def)

lemma status_only_upd: "threads s t = Some x \<Longrightarrow> status_only s (s\<lparr>threads := (threads s)(t \<mapsto> x\<lparr>status := v\<rparr>)\<rparr>)"
  by (simp add: status_only_def)

lemma queues_ok_transfer:
  assumes "queues_ok od s" "status_only s t" "set (ready_list t) \<union> set (sleeping_list t) \<subseteq> set (ready_list s) \<union> set (sleeping_list s)"
    "od \<Longrightarrow> in_order (big s) (ready_list t)"
  shows "queues_ok od t"
proof -
  have "idle_thread t = idle_thread s" using assms(2) by (simp add: status_only_def)
  with assms show ?thesis unfolding queues_ok_def by (auto simp: status_only_good status_only_big)
qed

definition woken :: "bool \<Rightarrow> sched \<Rightarrow> sched \<Rightarrow> bool" where
  "woken od s t \<longleftrightarrow> status_only s t \<and> queues_ok od t \<and> mset (ready_list s) \<subseteq># mset (ready_list t) \<and>
     running t = running s \<and> intr_on t = intr_on s \<and> initial_thread t = initial_thread s \<and>
     (\<forall>a x. threads s a = Some x \<longrightarrow> (\<exists>y. threads t a = Some y \<and> status y \<in> {status x, THREAD_READY}))"

lemma woken_refl: "queues_ok od s \<Longrightarrow> woken od s s"
  by (simp add: woken_def status_only_refl)

lemma wake_sleeper_run:
  assumes "listlib_ok L" "queues_ok od s"
  shows "wpK (wake_sleeper L) (\<lambda>_. woken od s) s"
proof (cases "sleeping_list s")
  case Nil
  then show ?thesis by (simp add: wake_sleeper_def woken_refl assms(2))
next
  case (Cons t ts)
  then obtain x where x: "threads s t = Some x" using assms(2) by (auto simp: queues_ok_def good_def)
  let ?r = "list_insert_ordered L (big s) t (ready_list s)"
  let ?u = "s\<lparr>sleeping_list := ts, ready_list := ?r, threads := (threads s)(t \<mapsto> x\<lparr>status := THREAD_READY\<rparr>)\<rparr>"
  have so: "status_only s ?u" using x by (simp add: status_only_def)
  have "queues_ok od ?u"
    using assms(2) by (rule queues_ok_transfer[OF _ so]) (use assms Cons in \<open>auto simp: insert_big queues_ok_def\<close>)
  then have "woken od s ?u" using so x by (auto simp: woken_def insert_big[OF assms(1)])
  with Cons x show ?thesis by (auto simp: wake_sleeper_def woken_refl assms(2))
qed

text \<open>
  After a switch: a thread is running, no ready thread has been lost, of the threads only the
  status has changed, and, if the run queue was in order, no ready thread has a higher
  priority than the running one.
\<close>

definition switched :: "bool \<Rightarrow> sched \<Rightarrow> sched \<Rightarrow> bool" where
  "switched od s t \<longleftrightarrow> running_ok t \<and> queues_ok od t \<and> status_only s t \<and>
     (od \<longrightarrow> (\<forall>a\<in>set (ready_list t). pri t a \<le> pri t (running t))) \<and>
     mset (ready_list s) \<subseteq># add_mset (running t) (mset (ready_list t))"

definition dispatch :: "sched \<Rightarrow> addr \<Rightarrow> thread \<Rightarrow> sched" where
  "dispatch s t x = s\<lparr>running := t, threads := (threads s)(t \<mapsto> x\<lparr>status := THREAD_RUNNING\<rparr>), thread_ticks := 0\<rparr>"

definition switch_rest :: "addr \<Rightarrow> addr option \<Rightarrow> (sched, unit) K" where
  "switch_rest cur nx = bindK (getK intr_on) (\<lambda>on. thenK (assertK (\<not> on))
     (bindK (threadK cur) (\<lambda>x. thenK (assertK (status x \<noteq> THREAD_RUNNING))
     (case nx of None \<Rightarrow> failK PANIC
      | Some t \<Rightarrow> thenK (assert_thread t)
          (if cur \<noteq> t then thenK (modK (\<lambda>s. s\<lparr>running := t\<rparr>)) (thread_schedule_tail (Some cur))
           else thread_schedule_tail None)))))"

lemma schedule_rest:
  "schedule L = bindK (getK running) (\<lambda>cur. thenK (wake_sleeper L) (bindK next_thread_to_run (switch_rest cur)))"
  by (simp add: schedule_def switch_rest_def[abs_def])

lemma switch_rest_run:
  assumes "threads s t = Some x" "tmagic x = THREAD_MAGIC" "\<not> intr_on s" "running s = cur" "threads s cur = Some c"
    "status c \<notin> {THREAD_RUNNING, THREAD_DYING}" "Q () (dispatch s t x)"
  shows "wpK (switch_rest cur (Some t)) Q s"
  using assms by (auto simp: switch_rest_def thread_schedule_tail_def dispatch_def)

lemma dispatch_switched:
  assumes "queues_ok od s" "threads s t = Some x" "tmagic x = THREAD_MAGIC"
    "od \<Longrightarrow> \<forall>a\<in>set (ready_list s). pri s a \<le> pri s t"
  shows "running_ok (dispatch s t x)" "queues_ok od (dispatch s t x)" "status_only s (dispatch s t x)"
    "od \<longrightarrow> (\<forall>a\<in>set (ready_list (dispatch s t x)). pri (dispatch s t x) a \<le> pri (dispatch s t x) (running (dispatch s t x)))"
proof -
  show so: "status_only s (dispatch s t x)" using assms(2) by (simp add: status_only_def dispatch_def)
  show "running_ok (dispatch s t x)" using assms(3) by (simp add: running_ok_def dispatch_def)
  show "queues_ok od (dispatch s t x)"
    using assms(1) by (rule queues_ok_transfer[OF _ so]) (use assms(1) in \<open>auto simp: dispatch_def queues_ok_def\<close>)
  show "od \<longrightarrow> (\<forall>a\<in>set (ready_list (dispatch s t x)). pri (dispatch s t x) a \<le> pri (dispatch s t x) (running (dispatch s t x)))"
    using assms(4) by (simp add: status_only_pri[OF so]) (simp add: dispatch_def)
qed

text \<open>The choice of the next thread: the first of the run queue or the idle thread.\<close>

lemma next_thread_run:
  assumes "queues_ok od s"
    and "\<And>t x r. threads s t = Some x \<Longrightarrow> tmagic x = THREAD_MAGIC \<Longrightarrow> (od \<Longrightarrow> in_order (big s) r) \<Longrightarrow>
      set r \<subseteq> set (ready_list s) \<Longrightarrow> (od \<Longrightarrow> \<forall>a\<in>set r. pri s a \<le> pri s t) \<Longrightarrow>
      mset (ready_list s) \<subseteq># add_mset t (mset r) \<Longrightarrow> Q (Some t) (s\<lparr>ready_list := r\<rparr>)"
  shows "wpK next_thread_to_run Q s"
proof (cases "ready_list s")
  case Nil
  moreover obtain i where "idle_thread s = Some i" "good s i" using assms(1) by (auto simp: queues_ok_def)
  moreover have "s\<lparr>ready_list := []\<rparr> = s" using Nil by simp
  ultimately show ?thesis using assms(2)[of i _ "[]", unfolded \<open>s\<lparr>ready_list := []\<rparr> = s\<close>]
    by (auto simp: next_thread_to_run_def good_def in_order_def)
next
  case (Cons t r)
  then have "od \<Longrightarrow> in_order (big s) (t # r)" "good s t" using assms(1) by (auto simp: queues_ok_def)
  moreover from this(1) have "od \<Longrightarrow> in_order (big s) r" "od \<Longrightarrow> \<forall>a\<in>set r. pri s a \<le> pri s t"
    using in_order_head in_order_tail by blast+
  ultimately show ?thesis using assms(2)[of t _ r] Cons by (auto simp: next_thread_to_run_def good_def)
qed

lemma schedule_run:
  assumes "listlib_ok L" "queues_ok od s" "\<not> intr_on s" "threads s (running s) = Some c"
    "status c \<notin> {THREAD_RUNNING, THREAD_DYING}"
  shows "wpK (schedule L) (\<lambda>_. switched od s) s"
proof -
  have "wpK next_thread_to_run (\<lambda>nx. wpK (switch_rest (running s) nx) (\<lambda>_. switched od s)) u" if u: "woken od s u" for u
  proof (rule next_thread_run)
    show qu: "queues_ok od u" using u by (simp add: woken_def)
    fix t x r
    assume t: "threads u t = Some x" "tmagic x = THREAD_MAGIC" and r: "od \<Longrightarrow> in_order (big u) r" "set r \<subseteq> set (ready_list u)"
      "od \<Longrightarrow> \<forall>a\<in>set r. pri u a \<le> pri u t" "mset (ready_list u) \<subseteq># add_mset t (mset r)"
    let ?v = "u\<lparr>ready_list := r\<rparr>"
    obtain y where y: "threads u (running s) = Some y" "status y \<notin> {THREAD_RUNNING, THREAD_DYING}"
      using u assms(4,5) unfolding woken_def by fastforce
    have su: "status_only s u" "mset (ready_list s) \<subseteq># mset (ready_list u)" "running u = running s" "\<not> intr_on u"
      using u assms(3) by (auto simp: woken_def)
    have uv: "status_only u ?v" by (simp add: status_only_def)
    have "queues_ok od ?v" using qu uv by (rule queues_ok_transfer) (use r in auto)
    from dispatch_switched[OF this _ t(2), of t] t(1) r(3)
    have "running_ok (dispatch ?v t x)" "queues_ok od (dispatch ?v t x)" "status_only ?v (dispatch ?v t x)"
      "od \<longrightarrow> (\<forall>a\<in>set (ready_list (dispatch ?v t x)). pri (dispatch ?v t x) a \<le> pri (dispatch ?v t x) (running (dispatch ?v t x)))"
      by (simp_all add: status_only_pri[OF uv])
    moreover have "mset (ready_list s) \<subseteq># add_mset t (mset r)" using su(2) r(4) by (rule subset_mset.order_trans)
    ultimately have "switched od s (dispatch ?v t x)"
      unfolding switched_def using status_only_trans[OF su(1) status_only_trans[OF uv]] by (simp add: dispatch_def)
    then show "wpK (switch_rest (running s) (Some t)) (\<lambda>_. switched od s) ?v"
      using switch_rest_run[of ?v t x "running s" y "\<lambda>_. switched od s"] t y su by simp
  qed
  with wake_sleeper_run[OF assms(1,2)] show ?thesis
    unfolding schedule_rest wpK_bind wpK_then wpK_get by (auto elim!: wpK_mono)
qed

abbreviation queued_ok :: "sched \<Rightarrow> bool" where
  "queued_ok s \<equiv> queues_ok False s"

lemma intr_on_order [simp]:
  "pri (s\<lparr>intr_on := b\<rparr>) = pri s" "big (s\<lparr>intr_on := b\<rparr>) = big s" "lock_big (s\<lparr>intr_on := b\<rparr>) = lock_big s"
  by (simp_all add: pri_def fun_eq_iff big_def lock_big_def)

lemma intr_on_irrelevant [simp]:
  "running_ok (s\<lparr>intr_on := b\<rparr>) = running_ok s" "good (s\<lparr>intr_on := b\<rparr>) a = good s a"
  "queues_ok od (s\<lparr>intr_on := b\<rparr>) = queues_ok od s"
  "status_only s (t\<lparr>intr_on := b\<rparr>) = status_only s t" "status_only (s\<lparr>intr_on := b\<rparr>) t = status_only s t"
  "switched od s (t\<lparr>intr_on := b\<rparr>) = switched od s t" "switched od (s\<lparr>intr_on := b\<rparr>) t = switched od s t"
  by (simp_all add: running_ok_def good_def queues_ok_def status_only_def switched_def)

lemma switched_from:
  assumes "status_only s t" "mset (ready_list s) \<subseteq># mset (ready_list t)" "switched od t u"
  shows "switched od s u"
  using assms unfolding switched_def
  by (auto intro: status_only_trans subset_mset.order_trans)

lemma switched_mset:
  "switched od s t \<Longrightarrow> mset (ready_list s) \<subseteq># add_mset (running t) (mset (ready_list t))"
  by (simp add: switched_def)

lemma thread_yield_run:
  assumes "listlib_ok L" "queues_ok True s" "running_ok s" "\<not> intr_context s"
  shows "wpK (thread_yield L) (\<lambda>_ t. switched True s t \<and> (idle_thread s \<noteq> Some (running s) \<longrightarrow>
    add_mset (running s) (mset (ready_list s)) \<subseteq># add_mset (running t) (mset (ready_list t)))) s"
proof -
  obtain c where c: "threads s (running s) = Some c" "tmagic c = THREAD_MAGIC"
    using assms(3) by (auto simp: running_ok_def)
  let ?r = "if idle_thread s \<noteq> Some (running s) then list_insert_ordered L (big s) (running s) (ready_list s) else ready_list s"
  let ?u = "s\<lparr>intr_on := False, ready_list := ?r, threads := (threads s)(running s \<mapsto> c\<lparr>status := THREAD_READY\<rparr>)\<rparr>"
  have so: "status_only s ?u" using c by (simp add: status_only_def)
  have m: "mset (ready_list s) \<subseteq># mset (ready_list ?u)" by (simp add: insert_big[OF assms(1)])
  have "\<forall>t\<in>set ?r \<union> set (sleeping_list s). good s t" "in_order (big s) ?r"
    using assms(2) c by (auto simp: queues_ok_def insert_big[OF assms(1)] good_def)
  then have "queues_ok True ?u"
    using assms(2) so by (auto simp: queues_ok_def status_only_good[OF so] status_only_big[OF so])
  then have "wpK (schedule L) (\<lambda>_. switched True ?u) ?u"
    by (rule schedule_run[OF assms(1), where c = "c\<lparr>status := THREAD_READY\<rparr>"]) simp_all
  then have "wpK (schedule L) (\<lambda>_ t. switched True s t \<and> (idle_thread s \<noteq> Some (running s) \<longrightarrow>
    add_mset (running s) (mset (ready_list s)) \<subseteq># add_mset (running t) (mset (ready_list t)))) ?u"
    using switched_from[OF so m] switched_mset[of True ?u]
    by (elim wpK_mono) (simp add: insert_big[OF assms(1)] split: if_splits)
  then show ?thesis
    using assms(3,4) c by (auto simp: thread_yield_def intr_off_wp)
qed

text \<open>Outside an interrupt handler \<open>if_yield\<close> leaves the highest priority running.\<close>

lemma if_yield_run:
  assumes "listlib_ok L" "queued_ok s" "running_ok s" "\<not> intr_context s"
  shows "wpK (if_yield L) (\<lambda>_ t. switched True s t \<and> (idle_thread s \<noteq> Some (running s) \<longrightarrow>
    add_mset (running s) (mset (ready_list s)) \<subseteq># add_mset (running t) (mset (ready_list t)))) s"
proof -
  let ?r = "list_sort L (big s) (ready_list s)" and ?u = "s\<lparr>ready_list := list_sort L (big s) (ready_list s)\<rparr>"
  note srt = sort_ordered[OF assms(1) strict_big[of s], of "ready_list s"]
  have so: "status_only s ?u" by (simp add: status_only_def)
  have m: "mset (ready_list s) = mset (ready_list ?u)" by (simp add: srt)
  have q: "queues_ok True ?u"
    using assms(2) by (auto simp: queues_ok_def srt status_only_good[OF so] status_only_big[OF so])
  have ro: "running_ok ?u" using assms(3) by (simp add: running_ok_def)
  obtain c where c: "threads s (running s) = Some c" using assms(3) by (auto simp: running_ok_def)
  then have pc: "pri s (running s) = priority c" by (simp add: pri_def)
  show ?thesis
  proof (cases "?r = [] \<or> priority c \<ge> pri s (hd ?r)")
    case True
    have "\<forall>a\<in>set ?r. pri s a \<le> pri s (running s)"
      using True srt(3) pc in_order_head[of s "hd ?r" "tl ?r"] by (cases ?r) force+
    then have "switched True s ?u"
      using q ro so by (simp add: switched_def status_only_pri[OF so] srt)
    moreover have "threads s f \<noteq> None" if "?r = f # fs" for f fs
      using srt(2) that assms(2) by (force simp: queues_ok_def good_def)
    ultimately show ?thesis
      using True c ro assms(4) srt(1) by (cases ?r) (auto simp: if_yield_def pri_def)
  next
    case False
    then obtain f fs where r: "?r = f # fs" by (cases ?r) auto
    then have "good s f" using srt(2) assms(2) by (auto simp: queues_ok_def)
    then obtain x where x: "threads s f = Some x" by (auto simp: good_def)
    have "wpK (thread_yield L) (\<lambda>_ t. switched True s t \<and> (idle_thread s \<noteq> Some (running s) \<longrightarrow>
      add_mset (running s) (mset (ready_list s)) \<subseteq># add_mset (running t) (mset (ready_list t)))) ?u"
      by (rule wpK_mono[OF thread_yield_run[OF assms(1) q ro]]) (auto intro: switched_from[OF so] simp: assms(4) srt(1))
    then show ?thesis
      using False r c x ro assms(4) by (simp add: if_yield_def pri_def)
  qed
qed

section \<open>Semaphores and locks\<close>

definition blocked_all :: "sched \<Rightarrow> addr list \<Rightarrow> bool" where
  "blocked_all s ws \<longleftrightarrow> (\<forall>w\<in>set ws. \<exists>y. threads s w = Some y \<and> tmagic y = THREAD_MAGIC \<and> status y = THREAD_BLOCKED)"

text \<open>
  The state after the first part of \<^verbatim>\<open>sema_up\<close>, before \<^verbatim>\<open>if_yield\<close>: the value is one higher and
  the waiter of the highest priority, if there is one, is on the run queue.
\<close>

definition sema_raised :: "sched \<Rightarrow> addr \<Rightarrow> semaphore \<Rightarrow> sched \<Rightarrow> bool" where
  "sema_raised s p x u \<longleftrightarrow> status_only s (u\<lparr>semas := semas s\<rparr>) \<and> queued_ok u \<and> running_ok u \<and> running u = running s \<and>
     mset (ready_list s) \<subseteq># mset (ready_list u) \<and>
     (\<exists>ws. semas u p = Some \<lparr>svalue = Suc (svalue x), waiters = ws\<rparr> \<and>
       (if waiters x = [] then ws = [] else \<exists>w. mset (waiters x) = add_mset w (mset ws) \<and>
         (\<forall>a\<in>set ws. pri s a \<le> pri s w) \<and> w \<in> set (ready_list u)))"

lemma sema_raised_intr [simp]: "sema_raised (s\<lparr>intr_on := b\<rparr>) p x u = sema_raised s p x u"
  by (simp add: sema_raised_def)

lemma sema_raised_empty:
  assumes "semas s p = Some x" "queued_ok s" "running_ok s" "waiters x = []"
  shows "sema_raised s p x (s\<lparr>semas := (semas s)(p \<mapsto> x\<lparr>svalue := Suc (svalue x)\<rparr>)\<rparr>)"
  using assms by (cases x) (simp add: sema_raised_def status_only_def queues_ok_def good_def running_ok_def)

lemma sema_raised_waiter:
  assumes "listlib_ok L" "semas s p = Some x" "queued_ok s" "running_ok s"
    and ws: "list_sort L (big s) (waiters x) = w # ws" and y: "threads s w = Some y" "tmagic y = THREAD_MAGIC" "status y = THREAD_BLOCKED"
  shows "sema_raised s p x (s\<lparr>ready_list := list_insert_ordered L (big s) w (ready_list s),
    threads := (threads s)(w \<mapsto> y\<lparr>status := THREAD_READY\<rparr>), intr_on := False,
    semas := (semas s)(p \<mapsto> x\<lparr>waiters := ws, svalue := Suc (svalue x)\<rparr>)\<rparr>)"
    (is "sema_raised s p x ?u")
proof -
  note srt = sort_ordered[OF assms(1) strict_big[of s], of "waiters x", unfolded ws]
  have so: "status_only s (?u\<lparr>semas := semas s\<rparr>)" using y by (simp add: status_only_def)
  have g: "good ?u a = good s a" for a using status_only_good[OF so, of a] by (simp add: good_def)
  have "\<forall>t\<in>insert w (set (ready_list s)) \<union> set (sleeping_list s). good s t"
    using assms(3) y by (auto simp: queues_ok_def good_def)
  then have q: "queued_ok ?u" using assms(3) by (simp add: queues_ok_def g insert_big[OF assms(1)])
  have "running s \<noteq> w" using assms(4) y by (auto simp: running_ok_def)
  then have r: "running_ok ?u" using assms(4) by (simp add: running_ok_def)
  have "\<forall>a\<in>set ws. pri s a \<le> pri s w" using in_order_head[OF srt(3)] by simp
  moreover have "waiters x \<noteq> []" using srt(1) by auto
  ultimately show ?thesis
    using so q r srt(1) by (cases x) (auto simp: sema_raised_def insert_big[OF assms(1)] intro!: exI[of _ w])
qed

lemma sema_up_run:
  assumes "listlib_ok L" "semas s p = Some x" "queued_ok s" "running_ok s" "\<not> intr_context s" "blocked_all s (waiters x)"
  shows "wpK (sema_up L p) (\<lambda>_ t. \<exists>u. sema_raised s p x u \<and> switched True u t) s"
proof -
  let ?s = "s\<lparr>intr_on := False\<rparr>"
  have yield: "wpK (if_yield L) (\<lambda>_ t. \<exists>u. sema_raised s p x u \<and> switched True u t) u" if u: "sema_raised s p x u" for u
  proof -
    have "queued_ok u" "running_ok u" "\<not> intr_context u"
      using u assms(5) by (simp_all add: sema_raised_def status_only_def)
    from if_yield_run[OF assms(1) this] show ?thesis using u by (auto elim!: wpK_mono)
  qed
  show ?thesis
  proof (cases "waiters x = []")
    case True
    from yield[OF sema_raised_empty[of ?s p x, simplified, OF assms(2-4) True]] show ?thesis
      using assms(2) True by (simp add: sema_up_def intr_off_wp)
  next
    case False
    note srt = sort_ordered[OF assms(1) strict_big[of s], of "waiters x"]
    obtain w ws where ws: "list_sort L (big s) (waiters x) = w # ws"
      using srt(1) False by (cases "list_sort L (big s) (waiters x)") auto
    then have "w \<in> set (waiters x)" using srt(2) by (metis list.set_intros(1))
    then obtain y where y: "threads s w = Some y" "tmagic y = THREAD_MAGIC" "status y = THREAD_BLOCKED"
      using assms(6) by (auto simp: blocked_all_def)
    have b: "big (s\<lparr>semas := m\<rparr>) = big s" for m by (simp add: big_def pri_def fun_eq_iff)
    from yield[OF sema_raised_waiter[OF assms(1-4) ws y]] show ?thesis
      using assms(2) False ws y by (simp add: sema_up_def intr_off_wp thread_unblock_def b)
  qed
qed

text \<open>The priority of a lock, and the priority a thread has from its own and from the locks it holds.\<close>

definition lock_pri :: "sched \<Rightarrow> addr \<Rightarrow> int" where
  "lock_pri s l = (case locks s l of None \<Rightarrow> 0 | Some k \<Rightarrow> lpriority k)"

definition due_priority :: "sched \<Rightarrow> thread \<Rightarrow> addr list \<Rightarrow> int" where
  "due_priority s c ks = Max (insert (original_priority c) (lock_pri s ` set ks))"

lemma due_priority_sorted:
  assumes "in_order (lock_big s) ls"
  shows "due_priority s c ls = (case ls of [] \<Rightarrow> original_priority c | f # _ \<Rightarrow> max (original_priority c) (lock_pri s f))"
proof (cases ls)
  case Nil
  then show ?thesis by (simp add: due_priority_def)
next
  case (Cons f fs)
  then have "\<forall>k\<in>set fs. lock_pri s k \<le> lock_pri s f"
    using assms by (fastforce simp: in_order_def lock_big_def lock_pri_def)
  then have "Max (lock_pri s ` set ls) = lock_pri s f"
    using Cons by (intro Max_eqI) auto
  then show ?thesis using Cons by (simp add: due_priority_def)
qed

definition released :: "sched \<Rightarrow> addr \<Rightarrow> thread \<Rightarrow> lock \<Rightarrow> addr list \<Rightarrow> sched" where
  "released s l c lk ls = s\<lparr>threads := (threads s)(running s \<mapsto> c\<lparr>lock_list := ls, priority := due_priority s c ls\<rparr>),
     locks := (locks s)(l \<mapsto> lk\<lparr>holder := None\<rparr>)\<rparr>"

lemma lock_release_step:
  assumes L: "listlib_ok L" and ro: "running_ok s" and lk: "locks s l = Some lk" "holder lk = Some (running s)"
    and c: "threads s (running s) = Some c" "l \<in> set (lock_list c)" "\<forall>k\<in>set (lock_list c). locks s k \<noteq> None"
    and up: "\<And>ls. mset ls = mset (lock_list c) - {#l#} \<Longrightarrow> wpK (sema_up L l) Q (released s l c lk ls)"
  shows "wpK (lock_release L l) Q s"
proof -
  define ls where "ls = list_sort L (lock_big s) (remove1 l (lock_list c))"
  note srt = sort_ordered[OF L strict_lock_big[of s], of "remove1 l (lock_list c)", folded ls_def]
  have m: "mset ls = mset (lock_list c) - {#l#}" using srt(1) c(2) by simp
  have sub: "set ls \<subseteq> set (lock_list c)" using srt(2) set_remove1_subset by fast
  note due = due_priority_sorted[OF srt(3), of c]
  show ?thesis
  proof (cases ls)
    case Nil
    then have "released s l c lk [] = s\<lparr>threads := (threads s)(running s \<mapsto> c\<lparr>lock_list := [], priority := original_priority c\<rparr>),
       locks := (locks s)(l \<mapsto> lk\<lparr>holder := None\<rparr>)\<rparr>"
      using due by (simp add: released_def)
    then show ?thesis using up[OF m] Nil ro lk c
      by (simp add: lock_release_def lock_held_by_current_thread_def list_remove_def ls_def)
  next
    case (Cons f fs)
    then obtain k where k: "locks s f = Some k" using sub c(3) by fastforce
    have "released s l c lk (f # fs) = s\<lparr>threads := (threads s)(running s \<mapsto> c\<lparr>lock_list := f # fs, priority :=
         if original_priority c \<ge> lpriority k then original_priority c else lpriority k\<rparr>),
       locks := (locks s)(l \<mapsto> lk\<lparr>holder := None\<rparr>)\<rparr>"
      using due Cons k by (simp add: released_def lock_pri_def max_def)
    then show ?thesis using up[OF m] Cons k ro lk c
      by (cases "lpriority k \<le> original_priority c")
        (simp_all add: lock_release_def lock_held_by_current_thread_def list_remove_def ls_def)
  qed
qed

lemma lock_release_run:
  assumes "listlib_ok L" "running_ok s" "queued_ok s" "\<not> intr_context s"
    and lk: "locks s l = Some lk" "holder lk = Some (running s)"
    and c: "threads s (running s) = Some c" "l \<in> set (lock_list c)" "\<forall>k\<in>set (lock_list c). locks s k \<noteq> None"
    and x: "semas s l = Some x" "blocked_all s (waiters x)"
  shows "wpK (lock_release L l) (\<lambda>_ t. \<exists>ls u. mset ls = mset (lock_list c) - {#l#} \<and>
    sema_raised (released s l c lk ls) l x u \<and> switched True u t) s"
proof (rule lock_release_step[OF assms(1,2) lk c])
  fix ls assume m: "mset ls = mset (lock_list c) - {#l#}"
  have mg: "tmagic c = THREAD_MAGIC" "status c = THREAD_RUNNING" using assms(2) c(1) by (auto simp: running_ok_def)
  have "running_ok (released s l c lk ls)" using mg by (simp add: running_ok_def released_def)
  moreover have "good (released s l c lk ls) a = good s a" for a using c(1) mg by (simp add: good_def released_def)
  then have "queued_ok (released s l c lk ls)" using assms(3) by (simp add: queues_ok_def) (simp add: released_def)
  moreover have "blocked_all (released s l c lk ls) (waiters x)"
    using x(2) c(1) mg by (force simp: blocked_all_def released_def)
  ultimately have "wpK (sema_up L l) (\<lambda>_ t. \<exists>u. sema_raised (released s l c lk ls) l x u \<and> switched True u t) (released s l c lk ls)"
    using x(1) assms(4) by (intro sema_up_run[OF assms(1)]) (simp_all add: released_def)
  then show "wpK (sema_up L l) (\<lambda>_ t. \<exists>ls u. mset ls = mset (lock_list c) - {#l#} \<and>
    sema_raised (released s l c lk ls) l x u \<and> switched True u t) (released s l c lk ls)"
    using m by (blast intro: wpK_mono)
qed

text \<open>A \<^verbatim>\<open>sema_down\<close> that finds the value zero queues the thread and switches.\<close>

lemma sema_down_blocks:
  assumes L: "listlib_ok L" and q: "queued_ok s" and ro: "running_ok s" and ic: "\<not> intr_context s"
    and x: "semas s p = Some x" "svalue x = 0"
  shows "wpK (sema_down L p) (\<lambda>got t. \<not> got \<and> running_ok t \<and> status_only s (t\<lparr>semas := semas s\<rparr>) \<and>
    (\<exists>w. semas t p = Some (x\<lparr>waiters := w\<rparr>) \<and> mset w = add_mset (running s) (mset (waiters x)))) s"
proof -
  obtain c where c: "threads s (running s) = Some c" "tmagic c = THREAD_MAGIC" using ro by (auto simp: running_ok_def)
  define w where "w = list_insert_ordered L (big s) (running s) (waiters x)"
  let ?u = "s\<lparr>intr_on := False, semas := (semas s)(p \<mapsto> x\<lparr>waiters := w\<rparr>),
    threads := (threads s)(running s \<mapsto> c\<lparr>status := THREAD_BLOCKED\<rparr>)\<rparr>"
  have w: "mset w = add_mset (running s) (mset (waiters x))" by (simp add: w_def insert_big[OF L])
  have so: "status_only s (?u\<lparr>semas := semas s\<rparr>)" using c by (simp add: status_only_def)
  have g: "good ?u a = good s a" for a using c by (simp add: good_def)
  have "queued_ok ?u" using q by (simp add: queues_ok_def g)
  then have "wpK (schedule L) (\<lambda>_. switched False ?u) ?u"
    by (rule schedule_run[OF L, where c = "c\<lparr>status := THREAD_BLOCKED\<rparr>"]) simp_all
  then have "wpK (schedule L) (\<lambda>_ t. running_ok t \<and> status_only s (t\<lparr>semas := semas s\<rparr>) \<and>
    (\<exists>w. semas t p = Some (x\<lparr>waiters := w\<rparr>) \<and> mset w = add_mset (running s) (mset (waiters x)))) ?u"
  proof (rule wpK_mono)
    fix t assume t: "switched False ?u t"
    then have "semas t = (semas s)(p \<mapsto> x\<lparr>waiters := w\<rparr>)" "running_ok t"
      by (simp_all add: switched_def status_only_def)
    moreover have "status_only s (t\<lparr>semas := semas s\<rparr>)"
      using t so by (simp add: switched_def status_only_def)
    ultimately show "running_ok t \<and> status_only s (t\<lparr>semas := semas s\<rparr>) \<and>
      (\<exists>w. semas t p = Some (x\<lparr>waiters := w\<rparr>) \<and> mset w = add_mset (running s) (mset (waiters x)))"
      using w by auto
  qed
  moreover have "running_ok (s\<lparr>intr_on := False, semas := m\<rparr>)" for m using ro by (simp add: running_ok_def)
  moreover have e: "status_only s (t\<lparr>intr_on := b, semas := m\<rparr>) = status_only s (t\<lparr>semas := m\<rparr>)" for t b m
    by (simp add: status_only_def)
  ultimately show ?thesis
    using x ic ro c by (simp add: sema_down_def intr_off_wp thread_block_def w_def[symmetric] e)
qed

lemma inverted_status_only:
  assumes "status_only s (t\<lparr>semas := m\<rparr>)"
  shows "inverted t = inverted s"
proof -
  have "inverted u \<subseteq> inverted v" if so: "status_only v u" for u v
  proof safe
    fix a l assume "(a, l) \<in> inverted u"
    then obtain x lk h y where i: "threads u a = Some x" "l \<in> set (wait_lock_list x)" "locks u l = Some lk"
      "holder lk = Some h" "threads u h = Some y" "priority y < priority x" by (auto simp: inverted_def)
    obtain x' where x': "threads v a = Some x'" "core x' = core x"
      using status_only_thread[OF status_only_sym[OF so] i(1)] .
    obtain y' where y': "threads v h = Some y'" "core y' = core y"
      using status_only_thread[OF status_only_sym[OF so] i(5)] .
    have "locks v l = Some lk" using so i(3) by (simp add: status_only_def)
    then show "(a, l) \<in> inverted v"
      using i x' y' core_fields[OF x'(2)] core_fields[OF y'(2)] by (auto simp: inverted_def)
  qed
  then have "inverted (t\<lparr>semas := m\<rparr>) = inverted s" using assms status_only_sym by blast
  then show ?thesis by (simp add: inverted_def)
qed

text \<open>The threads that a donation concerns are in good order before and after it.\<close>

lemma donated_good: "donated p s t \<Longrightarrow> good t a = good s a"
proof -
  assume "donated p s t"
  then have "raised p (threads s a) (threads t a)" by (simp add: donated_def)
  then show ?thesis by (auto simp: raised_def good_def split: option.splits)
qed

lemma donated_state: "donated p s t \<Longrightarrow> t = s\<lparr>threads := threads t, locks := locks t\<rparr>"
  by (simp add: donated_def)

lemma donated_same:
  assumes "donated p s t"
  shows "running t = running s" "ready_list t = ready_list s" "sleeping_list t = sleeping_list s"
    "idle_thread t = idle_thread s" "semas t = semas s" "intr_context t = intr_context s"
  by (subst donated_state[OF assms], simp)+

lemma donated_ok:
  assumes "donated p s t"
  shows "queued_ok s \<Longrightarrow> queued_ok t" "running_ok s \<Longrightarrow> running_ok t"
proof -
  show "queued_ok s \<Longrightarrow> queued_ok t"
    by (simp add: queues_ok_def donated_good[OF assms] donated_same[OF assms])
  show "running_ok s \<Longrightarrow> running_ok t"
    using donated_thread[OF assms, of "running s"] by (auto simp: running_ok_def donated_same[OF assms])
qed

lemma low_fuel:
  assumes "dom (threads s) \<subseteq> set (all_list s)"
  shows "card (low p s) < Suc (length (all_list s))"
proof -
  have "card (low p s) \<le> card (set (all_list s))"
    using assms by (intro card_mono) (auto simp: low_def)
  then show ?thesis using card_length[of "all_list s"] by simp
qed

text \<open>The caller notes that it waits for \<open>l\<close>.\<close>

definition waiting :: "sched \<Rightarrow> addr \<Rightarrow> thread \<Rightarrow> sched" where
  "waiting s l c = s\<lparr>intr_on := False, threads := (threads s)(running s \<mapsto> c\<lparr>wait_lock_list := wait_lock_list c @ [l]\<rparr>)\<rparr>"

lemma waiting_facts:
  assumes "threads s (running s) = Some c"
  shows "inverted (waiting s l c) \<subseteq> insert (running s, l) (inverted s)"
    "waits_ok s \<Longrightarrow> locks s l \<noteq> None \<Longrightarrow> waits_ok (waiting s l c)"
    "queued_ok s \<Longrightarrow> queued_ok (waiting s l c)" "running_ok s \<Longrightarrow> running_ok (waiting s l c)"
    "low p (waiting s l c) = low p s" "pri (waiting s l c) = pri s"
proof -
  show "inverted (waiting s l c) \<subseteq> insert (running s, l) (inverted s)"
    using assms by (auto simp: inverted_def waiting_def split: if_splits)
  show "waits_ok s \<Longrightarrow> locks s l \<noteq> None \<Longrightarrow> waits_ok (waiting s l c)"
    using assms by (auto simp: waits_ok_def waiting_def)
  have "good (waiting s l c) a = good s a" for a using assms by (auto simp: good_def waiting_def)
  then show "queued_ok s \<Longrightarrow> queued_ok (waiting s l c)" by (simp add: queues_ok_def) (simp add: waiting_def)
  show "running_ok s \<Longrightarrow> running_ok (waiting s l c)" using assms by (auto simp: running_ok_def waiting_def)
  show "low p (waiting s l c) = low p s" using assms by (auto simp: low_def waiting_def)
  show "pri (waiting s l c) = pri s" using assms by (auto simp: pri_def waiting_def fun_eq_iff)
qed

lemma donated_holder:
  assumes "donated p s t" "inverted t \<subseteq> inverted s - {(cur, l)}" "threads s cur = Some c" "priority c = p"
    "l \<in> set (wait_lock_list c)" "locks s l = Some lk" "holder lk = Some h" "waits_ok s"
  shows "p \<le> pri t h" "pri t cur = p"
proof -
  have c: "threads t cur = Some c" using donated_thread[OF assms(1,3)] assms(4) by auto
  then show "pri t cur = p" using assms(4) by (simp add: pri_def)
  obtain y where "threads s h = Some y" using assms(6-8) unfolding waits_ok_def by blast
  then obtain z where z: "threads t h = Some z" using donated_thread[OF assms(1)] by blast
  obtain k where "locks t l = Some k" "holder k = Some h" using donated_lock[OF assms(1,6)] assms(7) by auto
  moreover have "(cur, l) \<notin> inverted t" using assms(2) by blast
  ultimately have "\<not> priority z < p" using c z assms(4,5) by (simp add: inverted_def)
  with z show "p \<le> pri t h" by (simp add: pri_def)
qed

text \<open>
  What a thread that has to wait for \<open>l\<close>, held by \<open>h\<close>, leaves behind: it is in the queue of the
  lock's semaphore, the holder has at least its priority, and no thread waits for a holder of
  lower priority that did not before.
\<close>

definition waits_behind :: "sched \<Rightarrow> addr \<Rightarrow> addr \<Rightarrow> semaphore \<Rightarrow> sched \<Rightarrow> bool" where
  "waits_behind s l h x t \<longleftrightarrow> running_ok t \<and> inverted t \<subseteq> inverted s - {(running s, l)} \<and>
    pri s (running s) \<le> pri t h \<and> pri t (running s) = pri s (running s) \<and>
    (\<exists>ws. semas t l = Some (x\<lparr>waiters := ws\<rparr>) \<and> mset ws = add_mset (running s) (mset (waiters x)))"

lemma lock_acquire_blocks:
  assumes L: "listlib_ok L" and q: "queued_ok s" and ro: "running_ok s" and ic: "\<not> intr_context s"
    and w: "waits_ok s" and all: "dom (threads s) \<subseteq> set (all_list s)"
    and lk: "locks s l = Some lk" "holder lk = Some h" "h \<noteq> running s" and x: "semas s l = Some x" "svalue x = 0"
  shows "wpK (lock_acquire L l) (\<lambda>got t. \<not> got \<and> waits_behind s l h x t) s"
proof -
  obtain c where c: "threads s (running s) = Some c" using ro by (auto simp: running_ok_def)
  let ?p = "priority c" and ?s1 = "waiting s l c" and ?n = "Suc (length (all_list s))"
  let ?c = "c\<lparr>wait_lock_list := wait_lock_list c @ [l]\<rparr>"
  note s1 = waiting_facts[OF c, where l = l]
  have c1: "threads ?s1 (running s) = Some ?c" "priority ?c = ?p" "l \<in> set (wait_lock_list ?c)" by (simp_all add: waiting_def)
  have l1: "locks ?s1 l = Some lk" "locks ?s1 l \<noteq> None" using lk by (simp_all add: waiting_def)
  have w1: "waits_ok ?s1" using s1(2) w lk by blast
  have "card (low ?p ?s1) < ?n" using low_fuel[OF all] s1(5) by simp
  from donate_lock_run[OF w1 c1(1,2) l1(2) this]
  have "wpK (donate_lock ?n l (running s))
    (\<lambda>_ t. donated ?p ?s1 t \<and> inverted t \<subseteq> inverted ?s1 - {(running s, l)}) ?s1" .
  moreover have "wpK (lock_acquire_retry L l) (\<lambda>got t. \<not> got \<and> waits_behind s l h x t) (u\<lparr>intr_on := b\<rparr>)"
    if d: "donated ?p ?s1 u" and i: "inverted u \<subseteq> inverted ?s1 - {(running s, l)}" for u b
  proof -
    have p: "pri s (running s) \<le> pri u h" "pri u (running s) = pri s (running s)"
      using donated_holder[OF d i c1 l1(1) lk(2) w1] c by (simp_all add: pri_def)
    have du: "running u = running s" "semas u = semas s" "intr_context u = intr_context s"
      using donated_same[OF d] by (simp_all add: waiting_def)
    have "wpK (sema_down L l) (\<lambda>got t. \<not> got \<and> running_ok t \<and> status_only u (t\<lparr>semas := semas u\<rparr>) \<and>
      (\<exists>w. semas t l = Some (x\<lparr>waiters := w\<rparr>) \<and> mset w = add_mset (running s) (mset (waiters x)))) (u\<lparr>intr_on := b\<rparr>)"
      using sema_down_blocks[OF L, of "u\<lparr>intr_on := b\<rparr>" l x] donated_ok[OF d] s1(3,4) q ro ic x du by simp
    then have "wpK (sema_down L l) (\<lambda>got t. \<not> got \<and> waits_behind s l h x t) (u\<lparr>intr_on := b\<rparr>)"
    proof (rule wpK_mono)
      fix got t
      assume t: "\<not> got \<and> running_ok t \<and> status_only u (t\<lparr>semas := semas u\<rparr>) \<and>
        (\<exists>w. semas t l = Some (x\<lparr>waiters := w\<rparr>) \<and> mset w = add_mset (running s) (mset (waiters x)))"
      then have so: "status_only u (t\<lparr>semas := semas u\<rparr>)" by blast
      have "pri t a = pri u a" for a using status_only_pri[OF so, of a] by (simp add: pri_def)
      moreover have "inverted t \<subseteq> inverted s - {(running s, l)}"
        using inverted_status_only[OF so] i s1(1) by blast
      ultimately show "\<not> got \<and> waits_behind s l h x t"
        using t p by (simp add: waits_behind_def)
    qed
    then show ?thesis unfolding lock_acquire_retry_def wpK_bind by (rule wpK_mono) simp
  qed
  ultimately have "wpK (donate_lock ?n l (running s)) (\<lambda>_ u. wpK (lock_acquire_retry L l) (\<lambda>got t. \<not> got \<and> waits_behind s l h x t)
      (u\<lparr>intr_on := intr_on s\<rparr>)) ?s1"
    by (elim wpK_mono) blast
  then show ?thesis
    using ro ic lk c by (simp add: lock_acquire_def lock_held_by_current_thread_def intr_off_wp waiting_def)
qed

end
