(* ===== verification/Sched_Places.thy ===== *)
theory Sched_Places
  imports Threads_Facts
begin

text \<open>
  Where threads are and who holds locks, as predicates on the parts of the scheduler's state: for each status
  the queues a thread is in, and for each lock the thread that lists it. The lemmas say how the predicates
  survive the moves that the routines of \<^verbatim>\<open>thread.c\<close> and \<^verbatim>\<open>synch.c\<close> are made of.
\<close>

section \<open>Where threads are\<close>

definition stat :: "(addr \<Rightarrow> thread option) \<Rightarrow> addr \<Rightarrow> thread_status option" where
  "stat h t = map_option status (h t)"

definition queue :: "(addr \<Rightarrow> semaphore option) \<Rightarrow> addr \<Rightarrow> addr list" where
  "queue m p = (case m p of None \<Rightarrow> [] | Some y \<Rightarrow> waiters y)"

lemma stat_upd [simp]: "stat (h(t \<mapsto> x)) = (stat h)(t \<mapsto> status x)"
  by (simp add: stat_def fun_eq_iff)

lemma stat_del [simp]: "stat (h(t := None)) = (stat h)(t := None)"
  by (simp add: stat_def fun_eq_iff)

lemma stat_same: "h t = Some x \<Longrightarrow> status y = status x \<Longrightarrow> stat (h(t \<mapsto> y)) = stat h"
  by (auto simp: stat_def fun_eq_iff)

lemma stat_Some: "h t = Some x \<Longrightarrow> stat h t = Some (status x)"
  by (simp add: stat_def)

lemma stat_SomeD: "stat h t = Some v \<Longrightarrow> \<exists>x. h t = Some x \<and> status x = v"
  by (simp add: stat_def)

lemma queue_upd [simp]: "queue (m(p \<mapsto> y)) = (queue m)(p := waiters y)"
  by (simp add: queue_def fun_eq_iff)

lemma queue_same: "m p = Some x \<Longrightarrow> waiters y = waiters x \<Longrightarrow> queue (m(p \<mapsto> y)) = queue m"
  by (auto simp: queue_def fun_eq_iff)

lemma queue_Some: "m p = Some x \<Longrightarrow> queue m p = waiters x"
  by (simp add: queue_def)

text \<open>
  One row for each status. For a thread: whether it is the running one and the idle one, its status,
  whether it is on the run queue, among the sleepers and on \<^verbatim>\<open>all_list\<close>, and the semaphores whose queues
  it is in. The idle thread is never queued.
\<close>

fun place :: "bool \<Rightarrow> bool \<Rightarrow> thread_status option \<Rightarrow> bool \<Rightarrow> bool \<Rightarrow> bool \<Rightarrow> addr set \<Rightarrow> bool" where
  "place r i None rl sl al W \<longleftrightarrow> \<not> i \<and> \<not> rl \<and> \<not> sl \<and> \<not> al \<and> W = {}"
| "place r i (Some THREAD_RUNNING) rl sl al W \<longleftrightarrow> r \<and> \<not> rl \<and> \<not> sl \<and> al \<and> W = {}"
| "place r i (Some THREAD_READY) rl sl al W \<longleftrightarrow> (rl \<longleftrightarrow> \<not> i) \<and> \<not> sl \<and> al \<and> W = {}"
| "place r i (Some THREAD_SLEEPING) rl sl al W \<longleftrightarrow> \<not> i \<and> \<not> rl \<and> sl \<and> al \<and> W = {}"
| "place r i (Some THREAD_BLOCKED) rl sl al W \<longleftrightarrow> \<not> rl \<and> \<not> sl \<and> al \<and> (W = {} \<or> \<not> i \<and> (\<exists>p. W = {p}))"
| "place r i (Some THREAD_DYING) rl sl al W \<longleftrightarrow> r \<and> \<not> i \<and> \<not> rl \<and> \<not> sl \<and> \<not> al \<and> W = {}"

definition waits_in :: "(addr \<Rightarrow> addr list) \<Rightarrow> addr \<Rightarrow> addr set" where
  "waits_in wq t = {p. t \<in> set (wq p)}"

definition unique :: "addr option \<Rightarrow> addr list \<Rightarrow> addr list \<Rightarrow> (addr \<Rightarrow> addr list) \<Rightarrow> addr list \<Rightarrow> bool" where
  "unique i rl sl wq al \<longleftrightarrow> i \<noteq> None \<and> distinct rl \<and> distinct sl \<and> distinct al \<and> (\<forall>p. distinct (wq p))"

definition places :: "addr \<Rightarrow> addr option \<Rightarrow> (addr \<Rightarrow> thread_status option) \<Rightarrow> addr list \<Rightarrow> addr list \<Rightarrow>
    (addr \<Rightarrow> addr list) \<Rightarrow> addr list \<Rightarrow> bool" where
  "places r i st rl sl wq al \<longleftrightarrow> unique i rl sl wq al \<and>
     (\<forall>t. place (t = r) (i = Some t) (st t) (t \<in> set rl) (t \<in> set sl) (t \<in> set al) (waits_in wq t))"

lemma placesD:
  assumes "places r i st rl sl wq al"
  shows "place (t = r) (i = Some t) (st t) (t \<in> set rl) (t \<in> set sl) (t \<in> set al) (waits_in wq t)"
  using assms by (simp add: places_def)

lemma places_unique: "places r i st rl sl wq al \<Longrightarrow> unique i rl sl wq al"
  by (simp add: places_def)

lemma waits_in_upd: "waits_in (wq(p := ws)) t = (if t \<in> set ws then insert p (waits_in wq t) else waits_in wq t - {p})"
  by (auto simp: waits_in_def)

text \<open>A change that concerns the threads of \<open>T\<close> only.\<close>

lemma places_change:
  assumes "places r i st rl sl wq al" "unique i rl' sl' wq' al'"
    "\<And>t. t \<in> T \<Longrightarrow> place (t = r') (i = Some t) (st' t) (t \<in> set rl') (t \<in> set sl') (t \<in> set al') (waits_in wq' t)"
    "\<And>t. t \<notin> T \<Longrightarrow> (t = r') = (t = r) \<and> st' t = st t \<and> (t \<in> set rl' \<longleftrightarrow> t \<in> set rl) \<and> (t \<in> set sl' \<longleftrightarrow> t \<in> set sl) \<and>
       (t \<in> set al' \<longleftrightarrow> t \<in> set al) \<and> waits_in wq' t = waits_in wq t"
  shows "places r' i st' rl' sl' wq' al'"
  unfolding places_def
proof (intro conjI allI)
  fix t
  show "place (t = r') (i = Some t) (st' t) (t \<in> set rl') (t \<in> set sl') (t \<in> set al') (waits_in wq' t)"
    using placesD[OF assms(1), of t] places_unique[OF assms(1)] assms(3)[of t] assms(4)[of t] by (cases "t \<in> T") simp_all
qed (rule assms(2))

lemma added:
  assumes "mset ys = add_mset t (mset xs)"
  shows "set ys = insert t (set xs)" "distinct ys \<longleftrightarrow> t \<notin> set xs \<and> distinct xs"
proof -
  show "set ys = insert t (set xs)" using arg_cong[OF assms, of set_mset] by simp
  have "mset ys = mset (t # xs)" using assms by simp
  then show "distinct ys \<longleftrightarrow> t \<notin> set xs \<and> distinct xs" using mset_eq_imp_distinct_iff[of ys "t # xs"] by simp
qed

lemma places_sorted:
  assumes "places r i st rl sl wq al" "mset rl' = mset rl"
  shows "places r i st rl' sl wq al"
proof (rule places_change[OF assms(1), of _ _ _ _ "{}"])
  show "unique i rl' sl wq al"
    using places_unique[OF assms(1)] mset_eq_imp_distinct_iff[OF assms(2)] by (simp add: unique_def)
qed (use mset_eq_setD[OF assms(2)] in simp_all)

lemma places_wake:
  assumes "places r i st rl (t # sl) wq al" "mset rl' = add_mset t (mset rl)"
  shows "places r i (st(t \<mapsto> THREAD_READY)) rl' sl wq al"
proof -
  note t = placesD[OF assms(1), of t] places_unique[OF assms(1)]
  have st: "st t = Some THREAD_SLEEPING"
    using t(1) by (cases "(t = r, i = Some t, st t, t \<in> set rl, True, t \<in> set al, waits_in wq t)" rule: place.cases) auto
  with t show ?thesis
    by (intro places_change[OF assms(1), of _ _ _ _ "{t}"]) (auto simp: added[OF assms(2)] unique_def)
qed

lemma places_unblock:
  assumes "places r i st rl sl wq al" "st t = Some THREAD_BLOCKED" "waits_in wq t = {}" "i \<noteq> Some t"
    "mset rl' = add_mset t (mset rl)"
  shows "places r i (st(t \<mapsto> THREAD_READY)) rl' sl wq al"
  using placesD[OF assms(1), of t] places_unique[OF assms(1)] assms(2-4)
  by (intro places_change[OF assms(1), of _ _ _ _ "{t}"]) (auto simp: added[OF assms(5)] unique_def)

text \<open>A thread in the queue of a semaphore is blocked and in no other queue.\<close>

lemma places_waiter:
  assumes "places r i st rl sl wq al" "t \<in> set (wq p)"
  shows "st t = Some THREAD_BLOCKED" "i \<noteq> Some t" "waits_in wq t = {p}"
proof -
  have w: "p \<in> waits_in wq t" using assms(2) by (simp add: waits_in_def)
  note place = placesD[OF assms(1), of t]
  show st: "st t = Some THREAD_BLOCKED"
    using place w by (cases "(t = r, i = Some t, st t, t \<in> set rl, t \<in> set sl, t \<in> set al, waits_in wq t)" rule: place.cases) auto
  show "i \<noteq> Some t" "waits_in wq t = {p}" using place w st by auto
qed

lemma places_dequeue:
  assumes "places r i st rl sl wq al" "mset (wq p) = add_mset t (mset ws)"
  shows "places r i st rl sl (wq(p := ws)) al" "st t = Some THREAD_BLOCKED" "i \<noteq> Some t"
    "waits_in (wq(p := ws)) t = {}"
proof -
  note a = added[OF assms(2)] and u = places_unique[OF assms(1)]
  have "t \<in> set (wq p)" using a(1) by simp
  note t = places_waiter[OF assms(1) this]
  show "st t = Some THREAD_BLOCKED" "i \<noteq> Some t" by fact+
  have ws: "distinct ws" "t \<notin> set ws" using u a(2) by (auto simp: unique_def)
  then show w: "waits_in (wq(p := ws)) t = {}" using t(3) by (simp add: waits_in_upd)
  have un: "unique i rl sl (wq(p := ws)) al" using u ws by (auto simp: unique_def)
  show "places r i st rl sl (wq(p := ws)) al"
  proof (rule places_change[OF assms(1) un, of "{t}"])
    fix x assume "x \<notin> {t}"
    then have "x \<in> set ws \<longleftrightarrow> p \<in> waits_in wq x" using a(1) by (auto simp: waits_in_def)
    then show "(x = r) = (x = r) \<and> st x = st x \<and> (x \<in> set rl \<longleftrightarrow> x \<in> set rl) \<and> (x \<in> set sl \<longleftrightarrow> x \<in> set sl) \<and>
       (x \<in> set al \<longleftrightarrow> x \<in> set al) \<and> waits_in (wq(p := ws)) x = waits_in wq x"
      by (auto simp: waits_in_upd)
  next
    fix x assume "x \<in> {t}"
    then show "place (x = r) (i = Some x) (st x) (x \<in> set rl) (x \<in> set sl) (x \<in> set al) (waits_in (wq(p := ws)) x)"
      using placesD[OF assms(1), of t] t w by simp
  qed
qed

text \<open>The running thread leaves the processor.\<close>

lemma places_ready:
  assumes "places r i st rl sl wq al" "st r = Some THREAD_RUNNING"
    "mset rl' = (if i = Some r then mset rl else add_mset r (mset rl))"
  shows "places r i (st(r \<mapsto> THREAD_READY)) rl' sl wq al"
proof (cases "i = Some r")
  case True
  then have "places r i st rl' sl wq al" using places_sorted[OF assms(1)] assms(3) by simp
  from placesD[OF this, of r] places_unique[OF this] places_change[OF this, of rl' sl wq al "{r}" r] True assms(2) show ?thesis by simp
next
  case False
  then have "mset rl' = add_mset r (mset rl)" using assms(3) by simp
  then show ?thesis using placesD[OF assms(1), of r] places_unique[OF assms(1)] assms(2) False
    by (intro places_change[OF assms(1), of _ _ _ _ "{r}"]) (auto simp: added unique_def)
qed

lemma places_block:
  assumes "places r i st rl sl wq al" "st r = Some THREAD_RUNNING"
  shows "places r i (st(r \<mapsto> THREAD_BLOCKED)) rl sl wq al"
  using placesD[OF assms(1), of r] places_unique[OF assms(1)] assms(2) by (intro places_change[OF assms(1), of _ _ _ _ "{r}"]) auto

lemma places_enqueue:
  assumes "places r i st rl sl wq al" "st r = Some THREAD_RUNNING" "i \<noteq> Some r" "mset ws = add_mset r (mset (wq p))"
  shows "places r i (st(r \<mapsto> THREAD_BLOCKED)) rl sl (wq(p := ws)) al"
proof -
  note a = added[OF assms(4)] and r = placesD[OF assms(1), of r] places_unique[OF assms(1)]
  have w: "waits_in wq r = {}" using r(1) assms(2) by simp
  have un: "unique i rl sl (wq(p := ws)) al" using r(2) w a(2) by (auto simp: unique_def waits_in_def)
  have "waits_in (wq(p := ws)) x = waits_in wq x" if "x \<noteq> r" for x
    using that a(1) by (auto simp: waits_in_def)
  moreover have "waits_in (wq(p := ws)) r = {p}" using w a(1) by (simp add: waits_in_upd)
  ultimately show ?thesis
    using r(1) assms(2,3) by (intro places_change[OF assms(1) un, of "{r}"]) auto
qed

lemma places_sleep:
  assumes "places r i st rl sl wq al" "st r = Some THREAD_RUNNING" "i \<noteq> Some r" "mset sl' = add_mset r (mset sl)"
  shows "places r i (st(r \<mapsto> THREAD_SLEEPING)) rl sl' wq al"
  using placesD[OF assms(1), of r] places_unique[OF assms(1)] assms(2,3)
  by (intro places_change[OF assms(1), of _ _ _ _ "{r}"]) (auto simp: added[OF assms(4)] unique_def)

lemma places_die:
  assumes "places r i st rl sl wq al" "st r = Some THREAD_RUNNING" "i \<noteq> Some r"
  shows "places r i (st(r \<mapsto> THREAD_DYING)) rl sl wq (remove1 r al)"
  using placesD[OF assms(1), of r] places_unique[OF assms(1)] assms(2,3)
  by (intro places_change[OF assms(1), of _ _ _ _ "{r}"]) (auto simp: unique_def)

lemma places_new:
  assumes "places r i st rl sl wq al" "st t = None"
  shows "places r i (st(t \<mapsto> THREAD_BLOCKED)) rl sl wq (al @ [t])"
  using placesD[OF assms(1), of t] places_unique[OF assms(1)] assms(2)
  by (intro places_change[OF assms(1), of _ _ _ _ "{t}"]) (auto simp: unique_def)

text \<open>Another thread takes the processor; the one before is freed if it was dying.\<close>

lemma places_next:
  assumes "places r i st rl sl wq al" "st r \<noteq> Some THREAD_RUNNING" "rl = t # rl' \<or> rl = [] \<and> i = Some t"
  shows "st t = Some THREAD_READY \<or> st t = Some THREAD_BLOCKED \<and> i = Some t"
  using placesD[OF assms(1), of t] places_unique[OF assms(1)] assms(2,3)
  by (cases "(t = r, i = Some t, st t, t \<in> set rl, t \<in> set sl, t \<in> set al, waits_in wq t)" rule: place.cases) auto

lemma places_dispatch:
  assumes "places r i st rl sl wq al" "st r \<noteq> Some THREAD_RUNNING"
    and t: "rl = t # rl' \<or> rl = [] \<and> i = Some t" "rl' = tl rl"
    and st': "st' = (st(t \<mapsto> THREAD_RUNNING))(r := if st r = Some THREAD_DYING then None else (st(t \<mapsto> THREAD_RUNNING)) r)"
  shows "places t i st' rl' sl wq al"
proof (rule places_change[OF assms(1), of _ _ _ _ "{r, t}"])
  note nxt = places_next[OF assms(1-3)]
  note pr = placesD[OF assms(1), of r] and pt = placesD[OF assms(1), of t]
  note pu = places_unique[OF assms(1)]
  show "unique i rl' sl wq al" using pu t by (cases rl) (auto simp: unique_def)
  have tl: "set rl' = set rl - {t}" using pu t by (cases rl) (auto simp: unique_def)
  fix x
  show "(x = t) = (x = r) \<and> st' x = st x \<and> (x \<in> set rl' \<longleftrightarrow> x \<in> set rl) \<and> (x \<in> set sl \<longleftrightarrow> x \<in> set sl) \<and>
     (x \<in> set al \<longleftrightarrow> x \<in> set al) \<and> waits_in wq x = waits_in wq x" if "x \<notin> {r, t}" using that tl st' by auto
  have "place True (i = Some t) (st' t) (t \<in> set rl') (t \<in> set sl) (t \<in> set al) (waits_in wq t)"
  proof -
    have "st' t = Some THREAD_RUNNING" using nxt unfolding st' by (cases "t = r") auto
    moreover have "t \<notin> set rl'" using tl by simp
    ultimately show ?thesis using pt nxt by auto
  qed
  moreover have "place (r = t) (i = Some r) (st' r) (r \<in> set rl') (r \<in> set sl) (r \<in> set al) (waits_in wq r)" if "r \<noteq> t"
    using pr that tl st' assms(2)
    by (cases "(True, i = Some r, st r, r \<in> set rl, r \<in> set sl, r \<in> set al, waits_in wq r)" rule: place.cases) auto
  ultimately show "place (x = t) (i = Some x) (st' x) (x \<in> set rl') (x \<in> set sl) (x \<in> set al) (waits_in wq x)" if "x \<in> {r, t}"
    using that by (cases "x = t") auto
qed

section \<open>Who holds locks\<close>

text \<open>
  Over the threads \<open>h\<close>, the locks \<open>k\<close>, the semaphores \<open>m\<close> and the condition variables \<open>c\<close>: a thread lists
  exactly the locks that name it as their holder, each once; the semaphore of a lock is one while nobody
  holds it and zero otherwise; the locks waited for exist; and what waits for a condition is a semaphore
  that belongs to no lock.
\<close>

definition owns :: "(addr \<Rightarrow> lock option) \<Rightarrow> addr \<Rightarrow> thread \<Rightarrow> bool" where
  "owns k t x \<longleftrightarrow> tmagic x = THREAD_MAGIC \<and> distinct (lock_list x) \<and>
     set (lock_list x) = {l. \<exists>lk. k l = Some lk \<and> holder lk = Some t} \<and> set (wait_lock_list x) \<subseteq> dom k"

definition holdings :: "(addr \<Rightarrow> thread option) \<Rightarrow> (addr \<Rightarrow> lock option) \<Rightarrow> (addr \<Rightarrow> semaphore option) \<Rightarrow>
    (addr \<Rightarrow> addr list option) \<Rightarrow> bool" where
  "holdings h k m c \<longleftrightarrow> (\<forall>t x. h t = Some x \<longrightarrow> owns k t x) \<and>
     (\<forall>l lk. k l = Some lk \<longrightarrow> (\<exists>ws. m l = Some \<lparr>svalue = (if holder lk = None then 1 else 0), waiters = ws\<rparr>) \<and>
       (\<forall>t. holder lk = Some t \<longrightarrow> h t \<noteq> None)) \<and>
     (\<forall>p ws. c p = Some ws \<longrightarrow> set ws \<subseteq> dom m - dom k)"

lemma holdingsD:
  assumes "holdings h k m c"
  shows "h t = Some x \<Longrightarrow> owns k t x" "k l = Some lk \<Longrightarrow> holder lk = Some t \<Longrightarrow> h t \<noteq> None"
    "k l = Some lk \<Longrightarrow> m l = Some y \<Longrightarrow> svalue y = (if holder lk = None then 1 else 0)"
    "k l = Some lk \<Longrightarrow> m l \<noteq> None" "c p = Some ws \<Longrightarrow> w \<in> set ws \<Longrightarrow> m w \<noteq> None \<and> k w = None"
proof -
  show "h t = Some x \<Longrightarrow> owns k t x" "k l = Some lk \<Longrightarrow> holder lk = Some t \<Longrightarrow> h t \<noteq> None"
    using assms by (auto simp: holdings_def)
  show "k l = Some lk \<Longrightarrow> m l = Some y \<Longrightarrow> svalue y = (if holder lk = None then 1 else 0)" "k l = Some lk \<Longrightarrow> m l \<noteq> None"
    using assms unfolding holdings_def by fastforce+
  assume "c p = Some ws" "w \<in> set ws"
  moreover from this(1) have "set ws \<subseteq> dom m - dom k" using assms by (simp add: holdings_def)
  ultimately show "m w \<noteq> None \<and> k w = None" by blast
qed

lemma holdings_thread:
  assumes "holdings h k m c" "h t = Some x" "lock_list y = lock_list x" "wait_lock_list y = wait_lock_list x" "tmagic y = tmagic x"
  shows "holdings (h(t \<mapsto> y)) k m c"
  using assms unfolding holdings_def owns_def by auto

lemma holdings_free:
  assumes "holdings h k m c" "h t = Some x" "lock_list x = []"
  shows "holdings (h(t := None)) k m c"
proof -
  have "\<forall>l lk. k l = Some lk \<longrightarrow> holder lk \<noteq> Some t" using holdingsD(1)[OF assms(1,2)] assms(3) by (auto simp: owns_def)
  with assms(1) show ?thesis unfolding holdings_def by auto
qed

lemma holdings_sema:
  assumes "holdings h k m c" "k p = None" shows "holdings h k (m(p \<mapsto> y)) c"
  using assms unfolding holdings_def by (fastforce split: if_splits)

lemma holdings_queue:
  assumes "holdings h k m c" "m p = Some x" "svalue y = svalue x" shows "holdings h k (m(p \<mapsto> y)) c"
proof -
  have "\<exists>ws. y = \<lparr>svalue = svalue x, waiters = ws\<rparr>" using assms(3) by (cases y) simp
  then show ?thesis using assms(1,2) unfolding holdings_def by fastforce
qed

end
