(* ===== verification/Priority_Sched.thy ===== *)
theory Priority_Sched
  imports Threads_Facts
begin

text \<open>
  The properties of the priority scheduler and of its locks: donation on \<^verbatim>\<open>lock_acquire\<close>, the
  end of the donation on \<^verbatim>\<open>lock_release\<close>, the choice of the thread to run after a yield and
  of the thread to wake by a semaphore; and two defects.
\<close>

section \<open>A list library and a few threads\<close>

text \<open>Insertion as \<^verbatim>\<open>list.h\<close> describes it, before the first element that is greater.\<close>

fun sim_insert :: "(addr \<Rightarrow> addr \<Rightarrow> bool) \<Rightarrow> addr \<Rightarrow> addr list \<Rightarrow> addr list" where
  "sim_insert lt x [] = [x]"
| "sim_insert lt x (y # ys) = (if lt x y then x # y # ys else y # sim_insert lt x ys)"

definition sim_list :: listlib where
  "sim_list = \<lparr>list_sort = (\<lambda>lt xs. fold (sim_insert lt) xs []), list_insert_ordered = sim_insert\<rparr>"

lemma sim_insert_mset: "mset (sim_insert lt x xs) = add_mset x (mset xs)"
  by (induction xs) auto

lemma sim_insert_set: "set (sim_insert lt x xs) = insert x (set xs)"
  using arg_cong[OF sim_insert_mset, of set_mset] by simp

lemma sim_insert_order:
  fixes f :: "addr \<Rightarrow> int"
  assumes "in_order (\<lambda>a b. f a < f b) xs"
  shows "in_order (\<lambda>a b. f a < f b) (sim_insert (\<lambda>a b. f a < f b) x xs)"
  using assms by (induction xs) (force simp: in_order_def sim_insert_set)+

lemma sim_insert_in_order:
  assumes "strict_order lt" "in_order lt xs"
  shows "in_order lt (sim_insert lt x xs)"
proof -
  obtain f :: "addr \<Rightarrow> int" where "lt = (\<lambda>a b. f a < f b)" using assms(1) unfolding strict_order_def by blast
  with assms(2) sim_insert_order show ?thesis by simp
qed

lemma sim_sort_mset: "mset (fold (sim_insert lt) xs ys) = mset xs + mset ys"
  by (induction xs arbitrary: ys) (simp_all add: sim_insert_mset)

lemma sim_sort_order: "strict_order lt \<Longrightarrow> in_order lt ys \<Longrightarrow> in_order lt (fold (sim_insert lt) xs ys)"
  by (induction xs arbitrary: ys) (simp_all add: sim_insert_in_order)

lemma sim_list_ok: "listlib_ok sim_list"
proof -
  have "in_order lt []" for lt by (simp add: in_order_def)
  then show ?thesis
    by (simp add: listlib_ok_def sim_list_def sim_insert_mset sim_sort_mset sim_sort_order sim_insert_in_order)
qed

definition mk_thread :: "thread_status \<Rightarrow> int \<Rightarrow> int \<Rightarrow> addr list \<Rightarrow> addr list \<Rightarrow> thread" where
  "mk_thread st p op held wait = \<lparr>ttid = 1, status = st, tname = [], priority = p, original_priority = op,
     lock_list = held, wait_lock_list = wait, user_process = False, tmagic = THREAD_MAGIC, wake_time = 0\<rparr>"

lemma mk_thread_fields [simp]:
  "status (mk_thread st p op held wait) = st" "priority (mk_thread st p op held wait) = p"
  "original_priority (mk_thread st p op held wait) = op" "lock_list (mk_thread st p op held wait) = held"
  "wait_lock_list (mk_thread st p op held wait) = wait" "tmagic (mk_thread st p op held wait) = THREAD_MAGIC"
  "wake_time (mk_thread st p op held wait) = 0"
  by (simp_all add: mk_thread_def)

definition mk_sched :: "addr \<Rightarrow> (addr \<Rightarrow> thread option) \<Rightarrow> addr list \<Rightarrow> (addr \<Rightarrow> semaphore option) \<Rightarrow> (addr \<Rightarrow> lock option) \<Rightarrow> sched" where
  "mk_sched r th rdy sm lk = \<lparr>running = r, threads = th, ready_list = rdy, sleeping_list = [], all_list = [1, 2, 3, 9],
     idle_thread = Some 9, initial_thread = Some 1, semas = sm, locks = lk, conds = (\<lambda>_. None), selems = (\<lambda>_. None),
     thread_ticks = 0, idle_ticks = 0, kernel_ticks = 0, user_ticks = 0, sleep_sema = 1, intr_on = True,
     intr_context = False, yield_on_return = False, timer_ticks = 0\<rparr>"

lemma mk_sched_fields [simp]:
  "running (mk_sched r th rdy sm lk) = r" "threads (mk_sched r th rdy sm lk) = th"
  "ready_list (mk_sched r th rdy sm lk) = rdy" "sleeping_list (mk_sched r th rdy sm lk) = []"
  "all_list (mk_sched r th rdy sm lk) = [1, 2, 3, 9]" "idle_thread (mk_sched r th rdy sm lk) = Some 9"
  "semas (mk_sched r th rdy sm lk) = sm" "locks (mk_sched r th rdy sm lk) = lk"
  "intr_context (mk_sched r th rdy sm lk) = False" "initial_thread (mk_sched r th rdy sm lk) = Some 1"
  by (simp_all add: mk_sched_def)

text \<open>Thread 1, of priority 33, runs; thread 3, of priority 31, holds the lock 7; thread 2 has 32.\<close>

definition contended :: sched where
  "contended = mk_sched 1 [1 \<mapsto> mk_thread THREAD_RUNNING 33 33 [] [], 2 \<mapsto> mk_thread THREAD_READY 32 32 [] [],
       3 \<mapsto> mk_thread THREAD_READY 31 31 [7] [], 9 \<mapsto> mk_thread THREAD_BLOCKED 0 0 [] []] [2, 3]
     [7 \<mapsto> \<lparr>svalue = 0, waiters = []\<rparr>] [7 \<mapsto> \<lparr>holder = Some 3, lpriority = 31\<rparr>]"

text \<open>Later: 1 and 2 wait for the lock, whose holder 3 runs with the priority of 1.\<close>

definition donated3 :: sched where
  "donated3 = mk_sched 3 [1 \<mapsto> mk_thread THREAD_BLOCKED 33 33 [] [7], 2 \<mapsto> mk_thread THREAD_BLOCKED 32 32 [] [7],
       3 \<mapsto> mk_thread THREAD_RUNNING 33 31 [7] [], 9 \<mapsto> mk_thread THREAD_BLOCKED 0 0 [] []] []
     [7 \<mapsto> \<lparr>svalue = 0, waiters = [2, 1]\<rparr>] [7 \<mapsto> \<lparr>holder = Some 3, lpriority = 33\<rparr>]"

text \<open>Thread 3 runs although 1 is ready; the lock 7 is free.\<close>

definition overtaken :: sched where
  "overtaken = mk_sched 3 [1 \<mapsto> mk_thread THREAD_READY 33 33 [] [], 2 \<mapsto> mk_thread THREAD_READY 32 32 [] [],
       3 \<mapsto> mk_thread THREAD_RUNNING 31 31 [] [], 9 \<mapsto> mk_thread THREAD_BLOCKED 0 0 [] []] [2, 1]
     [7 \<mapsto> \<lparr>svalue = 1, waiters = []\<rparr>] [7 \<mapsto> \<lparr>holder = None, lpriority = 31\<rparr>]"

lemmas states = contended_def donated3_def overtaken_def

lemma states_ok:
  "queued_ok contended" "running_ok contended" "waits_ok contended" "dom (threads contended) \<subseteq> set (all_list contended)"
  "queued_ok donated3" "running_ok donated3" "blocked_all donated3 [2, 1]"
  "queued_ok overtaken" "running_ok overtaken"
  by (simp_all add: states queues_ok_def good_def running_ok_def waits_ok_def blocked_all_def dom_if)

section \<open>Properties\<close>

text \<open>
  C28. \<^verbatim>\<open>lock_acquire\<close> of a lock that another thread holds returns to the scheduler: the chain of
  donations ends within as many levels as there are threads, whatever the locks wait for each
  other; the caller is queued on the lock, the holder has at least the caller's priority, the
  caller keeps its own, and no thread waits for a holder of lower priority that did not before.
\<close>

theorem lock_acquire_donates:
  assumes "listlib_ok L" "queued_ok s" "running_ok s" "\<not> intr_context s" "waits_ok s"
    and "dom (threads s) \<subseteq> set (all_list s)"
    and "locks s l = Some lk" "holder lk = Some h" "h \<noteq> running s" "semas s l = Some x" "svalue x = 0"
  shows "\<exists>t ws. lock_acquire L l s = Inr (False, t) \<and> running_ok t \<and>
    inverted t \<subseteq> inverted s - {(running s, l)} \<and>
    pri s (running s) \<le> pri t h \<and> pri t (running s) = pri s (running s) \<and>
    semas t l = Some (x\<lparr>waiters := ws\<rparr>) \<and> mset ws = add_mset (running s) (mset (waiters x))"
  using lock_acquire_blocks[OF assms] by (auto simp: wpK_iff waits_behind_def)

theorem lock_acquire_donates_witness:
  "\<exists>t ws. lock_acquire sim_list 7 contended = Inr (False, t) \<and> running_ok t \<and>
    inverted t \<subseteq> inverted contended - {(1, 7)} \<and> 33 \<le> pri t 3 \<and> pri t 1 = 33 \<and>
    semas t 7 = Some \<lparr>svalue = 0, waiters = ws\<rparr> \<and> mset ws = {#1#}"
  using lock_acquire_donates[OF sim_list_ok states_ok(1,2) _ states_ok(3,4), of 7 "\<lparr>holder = Some 3, lpriority = 31\<rparr>" 3
      "\<lparr>svalue = 0, waiters = []\<rparr>"]
  by (simp add: contended_def pri_def)

text \<open>
  C29. \<^verbatim>\<open>lock_release\<close> by the holder completes: the lock is free, it leaves the holder's list, the
  holder's priority is the highest of its own and of the locks it still holds, and afterwards
  a thread runs that no ready thread exceeds in priority.
\<close>

theorem lock_release_ends_donation:
  assumes "listlib_ok L" "running_ok s" "queued_ok s" "\<not> intr_context s"
    and "locks s l = Some lk" "holder lk = Some (running s)"
    and "threads s (running s) = Some c" "l \<in> set (lock_list c)" "\<forall>k\<in>set (lock_list c). locks s k \<noteq> None"
    and "semas s l = Some x" "blocked_all s (waiters x)"
  shows "\<exists>t c'. lock_release L l s = Inr ((), t) \<and> threads t (running s) = Some c' \<and>
    mset (lock_list c') = mset (lock_list c) - {#l#} \<and>
    priority c' = Max (insert (original_priority c) (lock_pri s ` set_mset (mset (lock_list c) - {#l#}))) \<and>
    locks t = (locks s)(l \<mapsto> lk\<lparr>holder := None\<rparr>) \<and>
    running_ok t \<and> (\<forall>a\<in>set (ready_list t). pri t a \<le> pri t (running t))"
proof -
  obtain t ls u where t: "lock_release L l s = Inr ((), t)" and m: "mset ls = mset (lock_list c) - {#l#}"
    and u: "sema_raised (released s l c lk ls) l x u" and sw: "switched True u t"
    using lock_release_run[OF assms] by (auto simp: wpK_iff)
  let ?r = "released s l c lk ls"
  let ?c = "c\<lparr>lock_list := ls, priority := due_priority s c ls\<rparr>"
  have so: "status_only ?r (u\<lparr>semas := semas ?r\<rparr>)" "status_only u t"
    using u sw by (simp_all add: sema_raised_def switched_def)
  have "threads ?r (running s) = Some ?c" by (simp add: released_def)
  then obtain y where "threads u (running s) = Some y" "core y = core ?c" using status_only_thread[OF so(1)] by auto
  then obtain c' where c': "threads t (running s) = Some c'" "core c' = core ?c" using status_only_thread[OF so(2)] by metis
  have s: "set ls = set_mset (mset (lock_list c) - {#l#})" using arg_cong[OF m, of set_mset] by simp
  have "lock_list c' = ls" "priority c' = due_priority s c ls" using core_fields[OF c'(2)] by simp_all
  moreover have "locks t = (locks s)(l \<mapsto> lk\<lparr>holder := None\<rparr>)"
    using so by (simp add: status_only_def released_def)
  moreover have "running_ok t" "\<forall>a\<in>set (ready_list t). pri t a \<le> pri t (running t)" using sw by (simp_all add: switched_def)
  ultimately show ?thesis using t c'(1) m by (auto simp: due_priority_def s)
qed

theorem lock_release_ends_donation_witness:
  "\<exists>t c'. lock_release sim_list 7 donated3 = Inr ((), t) \<and> threads t 3 = Some c' \<and> lock_list c' = [] \<and>
    priority c' = 31 \<and> locks t = [7 \<mapsto> \<lparr>holder = None, lpriority = 33\<rparr>] \<and>
    running_ok t \<and> (\<forall>a\<in>set (ready_list t). pri t a \<le> pri t (running t))"
  using lock_release_ends_donation[OF sim_list_ok states_ok(6,5), of 7 "\<lparr>holder = Some 3, lpriority = 33\<rparr>"
      "mk_thread THREAD_RUNNING 33 31 [7] []" "\<lparr>svalue = 0, waiters = [2, 1]\<rparr>"] states_ok(7)
  by (simp add: donated3_def)

text \<open>
  C30. \<^verbatim>\<open>if_yield\<close>, called outside an interrupt handler, completes: afterwards a thread runs that
  no ready thread exceeds in priority, neither a ready thread nor the caller has been lost
  from the run queue, and of the threads only the status has changed.
\<close>

theorem if_yield_runs_highest:
  assumes "listlib_ok L" "queued_ok s" "running_ok s" "\<not> intr_context s" "idle_thread s \<noteq> Some (running s)"
  shows "\<exists>t. if_yield L s = Inr ((), t) \<and> running_ok t \<and> (\<forall>a\<in>set (ready_list t). pri t a \<le> pri t (running t)) \<and>
    add_mset (running s) (mset (ready_list s)) \<subseteq># add_mset (running t) (mset (ready_list t)) \<and> status_only s t"
  using if_yield_run[OF assms(1-4)] assms(5) by (auto simp: wpK_iff switched_def)

theorem if_yield_runs_highest_witness:
  "\<exists>t. if_yield sim_list overtaken = Inr ((), t) \<and> running_ok t \<and>
    (\<forall>a\<in>set (ready_list t). pri t a \<le> pri t (running t)) \<and>
    {#3, 2, 1#} \<subseteq># add_mset (running t) (mset (ready_list t)) \<and> status_only overtaken t"
  using if_yield_runs_highest[OF sim_list_ok states_ok(8,9)] by (simp add: overtaken_def)

text \<open>
  C31. \<^verbatim>\<open>sema_up\<close> on a semaphore with waiters completes outside an interrupt handler: the value is
  one higher, one waiter has left the queue and is ready or running, it has the highest
  priority of all waiters, and the thread that runs afterwards is not below a ready one.
\<close>

theorem sema_up_wakes_highest:
  assumes "listlib_ok L" "semas s p = Some x" "queued_ok s" "running_ok s" "\<not> intr_context s"
    and "blocked_all s (waiters x)" "waiters x \<noteq> []"
  shows "\<exists>t w ws. sema_up L p s = Inr ((), t) \<and> mset (waiters x) = add_mset w (mset ws) \<and>
    (\<forall>a\<in>set ws. pri s a \<le> pri s w) \<and> semas t p = Some \<lparr>svalue = svalue x + 1, waiters = ws\<rparr> \<and>
    w \<in> insert (running t) (set (ready_list t)) \<and>
    running_ok t \<and> (\<forall>a\<in>set (ready_list t). pri t a \<le> pri t (running t))"
proof -
  obtain t u where t: "sema_up L p s = Inr ((), t)" and u: "sema_raised s p x u" and sw: "switched True u t"
    using sema_up_run[OF assms(1-6)] by (auto simp: wpK_iff)
  obtain w ws where w: "semas u p = Some \<lparr>svalue = Suc (svalue x), waiters = ws\<rparr>" "mset (waiters x) = add_mset w (mset ws)"
    "\<forall>a\<in>set ws. pri s a \<le> pri s w" "w \<in> set (ready_list u)"
    using u assms(7) by (auto simp: sema_raised_def)
  have "w \<in># mset (ready_list u)" using w(4) by simp
  then have "w \<in># add_mset (running t) (mset (ready_list t))" using switched_mset[OF sw] by (blast dest: mset_subset_eqD)
  moreover have "semas t = semas u" "running_ok t" "\<forall>a\<in>set (ready_list t). pri t a \<le> pri t (running t)"
    using sw by (simp_all add: switched_def status_only_def)
  ultimately show ?thesis using t w by auto
qed

theorem sema_up_wakes_highest_witness:
  "\<exists>t w ws. sema_up sim_list 7 donated3 = Inr ((), t) \<and> {#2, 1#} = add_mset w (mset ws) \<and>
    (\<forall>a\<in>set ws. pri donated3 a \<le> pri donated3 w) \<and> semas t 7 = Some \<lparr>svalue = 1, waiters = ws\<rparr> \<and>
    w \<in> insert (running t) (set (ready_list t)) \<and>
    running_ok t \<and> (\<forall>a\<in>set (ready_list t). pri t a \<le> pri t (running t))"
  using sema_up_wakes_highest[OF sim_list_ok _ states_ok(5,6), of 7 "\<lparr>svalue = 0, waiters = [2, 1]\<rparr>"] states_ok(7)
  by (simp add: donated3_def)

text \<open>
  C32. \<^verbatim>\<open>lock_try_acquire\<close> takes a free lock without putting it on the caller's list of locks;
  the \<^verbatim>\<open>lock_release\<close> that follows unlinks a list element that is on no list.
\<close>

theorem lock_try_acquire_then_release:
  assumes "running_ok s" "threads s (running s) = Some c" "l \<notin> set (lock_list c)"
    and "locks s l = Some lk" "holder lk = None" "semas s l = Some x" "svalue x > 0"
  shows "\<exists>t. lock_try_acquire l s = Inr (True, t) \<and> lock_release L l t = Inl BAD_POINTER"
proof -
  let ?t = "s\<lparr>semas := (semas s)(l \<mapsto> x\<lparr>svalue := svalue x - 1\<rparr>), locks := (locks s)(l \<mapsto> lk\<lparr>holder := Some (running s)\<rparr>)\<rparr>"
  have cur: "thread_current u = Inr (running u, u)" if "running_ok u" for u
    using that thread_current_wp[of "\<lambda>a v. a = running u \<and> v = u" u] by (auto simp: wpK_iff)
  have "running_ok ?t" "running_ok (s\<lparr>semas := m, intr_on := b\<rparr>)" for m b using assms(1) by (simp_all add: running_ok_def)
  note c = cur[OF assms(1)] cur[OF this(1)] cur[OF this(2)]
  have "lock_try_acquire l s = Inr (True, ?t)"
    using assms(2-) by (simp add: lock_try_acquire_def lock_held_by_current_thread_def lockK_def threadK_def sema_try_down_def
        semaK_def put_sema_def upd_lock_def intr_off_def kstep c)
  moreover have "lock_release L l ?t = Inl BAD_POINTER"
    using assms(2-) c(2) by (simp add: lock_release_def lock_held_by_current_thread_def lockK_def threadK_def list_remove_def kstep)
  ultimately show ?thesis by blast
qed

theorem lock_try_acquire_then_release_witness:
  "\<exists>t. lock_try_acquire 7 overtaken = Inr (True, t) \<and> lock_release sim_list 7 t = Inl BAD_POINTER"
  by (rule lock_try_acquire_then_release[of _ "mk_thread THREAD_RUNNING 31 31 [] []" _ "\<lparr>holder = None, lpriority = 31\<rparr>"
      "\<lparr>svalue = 1, waiters = []\<rparr>", OF states_ok(9)]) (simp_all add: overtaken_def)

text \<open>No sleeping thread is due to be woken.\<close>

definition none_due :: "sched \<Rightarrow> bool" where
  "none_due s \<longleftrightarrow> (case sleeping_list s of [] \<Rightarrow> True
     | w # _ \<Rightarrow> (case threads s w of None \<Rightarrow> False | Some x \<Rightarrow> timer_ticks s < wake_time x))"

lemma wake_sleeper_none: "none_due s \<Longrightarrow> wpK (wake_sleeper L) Q s = Q () s"
  by (auto simp: none_due_def wake_sleeper_def split: list.splits option.splits)

lemma none_due_cong:
  assumes "none_due s" "sleeping_list t = sleeping_list s" "timer_ticks t = timer_ticks s"
    "\<forall>b. map_option wake_time (threads t b) = map_option wake_time (threads s b)"
  shows "none_due t"
proof -
  have "(case threads t w of None \<Rightarrow> False | Some x \<Rightarrow> n < wake_time x) = (case threads s w of None \<Rightarrow> False | Some x \<Rightarrow> n < wake_time x)" for w n
    using spec[OF assms(4), of w] by (cases "threads t w"; cases "threads s w") simp_all
  then show ?thesis using assms(1) unfolding none_due_def assms(2,3) by (simp split: list.splits)
qed

text \<open>Blocking passes the processor to the first thread of the run queue.\<close>

lemma thread_block_first:
  assumes "running_ok s" "\<not> intr_context s" "\<not> intr_on s" "none_due s" "ready_list s = a # rest" "good s a" "a \<noteq> running s"
    and Q: "\<And>t. running t = a \<Longrightarrow> ready_list t = rest \<Longrightarrow> (\<forall>b. pri t b = pri s b) \<Longrightarrow> semas t = semas s \<Longrightarrow> Q () t"
  shows "wpK (thread_block L) Q s"
proof -
  obtain c where c: "threads s (running s) = Some c" using assms(1) by (auto simp: running_ok_def)
  obtain z where z: "threads s a = Some z" "tmagic z = THREAD_MAGIC" using assms(6) by (auto simp: good_def)
  let ?s = "s\<lparr>threads := (threads s)(running s \<mapsto> c\<lparr>status := THREAD_BLOCKED\<rparr>)\<rparr>"
  have "none_due ?s" by (rule none_due_cong[OF assms(4)]) (use c in simp_all)
  then have "wpK (schedule L) Q ?s"
    using c z assms(3,5,7) by (simp add: schedule_def wake_sleeper_none next_thread_to_run_def thread_schedule_tail_def)
      (rule Q; simp add: pri_def)
  then show ?thesis using assms(1-3) c by (simp add: thread_block_def)
qed

text \<open>
  C33. A donation raises the holder of a lock but leaves it where it stands in the run queue, and
  \<^verbatim>\<open>thread_block\<close> takes the first of the queue. So whenever a thread acquires a lock whose holder is ready but not
  first in the queue, and the first has a lower priority than the caller, with no sleeper due and the holder waiting for no lock, that first
  thread runs next, while the holder, with the donated priority above it, stays in the queue.
\<close>

theorem donation_leaves_queue_stale:
  assumes "running_ok s" "\<not> intr_context s" "none_due s" "locks s l = Some lk" "holder lk = Some h" "h \<noteq> running s"
    and "semas s l = Some x" "svalue x = 0" "ready_list s = a # rest" "h \<in> set rest" "a \<noteq> h" "a \<noteq> running s" "good s a"
    and "threads s h = Some y" "wait_lock_list y = []" "pri s a < pri s (running s)"
  shows "\<exists>t. lock_acquire L l s = Inr (False, t) \<and> running t = a \<and> h \<in> set (ready_list t) \<and>
    pri s (running s) \<le> pri t h \<and> pri t (running t) < pri t h"
proof -
  obtain c where c: "threads s (running s) = Some c" "tmagic c = THREAD_MAGIC" "status c = THREAD_RUNNING"
    using assms(1) by (auto simp: running_ok_def good_def)
  have ah: "pri s a < priority c" using assms(16) c by (simp add: pri_def)
  let ?Q = "\<lambda>_ t. running t = a \<and> h \<in> set (ready_list t) \<and> pri s (running s) \<le> pri t h \<and> pri t (running t) < pri t h"
  have block: "wpK (thread_block L) ?Q (s\<lparr>locks := lo, threads := th, intr_on := False, semas := se\<rparr>)"
    if "th (running s) = Some (c\<lparr>wait_lock_list := w\<rparr>)" "th h = Some y'" "priority c \<le> priority y'" "th a = threads s a"
      "\<forall>b. map_option wake_time (th b) = map_option wake_time (threads s b)" for lo th se w y'
  proof (rule thread_block_first[where rest = rest])
    show "none_due (s\<lparr>locks := lo, threads := th, intr_on := False, semas := se\<rparr>)"
      by (rule none_due_cong[OF assms(3)]) (use that(5) in simp_all)
  qed (use assms(2,9,10,12,13) c that ah in \<open>auto simp: running_ok_def good_def pri_def\<close>)
  have order: "s\<lparr>threads := th, intr_on := b, semas := se\<rparr> = s\<lparr>locks := locks s, threads := th, intr_on := b, semas := se\<rparr>"
    "s\<lparr>threads := th, locks := lo, intr_on := b, semas := se\<rparr> = s\<lparr>locks := lo, threads := th, intr_on := b, semas := se\<rparr>" for th b se lo
    by simp_all
  have "wpK (lock_acquire L l) (\<lambda>got t. \<not> got \<and> running t = a \<and> h \<in> set (ready_list t) \<and>
    pri s (running s) \<le> pri t h \<and> pri t (running t) < pri t h) s"
    using assms(2,4-8,11,12,14,15) c by (auto simp: lock_acquire_def lock_acquire_retry_def lock_held_by_current_thread_def
      sema_down_def intr_off_wp running_ok_def not_less intro!: block block[of _ _ _ _ "locks s", folded order(1)] block[folded order(2)])
  then show ?thesis by (auto simp: wpK_iff)
qed

theorem donation_leaves_queue_stale_witness:
  "\<exists>t. lock_acquire sim_list 7 contended = Inr (False, t) \<and> running t = 2 \<and> 3 \<in> set (ready_list t) \<and>
    33 \<le> pri t 3 \<and> pri t (running t) < pri t 3"
  using donation_leaves_queue_stale[OF states_ok(2), of 7 "\<lparr>holder = Some 3, lpriority = 31\<rparr>" 3 "\<lparr>svalue = 0, waiters = []\<rparr>" 2 "[3]"
      "mk_thread THREAD_READY 31 31 [7] []" sim_list]
  by (simp add: contended_def pri_def good_def none_due_def)

end
