(* ===== verification/Sched_Invariant.thy ===== *)
theory Sched_Invariant
  imports Sched_Places Priority_Sched
begin

text \<open>
  The scheduler as a state machine. Whatever sequence of calls the threads make, as long as each
  call respects the contract stated in the comments of \<^verbatim>\<open>thread.c\<close> and \<^verbatim>\<open>synch.c\<close>, every thread is at the one
  place its status names (the processor, the run queue, the sleepers, one semaphore), a lock is held
  exactly by the thread that lists it, and no call fails an assertion or follows a bad pointer.
\<close>

section \<open>The invariant\<close>

definition placed :: "sched \<Rightarrow> bool" where
  "placed s \<longleftrightarrow> places (running s) (idle_thread s) (stat (threads s)) (ready_list s) (sleeping_list s) (queue (semas s)) (all_list s)"

definition held :: "sched \<Rightarrow> bool" where
  "held s \<longleftrightarrow> holdings (threads s) (locks s) (semas s) (conds s) \<and> sleep_sema s \<noteq> 0"

definition sched_wf :: "sched \<Rightarrow> bool" where
  "sched_wf s \<longleftrightarrow> placed s \<and> held s \<and> stat (threads s) (running s) = Some THREAD_RUNNING"

text \<open>Before the switch: the running thread has a new status, and one that dies holds no lock.\<close>

definition leaving :: "sched \<Rightarrow> bool" where
  "leaving s \<longleftrightarrow> placed s \<and> held s \<and> \<not> intr_on s \<and> (\<exists>c. threads s (running s) = Some c \<and> status c \<noteq> THREAD_RUNNING \<and>
     (status c = THREAD_DYING \<longrightarrow> lock_list c = [] \<and> initial_thread s \<noteq> Some (running s)))"

lemma held_thread:
  assumes "held s" "threads s t = Some x"
  shows "owns (locks s) t x"
  using assms holdingsD(1) by (auto simp: held_def)

lemma wf_running: "sched_wf s \<Longrightarrow> running_ok s"
  using held_thread by (fastforce simp: sched_wf_def running_ok_def owns_def dest!: stat_SomeD)

lemma wake_sleeper_leaving:
  assumes "listlib_ok L" "leaving s"
  shows "wpK (wake_sleeper L) (\<lambda>_ u. leaving u \<and> running u = running s) s"
proof (cases "sleeping_list s")
  case Nil
  with assms(2) show ?thesis by (simp add: wake_sleeper_def)
next
  case (Cons t ts)
  note s = assms(2)[unfolded leaving_def placed_def Cons]
  have "stat (threads s) t = Some THREAD_SLEEPING"
    using s placesD[of "running s" _ _ _ "t # ts" _ _ t]
    by (cases "(t = running s, idle_thread s = Some t, stat (threads s) t, t \<in> set (ready_list s), True, t \<in> set (all_list s), waits_in (queue (semas s)) t)"
      rule: place.cases) fastforce+
  then obtain x where x: "threads s t = Some x" by (auto dest: stat_SomeD)
  let ?r = "list_insert_ordered L (big s) t (ready_list s)"
  have "placed (s\<lparr>sleeping_list := ts, ready_list := ?r, threads := (threads s)(t \<mapsto> x\<lparr>status := THREAD_READY\<rparr>)\<rparr>)"
    unfolding placed_def using places_wake[OF conjunct1[OF s] insert_big(1)[OF assms(1)]] by simp
  moreover have "held (s\<lparr>sleeping_list := ts, ready_list := ?r, threads := (threads s)(t \<mapsto> x\<lparr>status := THREAD_READY\<rparr>)\<rparr>)"
    using s x by (simp add: held_def holdings_thread)
  ultimately have "leaving (s\<lparr>sleeping_list := ts, ready_list := ?r, threads := (threads s)(t \<mapsto> x\<lparr>status := THREAD_READY\<rparr>)\<rparr>)"
    using s by (auto simp: leaving_def)
  with Cons x assms(2) show ?thesis by (auto simp: wake_sleeper_def)
qed

lemma switch_leaving:
  assumes "leaving s" "ready_list s = t # r \<or> ready_list s = [] \<and> idle_thread s = Some t" "r = tl (ready_list s)"
  shows "wpK (switch_rest (running s) (Some t)) (\<lambda>_. sched_wf) (s\<lparr>ready_list := r\<rparr>)"
proof -
  obtain c where c: "threads s (running s) = Some c" "status c \<noteq> THREAD_RUNNING"
    "status c = THREAD_DYING \<Longrightarrow> lock_list c = [] \<and> initial_thread s \<noteq> Some (running s)" and on: "\<not> intr_on s"
    using assms(1) by (auto simp: leaving_def)
  have h: "holdings (threads s) (locks s) (semas s) (conds s)" "sleep_sema s \<noteq> 0" using assms(1) by (auto simp: leaving_def held_def)
  have p: "places (running s) (idle_thread s) (stat (threads s)) (ready_list s) (sleeping_list s) (queue (semas s)) (all_list s)"
    using assms(1) by (simp add: leaving_def placed_def)
  have sr: "stat (threads s) (running s) = Some (status c)" using c(1) by (rule stat_Some)
  have n: "stat (threads s) t = Some THREAD_READY \<or> stat (threads s) t = Some THREAD_BLOCKED \<and> idle_thread s = Some t"
    using places_next[OF p _ assms(2)] sr c(2) by simp
  then obtain x where x: "threads s t = Some x" "status x \<noteq> THREAD_DYING" by (auto dest!: stat_SomeD)
  have mg: "tmagic x = THREAD_MAGIC" using holdingsD(1)[OF h(1) x(1)] by (simp add: owns_def)
  note d = places_dispatch[OF p _ assms(2,3) refl, unfolded sr]
  have "sched_wf ((dispatch (s\<lparr>ready_list := r\<rparr>) t x)\<lparr>threads := (threads (dispatch s t x))(running s := None)\<rparr>)"
    if "status c = THREAD_DYING"
  proof -
    have "t \<noteq> running s" using that x c(1) by auto
    then show ?thesis using d that c h x
      by (simp add: sched_wf_def placed_def held_def dispatch_def holdings_free[OF holdings_thread[OF h(1) x(1)]])
  qed
  moreover have "sched_wf (dispatch (s\<lparr>ready_list := r\<rparr>) t x)" if "status c \<noteq> THREAD_DYING"
    using d that c h x by (simp add: sched_wf_def placed_def held_def dispatch_def holdings_thread[OF h(1) x(1)] fun_upd_idem)
  ultimately show ?thesis using x mg c on
    by (auto simp: switch_rest_def thread_schedule_tail_def dispatch_def)
qed

lemma schedule_wf:
  assumes "listlib_ok L" "leaving s"
  shows "wpK (schedule L) (\<lambda>_. sched_wf) s"
proof -
  have nx: "wpK next_thread_to_run (\<lambda>nx. wpK (switch_rest (running u) nx) (\<lambda>_. sched_wf)) u" if u: "leaving u" for u
  proof (cases "ready_list u")
    case Nil
    then have e: "u\<lparr>ready_list := []\<rparr> = u" by simp
    obtain i where "idle_thread u = Some i" using u by (auto simp: leaving_def placed_def places_def unique_def)
    then have "wpK (switch_rest (running u) (Some i)) (\<lambda>_. sched_wf) (u\<lparr>ready_list := []\<rparr>)"
      using Nil by (intro switch_leaving[OF u]) simp_all
    then show ?thesis using Nil \<open>idle_thread u = Some i\<close> unfolding e by (simp add: next_thread_to_run_def)
  next
    case (Cons t r)
    then have "wpK (switch_rest (running u) (Some t)) (\<lambda>_. sched_wf) (u\<lparr>ready_list := r\<rparr>)"
      by (intro switch_leaving[OF u]) simp_all
    with Cons show ?thesis by (simp add: next_thread_to_run_def)
  qed
  show ?thesis unfolding schedule_rest wpK_bind wpK_then wpK_get
  proof (rule wpK_mono[OF wake_sleeper_leaving[OF assms]])
    fix u assume "leaving u \<and> running u = running s"
    then show "wpK next_thread_to_run (\<lambda>nx. wpK (switch_rest (running s) nx) (\<lambda>_. sched_wf)) u" using nx[of u] by simp
  qed
qed

section \<open>thread.c keeps the invariant\<close>

lemma wf_irrelevant [simp]:
  "sched_wf (s\<lparr>intr_on := b\<rparr>) = sched_wf s" "sched_wf (s\<lparr>yield_on_return := b\<rparr>) = sched_wf s"
  "sched_wf (s\<lparr>intr_context := b\<rparr>) = sched_wf s" "sched_wf (s\<lparr>timer_ticks := z\<rparr>) = sched_wf s"
  "sched_wf (s\<lparr>thread_ticks := n\<rparr>) = sched_wf s" "sched_wf (s\<lparr>idle_ticks := z\<rparr>) = sched_wf s"
  "sched_wf (s\<lparr>user_ticks := z\<rparr>) = sched_wf s" "sched_wf (s\<lparr>kernel_ticks := z\<rparr>) = sched_wf s"
  "sched_wf (s\<lparr>selems := e\<rparr>) = sched_wf s"
  by (simp_all add: sched_wf_def placed_def held_def)

lemma wf_thread:
  assumes "sched_wf s"
  obtains c where "threads s (running s) = Some c" "status c = THREAD_RUNNING" "tmagic c = THREAD_MAGIC"
  using wf_running[OF assms] by (auto simp: running_ok_def)

lemma wf_places:
  assumes "sched_wf s"
  shows "places (running s) (idle_thread s) (stat (threads s)) (ready_list s) (sleeping_list s) (queue (semas s)) (all_list s)"
    "holdings (threads s) (locks s) (semas s) (conds s)" "sleep_sema s \<noteq> 0"
    "stat (threads s) (running s) = Some THREAD_RUNNING"
  using assms by (simp_all add: sched_wf_def placed_def held_def)

text \<open>A change of what a thread's record holds beyond status, lists of locks and magic.\<close>

lemma wf_upd_thread:
  assumes "sched_wf s" "threads s t = Some x" "status y = status x" "lock_list y = lock_list x"
    "wait_lock_list y = wait_lock_list x" "tmagic y = tmagic x"
  shows "sched_wf (s\<lparr>threads := (threads s)(t \<mapsto> y)\<rparr>)"
  using assms wf_places[OF assms(1)] stat_same[of "threads s", OF assms(2,3)]
  by (simp add: sched_wf_def placed_def held_def holdings_thread)

lemma wf_ready_list:
  "sched_wf s \<Longrightarrow> mset r = mset (ready_list s) \<Longrightarrow> sched_wf (s\<lparr>ready_list := r\<rparr>)"
  by (auto simp: sched_wf_def placed_def held_def intro: places_sorted)

lemma wf_leaving:
  assumes "sched_wf s" "threads s (running s) = Some c" "status c = THREAD_RUNNING"
    and "places (running s) (idle_thread s) ((stat (threads s))(running s \<mapsto> v)) rl sl (queue (semas s)) (all_list s)"
    and "status d = v" "v \<notin> {THREAD_RUNNING, THREAD_DYING}" "lock_list d = lock_list c"
      "wait_lock_list d = wait_lock_list c" "tmagic d = tmagic c"
  shows "leaving (s\<lparr>intr_on := False, ready_list := rl, sleeping_list := sl, threads := (threads s)(running s \<mapsto> d)\<rparr>)"
  using assms wf_places[OF assms(1)] by (simp add: leaving_def placed_def held_def holdings_thread)

lemma thread_yield_wf:
  assumes "listlib_ok L" "sched_wf s" "\<not> intr_context s"
  shows "wpK (thread_yield L) (\<lambda>_. sched_wf) s"
proof -
  obtain c where c: "threads s (running s) = Some c" "status c = THREAD_RUNNING" using wf_thread[OF assms(2)] .
  let ?r = "if idle_thread s = Some (running s) then ready_list s else list_insert_ordered L (big s) (running s) (ready_list s)"
  have "places (running s) (idle_thread s) ((stat (threads s))(running s \<mapsto> THREAD_READY)) ?r (sleeping_list s) (queue (semas s)) (all_list s)"
    using wf_places[OF assms(2)] by (intro places_ready) (simp_all add: insert_big(1)[OF assms(1)])
  from schedule_wf[OF assms(1) wf_leaving[OF assms(2) c this, of "c\<lparr>status := THREAD_READY\<rparr>"]]
  show ?thesis using c assms(3) wf_running[OF assms(2)] by (auto simp: thread_yield_def intr_off_wp)
qed

text \<open>In a handler \<open>if_yield\<close> only asks for a switch on return.\<close>

lemma if_yield_wf:
  assumes "listlib_ok L" "sched_wf s"
  shows "wpK (if_yield L) (\<lambda>_. sched_wf) s"
proof -
  let ?r = "list_sort L (big s) (ready_list s)"
  note srt = sort_ordered[OF assms(1) strict_big[of s], of "ready_list s"]
  have wf: "sched_wf (s\<lparr>ready_list := ?r\<rparr>)" using wf_ready_list[OF assms(2)] srt(1) .
  obtain c where c: "threads s (running s) = Some c" using wf_thread[OF assms(2)] by blast
  have y: "wpK (thread_yield L) (\<lambda>_. sched_wf) (s\<lparr>ready_list := ?r\<rparr>)" if "\<not> intr_context s"
    using thread_yield_wf[OF assms(1) wf] that by simp
  show ?thesis
  proof (cases ?r)
    case Nil
    then show ?thesis using wf by (simp add: if_yield_def)
  next
    case (Cons f fs)
    then have "f \<in> set (ready_list s)" using srt(2) by auto
    then have "stat (threads s) f \<noteq> None" using placesD[OF wf_places(1)[OF assms(2)], of f] by (cases "stat (threads s) f") auto
    then obtain x where "threads s f = Some x" by (auto simp: stat_def)
    then show ?thesis using Cons wf y c wf_running[OF wf] by (simp add: if_yield_def)
  qed
qed

lemma thread_set_priority_wf:
  assumes "listlib_ok L" "sched_wf s"
  shows "wpK (thread_set_priority L n) (\<lambda>_. sched_wf) s"
proof -
  obtain c where c: "threads s (running s) = Some c" using wf_thread[OF assms(2)] by blast
  have "sched_wf (s\<lparr>intr_on := False, threads := (threads s)(running s \<mapsto> c\<lparr>priority := p, original_priority := q\<rparr>)\<rparr>)" for p q
    using wf_upd_thread[of "s\<lparr>intr_on := False\<rparr>" "running s" c] assms(2) c by simp
  from if_yield_wf[OF assms(1) this[of n n]] if_yield_wf[OF assms(1) this[of n "priority c"]] show ?thesis
    using c wf_running[OF assms(2)] by (simp add: thread_set_priority_def intr_off_wp)
qed

lemma thread_tick_wf: "sched_wf s \<Longrightarrow> wpK thread_tick (\<lambda>_. sched_wf) s"
  using wf_running[of s] by (auto simp: thread_tick_def elim: wf_thread)

lemma thread_block_wf:
  assumes "listlib_ok L" "sched_wf s" "\<not> intr_context s" "\<not> intr_on s"
  shows "wpK (thread_block L) (\<lambda>_. sched_wf) s"
proof -
  obtain c where c: "threads s (running s) = Some c" "status c = THREAD_RUNNING" using wf_thread[OF assms(2)] .
  have e: "s\<lparr>intr_on := False, threads := h\<rparr> = s\<lparr>threads := h\<rparr>" for h using assms(4) by simp
  have "places (running s) (idle_thread s) ((stat (threads s))(running s \<mapsto> THREAD_BLOCKED)) (ready_list s) (sleeping_list s) (queue (semas s)) (all_list s)"
    using wf_places[OF assms(2)] by (intro places_block)
  from schedule_wf[OF assms(1) wf_leaving[OF assms(2) c this, of "c\<lparr>status := THREAD_BLOCKED\<rparr>"]]
  show ?thesis using c assms(3,4) wf_running[OF assms(2)] by (simp add: thread_block_def e)
qed

lemma thread_unblock_wf:
  assumes "listlib_ok L" "sched_wf s" "threads s t = Some x" "status x = THREAD_BLOCKED"
    "waits_in (queue (semas s)) t = {}" "idle_thread s \<noteq> Some t"
  shows "wpK (thread_unblock L t) (\<lambda>_. sched_wf) s"
proof -
  let ?u = "s\<lparr>intr_on := False, ready_list := list_insert_ordered L (big s) t (ready_list s), threads := (threads s)(t \<mapsto> x\<lparr>status := THREAD_READY\<rparr>)\<rparr>"
  note p = wf_places[OF assms(2)]
  have x: "tmagic x = THREAD_MAGIC" "t \<noteq> running s"
    using holdingsD(1)[OF p(2) assms(3)] p(4) assms(3,4) by (auto simp: owns_def stat_def)
  have "places (running s) (idle_thread s) ((stat (threads s))(t \<mapsto> THREAD_READY)) (list_insert_ordered L (big s) t (ready_list s))
      (sleeping_list s) (queue (semas s)) (all_list s)"
    using assms(3-6) by (intro places_unblock[OF p(1)]) (simp_all add: stat_def insert_big(1)[OF assms(1)])
  then have "sched_wf ?u" using p x assms(3) by (simp add: sched_wf_def placed_def held_def holdings_thread)
  then show ?thesis using assms(3,4) x by (simp add: thread_unblock_def intr_off_wp)
qed

lemma init_thread_wf:
  assumes "sched_wf s" "threads s t = None" "PRI_MIN \<le> pr" "pr \<le> PRI_MAX"
  shows "wpK (init_thread t name pr) (\<lambda>_. sched_wf) s"
proof -
  note p = wf_places[OF assms(1)]
  have n: "stat (threads s) t = None" using assms(2) by (simp add: stat_def)
  have "holder lk \<noteq> Some t" if "locks s l = Some lk" for l lk using holdingsD(2)[OF p(2) that] assms(2) by blast
  then have "owns (locks s) t x" if "lock_list x = []" "wait_lock_list x = []" "tmagic x = THREAD_MAGIC" for x
    using that by (auto simp: owns_def)
  then have "holdings ((threads s)(t \<mapsto> x)) (locks s) (semas s) (conds s)"
    if "lock_list x = []" "wait_lock_list x = []" "tmagic x = THREAD_MAGIC" for x
    using p(2) that by (fastforce simp: holdings_def)
  moreover have "running s \<noteq> t" using p(4) n by auto
  ultimately show ?thesis using p places_new[OF p(1) n] assms(3,4)
    by (simp add: init_thread_def sched_wf_def placed_def held_def)
qed

lemma strict_small: "strict_order (small s)"
  unfolding strict_order_def small_def
  by (rule exI[of _ "\<lambda>t. case threads s t of None \<Rightarrow> 0 | Some x \<Rightarrow> wake_time x"]) simp

lemma thread_sleep_wf:
  assumes "listlib_ok L" "sched_wf s"
  shows "wpK (thread_sleep L ticks) (\<lambda>_. sched_wf) s"
proof (cases "idle_thread s = Some (running s)")
  case True
  then show ?thesis using assms(2) wf_running[OF assms(2)] wf_places(3)[OF assms(2)] by (simp add: thread_sleep_def intr_off_wp)
next
  case False
  obtain c where c: "threads s (running s) = Some c" "status c = THREAD_RUNNING" using wf_thread[OF assms(2)] .
  note p = wf_places[OF assms(2)]
  let ?d = "c\<lparr>status := THREAD_SLEEPING, wake_time := timer_ticks s + ticks\<rparr>"
  let ?u = "s\<lparr>intr_on := False, threads := (threads s)(running s \<mapsto> ?d)\<rparr>"
  let ?l = "list_insert_ordered L (small ?u) (running s) (sleeping_list s)"
  have "mset ?l = add_mset (running s) (mset (sleeping_list s))" using assms(1) strict_small by (simp add: listlib_ok_def)
  from places_sleep[OF p(1,4) False this]
  have "leaving (?u\<lparr>sleeping_list := ?l, sleep_sema := 1\<rparr>)"
    using c p by (simp add: leaving_def placed_def held_def holdings_thread)
  from schedule_wf[OF assms(1) this] show ?thesis
    using False c p(3) wf_running[OF assms(2)] by (simp add: thread_sleep_def intr_off_wp)
qed

lemma thread_exit_wf:
  assumes "listlib_ok L" "sched_wf s" "idle_thread s \<noteq> Some (running s)" "initial_thread s \<noteq> Some (running s)"
    "threads s (running s) = Some c" "lock_list c = []"
  shows "wpK (thread_exit_final L) (\<lambda>_. sched_wf) s"
proof -
  note p = wf_places[OF assms(2)]
  have al: "running s \<in> set (all_list s)" using placesD[OF p(1), of "running s"] p(4) by simp
  have "leaving (s\<lparr>intr_on := False, all_list := remove1 (running s) (all_list s), threads := (threads s)(running s \<mapsto> c\<lparr>status := THREAD_DYING\<rparr>)\<rparr>)"
    using places_die[OF p(1,4) assms(3)] assms(4-6) p by (simp add: leaving_def placed_def held_def holdings_thread)
  from schedule_wf[OF assms(1) this] show ?thesis
    using al assms(5) wf_running[OF assms(2)] by (simp add: thread_exit_final_def list_remove_def)
qed

section \<open>synch.c keeps the invariant\<close>

text \<open>The semaphores may change their values as long as those of the locks stay right.\<close>

lemma wf_sema:
  assumes "sched_wf s" "waiters y = queue (semas s) p"
    "holdings (threads s) (locks s) ((semas s)(p \<mapsto> y)) (conds s)"
  shows "sched_wf (s\<lparr>semas := (semas s)(p \<mapsto> y)\<rparr>)"
proof -
  have "queue ((semas s)(p \<mapsto> y)) = queue (semas s)" using assms(2) by (auto simp: queue_def fun_eq_iff)
  with assms(1,3) show ?thesis by (simp add: sched_wf_def placed_def held_def)
qed

lemma sema_init_wf:
  assumes "sched_wf s" "locks s p = None" "queue (semas s) p = []"
  shows "sched_wf (s\<lparr>semas := (semas s)(p \<mapsto> \<lparr>svalue = v, waiters = []\<rparr>)\<rparr>)"
  using wf_places(2)[OF assms(1)] assms(2,3) by (intro wf_sema[OF assms(1)]) (simp_all add: holdings_sema queue_Some)

text \<open>\<open>sema_down\<close>: the thread waits, or the value was positive and is one less.\<close>

lemma sema_down_wf:
  assumes "listlib_ok L" "sched_wf s" "\<not> intr_context s" "idle_thread s \<noteq> Some (running s)" "semas s p = Some x"
    and "svalue x \<noteq> 0 \<Longrightarrow> Q True (s\<lparr>semas := (semas s)(p \<mapsto> x\<lparr>svalue := svalue x - 1\<rparr>)\<rparr>)"
    and "\<And>t. sched_wf t \<Longrightarrow> Q False t"
  shows "wpK (sema_down L p) Q s"
proof (cases "svalue x = 0")
  case True
  obtain c where c: "threads s (running s) = Some c" using wf_thread[OF assms(2)] by blast
  note q = wf_places[OF assms(2)]
  let ?w = "list_insert_ordered L (big s) (running s) (waiters x)"
  let ?u = "s\<lparr>intr_on := False, semas := (semas s)(p \<mapsto> x\<lparr>waiters := ?w\<rparr>), threads := (threads s)(running s \<mapsto> c\<lparr>status := THREAD_BLOCKED\<rparr>)\<rparr>"
  have "mset ?w = add_mset (running s) (mset (queue (semas s) p))"
    using assms(5) by (simp add: queue_def insert_big(1)[OF assms(1)])
  from places_enqueue[OF q(1,4) assms(4) this] have "leaving ?u"
    using c q assms(5) by (simp add: leaving_def placed_def held_def holdings_thread holdings_queue)
  from schedule_wf[OF assms(1) this]
  have "wpK (schedule L) (\<lambda>_ t. Q False (t\<lparr>intr_on := intr_on s\<rparr>)) ?u" by (rule wpK_mono) (simp add: assms(7))
  moreover have "running_ok (s\<lparr>intr_on := False, semas := m\<rparr>)" for m using wf_running[OF assms(2)] by (simp add: running_ok_def)
  ultimately show ?thesis
    using True c assms(3,5) wf_running[OF assms(2)] by (simp add: sema_down_def intr_off_wp thread_block_def)
next
  case False
  have "s\<lparr>intr_on := False, semas := m, intr_on := intr_on s\<rparr> = s\<lparr>semas := m\<rparr>" for m by simp
  then show ?thesis using False assms(3,5,6) by (simp add: sema_down_def intr_off_wp)
qed

lemma sema_down_step:
  assumes "listlib_ok L" "sched_wf s" "\<not> intr_context s" "idle_thread s \<noteq> Some (running s)" "semas s p \<noteq> None" "locks s p = None"
  shows "wpK (sema_down L p) (\<lambda>_. sched_wf) s"
proof -
  obtain x where x: "semas s p = Some x" using assms(5) by blast
  have "sched_wf (s\<lparr>semas := (semas s)(p \<mapsto> x\<lparr>svalue := svalue x - 1\<rparr>)\<rparr>)"
    using wf_places(2)[OF assms(2)] assms(6) x by (intro wf_sema[OF assms(2)]) (simp_all add: holdings_sema queue_Some)
  then show ?thesis by (intro sema_down_wf[OF assms(1-4) x]) simp_all
qed

lemma sema_try_down_wf:
  assumes "sched_wf s" "semas s p = Some x" "locks s p = None"
  shows "wpK (sema_try_down p) (\<lambda>_. sched_wf) s"
proof -
  have "sched_wf (s\<lparr>semas := (semas s)(p \<mapsto> x\<lparr>svalue := svalue x - 1\<rparr>)\<rparr>)"
    using wf_places(2)[OF assms(1)] assms(2,3) by (intro wf_sema[OF assms(1)]) (simp_all add: holdings_sema queue_Some)
  then have "sched_wf (s\<lparr>intr_on := False, semas := (semas s)(p \<mapsto> x\<lparr>svalue := svalue x - 1\<rparr>)\<rparr>)"
    by (simp add: sched_wf_def placed_def held_def)
  then show ?thesis using assms(1,2) by (simp add: sema_try_down_def intr_off_wp)
qed

text \<open>
  \<open>sema_up\<close>, from a state in which all but the value of this semaphore is right: that of a lock that is
  being released is not one yet.
\<close>

lemma sema_up_wf:
  assumes "listlib_ok L" "placed s" "stat (threads s) (running s) = Some THREAD_RUNNING" "sleep_sema s \<noteq> 0"
    and x: "semas s p = Some x" and h: "holdings (threads s) (locks s) ((semas s)(p \<mapsto> x\<lparr>svalue := Suc (svalue x)\<rparr>)) (conds s)"
  shows "wpK (sema_up L p) (\<lambda>_. sched_wf) s"
proof (cases "waiters x")
  case Nil
  have "queue ((semas s)(p \<mapsto> x\<lparr>svalue := Suc (svalue x)\<rparr>)) = queue (semas s)" by (rule queue_same[where x = x]) (simp_all add: x)
  then have "sched_wf (s\<lparr>intr_on := False, semas := (semas s)(p \<mapsto> x\<lparr>svalue := Suc (svalue x)\<rparr>)\<rparr>)"
    using assms(2-4) h by (simp add: sched_wf_def placed_def held_def)
  from if_yield_wf[OF assms(1) this] show ?thesis using x Nil by (simp add: sema_up_def intr_off_wp)
next
  case (Cons v vs)
  note srt = sort_ordered[OF assms(1) strict_big[of s], of "waiters x"]
  obtain w ws where ws: "list_sort L (big s) (waiters x) = w # ws"
    using srt(1) Cons by (cases "list_sort L (big s) (waiters x)") auto
  have "mset (queue (semas s) p) = add_mset w (mset ws)" using srt(1) x ws by (simp add: queue_def)
  note d = places_dequeue[OF assms(2)[unfolded placed_def] this]
  obtain y where y: "threads s w = Some y" "status y = THREAD_BLOCKED" using stat_SomeD[OF d(2)] by blast
  have mg: "tmagic y = THREAD_MAGIC" using holdingsD(1)[OF h y(1)] by (simp add: owns_def)
  have b: "big (s\<lparr>semas := m\<rparr>) = big s" for m by (simp add: big_def pri_def fun_eq_iff)
  let ?r = "list_insert_ordered L (big s) w (ready_list s)" and ?m = "(semas s)(p \<mapsto> x\<lparr>waiters := ws, svalue := Suc (svalue x)\<rparr>)"
  let ?u = "s\<lparr>ready_list := ?r, threads := (threads s)(w \<mapsto> y\<lparr>status := THREAD_READY\<rparr>), intr_on := False, semas := ?m\<rparr>"
  have "places (running s) (idle_thread s) ((stat (threads s))(w \<mapsto> THREAD_READY)) ?r (sleeping_list s) ((queue (semas s))(p := ws)) (all_list s)"
    by (rule places_unblock[OF d(1,2,4,3) insert_big(1)[OF assms(1)]])
  moreover have "holdings (threads s) (locks s) ?m (conds s)"
    using holdings_queue[OF h, of p "x\<lparr>svalue := Suc (svalue x)\<rparr>" "x\<lparr>waiters := ws, svalue := Suc (svalue x)\<rparr>"] by simp
  moreover have "w \<noteq> running s" using d(2) assms(3) by auto
  ultimately have "sched_wf ?u" using assms(3,4) y
    by (simp add: sched_wf_def placed_def held_def holdings_thread)
  from if_yield_wf[OF assms(1) this] show ?thesis
    using x Cons ws y mg by (simp add: sema_up_def intr_off_wp thread_unblock_def b)
qed

lemma sema_up_step:
  assumes "listlib_ok L" "sched_wf s" "semas s p \<noteq> None" "locks s p = None"
  shows "wpK (sema_up L p) (\<lambda>_. sched_wf) s"
proof -
  obtain x where "semas s p = Some x" using assms(3) by blast
  then show ?thesis using assms(2,4) wf_places[OF assms(2)]
    by (intro sema_up_wf[OF assms(1)]) (auto simp: sched_wf_def holdings_sema)
qed

subsection \<open>Locks\<close>

lemma lock_init_wf:
  assumes "sched_wf s" "locks s l = None" "queue (semas s) l = []" "\<forall>c ws. conds s c = Some ws \<longrightarrow> l \<notin> set ws"
  shows "wpK (lock_init l) (\<lambda>_. sched_wf) s"
proof -
  let ?k = "(locks s)(l \<mapsto> \<lparr>holder = None, lpriority = 0\<rparr>)" and ?m = "(semas s)(l \<mapsto> \<lparr>svalue = 1, waiters = []\<rparr>)"
  note p = wf_places[OF assms(1)]
  have "queue ?m = queue (semas s)" using assms(3) by (auto simp: queue_def fun_eq_iff)
  moreover have "owns ?k t x" if "threads s t = Some x" for t x
    using holdingsD(1)[OF p(2) that] assms(2) by (auto simp: owns_def)
  then have "holdings (threads s) ?k ?m (conds s)"
    using p(2) assms(2,4) unfolding holdings_def by (fastforce split: if_splits)
  ultimately show ?thesis using assms(1,2) by (simp add: lock_init_def sema_init_def sched_wf_def placed_def held_def)
qed

text \<open>A free lock is taken, and a lock is given up: both change one thread, one lock and its semaphore.\<close>

lemma holdings_upd:
  assumes h: "holdings h k m c" and "k l \<noteq> None" "owns (k(l \<mapsto> lk)) t y" "svalue z = (if holder lk = None then 1 else 0)"
    "holder lk \<noteq> None \<Longrightarrow> holder lk = Some t" "\<And>u v. h u = Some v \<Longrightarrow> u \<noteq> t \<Longrightarrow> owns (k(l \<mapsto> lk)) u v"
  shows "holdings (h(t \<mapsto> y)) (k(l \<mapsto> lk)) (m(l \<mapsto> z)) c"
  unfolding holdings_def
proof (intro conjI allI impI)
  fix u v assume "(h(t \<mapsto> y)) u = Some v"
  then show "owns (k(l \<mapsto> lk)) u v" using assms(3,6) by (cases "u = t") auto
next
  fix q lk' assume q: "(k(l \<mapsto> lk)) q = Some lk'"
  show "\<exists>ws. (m(l \<mapsto> z)) q = Some \<lparr>svalue = if holder lk' = None then 1 else 0, waiters = ws\<rparr>"
    using q h assms(4) by (cases z; cases "q = l") (auto simp: holdings_def)
  show "(h(t \<mapsto> y)) u \<noteq> None" if "holder lk' = Some u" for u
    using q assms(5) holdingsD(2)[OF h, of q lk' u] that by (cases "q = l") auto
next
  fix q ws assume "c q = Some ws"
  then have "set ws \<subseteq> dom m - dom k" using h by (simp add: holdings_def)
  then show "set ws \<subseteq> dom (m(l \<mapsto> z)) - dom (k(l \<mapsto> lk))" using assms(2) by auto
qed

lemma holdings_take:
  assumes h: "holdings h k m c" and x: "h t = Some x" and lk: "k l = Some lk" "holder lk = None"
    and y: "set (lock_list y) = insert l (set (lock_list x))" "distinct (lock_list y) \<longleftrightarrow> l \<notin> set (lock_list x) \<and> distinct (lock_list x)"
      "set (wait_lock_list y) \<subseteq> set (wait_lock_list x)" "tmagic y = tmagic x" "holder lk' = Some t" "svalue z = 0"
  shows "holdings (h(t \<mapsto> y)) (k(l \<mapsto> lk')) (m(l \<mapsto> z)) c"
proof -
  have ow: "owns k t x" using holdingsD(1)[OF h x] .
  then have "l \<notin> set (lock_list x)" using lk by (auto simp: owns_def)
  then have "owns (k(l \<mapsto> lk')) t y" using ow y by (auto simp: owns_def)
  moreover have "owns (k(l \<mapsto> lk')) u v" if "h u = Some v" "u \<noteq> t" for u v
    using holdingsD(1)[OF h that(1)] that(2) y(5) lk by (auto simp: owns_def)
  ultimately show ?thesis using y(5,6) lk(1) by (intro holdings_upd[OF h]) simp_all
qed

lemma holdings_drop:
  assumes h: "holdings h k m c" and x: "h t = Some x" and lk: "k l = Some lk" "holder lk = Some t" and s: "m l = Some z"
    and y: "mset (lock_list y) = mset (lock_list x) - {#l#}" "wait_lock_list y = wait_lock_list x" "tmagic y = tmagic x"
  shows "holdings (h(t \<mapsto> y)) (k(l \<mapsto> lk\<lparr>holder := None\<rparr>)) (m(l \<mapsto> z\<lparr>svalue := Suc (svalue z)\<rparr>)) c"
proof -
  have ow: "owns k t x" using holdingsD(1)[OF h x] .
  then have "l \<in> set (lock_list x)" using lk by (auto simp: owns_def)
  then have "mset (lock_list x) = add_mset l (mset (lock_list y))" using y(1) by simp
  from added[OF this] ow have "l \<notin> set (lock_list y)" "distinct (lock_list y)" "set (lock_list x) = insert l (set (lock_list y))"
    by (auto simp: owns_def)
  then have "owns (k(l \<mapsto> lk\<lparr>holder := None\<rparr>)) t y" using ow y(2,3) by (auto simp: owns_def)
  moreover have "owns (k(l \<mapsto> lk\<lparr>holder := None\<rparr>)) u v" if "h u = Some v" "u \<noteq> t" for u v
    using holdingsD(1)[OF h that(1)] that(2) lk by (auto simp: owns_def)
  moreover have "svalue z = 0" using holdingsD(3)[OF h lk(1) s] lk(2) by simp
  ultimately show ?thesis using lk(1) by (intro holdings_upd[OF h]) simp_all
qed

lemma lock_acquire_retry_wf:
  assumes "listlib_ok L" "sched_wf s" "\<not> intr_context s" "idle_thread s \<noteq> Some (running s)"
    "threads s (running s) = Some c" "l \<in> set (wait_lock_list c)"
  shows "wpK (lock_acquire_retry L l) (\<lambda>_. sched_wf) s"
proof -
  note p = wf_places[OF assms(2)]
  obtain lk where lk: "locks s l = Some lk" using holdingsD(1)[OF p(2) assms(5)] assms(6) by (auto simp: owns_def)
  then obtain x where x: "semas s l = Some x" using holdingsD(4)[OF p(2)] by blast
  let ?c = "\<lambda>lt. c\<lparr>wait_lock_list := remove1 l (wait_lock_list c), lock_list := list_insert_ordered L lt l (lock_list c)\<rparr>"
  let ?k = "(locks s)(l \<mapsto> lk\<lparr>holder := Some (running s), lpriority := original_priority c\<rparr>)"
  let ?m = "(semas s)(l \<mapsto> x\<lparr>svalue := svalue x - Suc 0\<rparr>)"
  have taken: "sched_wf (s\<lparr>semas := ?m, locks := ?k, threads := (threads s)(running s \<mapsto> ?c lt)\<rparr>)"
    if "svalue x \<noteq> 0" "strict_order lt" for lt
  proof -
    have free: "holder lk = None" "svalue x = 1" using holdingsD(3)[OF p(2) lk x] that(1) by (auto split: if_splits)
    have "mset (list_insert_ordered L lt l (lock_list c)) = add_mset l (mset (lock_list c))"
      using assms(1) that(2) by (simp add: listlib_ok_def)
    note a = added[OF this]
    have "holdings ((threads s)(running s \<mapsto> ?c lt)) ?k ?m (conds s)"
      by (rule holdings_take[OF p(2) assms(5) lk free(1)]) (simp_all add: a free(2) set_remove1_subset)
    moreover have "queue ?m = queue (semas s)" by (rule queue_same[where x = x]) (simp_all add: x)
    moreover have "stat ((threads s)(running s \<mapsto> ?c lt)) = stat (threads s)" by (rule stat_same[where x = c]) (simp_all add: assms(5))
    ultimately show ?thesis using p by (simp add: sched_wf_def placed_def held_def del: stat_upd queue_upd)
  qed
  have "running_ok (s\<lparr>semas := ?m\<rparr>)" using wf_running[OF assms(2)] by (simp add: running_ok_def)
  with taken[OF _ strict_lock_big] show ?thesis unfolding lock_acquire_retry_def wpK_bind
    using lk assms(5,6) by (intro sema_down_wf[OF assms(1-4) x]) (simp_all add: list_remove_def)
qed

text \<open>A donation changes priorities only.\<close>

lemma donated_wf:
  assumes d: "donated p s t" and wf: "sched_wf s"
  shows "sched_wf t"
proof -
  note q = wf_places[OF wf]
  have st: "stat (threads t) = stat (threads s)"
  proof
    fix a show "stat (threads t) a = stat (threads s) a"
      using d by (cases "threads s a") (auto simp: donated_def stat_def raised_def dest!: spec[where x = a])
  qed
  have lk: "\<exists>k. locks s l = Some k \<and> holder k = holder lk" if "locks t l = Some lk" for l lk
    using donated_lock_back[OF d that] by metis
  have kl: "\<exists>k. locks t l = Some k \<and> holder k = holder lk" if "locks s l = Some lk" for l lk
    using donated_lock[OF d that] by auto
  have holder: "(\<exists>k. locks t l = Some k \<and> holder k = h) = (\<exists>k. locks s l = Some k \<and> holder k = h)" for l h
    using lk[of l] kl[of l] by metis
  have "owns (locks t) a y" if y: "threads t a = Some y" for a y
  proof -
    obtain x where x: "threads s a = Some x" using donated_thread_back[OF d y] .
    have "lock_list y = lock_list x" "wait_lock_list y = wait_lock_list x" "tmagic y = tmagic x"
      using donated_thread[OF d x] y by auto
    moreover have "dom (locks s) \<subseteq> dom (locks t)" using kl by blast
    ultimately show ?thesis using holdingsD(1)[OF q(2) x] by (simp add: owns_def holder) blast
  qed
  moreover have "dom (locks t) = dom (locks s)" using lk kl by blast
  moreover have "threads t a \<noteq> None" if "threads s a \<noteq> None" for a using donated_thread[OF d] that by blast
  ultimately have "holdings (threads t) (locks t) (semas s) (conds s)"
    using q(2) lk unfolding holdings_def by metis
  then show ?thesis using q st by (subst donated_state[OF d]) (simp add: sched_wf_def placed_def held_def)
qed

lemma wf_waits_ok:
  assumes "sched_wf s"
  shows "waits_ok s" "dom (threads s) \<subseteq> set (all_list s)"
proof -
  note q = wf_places[OF assms]
  show dom: "dom (threads s) \<subseteq> set (all_list s)"
  proof
    fix t assume "t \<in> dom (threads s)"
    then obtain x where x: "threads s t = Some x" by blast
    then have "stat (threads s) t = Some (status x)" by (rule stat_Some)
    with placesD[OF q(1), of t] q(4) show "t \<in> set (all_list s)"
      by (cases "status x") auto
  qed
  have "\<And>t x. threads s t = Some x \<Longrightarrow> set (wait_lock_list x) \<subseteq> dom (locks s)"
    using holdingsD(1)[OF q(2)] by (simp add: owns_def)
  then show "waits_ok s" unfolding waits_ok_def using finite_subset[OF dom] holdingsD(2)[OF q(2)] by blast
qed

lemma waiting_wf:
  assumes "sched_wf s" "threads s (running s) = Some c" "locks s l \<noteq> None"
  shows "sched_wf (waiting s l c)"
proof -
  note q = wf_places[OF assms(1)]
  let ?h = "(threads s)(running s \<mapsto> c\<lparr>wait_lock_list := wait_lock_list c @ [l]\<rparr>)"
  have "owns (locks s) (running s) (c\<lparr>wait_lock_list := wait_lock_list c @ [l]\<rparr>)"
    using holdingsD(1)[OF q(2) assms(2)] assms(3) by (auto simp: owns_def)
  then have "holdings ?h (locks s) (semas s) (conds s)" using q(2) by (auto simp: holdings_def)
  moreover have "stat ?h = stat (threads s)" by (rule stat_same[where x = c]) (simp_all add: assms(2))
  ultimately show ?thesis using q by (simp add: waiting_def sched_wf_def placed_def held_def del: stat_upd)
qed

lemma lock_acquire_wf:
  assumes "listlib_ok L" "sched_wf s" "\<not> intr_context s" "idle_thread s \<noteq> Some (running s)"
    and lk: "locks s l = Some lk" "holder lk \<noteq> Some (running s)"
  shows "wpK (lock_acquire L l) (\<lambda>_. sched_wf) s"
proof -
  obtain c where c: "threads s (running s) = Some c" using wf_thread[OF assms(2)] by blast
  let ?c = "c\<lparr>wait_lock_list := wait_lock_list c @ [l]\<rparr>" and ?s = "waiting s l c"
  have wf: "sched_wf ?s" using waiting_wf[OF assms(2) c] lk(1) by simp
  have s1: "threads ?s (running s) = Some ?c" "locks ?s l \<noteq> None" "all_list ?s = all_list s" using lk by (simp_all add: waiting_def)
  have p: "priority ?c = priority c" by simp
  have "card (low (priority c) ?s) < Suc (length (all_list s))" using low_fuel[OF wf_waits_ok(2)[OF wf]] s1(3) by simp
  from donate_lock_run[OF wf_waits_ok(1)[OF wf] s1(1) p s1(2) this]
  have "wpK (donate_lock (Suc (length (all_list s))) l (running s)) (\<lambda>_ u. donated (priority c) ?s u) ?s"
    by (rule wpK_mono) simp
  then have "wpK (donate_lock (Suc (length (all_list s))) l (running s))
    (\<lambda>_ u. wpK (lock_acquire_retry L l) (\<lambda>_. sched_wf) (u\<lparr>intr_on := intr_on s\<rparr>)) ?s"
  proof (rule wpK_mono)
    fix u assume d: "donated (priority c) ?s u"
    have "threads u (running s) = Some ?c" using donated_thread[OF d s1(1)] by simp
    moreover have "running u = running s" "intr_context u = intr_context s" "idle_thread u = idle_thread s"
      using donated_same[OF d] by (simp_all add: waiting_def)
    ultimately show "wpK (lock_acquire_retry L l) (\<lambda>_. sched_wf) (u\<lparr>intr_on := intr_on s\<rparr>)"
      using donated_wf[OF d wf] assms(3,4) by (intro lock_acquire_retry_wf[OF assms(1), where c = ?c]) simp_all
  qed
  then show ?thesis using wf_running[OF assms(2)] assms(3) lk c
    by (simp add: lock_acquire_def lock_held_by_current_thread_def intr_off_wp waiting_def)
qed

lemma lock_release_wf:
  assumes "listlib_ok L" "sched_wf s" and lk: "locks s l = Some lk" "holder lk = Some (running s)"
  shows "wpK (lock_release L l) (\<lambda>_. sched_wf) s"
proof -
  obtain c where c: "threads s (running s) = Some c" using wf_thread[OF assms(2)] by blast
  note q = wf_places[OF assms(2)]
  obtain x where x: "semas s l = Some x" using holdingsD(4)[OF q(2) lk(1)] by blast
  have ow: "owns (locks s) (running s) c" using holdingsD(1)[OF q(2) c] .
  then have "l \<in> set (lock_list c)" "\<forall>k\<in>set (lock_list c). locks s k \<noteq> None" using lk by (auto simp: owns_def)
  then show ?thesis
  proof (rule lock_release_step[OF assms(1) wf_running[OF assms(2)] lk c])
    fix ls assume m: "mset ls = mset (lock_list c) - {#l#}"
    let ?t = "released s l c lk ls"
    have st: "stat (threads ?t) = stat (threads s)"
      unfolding released_def by (simp del: stat_upd) (rule stat_same[where x = c], simp_all add: c)
    show "wpK (sema_up L l) (\<lambda>_. sched_wf) ?t"
    proof (rule sema_up_wf[OF assms(1)])
      show "placed ?t" "stat (threads ?t) (running ?t) = Some THREAD_RUNNING"
        using q st by (simp_all add: placed_def) (simp_all add: released_def)
      show "sleep_sema ?t \<noteq> 0" "semas ?t l = Some x" using q(3) x by (simp_all add: released_def)
      show "holdings (threads ?t) (locks ?t) ((semas ?t)(l \<mapsto> x\<lparr>svalue := Suc (svalue x)\<rparr>)) (conds ?t)"
        using holdings_drop[OF q(2) c lk x, of "c\<lparr>lock_list := ls, priority := due_priority s c ls\<rparr>"] m by (simp add: released_def)
    qed
  qed
qed

subsection \<open>Condition variables\<close>

lemma strict_cond_big: "strict_order (cond_big s)"
  unfolding strict_order_def cond_big_def
  by (rule exI[of _ "\<lambda>w. - (case selems s w of None \<Rightarrow> 0 | Some p \<Rightarrow> p)"]) simp

lemma wf_conds:
  assumes "sched_wf s" "set ws \<subseteq> dom (semas s) - dom (locks s)"
  shows "sched_wf (s\<lparr>conds := (conds s)(c \<mapsto> ws)\<rparr>)"
  using assms wf_places[OF assms(1)] by (auto simp: sched_wf_def placed_def held_def holdings_def)

lemma wf_cond_waiters:
  assumes "sched_wf s" "conds s c = Some ws"
  shows "set ws \<subseteq> dom (semas s) - dom (locks s)"
  using wf_places(2)[OF assms(1)] assms(2) by (simp add: holdings_def)

lemma cond_wait_begin_wf:
  assumes L: "listlib_ok L" and wf: "sched_wf s" and ic: "\<not> intr_context s" and lk: "locks s l = Some lk" "holder lk = Some (running s)"
    and c: "conds s c = Some ws" and w: "locks s w = None" "queue (semas s) w = []"
  shows "wpK (cond_wait_begin L c l w) (\<lambda>_. sched_wf) s"
proof -
  obtain x where x: "threads s (running s) = Some x" using wf_thread[OF wf] by blast
  let ?s1 = "s\<lparr>semas := (semas s)(w \<mapsto> \<lparr>svalue = 0, waiters = []\<rparr>)\<rparr>"
  let ?s2 = "?s1\<lparr>selems := (selems s)(w \<mapsto> priority x)\<rparr>"
  let ?s3 = "?s2\<lparr>conds := (conds s)(c \<mapsto> list_insert_ordered L (cond_big ?s2) w ws)\<rparr>"
  have s2: "sched_wf ?s2" using sema_init_wf[OF wf w, of 0] by simp
  have "mset (list_insert_ordered L (cond_big ?s2) w ws) = add_mset w (mset ws)"
    using L strict_cond_big by (simp add: listlib_ok_def)
  from added(1)[OF this] have "set (list_insert_ordered L (cond_big ?s2) w ws) \<subseteq> dom (semas ?s2) - dom (locks ?s2)"
    using wf_cond_waiters[OF wf c] w(1) by auto
  then have "sched_wf ?s3" using wf_conds[OF s2, of _ c] by simp
  then have "wpK (lock_release L l) (\<lambda>_. sched_wf) ?s3" using lk by (intro lock_release_wf[OF L]) simp_all
  moreover have "running_ok ?s1" using wf_running[OF wf] by (simp add: running_ok_def)
  ultimately show ?thesis using wf_running[OF wf] x ic lk c
    by (simp add: cond_wait_begin_def lock_held_by_current_thread_def sema_init_def condK_def)
qed

lemma cond_wait_end_wf:
  assumes L: "listlib_ok L" and wf: "sched_wf s" and ic: "\<not> intr_context s" "idle_thread s \<noteq> Some (running s)"
    and lk: "locks s l = Some lk" "holder lk \<noteq> Some (running s)" and w: "semas s w = Some x" "locks s w = None"
  shows "wpK (cond_wait_end L l w) (\<lambda>_. sched_wf) s"
proof -
  have "sched_wf (s\<lparr>semas := (semas s)(w \<mapsto> x\<lparr>svalue := svalue x - 1\<rparr>)\<rparr>)"
    using wf_places(2)[OF wf] w by (intro wf_sema[OF wf]) (simp_all add: holdings_sema queue_Some)
  then have "wpK (lock_acquire L l) (\<lambda>_. sched_wf) (s\<lparr>semas := (semas s)(w \<mapsto> x\<lparr>svalue := svalue x - 1\<rparr>)\<rparr>)"
    using ic lk by (intro lock_acquire_wf[OF L]) simp_all
  then show ?thesis unfolding cond_wait_end_def wpK_bind by (intro sema_down_wf[OF L wf ic w(1)]) simp_all
qed

lemma cond_signal_wf:
  assumes L: "listlib_ok L" and wf: "sched_wf s" and ic: "\<not> intr_context s" and lk: "locks s l = Some lk" "holder lk = Some (running s)"
    and c: "conds s c = Some ws"
  shows "wpK (cond_signal L c l) (\<lambda>_. sched_wf) s"
proof (cases ws)
  case Nil
  then show ?thesis using wf wf_running[OF wf] ic lk c by (simp add: cond_signal_def lock_held_by_current_thread_def condK_def)
next
  case (Cons a as)
  note srt = sort_ordered[OF L strict_cond_big[of s], of ws]
  obtain w vs where v: "list_sort L (cond_big s) ws = w # vs" using srt(1) Cons by (cases "list_sort L (cond_big s) ws") auto
  have sub: "insert w (set vs) \<subseteq> dom (semas s) - dom (locks s)" using srt(2) v wf_cond_waiters[OF wf c] by auto
  then have "sched_wf (s\<lparr>conds := (conds s)(c \<mapsto> vs)\<rparr>)" by (intro wf_conds[OF wf]) simp
  then have "wpK (sema_up L w) (\<lambda>_. sched_wf) (s\<lparr>conds := (conds s)(c \<mapsto> vs)\<rparr>)"
    using sub by (intro sema_up_step[OF L]) auto
  then show ?thesis using wf_running[OF wf] ic lk c Cons v by (simp add: cond_signal_def lock_held_by_current_thread_def condK_def)
qed

lemma cond_broadcast_wf:
  assumes "listlib_ok L" "sched_wf s" "\<not> intr_context s" "locks s l = Some lk" "holder lk = Some (running s)" "conds s c = Some ws"
  shows "wpK (cond_broadcast_round L c l) (\<lambda>_. sched_wf) s"
  using cond_signal_wf[OF assms] assms(2,6) by (simp add: cond_broadcast_round_def condK_def)

lemma cond_init_wf: "sched_wf s \<Longrightarrow> wpK (cond_init c) (\<lambda>_. sched_wf) s"
  using wf_conds[of s "[]" c] by (simp add: cond_init_def)

section \<open>The scheduler as a machine\<close>

text \<open>
  A machine that offers calls, some of which are allowed in a state, and an invariant that every allowed
  call establishes again. What is reached by allowed calls satisfies the invariant, and there no allowed call
  fails.
\<close>

inductive reach :: "('c \<Rightarrow> ('s, unit) K) \<Rightarrow> ('c \<Rightarrow> 's \<Rightarrow> bool) \<Rightarrow> 's \<Rightarrow> 's \<Rightarrow> bool"
  for perform :: "'c \<Rightarrow> ('s, unit) K" and allowed :: "'c \<Rightarrow> 's \<Rightarrow> bool" and s0 :: 's where
  start: "reach perform allowed s0 s0"
| call: "reach perform allowed s0 t" if "reach perform allowed s0 s" "allowed c s" "perform c s = Inr ((), t)"

locale guarded_machine =
  fixes perform :: "'c \<Rightarrow> ('s, unit) K" and allowed :: "'c \<Rightarrow> 's \<Rightarrow> bool" and inv :: "'s \<Rightarrow> bool"
  assumes keeps: "inv s \<Longrightarrow> allowed c s \<Longrightarrow> wpK (perform c) (\<lambda>_. inv) s"
begin

lemma reach_inv: "reach perform allowed s0 s \<Longrightarrow> inv s0 \<Longrightarrow> inv s"
proof (induction rule: reach.induct)
  case (call s c t)
  then show ?case using keeps[of s c] by (auto simp: wpK_iff)
qed

lemma never_fails:
  assumes "reach perform allowed s0 s" "inv s0" "allowed c s"
  shows "\<exists>t. perform c s = Inr ((), t) \<and> inv t"
  using keeps[OF reach_inv[OF assms(1,2)] assms(3)] by (simp add: wpK_iff)

end

text \<open>
  The calls of \<^verbatim>\<open>thread.c\<close> and \<^verbatim>\<open>synch.c\<close>, and \<open>INTERRUPT\<close>, by which a handler starts or ends, the clock
  advances and the interrupt flag changes. \<^verbatim>\<open>lock_try_acquire\<close> is not among them: it takes a lock without
  listing it.
\<close>

datatype sched_call = INTERRUPT bool bool bool int | TICK | YIELD | SET_PRIORITY int | BLOCK | UNBLOCK addr
  | NEW_THREAD addr string int | SLEEP int | EXIT
  | SEMA_INIT addr nat | SEMA_DOWN addr | SEMA_TRY_DOWN addr | SEMA_UP addr
  | LOCK_INIT addr | LOCK_ACQUIRE addr | LOCK_ACQUIRE_RETRY addr | LOCK_RELEASE addr
  | COND_INIT addr | COND_WAIT_BEGIN addr addr addr | COND_WAIT_END addr addr | COND_SIGNAL addr addr | COND_BROADCAST addr addr

fun sched_exec :: "listlib \<Rightarrow> sched_call \<Rightarrow> (sched, unit) K" where
  "sched_exec L (INTERRUPT ic on yield now) =
     modK (\<lambda>s. s\<lparr>intr_context := ic, intr_on := on, yield_on_return := yield, timer_ticks := now\<rparr>)"
| "sched_exec L TICK = thread_tick"
| "sched_exec L YIELD = thread_yield L"
| "sched_exec L (SET_PRIORITY p) = thread_set_priority L p"
| "sched_exec L BLOCK = thread_block L"
| "sched_exec L (UNBLOCK t) = thread_unblock L t"
| "sched_exec L (NEW_THREAD t name p) = init_thread t name p"
| "sched_exec L (SLEEP n) = thread_sleep L n"
| "sched_exec L EXIT = thread_exit_final L"
| "sched_exec L (SEMA_INIT p v) = sema_init p v"
| "sched_exec L (SEMA_DOWN p) = thenK (sema_down L p) (retK ())"
| "sched_exec L (SEMA_TRY_DOWN p) = thenK (sema_try_down p) (retK ())"
| "sched_exec L (SEMA_UP p) = sema_up L p"
| "sched_exec L (LOCK_INIT l) = lock_init l"
| "sched_exec L (LOCK_ACQUIRE l) = thenK (lock_acquire L l) (retK ())"
| "sched_exec L (LOCK_ACQUIRE_RETRY l) = thenK (lock_acquire_retry L l) (retK ())"
| "sched_exec L (LOCK_RELEASE l) = lock_release L l"
| "sched_exec L (COND_INIT c) = cond_init c"
| "sched_exec L (COND_WAIT_BEGIN c l w) = cond_wait_begin L c l w"
| "sched_exec L (COND_WAIT_END l w) = thenK (cond_wait_end L l w) (retK ())"
| "sched_exec L (COND_SIGNAL c l) = cond_signal L c l"
| "sched_exec L (COND_BROADCAST c l) = thenK (cond_broadcast_round L c l) (retK ())"

text \<open>
  What the callers see to. A thread that may sleep is not the idle one and does not run in a handler; the
  semaphore of a lock is left to the lock; a semaphore, lock or thread is initialised where none is in use; a
  lock is taken by who does not have it and released by who does; a thread dies without locks, and neither
  the first nor the idle thread does.
\<close>

definition may_sleep :: "sched \<Rightarrow> bool" where
  "may_sleep s \<longleftrightarrow> \<not> intr_context s \<and> idle_thread s \<noteq> Some (running s)"

definition plain_sema :: "sched \<Rightarrow> addr \<Rightarrow> bool" where
  "plain_sema s p \<longleftrightarrow> semas s p \<noteq> None \<and> locks s p = None"

definition has_lock :: "sched \<Rightarrow> addr \<Rightarrow> bool" where
  "has_lock s l \<longleftrightarrow> (case locks s l of None \<Rightarrow> False | Some lk \<Rightarrow> holder lk = Some (running s))"

definition may_take :: "sched \<Rightarrow> addr \<Rightarrow> bool" where
  "may_take s l \<longleftrightarrow> may_sleep s \<and> locks s l \<noteq> None \<and> \<not> has_lock s l"

definition may_signal :: "sched \<Rightarrow> addr \<Rightarrow> addr \<Rightarrow> bool" where
  "may_signal s c l \<longleftrightarrow> \<not> intr_context s \<and> has_lock s l \<and> conds s c \<noteq> None"

definition fresh_sema :: "sched \<Rightarrow> addr \<Rightarrow> bool" where
  "fresh_sema s p \<longleftrightarrow> locks s p = None \<and> queue (semas s) p = []"

fun allowed :: "sched_call \<Rightarrow> sched \<Rightarrow> bool" where
  "allowed (INTERRUPT ic on yield now) s = True"
| "allowed TICK s = True"
| "allowed YIELD s = (\<not> intr_context s)"
| "allowed (SET_PRIORITY p) s = True"
| "allowed BLOCK s = (\<not> intr_context s \<and> \<not> intr_on s)"
| "allowed (UNBLOCK t) s = (stat (threads s) t = Some THREAD_BLOCKED \<and> waits_in (queue (semas s)) t = {} \<and> idle_thread s \<noteq> Some t)"
| "allowed (NEW_THREAD t name p) s = (threads s t = None \<and> PRI_MIN \<le> p \<and> p \<le> PRI_MAX)"
| "allowed (SLEEP n) s = True"
| "allowed EXIT s = (idle_thread s \<noteq> Some (running s) \<and> initial_thread s \<noteq> Some (running s) \<and>
     map_option lock_list (threads s (running s)) = Some [])"
| "allowed (SEMA_INIT p v) s = fresh_sema s p"
| "allowed (SEMA_DOWN p) s = (may_sleep s \<and> plain_sema s p)"
| "allowed (SEMA_TRY_DOWN p) s = plain_sema s p"
| "allowed (SEMA_UP p) s = plain_sema s p"
| "allowed (LOCK_INIT l) s = (fresh_sema s l \<and> (\<forall>c ws. conds s c = Some ws \<longrightarrow> l \<notin> set ws))"
| "allowed (LOCK_ACQUIRE l) s = may_take s l"
| "allowed (LOCK_ACQUIRE_RETRY l) s = (may_sleep s \<and> (\<exists>c. threads s (running s) = Some c \<and> l \<in> set (wait_lock_list c)))"
| "allowed (LOCK_RELEASE l) s = has_lock s l"
| "allowed (COND_INIT c) s = True"
| "allowed (COND_WAIT_BEGIN c l w) s = (may_signal s c l \<and> fresh_sema s w)"
| "allowed (COND_WAIT_END l w) s = (may_take s l \<and> plain_sema s w)"
| "allowed (COND_SIGNAL c l) s = may_signal s c l"
| "allowed (COND_BROADCAST c l) s = may_signal s c l"

lemmas contracts = may_sleep_def plain_sema_def has_lock_def may_take_def may_signal_def fresh_sema_def

lemma sched_exec_wf:
  assumes "listlib_ok L" "sched_wf s" "allowed c s"
  shows "wpK (sched_exec L c) (\<lambda>_. sched_wf) s"
proof (cases c)
  case (UNBLOCK t)
  then obtain x where "threads s t = Some x" "status x = THREAD_BLOCKED" using assms(3) by (auto dest: stat_SomeD)
  then show ?thesis using thread_unblock_wf[OF assms(1,2)] assms(3) UNBLOCK by (auto elim: wpK_mono)
next
  case (SEMA_TRY_DOWN p)
  then show ?thesis using sema_try_down_wf[OF assms(2), of p] assms(3) by (auto simp: contracts)
next
  case EXIT
  then obtain x where "threads s (running s) = Some x" "lock_list x = []" using assms(3) by auto
  then show ?thesis using EXIT assms(3) by (auto intro: thread_exit_wf[OF assms(1,2)])
qed (use assms in \<open>auto simp: contracts sema_init_def split: option.splits intro: thread_tick_wf thread_yield_wf thread_set_priority_wf
    thread_block_wf init_thread_wf thread_sleep_wf sema_init_wf sema_down_step sema_up_step lock_init_wf lock_acquire_wf
    lock_acquire_retry_wf lock_release_wf cond_init_wf cond_wait_begin_wf cond_wait_end_wf cond_signal_wf cond_broadcast_wf\<close>)

interpretation sm: guarded_machine "sched_exec L" allowed "\<lambda>s. listlib_ok L \<and> sched_wf s" for L
  by unfold_locales (auto intro: sched_exec_wf elim: wpK_mono)

lemma wf_exclusive:
  assumes "sched_wf s" "threads s a = Some x" "threads s b = Some y" "l \<in> set (lock_list x)" "l \<in> set (lock_list y)"
  shows "a = b"
  using holdingsD(1)[OF wf_places(2)[OF assms(1)]] assms(2-5) by (fastforce simp: owns_def)

lemma contended_wf: "sched_wf contended"
proof -
  have "waits_in (queue [7 \<mapsto> \<lparr>svalue = 0, waiters = []\<rparr>]) t = {}" for t by (auto simp: waits_in_def queue_def)
  moreover have "distinct (queue [7 \<mapsto> \<lparr>svalue = 0, waiters = []\<rparr>] p)" for p by (simp add: queue_def)
  ultimately have "placed contended"
    by (auto simp: contended_def placed_def places_def unique_def stat_def)
  moreover have "held contended"
    by (auto simp: contended_def mk_sched_def held_def holdings_def owns_def split: if_splits)
  ultimately show ?thesis by (simp add: sched_wf_def) (simp add: contended_def stat_def)
qed

text \<open>
  C21. Type safety of the scheduler. From a well-formed state, let the threads and the interrupt handlers make any
  sequence of calls, each allowed by its contract when it is made. Then an allowed call completes: no assertion
  fails, no bad pointer is followed and no element is unlinked from a list it is not on. The state it leaves
  is well-formed: each thread is where its status says and nowhere else, the semaphore of a lock agrees with
  its holder, and no two threads hold the same lock.
\<close>

theorem scheduler_type_safe:
  assumes "listlib_ok L" "sched_wf s0" "reach (sched_exec L) allowed s0 s" "allowed c s"
  shows "\<exists>t. sched_exec L c s = Inr ((), t) \<and> sched_wf t \<and>
    (\<forall>a b x y l. threads t a = Some x \<longrightarrow> threads t b = Some y \<longrightarrow> l \<in> set (lock_list x) \<longrightarrow> l \<in> set (lock_list y) \<longrightarrow> a = b)"
proof -
  obtain t where "sched_exec L c s = Inr ((), t)" "sched_wf t" using sm.never_fails[OF assms(3) _ assms(4)] assms(1,2) by blast
  with wf_exclusive[of t] show ?thesis by blast
qed

text \<open>From the contended state, after the initialisation of a semaphore, thread 1 asks for the lock of thread 3.\<close>

theorem scheduler_type_safe_witness:
  "\<exists>s t. reach (sched_exec sim_list) allowed contended s \<and> sched_exec sim_list (LOCK_ACQUIRE 7) s = Inr ((), t) \<and> sched_wf t"
proof -
  let ?s = "contended\<lparr>semas := (semas contended)(5 \<mapsto> \<lparr>svalue = 2, waiters = []\<rparr>)\<rparr>"
  have "allowed (SEMA_INIT 5 2) contended" by (simp add: contracts contended_def queue_def)
  moreover have "sched_exec sim_list (SEMA_INIT 5 2) contended = Inr ((), ?s)"
    by (simp add: sema_init_def put_sema_def modK_def)
  ultimately have r: "reach (sched_exec sim_list) allowed contended ?s" by (rule reach.call[OF reach.start])
  have "allowed (LOCK_ACQUIRE 7) ?s" by (simp add: contracts contended_def)
  from scheduler_type_safe[OF sim_list_ok contended_wf r this] r show ?thesis by blast
qed

end
