(* ===== verification/Elf_Facts.thy ===== *)
theory Elf_Facts
  imports Elf_Load Page_Dir_Facts
begin

text \<open>
  Correctness of loading: an accepted segment gets pages of user space only, and covers the
  memory the program header asks for.
\<close>

section \<open>Words as numbers\<close>

lemma mask_PGMASK: "PGMASK = mask 12"
  by (simp add: PGMASK_def mask_numeral)

lemma unat_and_mask: "unat (x AND PGMASK) = unat x mod 4096"
  unfolding mask_PGMASK take_bit_eq_mask[symmetric] by (simp add: unsigned_take_bit_eq take_bit_eq_mod unat_mod)

lemma and_not_mask_diff: "x AND NOT PGMASK = x - (x AND PGMASK)"
proof -
  have "x AND NOT (mask 12) = push_bit 12 (drop_bit 12 x)"
    by (rule bit_word_eqI) (auto simp: bit_simps)
  then show ?thesis unfolding mask_PGMASK take_bit_eq_mask[symmetric]
    using bits_ident[of 12 x] by (metis add_diff_cancel_right')
qed

lemma unat_and_not_mask: "unat (x AND NOT PGMASK) = unat x - unat x mod 4096"
proof -
  have "x AND PGMASK \<le> x" by (simp add: word_le_nat_alt unat_and_mask)
  then show ?thesis by (simp add: and_not_mask_diff unat_sub unat_and_mask)
qed

lemma unat_add_small: "unat (x :: u32) + unat y < 2 ^ 32 \<Longrightarrow> unat (x + y) = unat x + unat y"
  using unat_add_lem[of x y] by simp

lemma sint_unat_small:
  fixes x :: u32
  assumes "unat x < 2 ^ 31"
  shows "sint x = int (unat x)"
proof -
  have "int (unat x) < int (2 ^ 31)" using assms by (simp only: of_nat_less_iff)
  moreover have "- (2 ^ 31) \<le> int (unat x)" by (rule order_trans[OF _ of_nat_0_le_iff]) simp
  ultimately have "signed_take_bit 31 (int (unat x)) = int (unat x)"
    by (intro signed_take_bit_int_eq_self) (assumption, simp)
  then show ?thesis by (simp add: sint_uint)
qed

lemma unat_round_up:
  assumes "unat x + 4095 < 2 ^ 32"
  shows "unat (round_up_page x) = (unat x + 4095) div 4096 * 4096"
proof -
  have e: "x + of_nat PGSIZE - 1 = x + 4095" by (simp add: PGSIZE_def)
  have u: "unat (x + 4095) = unat x + 4095" using unat_add_small[of x 4095] assms by simp
  have "unat ((x + 4095) div 4096) = (unat x + 4095) div 4096" by (simp add: unat_div u)
  moreover have "(unat x + 4095) div 4096 * 4096 < 2 ^ 32"
    using assms div_times_less_eq_dividend[of "unat x + 4095" 4096] by linarith
  ultimately show ?thesis
    unfolding round_up_page_def e using unat_mult_lem[of "(x + 4095) div 4096" 4096] by (simp add: PGSIZE_def)
qed

section \<open>The pages of a segment\<close>

lemma round_up_bounds:
  fixes n :: nat
  shows "n \<le> (n + 4095) div 4096 * 4096" "(n + 4095) div 4096 * 4096 < n + 4096"
  using div_mult_mod_eq[of "n + 4095" 4096] mod_less_divisor[of 4096 "n + 4095"] by linarith+

lemma page_start: "((v::nat) - v mod 4096) mod 4096 = 0"
  by (simp only: minus_mod_eq_div_mult mod_mult_self2_is_0)

lemma page_above: "4096 \<le> (v::nat) \<Longrightarrow> 4096 \<le> v - v mod 4096"
  using div_le_mono[of 4096 v 4096] by (simp add: minus_mod_eq_div_mult)

lemma pages_below:
  fixes v m p :: nat
  assumes "v + m < p" "p mod 4096 = 0"
  shows "v - v mod 4096 + (v mod 4096 + m + 4095) div 4096 * 4096 \<le> p"
proof -
  define b where "b = p div 4096"
  have b: "p = b * 4096" using div_mult_mod_eq[of p 4096] assms(2) by (simp add: b_def)
  have v: "v - v mod 4096 = v div 4096 * 4096" by (simp add: minus_mod_eq_div_mult)
  let ?q = "(v mod 4096 + m + 4095) div 4096"
  have "(v div 4096 + ?q) * 4096 < (b + 1) * 4096"
    unfolding add_mult_distrib
    using round_up_bounds(2)[of "v mod 4096 + m"] assms(1) b div_mult_mod_eq[of v 4096] by linarith
  then have "v div 4096 + ?q \<le> b" by simp
  then have "(v div 4096 + ?q) * 4096 \<le> b * 4096" by (rule mult_le_mono1)
  then show ?thesis unfolding v b by (simp only: add_mult_distrib)
qed

text \<open>What an accepted header says, as numbers.\<close>

lemma segment_valid_nat:
  assumes "vaddr_ok M" "segment_valid M ph flen" "0 \<le> flen" "flen < 2 ^ 31"
  shows "unat (p_offset ph) mod 4096 = unat (p_vaddr ph) mod 4096" "unat (p_offset ph) < 2 ^ 31"
    "unat (p_filesz ph) \<le> unat (p_memsz ph)" "0 < unat (p_memsz ph)" "4096 \<le> unat (p_vaddr ph)"
    "unat (p_vaddr ph) + unat (p_memsz ph) < unat (PHYS_BASE M)"
proof -
  have v: "p_offset ph AND PGMASK = p_vaddr ph AND PGMASK" "p_offset ph \<le> word_of_int flen"
    "p_filesz ph \<le> p_memsz ph" "p_memsz ph \<noteq> 0" "p_vaddr ph \<le> p_vaddr ph + p_memsz ph"
    "p_vaddr ph + p_memsz ph < PHYS_BASE M" "of_nat PGSIZE \<le> p_vaddr ph"
    using assms(1,2) by (auto simp: segment_valid_def vaddr_ok_def split: if_splits)
  show "unat (p_offset ph) mod 4096 = unat (p_vaddr ph) mod 4096" using v(1) by (metis unat_and_mask)
  have "unat (word_of_int flen :: u32) = nat flen" using assms(3,4) by (simp add: unat_eq_nat_uint uint_word_of_int)
  then show "unat (p_offset ph) < 2 ^ 31" using v(2) assms(3,4) by (simp add: word_le_nat_alt)
  show "unat (p_filesz ph) \<le> unat (p_memsz ph)" "4096 \<le> unat (p_vaddr ph)"
    using v(3,7) by (simp_all add: word_le_nat_alt PGSIZE_def)
  show "0 < unat (p_memsz ph)" using v(4) by (simp add: unat_gt_0)
  show "unat (p_vaddr ph) + unat (p_memsz ph) < unat (PHYS_BASE M)"
    using v(5,6) by (simp add: word_less_nat_alt unat_plus_simple)
qed

lemma phys_base_limit:
  assumes "vaddr_ok M"
  shows "unat (PHYS_BASE M) mod 4096 = 0" "unat (PHYS_BASE M) + 4096 \<le> 2 ^ 32"
proof -
  have m: "unat (PHYS_BASE M) mod 2 ^ 22 = 0" using assms by (simp add: vaddr_ok_def)
  then have "2 ^ 22 dvd unat (PHYS_BASE M)" by (simp add: mod_eq_0_iff_dvd)
  moreover have "(4096 :: nat) dvd 2 ^ 22" by (rule dvdI[of _ _ 1024]) simp
  ultimately show "unat (PHYS_BASE M) mod 4096 = 0" using dvd_trans mod_eq_0_iff_dvd by blast
  define k where "k = unat (PHYS_BASE M) div 4096"
  have k: "unat (PHYS_BASE M) = k * 4096"
    using div_mult_mod_eq[of "unat (PHYS_BASE M)" 4096] \<open>unat (PHYS_BASE M) mod 4096 = 0\<close> by (simp add: k_def)
  have "unat (PHYS_BASE M) < 2 ^ 32" using unsigned_less[of "PHYS_BASE M", where ?'a = nat] by simp
  then have "k < 1048576" using k by simp
  then show "unat (PHYS_BASE M) + 4096 \<le> 2 ^ 32" using k by simp
qed

lemma segment_layout_nat:
  assumes "vaddr_ok M" "segment_valid M ph flen" "0 \<le> flen" "flen < 2 ^ 31"
  defines "l \<equiv> segment_layout ph"
  shows "unat (mem_page l) = unat (p_vaddr ph) - unat (p_vaddr ph) mod 4096"
    "unat (file_page l) = unat (p_offset ph) - unat (p_vaddr ph) mod 4096"
    "unat (read_bytes l) = (if p_filesz ph = 0 then 0 else unat (p_vaddr ph) mod 4096 + unat (p_filesz ph))"
    "unat (read_bytes l) + unat (zero_bytes l) = (unat (p_vaddr ph) mod 4096 + unat (p_memsz ph) + 4095) div 4096 * 4096"
proof -
  note n = segment_valid_nat[OF assms(1-4)]
  let ?v = "unat (p_vaddr ph)" and ?m = "unat (p_memsz ph)" and ?f = "unat (p_filesz ph)"
  let ?po = "p_vaddr ph AND PGMASK"
  have po: "unat ?po = ?v mod 4096" "?v mod 4096 \<le> ?v" by (simp_all add: unat_and_mask)
  have lim: "?v + ?m + 4095 < 2 ^ 32" using n(6) phys_base_limit(2)[OF assms(1)] by linarith
  have pm: "unat (?po + p_memsz ph) = ?v mod 4096 + ?m" and pf: "unat (?po + p_filesz ph) = ?v mod 4096 + ?f"
    using unat_add_small[of ?po "p_memsz ph"] unat_add_small[of ?po "p_filesz ph"] po lim n(3) by linarith+
  have ru: "unat (round_up_page (?po + p_memsz ph)) = (?v mod 4096 + ?m + 4095) div 4096 * 4096"
    unfolding pm[symmetric] by (rule unat_round_up) (use pm po lim in linarith)
  show "unat (mem_page l) = ?v - ?v mod 4096" "unat (file_page l) = unat (p_offset ph) - ?v mod 4096"
    using n(1) by (simp_all add: l_def segment_layout_def Let_def unat_and_not_mask)
  show r: "unat (read_bytes l) = (if p_filesz ph = 0 then 0 else ?v mod 4096 + ?f)"
    using pf by (simp add: l_def segment_layout_def Let_def word_gt_0)
  have "?po + p_filesz ph \<le> round_up_page (?po + p_memsz ph)"
    using pf ru n(3) round_up_bounds(1)[of "?v mod 4096 + ?m"] by (simp add: word_le_nat_alt)
  then have "unat (round_up_page (?po + p_memsz ph) - (?po + p_filesz ph)) + unat (?po + p_filesz ph) =
      unat (round_up_page (?po + p_memsz ph))" by (simp add: unat_sub word_le_nat_alt)
  then have "unat (read_bytes l) + unat (zero_bytes l) = unat (round_up_page (?po + p_memsz ph))"
    by (simp add: l_def segment_layout_def Let_def add.commute)
  then show "unat (read_bytes l) + unat (zero_bytes l) = (?v mod 4096 + ?m + 4095) div 4096 * 4096"
    unfolding ru .
qed

lemma segment_layout_fits:
  assumes "vaddr_ok M" "segment_valid M ph flen" "0 \<le> flen" "flen < 2 ^ 31"
  shows "let l = segment_layout ph; len = unat (read_bytes l) + unat (zero_bytes l) in
    PGSIZE \<le> unat (mem_page l) \<and> unat (mem_page l) mod PGSIZE = 0 \<and> len mod PGSIZE = 0 \<and>
    unat (mem_page l) + len \<le> unat (PHYS_BASE M) \<and>
    unat (mem_page l) \<le> unat (p_vaddr ph) \<and> unat (p_vaddr ph) + unat (p_memsz ph) \<le> unat (mem_page l) + len \<and>
    (p_filesz ph \<noteq> 0 \<longrightarrow> unat (file_page l) + unat (read_bytes l) = unat (p_offset ph) + unat (p_filesz ph)) \<and>
    0 \<le> sint (file_page l) \<and> sint (file_page l) smod int PGSIZE = 0"
proof -
  note n = segment_valid_nat[OF assms] and l = segment_layout_nat[OF assms]
  let ?v = "unat (p_vaddr ph)" and ?m = "unat (p_memsz ph)"
  have P: "unat (PHYS_BASE M) mod 4096 = 0" using phys_base_limit[OF assms(1)] by simp
  have fp: "unat (file_page (segment_layout ph)) < 2 ^ 31" using l(2) n(2) by linarith
  note s = sint_unat_small[OF this]
  note a = page_start[of ?v] page_start[of "unat (p_offset ph)", unfolded n(1)]
  have "PGSIZE \<le> unat (mem_page (segment_layout ph))" using n(5) l(1) page_above[OF n(5)] by (simp add: PGSIZE_def)
  moreover have "unat (mem_page (segment_layout ph)) mod PGSIZE = 0" using l(1) a(1) by (simp add: PGSIZE_def)
  moreover have "(unat (read_bytes (segment_layout ph)) + unat (zero_bytes (segment_layout ph))) mod PGSIZE = 0"
    using l(4) by (simp add: PGSIZE_def)
  moreover have "unat (mem_page (segment_layout ph)) +
      (unat (read_bytes (segment_layout ph)) + unat (zero_bytes (segment_layout ph))) \<le> unat (PHYS_BASE M)"
    using l(1,4) pages_below[OF n(6) P] by simp
  moreover have "unat (mem_page (segment_layout ph)) \<le> ?v" using l(1) by simp
  moreover have "?v + ?m \<le> unat (mem_page (segment_layout ph)) +
      (unat (read_bytes (segment_layout ph)) + unat (zero_bytes (segment_layout ph)))"
    using l(1,4) round_up_bounds(1)[of "?v mod 4096 + ?m"] mod_less_eq_dividend[of ?v 4096] by linarith
  moreover have "p_filesz ph \<noteq> 0 \<longrightarrow> unat (file_page (segment_layout ph)) + unat (read_bytes (segment_layout ph)) =
      unat (p_offset ph) + unat (p_filesz ph)"
    using l(2,3) mod_less_eq_dividend[of "unat (p_offset ph)" 4096, unfolded n(1)] by auto
  moreover have "sint (file_page (segment_layout ph)) smod int PGSIZE = 0"
    unfolding s l(2) using arg_cong[OF a(2), of int] by (simp add: PGSIZE_def zmod_int)
  ultimately show ?thesis unfolding Let_def using s by (intro conjI) (assumption | simp only: of_nat_0_le_iff)+
qed

text \<open>
  C35. A segment that \<^verbatim>\<open>validate_segment\<close> accepts is loaded into user space: the pages that \<^verbatim>\<open>load\<close> asks
  \<^verbatim>\<open>load_segment\<close> to set up start on a page boundary above page 0, their length is a multiple of the
  page size, they end at or below \<^verbatim>\<open>PHYS_BASE\<close> with no wrap-around in any of the 32-bit sums, they
  contain the memory the header describes, and the bytes read end where the segment ends in
  the file, which starts on a page boundary too.
\<close>

theorem segment_in_user_space:
  assumes "vaddr_ok M" "segment_valid M ph flen" "0 \<le> flen" "flen < 2 ^ 31"
  shows "let l = segment_layout ph; len = unat (read_bytes l) + unat (zero_bytes l) in
    PGSIZE \<le> unat (mem_page l) \<and> unat (mem_page l) mod PGSIZE = 0 \<and> len mod PGSIZE = 0 \<and>
    unat (mem_page l) + len \<le> unat (PHYS_BASE M) \<and>
    unat (mem_page l) \<le> unat (p_vaddr ph) \<and> unat (p_vaddr ph) + unat (p_memsz ph) \<le> unat (mem_page l) + len \<and>
    (p_filesz ph \<noteq> 0 \<longrightarrow> unat (file_page l) + unat (read_bytes l) = unat (p_offset ph) + unat (p_filesz ph)) \<and>
    0 \<le> sint (file_page l) \<and> sint (file_page l) smod int PGSIZE = 0"
  by (rule segment_layout_fits[OF assms])

text \<open>The text segment of a typical user program.\<close>

theorem segment_in_user_space_witness:
  "segment_layout \<lparr>p_type = 1, p_offset = 0x10, p_vaddr = 0x8048010, p_paddr = 0, p_filesz = 0x1234, p_memsz = 0x2345,
      p_flags = 5, p_align = 0x1000\<rparr> = \<lparr>file_page = 0, mem_page = 0x8048000, read_bytes = 0x1244, zero_bytes = 0x1dbc\<rparr> \<and>
   unat (0x8048000 :: u32) + (unat (0x1244 :: u32) + unat (0x1dbc :: u32)) \<le> unat (PHYS_BASE (i386 []))"
proof -
  let ?ph = "\<lparr>p_type = 1, p_offset = 0x10, p_vaddr = 0x8048010, p_paddr = 0, p_filesz = 0x1234, p_memsz = 0x2345,
      p_flags = 5, p_align = 0x1000\<rparr> :: Elf32_Phdr"
  have l: "segment_layout ?ph = \<lparr>file_page = 0, mem_page = 0x8048000, read_bytes = 0x1244, zero_bytes = 0x1dbc\<rparr>"
    by (simp add: segment_layout_def PGMASK_def round_up_page_def PGSIZE_def)
  have "segment_valid (i386 []) ?ph 0x2000" by (simp add: segment_valid_def PGMASK_def PGSIZE_def)
  from segment_in_user_space[OF vaddr_ok_i386 this] l show ?thesis by (simp add: Let_def)
qed

end
