(* ===== verification/Swap_Facts.thy ===== *)
theory Swap_Facts
  imports Paging Page_Dir_Facts
begin

text \<open>
  Swapping: a page that is written to swap is what a later read brings back, the slots of other
  pages are not touched, and the bitmap says which slots are taken.
\<close>

section \<open>Rules for the state of demand paging\<close>

lemma swap_lock_acquire_wp [wp, simp]:
  "wpK swap_lock_acquire Q s \<longleftrightarrow> swap_lock s = None \<and> Q () (s\<lparr>swap_lock := Some (cur_thread (vfs s))\<rparr>)"
  by (auto simp: swap_lock_acquire_def)

lemma swap_lock_release_wp [wp, simp]:
  "wpK swap_lock_release Q s \<longleftrightarrow> swap_lock s = Some (cur_thread (vfs s)) \<and> Q () (s\<lparr>swap_lock := None\<rparr>)"
  by (auto simp: swap_lock_release_def)

lemma frame_lock_acquire_wp [wp, simp]:
  "wpK frame_lock_acquire Q s \<longleftrightarrow> frame_lock s = None \<and> Q () (s\<lparr>frame_lock := Some (cur_thread (vfs s))\<rparr>)"
  by (auto simp: frame_lock_acquire_def)

lemma frame_lock_release_wp [wp, simp]:
  "wpK frame_lock_release Q s \<longleftrightarrow> frame_lock s = Some (cur_thread (vfs s)) \<and> Q () (s\<lparr>frame_lock := None\<rparr>)"
  by (auto simp: frame_lock_release_def)

lemma frameK_wp [wp, simp]: "wpK (frameK p) Q s \<longleftrightarrow> (\<exists>fe. frame_heap s p = Some fe \<and> Q fe s)"
  by (simp add: frameK_def)

lemma upd_frame_wp [wp, simp]:
  "wpK (upd_frame p f) Q s \<longleftrightarrow> (\<exists>fe. frame_heap s p = Some fe \<and> Q () (s\<lparr>frame_heap := (frame_heap s)(p \<mapsto> f fe)\<rparr>))"
  by (auto simp: upd_frame_def)

lemma sptK_wp [wp, simp]: "wpK (sptK p) Q s \<longleftrightarrow> (\<exists>x. spt_heap s p = Some x \<and> Q x s)"
  by (simp add: sptK_def)

lemma uthreadK_wp [wp, simp]: "wpK (uthreadK t) Q s \<longleftrightarrow> (\<exists>x. uthreads s t = Some x \<and> Q x s)"
  by (simp add: uthreadK_def)

lemma me_wp [wp, simp]: "wpK me Q s = Q (cur_thread (vfs s)) s"
  by (simp add: me_def)

lemma cur_wp [wp, simp]: "wpK cur Q s \<longleftrightarrow> (\<exists>x. uthreads s (cur_thread (vfs s)) = Some x \<and> Q x s)"
  by (simp add: cur_def)

lemma upd_cur_wp [wp, simp]:
  "wpK (upd_cur f) Q s \<longleftrightarrow> (\<exists>x. uthreads s (cur_thread (vfs s)) = Some x \<and>
     Q () (s\<lparr>uthreads := (uthreads s)(cur_thread (vfs s) \<mapsto> f x)\<rparr>))"
  by (auto simp: upd_cur_def)

lemma pageK_wp [wp, simp]: "wpK (pageK k) Q s \<longleftrightarrow> (\<exists>b. pages s k = Some b \<and> Q b s)"
  by (simp add: pageK_def)

lemma put_page_wp [wp, simp]:
  "wpK (put_page k b) Q s \<longleftrightarrow> pages s k \<noteq> None \<and> Q () (s\<lparr>pages := (pages s)(k \<mapsto> b)\<rparr>)"
  by (auto simp: put_page_def)

section \<open>Slots\<close>

text \<open>\<^verbatim>\<open>bitmap_flip\<close> of \<^verbatim>\<open>bitmap.h\<close> changes one bit; writing a sector does not change the size of a device.\<close>

definition swap_lib_ok :: "'d vmlib \<Rightarrow> bool" where
  "swap_lib_ok V \<longleftrightarrow> device_ok (lib V) \<and> bitmap_ok (lib V) \<and>
     (\<forall>d a x. block_size (lib V) (block_write (lib V) d a x) = block_size (lib V) d) \<and>
     (\<forall>b k. unat k < length b \<longrightarrow> bitmap_flip V b k = b[unat k := \<not> b ! unat k])"

text \<open>\<^verbatim>\<open>init_swap\<close> makes the bitmap: one bit for every eight sectors of the device.\<close>

definition swap_ready :: "'d vmlib \<Rightarrow> 'd vm \<Rightarrow> bool" where
  "swap_ready V s \<longleftrightarrow> swap_lock s = None \<and> PAGE_SECTORS * length (swap_bitmap s) \<le> block_size (lib V) (swap_block s) \<and>
     PAGE_SECTORS * length (swap_bitmap s) \<le> 2 ^ 32"

text \<open>The bytes in slot \<open>index\<close> of the device are those of \<open>b\<close>.\<close>

definition slot_holds :: "'d vmlib \<Rightarrow> 'd \<Rightarrow> u32 \<Rightarrow> byte list \<Rightarrow> bool" where
  "slot_holds V d index b \<longleftrightarrow> (\<forall>i<PAGE_SECTORS. block_read (lib V) d (swap_sector index i) = get_bytes (512 * i) 512 b)"

lemma swap_sector_unat:
  assumes "unat index * 8 + 8 \<le> 2 ^ 32" "i < 8"
  shows "unat (swap_sector index i) = unat index * 8 + i"
proof -
  have "unat (index * 8) = unat index * 8" using unat_mult_lem[of index 8] assms by simp
  moreover have "unat (of_nat i :: u32) = i" using assms(2) by (simp add: unat_of_nat)
  ultimately show ?thesis
    using unat_add_lem[of "index * 8" "of_nat i"] assms by (simp add: swap_sector_def PAGE_SECTORS_def)
qed

lemma swap_sector_inj:
  assumes "unat index * 8 + 8 \<le> 2 ^ 32" "unat k * 8 + 8 \<le> 2 ^ 32" "i < 8" "j < 8" "swap_sector index i = swap_sector k j"
  shows "index = k \<and> i = j"
proof -
  have e: "unat index * 8 + i = unat k * 8 + j"
    using swap_sector_unat[OF assms(1,3)] swap_sector_unat[OF assms(2,4)] assms(5) by simp
  then have "unat index = unat k" using assms(3,4) by (metis div_mult_self3 div_less add.commute add_0 zero_neq_numeral)
  then show ?thesis using e by (simp add: word_unat_eq_iff)
qed

lemma write_sectors_wp:
  assumes "swap_lib_ok V" "pages s kp = Some b" "unat index * 8 + 8 \<le> block_size (lib V) (swap_block s)"
    "unat index * 8 + 8 \<le> 2 ^ 32" "length b = PGSIZE"
  shows "wpK (forK [0..<PAGE_SECTORS] (write_sector V kp index)) (\<lambda>_ t. \<exists>d. t = s\<lparr>swap_block := d\<rparr> \<and>
    block_size (lib V) d = block_size (lib V) (swap_block s) \<and> slot_holds V d index b \<and>
    (\<forall>a. (\<forall>i<PAGE_SECTORS. a \<noteq> swap_sector index i) \<longrightarrow> block_read (lib V) d a = block_read (lib V) (swap_block s) a)) s"
proof -
  have dev: "device_ok (lib V)"
    and size: "\<And>d a x. block_size (lib V) (block_write (lib V) d a x) = block_size (lib V) d"
    using assms(1) unfolding swap_lib_ok_def by blast+
  define I where "I = (\<lambda>n t. \<exists>d. t = s\<lparr>swap_block := d\<rparr> \<and> block_size (lib V) d = block_size (lib V) (swap_block s) \<and>
    (\<forall>i<n. block_read (lib V) d (swap_sector index i) = get_bytes (512 * i) 512 b) \<and>
    (\<forall>a. (\<forall>i<n. a \<noteq> swap_sector index i) \<longrightarrow> block_read (lib V) d a = block_read (lib V) (swap_block s) a))"
  have "wpK (forK [0..<8] (write_sector V kp index)) (\<lambda>_. I (length [0..<8])) s"
  proof (rule wpK_forK)
    show "I 0 s" by (auto simp: I_def intro!: exI[of _ "swap_block s"])
    fix i t assume "i < length [0..<8]" and "I i t"
    then have i: "i < 8" "[0..<8] ! i = i" by simp_all
    from \<open>I i t\<close> obtain d where d: "t = s\<lparr>swap_block := d\<rparr>" "block_size (lib V) d = block_size (lib V) (swap_block s)"
      "\<And>j. j < i \<Longrightarrow> block_read (lib V) d (swap_sector index j) = get_bytes (512 * j) 512 b"
      "\<And>a. (\<forall>j<i. a \<noteq> swap_sector index j) \<Longrightarrow> block_read (lib V) d a = block_read (lib V) (swap_block s) a"
      by (auto simp: I_def)
    let ?x = "get_bytes (512 * i) 512 b" and ?a = "swap_sector index i"
    let ?d = "block_write (lib V) d ?a ?x"
    have lx: "length ?x = 512" using i assms(5) by (simp add: PGSIZE_def)
    have rd: "block_read (lib V) ?d c = (if c = ?a then ?x else block_read (lib V) d c)" for c
      using dev lx unfolding device_ok_def by simp
    have ne: "swap_sector index j \<noteq> ?a" if "j < i" for j
      using swap_sector_inj[OF assms(4,4) _ i(1), of j] that i(1) by (metis less_irrefl less_trans)
    have "I (Suc i) (s\<lparr>swap_block := ?d\<rparr>)"
      unfolding I_def
      by (rule exI[of _ ?d]) (use d(2-4) ne size in \<open>auto simp: rd less_Suc_eq\<close>)
    moreover have "unat ?a < block_size (lib V) d" using swap_sector_unat[OF assms(4) i(1)] assms(3) d(2) i(1) by simp
    ultimately show "wpK (write_sector V kp index ([0..<8] ! i)) (\<lambda>_. I (Suc i)) t"
      using d(1) assms(2) i(2) by (simp add: write_sector_def)
  qed
  then show ?thesis unfolding PAGE_SECTORS_def
    by (rule wpK_mono) (auto simp: I_def slot_holds_def PAGE_SECTORS_def)
qed

lemma read_sectors_wp:
  assumes "pages s kp = Some c" "length c = PGSIZE" "unat index * 8 + 8 \<le> block_size (lib V) (swap_block s)"
    "unat index * 8 + 8 \<le> 2 ^ 32" "slot_holds V (swap_block s) index b" "length b = PGSIZE"
  shows "wpK (forK [0..<PAGE_SECTORS] (read_sector V kp index)) (\<lambda>_ t. t = s\<lparr>pages := (pages s)(kp \<mapsto> b)\<rparr>) s"
proof -
  define I where "I = (\<lambda>n t. \<exists>x. t = s\<lparr>pages := (pages s)(kp \<mapsto> x)\<rparr> \<and> length x = 4096 \<and> (\<forall>k<512 * n. x ! k = b ! k))"
  have "wpK (forK [0..<8] (read_sector V kp index)) (\<lambda>_. I (length [0..<8])) s"
  proof (rule wpK_forK)
    show "I 0 s" unfolding I_def by (rule exI[of _ c]) (use assms(1,2) in \<open>simp add: PGSIZE_def fun_upd_idem\<close>)
    fix i t assume "i < length [0..<8]" and "I i t"
    then have i: "i < 8" "[0..<8] ! i = i" by simp_all
    from \<open>I i t\<close> obtain x where x: "t = s\<lparr>pages := (pages s)(kp \<mapsto> x)\<rparr>" "length x = 4096" "\<And>k. k < 512 * i \<Longrightarrow> x ! k = b ! k"
      by (auto simp: I_def)
    let ?y = "put_bytes (512 * i) (get_bytes (512 * i) 512 b) x"
    have l: "length (get_bytes (512 * i) 512 b) = 512" "512 * i + 512 \<le> length b" "512 * i + 512 \<le> length x"
      using i assms(6) x(2) by (simp_all add: PGSIZE_def)
    have "?y ! k = b ! k" if "k < 512 * Suc i" for k
      using that x(3)[of k] l by (cases "k < 512 * i") (simp_all add: nth_put_bytes)
    then have "I (Suc i) (s\<lparr>pages := (pages s)(kp \<mapsto> ?y)\<rparr>)"
      unfolding I_def by (intro exI[of _ ?y]) (use l x(2) in simp)
    moreover have "unat (swap_sector index i) < block_size (lib V) (swap_block s)"
      using swap_sector_unat[OF assms(4) i(1)] assms(3) i(1) by simp
    ultimately show "wpK (read_sector V kp index ([0..<8] ! i)) (\<lambda>_. I (Suc i)) t"
      using x(1) i assms(5) by (simp add: read_sector_def slot_holds_def PAGE_SECTORS_def)
  qed
  moreover have "x = b" if "length x = 4096" "\<forall>k<4096. x ! k = b ! k" for x
    using that assms(6) by (simp add: PGSIZE_def nth_equalityI)
  ultimately show ?thesis unfolding PAGE_SECTORS_def by (elim wpK_mono) (auto simp: I_def)
qed

section \<open>Swapping out and in\<close>

lemma scan_one:
  assumes "bitmap_ok E" "False \<in> set b" "length b < 2 ^ 32" "bitmap_scan_and_flip E b 0 1 False = (k, b')"
  shows "unat k < length b \<and> \<not> b ! unat k \<and> b' = b[unat k := True]"
proof -
  have sp: "scan_spec b 0 1 False (k, b')" using assms unfolding bitmap_ok_def by (metis zero_less_one)
  have "k \<noteq> BITMAP_ERROR"
  proof
    assume "k = BITMAP_ERROR"
    then have "\<not> all_bits b j 1 False" for j using sp by (simp add: scan_spec_def)
    then show False using assms(2) by (auto simp: all_bits_def in_set_conv_nth)
  qed
  then have a: "all_bits b (unat k) 1 False" "b' = put_bytes (unat k) [True] b" using sp by (simp_all add: scan_spec_def)
  then show ?thesis by (simp add: all_bits_def put_bytes_def upd_conv_take_nth_drop)
qed

lemma slot_limits:
  assumes "swap_ready V s" "unat index < length (swap_bitmap s)"
  shows "unat index * 8 + 8 \<le> block_size (lib V) (swap_block s)" "unat index * 8 + 8 \<le> 2 ^ 32"
  using assms by (simp_all add: swap_ready_def PAGE_SECTORS_def)

lemma swap_lock_back:
  assumes "swap_lock s = None"
  shows "s\<lparr>frame_heap := h, swap_bitmap := b, swap_block := d, swap_lock := None\<rparr> =
      s\<lparr>frame_heap := h, swap_bitmap := b, swap_block := d\<rparr>"
    "s\<lparr>swap_bitmap := b, pages := P, swap_lock := None\<rparr> = s\<lparr>pages := P, swap_bitmap := b\<rparr>"
  using assms by (simp_all add: vm.equality)

lemma sout_wp:
  assumes "swap_lib_ok V" "swap_ready V s" "False \<in> set (swap_bitmap s)"
    and "frame_heap s p = Some fe" "kpage fe = Some kp" "pages s kp = Some b" "length b = PGSIZE"
    and "\<And>index d. unat index < length (swap_bitmap s) \<Longrightarrow> \<not> swap_bitmap s ! unat index \<Longrightarrow> slot_holds V d index b \<Longrightarrow>
      block_size (lib V) d = block_size (lib V) (swap_block s) \<Longrightarrow>
      (\<forall>a. (\<forall>i<PAGE_SECTORS. a \<noteq> swap_sector index i) \<longrightarrow> block_read (lib V) d a = block_read (lib V) (swap_block s) a) \<Longrightarrow>
      Q index (s\<lparr>frame_heap := (frame_heap s)(p \<mapsto> fe\<lparr>ftype := SWAP\<rparr>),
        swap_bitmap := (swap_bitmap s)[unat index := True], swap_block := d\<rparr>)"
  shows "wpK (sout V p) Q s"
proof -
  obtain index b' where sc: "bitmap_scan_and_flip (lib V) (swap_bitmap s) 0 1 False = (index, b')" by fastforce
  have len: "length (swap_bitmap s) < 2 ^ 32" using assms(2) by (simp add: swap_ready_def PAGE_SECTORS_def)
  have bm: "bitmap_ok (lib V)" using assms(1) unfolding swap_lib_ok_def by blast
  from scan_one[OF bm assms(3) len sc]
  have i: "unat index < length (swap_bitmap s)" "\<not> swap_bitmap s ! unat index" "b' = (swap_bitmap s)[unat index := True]"
    by blast+
  note lim = slot_limits[OF assms(2) i(1)]
  let ?s = "s\<lparr>swap_lock := Some (cur_thread (vfs s)), frame_heap := (frame_heap s)(p \<mapsto> fe\<lparr>ftype := SWAP\<rparr>),
    swap_bitmap := b'\<rparr>"
  have "wpK (forK [0..<PAGE_SECTORS] (write_sector V kp index))
     (\<lambda>_. wpK (thenK swap_lock_release (retK index)) Q) ?s"
    by (rule wpK_mono[OF write_sectors_wp[OF assms(1), of ?s]])
       (use lim assms(2,6,7) i assms(8)[OF i(1,2)] in \<open>auto simp: swap_ready_def swap_lock_back\<close>)
  then show ?thesis using assms(2,4,5) sc by (simp add: sout_def swap_ready_def)
qed

lemma sback_wp:
  assumes "swap_lib_ok V" "swap_ready V s" "unat index < length (swap_bitmap s)"
    and "slot_holds V (swap_block s) index b" "length b = PGSIZE"
    and "frame_heap s p = Some fe" "kpage fe = Some kp" "pages s kp = Some c" "length c = PGSIZE"
    and "Q () (s\<lparr>pages := (pages s)(kp \<mapsto> b), swap_bitmap := (swap_bitmap s)[unat index := \<not> swap_bitmap s ! unat index]\<rparr>)"
  shows "wpK (sback V index p) Q s"
proof -
  note lim = slot_limits[OF assms(2,3)]
  have fl: "bitmap_flip V (swap_bitmap s) index = (swap_bitmap s)[unat index := \<not> swap_bitmap s ! unat index]"
    using assms(1,3) unfolding swap_lib_ok_def by blast
  let ?s = "s\<lparr>swap_lock := Some (cur_thread (vfs s)), swap_bitmap := bitmap_flip V (swap_bitmap s) index\<rparr>"
  have "wpK (forK [0..<PAGE_SECTORS] (read_sector V kp index)) (\<lambda>_. wpK swap_lock_release Q) ?s"
    by (rule wpK_mono[OF read_sectors_wp[of ?s, OF _ assms(9)]])
       (use lim assms(2,4,5,8,10) fl in \<open>auto simp: swap_ready_def swap_lock_back\<close>)
  then show ?thesis using assms(2,6,7) by (simp add: sback_def swap_ready_def)
qed

text \<open>
  C36. A page that \<^verbatim>\<open>sout\<close> writes to swap is what \<^verbatim>\<open>sback\<close> reads. \<^verbatim>\<open>sout\<close> finds a free slot, marks it and
  touches no other slot of the device; from any later state in which the slot's sectors are
  unchanged, \<^verbatim>\<open>sback\<close> puts the bytes of the page into whatever page the frame has then, changes no
  other page, and marks the slot free. Both give \<^verbatim>\<open>swap_lock\<close> back.
\<close>

theorem swap_round_trip:
  assumes "swap_lib_ok V" "swap_ready V s" "False \<in> set (swap_bitmap s)"
    and "frame_heap s p = Some fe" "kpage fe = Some kp" "pages s kp = Some b" "length b = PGSIZE"
  shows "wpK (sout V p) (\<lambda>index t. swap_ready V t \<and> unat index < length (swap_bitmap s) \<and> \<not> swap_bitmap s ! unat index \<and>
    swap_bitmap t = (swap_bitmap s)[unat index := True] \<and>
    (\<forall>k c. unat k < length (swap_bitmap s) \<longrightarrow> k \<noteq> index \<longrightarrow>
      slot_holds V (swap_block t) k c = slot_holds V (swap_block s) k c) \<and>
    (\<forall>u q fe' kp' c. swap_ready V u \<longrightarrow> length (swap_bitmap u) = length (swap_bitmap t) \<longrightarrow> swap_bitmap u ! unat index \<longrightarrow>
      (\<forall>i<PAGE_SECTORS. block_read (lib V) (swap_block u) (swap_sector index i) =
        block_read (lib V) (swap_block t) (swap_sector index i)) \<longrightarrow>
      frame_heap u q = Some fe' \<longrightarrow> kpage fe' = Some kp' \<longrightarrow> pages u kp' = Some c \<longrightarrow> length c = PGSIZE \<longrightarrow>
      sback V index q u = Inr ((), u\<lparr>pages := (pages u)(kp' \<mapsto> b), swap_bitmap := (swap_bitmap u)[unat index := False]\<rparr>))) s"
proof (rule sout_wp[OF assms], intro conjI allI impI)
  fix index :: u32 and d
  let ?t = "s\<lparr>frame_heap := (frame_heap s)(p \<mapsto> fe\<lparr>ftype := SWAP\<rparr>),
        swap_bitmap := (swap_bitmap s)[unat index := True], swap_block := d\<rparr>"
  assume i: "unat index < length (swap_bitmap s)" "\<not> swap_bitmap s ! unat index" and d: "slot_holds V d index b"
    "block_size (lib V) d = block_size (lib V) (swap_block s)"
    "\<forall>a. (\<forall>i<PAGE_SECTORS. a \<noteq> swap_sector index i) \<longrightarrow> block_read (lib V) d a = block_read (lib V) (swap_block s) a"
  show "swap_ready V ?t" using assms(2) d(2) by (simp add: swap_ready_def)
  show "unat index < length (swap_bitmap s)" "\<not> swap_bitmap s ! unat index" using i by simp_all
  show "swap_bitmap ?t = (swap_bitmap s)[unat index := True]" by simp
  fix k c assume k: "unat k < length (swap_bitmap s)" "k \<noteq> index"
  have "swap_sector k j \<noteq> swap_sector index i" if "i < 8" "j < 8" for i j
    using swap_sector_inj[OF slot_limits(2)[OF assms(2) k(1)] slot_limits(2)[OF assms(2) i(1)] that(2,1)] k(2) by blast
  then have "block_read (lib V) d (swap_sector k j) = block_read (lib V) (swap_block s) (swap_sector k j)" if "j < 8" for j
    using d(3) that by (simp add: PAGE_SECTORS_def)
  then show "slot_holds V (swap_block ?t) k c = slot_holds V (swap_block s) k c"
    by (simp add: slot_holds_def PAGE_SECTORS_def)
next
  fix index :: u32 and d u q fe' kp' c
  let ?t = "s\<lparr>frame_heap := (frame_heap s)(p \<mapsto> fe\<lparr>ftype := SWAP\<rparr>),
        swap_bitmap := (swap_bitmap s)[unat index := True], swap_block := d\<rparr>"
  assume i: "unat index < length (swap_bitmap s)" and d: "slot_holds V d index b"
    and u: "swap_ready V u" "length (swap_bitmap u) = length (swap_bitmap ?t)" "swap_bitmap u ! unat index"
      "\<forall>i<PAGE_SECTORS. block_read (lib V) (swap_block u) (swap_sector index i) =
        block_read (lib V) (swap_block ?t) (swap_sector index i)"
      "frame_heap u q = Some fe'" "kpage fe' = Some kp'" "pages u kp' = Some c" "length c = PGSIZE"
  have h: "slot_holds V (swap_block u) index b" using d u(4) by (simp add: slot_holds_def)
  have iu: "unat index < length (swap_bitmap u)" using i u(2) by simp
  have "wpK (sback V index q) (\<lambda>_ t. t = u\<lparr>pages := (pages u)(kp' \<mapsto> b), swap_bitmap := (swap_bitmap u)[unat index := False]\<rparr>) u"
    by (rule sback_wp[OF assms(1) u(1) iu h assms(7) u(5-8)]) (use u(3) in simp)
  then show "sback V index q u = Inr ((), u\<lparr>pages := (pages u)(kp' \<mapsto> b), swap_bitmap := (swap_bitmap u)[unat index := False]\<rparr>)"
    by (auto simp: wpK_iff)
qed

text \<open>A machine with one frame in memory and four swap slots, two of them taken.\<close>

definition sim_vml :: "(u32 \<Rightarrow> byte list) vmlib" where
  "sim_vml = \<lparr>hw = i386 sim_pool, lib = sim_env, bitmap_flip = (\<lambda>b k. b[unat k := \<not> b ! unat k]), obj_ok = (\<lambda>_. True)\<rparr>"

definition sim_uthread :: uthread where
  "sim_uthread = \<lparr>pagedir = Some 0xC0001000, page_table = [], mmap_list = [], mmap_file_list = [], next_mapid = 1,
     uesp = 0, ufile = None, process = Some 1, child_process_list = [], uparent = 0, ucur_dir = None\<rparr>"

definition sim_frame :: frame_elem where
  "sim_frame = \<lparr>kpage = Some 0xC0004000, fspt = None, shared = None, fload = True, ffile = None, findex = - 1,
     ftype = SWAP, fofs = 0, page_read_bytes = 0, fwritable = True\<rparr>"

definition sim_vm :: "(u32 \<Rightarrow> byte list) vm" where
  "sim_vm = \<lparr>tables = [0xC0000000 \<mapsto> replicate 1024 0, 0xC0001000 \<mapsto> replicate 1024 0],
     pages = [0xC0004000 \<mapsto> replicate PGSIZE 7], init_page_dir = 0xC0000000, cr3 = 0x1000,
     vfs = sim_fs, uthreads = [1 \<mapsto> sim_uthread], frame_heap = [5 \<mapsto> sim_frame], spt_heap = Map.empty,
     shared_heap = Map.empty, vm_brk = 100, frame_table = [], frame_lock = None, swap_lock = None,
     swap_bitmap = [True, False, True, False], swap_block = (\<lambda>_. [])\<rparr>"

lemma sim_vml_fields [simp]:
  "hw sim_vml = i386 sim_pool" "lib sim_vml = sim_env" "bitmap_flip sim_vml = (\<lambda>b k. b[unat k := \<not> b ! unat k])"
  "obj_ok sim_vml p"
  by (simp_all add: sim_vml_def)

lemma sim_vml_ok: "swap_lib_ok sim_vml"
proof -
  have "bitmap_ok sim_env" using sim_env_lib[of "{}"] unfolding fs_lib_ok_def by blast
  moreover have "block_size sim_env d = 4096" for d by (simp add: sim_env_def)
  ultimately show ?thesis unfolding swap_lib_ok_def using sim_env_dev(1) by simp
qed

theorem swap_round_trip_witness:
  "\<exists>index t u. sout sim_vml 5 sim_vm = Inr (index, t) \<and>
     sback sim_vml index 5 (t\<lparr>frame_heap := [5 \<mapsto> sim_frame], pages := [0xC0004000 \<mapsto> replicate PGSIZE 0]\<rparr>) = Inr ((), u) \<and>
     pages u 0xC0004000 = Some (replicate PGSIZE 7)"
proof -
  let ?u = "\<lambda>t :: (u32 \<Rightarrow> byte list) vm. t\<lparr>frame_heap := [5 \<mapsto> sim_frame], pages := [0xC0004000 \<mapsto> replicate PGSIZE 0]\<rparr>"
  have s: "swap_ready sim_vml sim_vm" "False \<in> set (swap_bitmap sim_vm)" "frame_heap sim_vm 5 = Some sim_frame"
    "kpage sim_frame = Some 0xC0004000" "pages sim_vm 0xC0004000 = Some (replicate PGSIZE 7)"
    by (simp_all add: sim_vm_def sim_frame_def swap_ready_def PAGE_SECTORS_def sim_env_def)
  have "wpK (sout sim_vml 5) (\<lambda>index t. \<exists>u. sback sim_vml index 5 (?u t) = Inr ((), u) \<and>
     pages u 0xC0004000 = Some (replicate PGSIZE 7)) sim_vm"
  proof (rule wpK_mono[OF swap_round_trip[OF sim_vml_ok s length_replicate]], elim conjE, goal_cases)
    case (1 index t)
    note rd = 1(6)[THEN spec[of _ "?u t"], THEN spec[of _ 5], THEN spec[of _ sim_frame],
        THEN spec[of _ "0xC0004000"], THEN spec[of _ "replicate PGSIZE 0"]]
    have "swap_ready sim_vml (?u t)" using 1(1) by (simp add: swap_ready_def)
    with rd show ?case using 1(2,4) s(4) by simp
  qed
  then show ?thesis by (auto simp: wpK_iff)
qed

end
