(* ===== verification/Load_Facts.thy ===== *)
theory Load_Facts
  imports Elf_Facts Swap_Facts
begin

text \<open>
  Loading a segment reads nothing: it records, for every page, the part of the file that the
  first access will bring in. The loop over the pages ends, and the record is the one the
  segment's layout asks for.
\<close>

section \<open>Recording one page\<close>

lemma vm_malloc_wp [wp, simp]:
  "wpK (vm_malloc V) Q s \<longleftrightarrow> obj_ok V (vm_brk s) \<and> Q (vm_brk s) (s\<lparr>vm_brk := vm_brk s + 1\<rparr>)"
  by (simp add: vm_malloc_def)

lemma inFs_wp [wp, simp]: "wpK (inFs m) Q s = wpK m (\<lambda>a x. Q a (s\<lparr>vfs := x\<rparr>)) (vfs s)"
  by (auto simp: wpK_def inFs_def split: sum.splits)

text \<open>
  Every entry of a directory, the kernel's too, is zero or leads to a table; and a page is not one of the page tables of
  the directory \<open>d\<close>.
\<close>

definition dir_shape :: "mmu \<Rightarrow> (u32 \<Rightarrow> u32 list option) \<Rightarrow> u32 \<Rightarrow> bool" where
  "dir_shape M T d \<longleftrightarrow> (\<exists>t. T d = Some t \<and> length t = 1024 \<and>
     (\<forall>i<1024. t ! i \<noteq> 0 \<longrightarrow> (\<exists>pt. T (pde_get_pt M (t ! i)) = Some pt \<and> length pt = 1024)))"

definition no_table_of :: "mmu \<Rightarrow> (u32 \<Rightarrow> u32 list option) \<Rightarrow> u32 \<Rightarrow> u32 \<Rightarrow> bool" where
  "no_table_of M T d p \<longleftrightarrow> (\<forall>v w. is_user_vaddr M v \<longrightarrow> \<not> table_of M T d v p w)"

lemma dirty_wp:
  assumes "vaddr_ok M" "dir_shape M (tables s) d" "\<And>b. Q b s"
  shows "wpK (pagedir_is_dirty M (Some d) k) Q s"
proof -
  obtain t where t: "tables s d = Some t" "length t = 1024"
    "\<forall>i<1024. t ! i \<noteq> 0 \<longrightarrow> (\<exists>pt. tables s (pde_get_pt M (t ! i)) = Some pt \<and> length pt = 1024)"
    using assms(2) by (auto simp: dir_shape_def)
  have "unat k < 2 ^ 32" using unsigned_less[of k, where ?'a = nat] by simp
  then have i: "pd_no M k < 1024" using assms(1) by (simp add: vaddr_ok_def)
  show ?thesis
    using t i assms(3) pt_no_less[OF assms(1), of k] by (auto simp: pagedir_is_dirty_def test_flag_def lookup_page_def)
qed

text \<open>Changing an entry of a page table leaves the directories as they are.\<close>

lemma write_dir_shape:
  assumes "vaddr_ok M" "pd_ok M T d" "is_user_vaddr M u" "table_of M T d u pt w" "dir_shape M T d'" "no_table_of M T d d'"
  shows "dir_shape M (T(pt \<mapsto> w[i := x])) d'" "no_table_of M (T(pt \<mapsto> w[i := x])) d d'"
proof -
  have ne: "pt \<noteq> d'" using assms(3,4,6) by (auto simp: no_table_of_def)
  have len: "length w = 1024" using assms(4) by (simp add: table_of_def)
  show "dir_shape M (T(pt \<mapsto> w[i := x])) d'" using assms(5) ne len unfolding dir_shape_def by fastforce
  have "pt \<noteq> d" using assms(2,4) user_pd_no(1)[OF assms(1,3)] by (auto simp: table_of_def pd_ok_def)
  then show "no_table_of M (T(pt \<mapsto> w[i := x])) d d'" using assms(6) ne by (auto simp: no_table_of_def table_of_def)
qed

text \<open>
  A frame that \<^verbatim>\<open>check_match\<close> can look at: it is anonymous or holds a page of an open file, and then the directory of
  its thread can be searched.
\<close>

definition comparable :: "'d vmlib \<Rightarrow> u32 \<Rightarrow> 'd vm \<Rightarrow> addr \<Rightarrow> bool" where
  "comparable V d s p \<longleftrightarrow> (\<exists>fe pe spt. frame_heap s p = Some fe \<and> fspt fe = Some pe \<and> spt_heap s pe = Some spt \<and>
     (\<forall>g. ffile fe = Some g \<longrightarrow> (\<exists>kp x d'. kpage fe = Some kp \<and> uthreads s (sthread spt) = Some x \<and> pagedir x = Some d' \<and>
       dir_shape (hw V) (tables s) d' \<and> no_table_of (hw V) (tables s) d d' \<and> file_heap (vfs s) g \<noteq> None)))"

text \<open>A frame that holds the \<open>n\<close> bytes from \<open>ofs\<close> of the file with the inode \<open>ino\<close>.\<close>

definition frame_holds :: "'d vm \<Rightarrow> addr \<Rightarrow> off_t \<Rightarrow> nat \<Rightarrow> addr \<Rightarrow> bool" where
  "frame_holds s ino ofs n p \<longleftrightarrow> (\<exists>fe g. frame_heap s p = Some fe \<and> ffile fe = Some g \<and> map_option finode (file_heap (vfs s) g) = Some ino \<and>
     fofs fe = ofs \<and> page_read_bytes fe = of_nat n)"

lemma match_in_none:
  assumes "vaddr_ok (hw V)" "file_heap (vfs s) f = Some fl" "\<forall>p\<in>set l. comparable V d s p \<and> \<not> frame_holds s (finode fl) ofs n p" "Q None s"
  shows "wpK (match_in V (Some f) ofs (of_nat n) l) Q s"
  using assms(3)
proof (induction l)
  case (Cons p l)
  then have IH: "wpK (match_in V (Some f) ofs (of_nat n) l) Q s" and p: "comparable V d s p" "\<not> frame_holds s (finode fl) ofs n p" by simp_all
  obtain fe pe spt where fe: "frame_heap s p = Some fe" "fspt fe = Some pe" "spt_heap s pe = Some spt"
    and known: "\<And>g. ffile fe = Some g \<Longrightarrow> \<exists>kp x d'. kpage fe = Some kp \<and> uthreads s (sthread spt) = Some x \<and> pagedir x = Some d' \<and>
       dir_shape (hw V) (tables s) d' \<and> file_heap (vfs s) g \<noteq> None"
    using p(1) unfolding comparable_def by blast
  show ?case
  proof (cases "ffile fe")
    case None
    then show ?thesis using fe IH by simp
  next
    case (Some g)
    then obtain kp x d' gl where g: "kpage fe = Some kp" "uthreads s (sthread spt) = Some x" "pagedir x = Some d'"
      "dir_shape (hw V) (tables s) d'" "file_heap (vfs s) g = Some gl" using known by blast
    have "\<not> (finode gl = finode fl \<and> fofs fe = ofs \<and> page_read_bytes fe = of_nat n)"
      using p(2) fe(1) Some g(5) by (auto simp: frame_holds_def)
    then show ?thesis
      using fe Some g assms(2) IH by simp (rule dirty_wp[OF assms(1) g(4)], auto)
  qed
qed (use assms(4) in simp)

text \<open>
  The state of a thread that has a page directory, with the frame table free and in order, and memory for objects that
  does not run out; and that of a thread that loads a program, with the heap unused from its end on.
\<close>

definition vm_ready :: "'d vmlib \<Rightarrow> u32 \<Rightarrow> 'd vm \<Rightarrow> bool" where
  "vm_ready V d s \<longleftrightarrow> dir_ready (hw V) d s \<and> (\<exists>x. uthreads s (cur_thread (vfs s)) = Some x \<and> pagedir x = Some d) \<and>
     frame_lock s = None \<and> (\<forall>p\<in>set (frame_table s). frame_heap s p \<noteq> None) \<and> (\<forall>p. obj_ok V p)"

definition load_ready :: "'d vmlib \<Rightarrow> u32 \<Rightarrow> 'd vm \<Rightarrow> bool" where
  "load_ready V d s \<longleftrightarrow> vm_ready V d s \<and> (\<forall>p\<in>set (frame_table s). comparable V d s p) \<and>
     (\<forall>p\<ge>vm_brk s. frame_heap s p = None \<and> spt_heap s p = None)"

lemma load_ready_below: "load_ready V d s \<Longrightarrow> p \<in> set (frame_table s) \<Longrightarrow> p < vm_brk s"
  unfolding load_ready_def vm_ready_def by (meson not_le)

definition cur_page_table :: "'d vm \<Rightarrow> addr list" where
  "cur_page_table s = (case uthreads s (cur_thread (vfs s)) of None \<Rightarrow> [] | Some x \<Rightarrow> page_table x)"

text \<open>
  The entry \<open>pe\<close> of the running thread's table says: the page at \<open>u\<close> is not in memory, and holds
  \<open>n\<close> bytes of the file \<open>f\<close> from offset \<open>ofs\<close>, then zeros.
\<close>

definition pending :: "'d vm \<Rightarrow> addr \<Rightarrow> bool \<Rightarrow> addr \<Rightarrow> u32 \<times> off_t \<times> nat \<Rightarrow> bool" where
  "pending s f w pe = (\<lambda>(u, ofs, n). \<exists>p. spt_heap s pe = Some \<lparr>upage = u, sframe = p, sthread = cur_thread (vfs s)\<rparr> \<and>
     frame_heap s p = Some \<lparr>kpage = None, fspt = Some pe, shared = None, fload = False, ffile = Some f, findex = - 1,
       ftype = FILE, fofs = ofs, page_read_bytes = of_nat n, fwritable = w\<rparr>)"

text \<open>What recording pages leaves alone.\<close>

definition load_frame :: "mmu \<Rightarrow> u32 \<Rightarrow> u32 set \<Rightarrow> 'd vm \<Rightarrow> 'd vm \<Rightarrow> bool" where
  "load_frame M d U s t \<longleftrightarrow> pages t = pages s \<and> vfs t = vfs s \<and> frame_table t = frame_table s \<and> vm_brk s \<le> vm_brk t \<and>
     swap_bitmap t = swap_bitmap s \<and> swap_block t = swap_block s \<and>
     (\<forall>p<vm_brk s. frame_heap t p = frame_heap s p \<and> spt_heap t p = spt_heap s p) \<and>
     (\<forall>v. is_user_vaddr M v \<longrightarrow> entry_of M (tables t) d v =
       (if pg_round_down M v \<in> U then entry_of M (tables s) d v AND NOT (PTE_P M) else entry_of M (tables s) d v))"

lemma load_frame_refl: "load_frame M d {} s s"
  by (simp add: load_frame_def)

lemma and_not_twice: "(x :: u32) AND NOT p AND NOT p = x AND NOT p"
  by (simp add: and.assoc)

lemma load_frame_trans: "load_frame M d A s t \<Longrightarrow> load_frame M d B t r \<Longrightarrow> load_frame M d (A \<union> B) s r"
  by (auto simp: load_frame_def and_not_twice)

lemma pending_mono:
  assumes "pending s f w pe y" "load_frame M d A s t" "load_ready V d s"
  shows "pending t f w pe y"
proof -
  have "q < vm_brk s" if "frame_heap s q \<noteq> None \<or> spt_heap s q \<noteq> None" for q
    using that assms(3) unfolding load_ready_def by (meson not_le)
  then show ?thesis using assms(1,2) unfolding pending_def load_frame_def by (cases y) fastforce
qed

lemma frame_holds_mono:
  assumes "load_frame M d A s t" "load_ready V d s" "p \<in> set (frame_table s)"
  shows "frame_holds t ino ofs n p = frame_holds s ino ofs n p"
  using assms(1) load_ready_below[OF assms(2,3)] by (simp add: load_frame_def frame_holds_def)

lemma install_file_wp:
  assumes r: "load_ready V d s" and u: "is_user_vaddr (hw V) u" "pg_ofs (hw V) u = 0" and n: "n < 2 ^ 32"
    and f: "file_heap (vfs s) f = Some fl" "\<forall>p\<in>set (frame_table s). \<not> frame_holds s (finode fl) ofs n p"
    and Q: "\<And>t pe. load_ready V d t \<Longrightarrow> load_frame (hw V) d {u} s t \<Longrightarrow> cur_page_table t = cur_page_table s @ [pe] \<Longrightarrow>
      pending t f w pe (u, ofs, n) \<Longrightarrow> Q True t"
  shows "wpK (install_frame V u None w (Some f) FILE ofs (of_nat n)) Q s"
proof -
  obtain x where x: "uthreads s (cur_thread (vfs s)) = Some x" "pagedir x = Some d" using r by (auto simp: load_ready_def vm_ready_def)
  have M: "mmu_ok (hw V)" "vaddr_ok (hw V)" and ok: "pd_ok (hw V) (tables s) d" and ipd: "d \<noteq> init_page_dir s"
    using r by (simp_all add: load_ready_def vm_ready_def dir_ready_def mmu_ok_def)
  have rd: "pg_round_down (hw V) u = u" using M(2) u(2) by (simp add: vaddr_ok_def)
  have comp: "\<forall>p\<in>set (frame_table s). comparable V d s p"
    and fresh: "\<And>p. vm_brk s \<le> p \<Longrightarrow> frame_heap s p = None \<and> spt_heap s p = None" and mem: "\<And>p. obj_ok V p"
    and lk: "frame_lock s = None"
    using r unfolding load_ready_def vm_ready_def by blast+
  let ?p = "vm_brk s" and ?pe = "Suc (vm_brk s)" and ?me = "cur_thread (vfs s)"
  let ?fe = "\<lparr>kpage = None, fspt = Some ?pe, shared = None, fload = False, ffile = Some f, findex = - 1,
       ftype = FILE, fofs = ofs, page_read_bytes = of_nat n, fwritable = w\<rparr> :: frame_elem"
  let ?s = "s\<lparr>vm_brk := Suc ?pe, spt_heap := (spt_heap s)(?pe \<mapsto> \<lparr>upage = u, sframe = ?p, sthread = ?me\<rparr>),
    frame_heap := (frame_heap s)(?p \<mapsto> ?fe),
    uthreads := (uthreads s)(?me \<mapsto> x\<lparr>page_table := page_table x @ [?pe]\<rparr>)\<rparr>"
  have cl: "wpK (pagedir_clear_page (hw V) (Some d) u) (\<lambda>_. Q True) ?s"
  proof (rule clear_page_wp[OF M(2) _ u])
    show "pd_ok (hw V) (tables ?s) d" using ok by simp
    fix t assume en: "entry_set (hw V) d u (entry_of (hw V) (tables ?s) d u AND NOT (PTE_P (hw V))) ?s t"
    assume tab: "tables t = tables ?s \<or> (\<exists>pt w x. table_of (hw V) (tables ?s) d u pt w \<and> tables t = (tables ?s)(pt \<mapsto> w[pt_no (hw V) u := x]))"
    from en obtain T c where t: "t = ?s\<lparr>tables := T, cr3 := c\<rparr>" and T: "pd_ok (hw V) T d"
      "entry_of (hw V) T d u = entry_of (hw V) (tables s) d u AND NOT (PTE_P (hw V))"
      "\<And>v. is_user_vaddr (hw V) v \<Longrightarrow> (pd_no (hw V) v, pt_no (hw V) v) \<noteq> (pd_no (hw V) u, pt_no (hw V) u) \<Longrightarrow>
        entry_of (hw V) T d v = entry_of (hw V) (tables s) d v"
      by (auto simp: entry_set_def)
    have T4: "T = tables s \<or> (\<exists>pt w x. table_of (hw V) (tables s) d u pt w \<and> T = (tables s)(pt \<mapsto> w[pt_no (hw V) u := x]))"
      using tab by (simp add: t)
    have same: "entry_of (hw V) T' d v = entry_of (hw V) T' d u" if "pg_round_down (hw V) v = u" for v T'
      using same_page_iff[OF M(2) u(2), of v] that by (simp add: entry_of_def split: option.splits)
    have shape: "dir_shape (hw V) T d' \<and> no_table_of (hw V) T d d'"
      if "dir_shape (hw V) (tables s) d'" "no_table_of (hw V) (tables s) d d'" for d'
      using T4 that write_dir_shape[OF M(2) ok u(1) _ that] by blast
    have "comparable V d t p" if p: "p \<in> set (frame_table s)" for p
    proof -
      obtain fe pe spt where fe: "frame_heap s p = Some fe" "fspt fe = Some pe" "spt_heap s pe = Some spt"
        and known: "\<And>g. ffile fe = Some g \<Longrightarrow> \<exists>kp x d'. kpage fe = Some kp \<and> uthreads s (sthread spt) = Some x \<and> pagedir x = Some d' \<and>
          dir_shape (hw V) (tables s) d' \<and> no_table_of (hw V) (tables s) d d' \<and> file_heap (vfs s) g \<noteq> None"
        using comp p unfolding comparable_def by blast
      have lt: "p < ?p" "pe < ?p" using fe fresh by (metis not_le option.distinct(1))+
      have "\<exists>kp y d'. kpage fe = Some kp \<and> uthreads t (sthread spt) = Some y \<and> pagedir y = Some d' \<and>
          dir_shape (hw V) (tables t) d' \<and> no_table_of (hw V) (tables t) d d' \<and> file_heap (vfs t) g \<noteq> None" if "ffile fe = Some g" for g
        using known[OF that] shape x by (auto simp: t)
      then show ?thesis unfolding comparable_def using fe lt by (intro exI[of _ fe] exI[of _ pe] exI[of _ spt]) (simp add: t)
    qed
    then have "load_ready V d t"
      using r T(1) x load_ready_below[OF r] unfolding load_ready_def vm_ready_def dir_ready_def by (auto simp: t)
    moreover have "load_frame (hw V) d {u} s t"
      using T(2,3) same same_page_iff[OF M(2) u(2)] unfolding load_frame_def t by auto
    moreover have "cur_page_table t = cur_page_table s @ [?pe]" using x by (simp add: t cur_page_table_def)
    moreover have "pending t f w ?pe (u, ofs, n)" by (simp add: t pending_def)
    ultimately show "Q True t" by (rule Q)
  qed
  have lock: "s\<lparr>frame_lock := Some ?me, frame_lock := None\<rparr> = s" using lk by simp
  have "wpK (match_in V (Some f) ofs (of_nat n) (frame_table s)) (\<lambda>r. wpK (thenK frame_lock_release (retK r))
      (\<lambda>r t. r = None \<and> t = s)) (s\<lparr>frame_lock := Some ?me\<rparr>)"
  proof (rule match_in_none[OF M(2)])
    show "\<forall>p\<in>set (frame_table s). comparable V d (s\<lparr>frame_lock := Some ?me\<rparr>) p \<and> \<not> frame_holds (s\<lparr>frame_lock := Some ?me\<rparr>) (finode fl) ofs n p"
      using comp f(2) by (simp add: comparable_def frame_holds_def)
  qed (use f(1) lk lock in simp_all)
  then have "wpK (check_match V (Some f) ofs (of_nat n)) (\<lambda>r t. r = None \<and> t = s) s"
    using lk by (simp add: check_match_def)
  then show ?thesis
    using x cl mem rd
    by (simp add: install_frame_def install_file_def) (elim wpK_mono, auto simp: frame_table_insert_def spt_init_def
       clear_user_def Let_def)
qed

section \<open>Recording a segment\<close>

text \<open>
  The pages of a segment as its layout asks for them: the address, the offset in the file and
  the number of bytes to read of page \<open>i\<close>, for \<open>rb\<close> bytes from offset \<open>ofs\<close> at \<open>up\<close>.
\<close>

definition seg_page :: "off_t \<Rightarrow> u32 \<Rightarrow> nat \<Rightarrow> nat \<Rightarrow> u32 \<times> off_t \<times> nat" where
  "seg_page ofs up rb i = (up + of_nat (PGSIZE * i), ofs + int (min (PGSIZE * i) rb), min PGSIZE (rb - PGSIZE * i))"

lemma seg_page_Suc:
  "seg_page ofs up rb (Suc i) = seg_page (ofs + int (min PGSIZE rb)) (up + of_nat PGSIZE) (rb - min PGSIZE rb) i"
proof -
  have "min (PGSIZE * Suc i) rb = min PGSIZE rb + min (PGSIZE * i) (rb - min PGSIZE rb)"
    "rb - PGSIZE * Suc i = rb - min PGSIZE rb - PGSIZE * i" by (auto simp: min_def)
  then show ?thesis by (simp add: seg_page_def)
qed

lemma seg_pages_Suc:
  "map (seg_page ofs up rb) [0..<Suc n] = (up, ofs, min PGSIZE rb) #
     map (seg_page (ofs + int (min PGSIZE rb)) (up + of_nat PGSIZE) (rb - min PGSIZE rb)) [0..<n]"
proof -
  have "map (seg_page ofs up rb) [0..<Suc n] = seg_page ofs up rb 0 # map (seg_page ofs up rb \<circ> Suc) [0..<n]"
    by (simp only: upt_conv_Cons[OF zero_less_Suc] list.map map_Suc_upt[symmetric] map_map)
  then show ?thesis by (simp add: seg_page_def[of _ _ _ 0] comp_def seg_page_Suc)
qed

text \<open>The counters of one round, as numbers.\<close>

lemma round_counters:
  fixes rbs zbs :: u32
  assumes "Suc n * PGSIZE = unat rbs + unat zbs"
  defines "prb \<equiv> if rbs < of_nat PGSIZE then rbs else of_nat PGSIZE"
  shows "prb = of_nat (min PGSIZE (unat rbs))" "unat prb = min PGSIZE (unat rbs)"
    "unat (rbs - prb) = unat rbs - min PGSIZE (unat rbs)"
    "n * PGSIZE = unat (rbs - prb) + unat (zbs - (of_nat PGSIZE - prb))" "0 < rbs \<or> 0 < zbs"
proof -
  have P: "unat (of_nat PGSIZE :: u32) = PGSIZE" by (simp add: PGSIZE_def)
  show prb: "unat prb = min PGSIZE (unat rbs)" using P by (auto simp: prb_def word_less_nat_alt)
  have "of_nat (unat prb) = prb" by simp
  then show "prb = of_nat (min PGSIZE (unat rbs))" unfolding prb by simp
  have "prb \<le> rbs" using prb by (simp add: word_le_nat_alt)
  then show a: "unat (rbs - prb) = unat rbs - min PGSIZE (unat rbs)" using prb by (simp add: unat_sub)
  have "prb \<le> of_nat PGSIZE" using prb P by (simp add: word_le_nat_alt)
  then have z: "unat (of_nat PGSIZE - prb) = PGSIZE - min PGSIZE (unat rbs)" using prb P by (simp add: unat_sub)
  have le: "PGSIZE - min PGSIZE (unat rbs) \<le> unat zbs" using assms(1) by auto
  then have "of_nat PGSIZE - prb \<le> zbs" using z by (simp add: word_le_nat_alt)
  then have "unat (zbs - (of_nat PGSIZE - prb)) = unat zbs - (PGSIZE - min PGSIZE (unat rbs))" using z by (simp add: unat_sub)
  then show "n * PGSIZE = unat (rbs - prb) + unat (zbs - (of_nat PGSIZE - prb))" using a assms(1) le by auto
  have "unat rbs + unat zbs > 0" unfolding assms(1)[symmetric] by (simp add: PGSIZE_def)
  then show "0 < rbs \<or> 0 < zbs" by (auto simp: word_gt_0 unat_eq_zero)
qed

lemma load_segment_loop_wp:
  assumes "load_ready V d s" "pg_ofs (hw V) up = 0" "n * PGSIZE = unat rbs + unat zbs"
    "unat up + n * PGSIZE \<le> unat (PHYS_BASE (hw V))" "0 \<le> ofs" "ofs + int (unat rbs) < 2 ^ 31" "file_heap (vfs s) f = Some fl"
    "\<forall>p\<in>set (frame_table s). \<forall>(v, k, m)\<in>set (map (seg_page ofs up (unat rbs)) [0..<n]). \<not> frame_holds s (finode fl) k m p"
  shows "wpK (load_segment_loop V f w n ofs up rbs zbs) (\<lambda>_ t. load_ready V d t \<and>
    load_frame (hw V) d (fst ` set (map (seg_page ofs up (unat rbs)) [0..<n])) s t \<and>
    (\<exists>es. cur_page_table t = cur_page_table s @ es \<and>
      list_all2 (pending t f w) es (map (seg_page ofs up (unat rbs)) [0..<n]))) s"
  using assms
proof (induction n arbitrary: s ofs up rbs zbs)
  case 0
  then have "unat rbs = 0" "unat zbs = 0" by simp_all
  then have "rbs = 0" "zbs = 0" by (simp_all only: unat_eq_zero)
  then show ?case using 0(1) load_frame_refl by simp
next
  case (Suc n)
  define prb where "prb = (if rbs < of_nat PGSIZE then rbs else of_nat PGSIZE)"
  note c = round_counters[OF Suc.prems(3), folded prb_def]
  have M: "vaddr_ok (hw V)" using Suc.prems(1) by (simp add: load_ready_def vm_ready_def dir_ready_def mmu_ok_def)
  have P: "unat (PHYS_BASE (hw V)) < 2 ^ 32" using unsigned_less[of "PHYS_BASE (hw V)", where ?'a = nat] by simp
  have upl: "unat up < unat (PHYS_BASE (hw V))" using Suc.prems(4) by (simp add: PGSIZE_def)
  then have u: "is_user_vaddr (hw V) up" using M by (simp add: vaddr_ok_def word_less_nat_alt)
  have upn: "unat (up + of_nat PGSIZE) = unat up + PGSIZE"
    using unat_add_small[of up "of_nat PGSIZE"] Suc.prems(4) P by (simp add: PGSIZE_def)
  have al: "pg_ofs (hw V) (up + of_nat PGSIZE) = 0"
    using Suc.prems(2) unfolding aligned_unat[OF M] upn by (simp add: PGSIZE_def)
  have ofs: "i32 (ofs + uint prb) = ofs + int (min PGSIZE (unat rbs))"
  proof -
    have e: "uint prb = int (min PGSIZE (unat rbs))" unfolding c(2)[symmetric] by simp
    have "int (min PGSIZE (unat rbs)) \<le> int (unat rbs)" unfolding of_nat_le_iff by (rule min.cobounded2)
    then show ?thesis unfolding e by (intro i32_id) (use Suc.prems(5,6) in linarith)+
  qed
  let ?rest = "map (seg_page (ofs + int (min PGSIZE (unat rbs))) (up + of_nat PGSIZE) (unat rbs - min PGSIZE (unat rbs))) [0..<n]"
  let ?all = "map (seg_page ofs up (unat rbs)) [0..<Suc n]"
  have all: "?all = (up, ofs, min PGSIZE (unat rbs)) # ?rest" by (rule seg_pages_Suc)
  have step: "wpK (load_segment_loop V f w n (i32 (ofs + uint prb)) (up + of_nat PGSIZE) (rbs - prb) (zbs - (of_nat PGSIZE - prb)))
      (\<lambda>_ r. load_ready V d r \<and> load_frame (hw V) d (fst ` set ?all) s r \<and>
        (\<exists>es. cur_page_table r = cur_page_table s @ es \<and> list_all2 (pending r f w) es ?all)) t"
    if t: "load_ready V d t" "load_frame (hw V) d {up} s t" "cur_page_table t = cur_page_table s @ [pe]"
      "pending t f w pe (up, ofs, min PGSIZE (unat rbs))" for t pe
    unfolding ofs
  proof (rule wpK_mono[OF Suc.IH[OF t(1) al c(4)]], goal_cases)
    case 5
    show ?case
    proof
      fix p assume "p \<in> set (frame_table t)"
      then have p: "p \<in> set (frame_table s)" using t(2) by (simp add: load_frame_def)
      show "\<forall>(v, k, m)\<in>set (map (seg_page (ofs + int (min PGSIZE (unat rbs))) (up + of_nat PGSIZE) (unat (rbs - prb))) [0..<n]). \<not> frame_holds t (finode fl) k m p"
        using bspec[OF Suc.prems(8) p] frame_holds_mono[OF t(2) Suc.prems(1) p] unfolding all c(3) by auto
    qed
  next
    case (6 a r)
    then have r: "load_ready V d r" "load_frame (hw V) d (fst ` set ?rest) t r" by (simp_all add: c(3))
    from 6 obtain es where es: "cur_page_table r = cur_page_table t @ es" "list_all2 (pending r f w) es ?rest"
      by (auto simp only: c(3))
    have "load_frame (hw V) d (fst ` set ?all) s r" using load_frame_trans[OF t(2) r(2)] unfolding all by simp
    moreover have "list_all2 (pending r f w) (pe # es) ?all"
      using es(2) pending_mono[OF t(4) r(2) t(1)] unfolding all by simp
    ultimately show ?case using r(1) es(1) t(3) by (intro conjI exI[of _ "pe # es"]) simp_all
  qed (use Suc.prems(4-7) t(2) upn c(2,3) in \<open>auto simp: min_def load_frame_def\<close>)
  have "wpK (install_frame V up None w (Some f) FILE ofs prb) (\<lambda>_. wpK (load_segment_loop V f w n (i32 (ofs + uint prb))
      (up + of_nat PGSIZE) (rbs - prb) (zbs - (of_nat PGSIZE - prb))) (\<lambda>_ r. load_ready V d r \<and>
        load_frame (hw V) d (fst ` set ?all) s r \<and>
        (\<exists>es. cur_page_table r = cur_page_table s @ es \<and> list_all2 (pending r f w) es ?all))) s"
    unfolding c(1)
  proof (rule install_file_wp[OF Suc.prems(1) u Suc.prems(2) _ Suc.prems(7)])
    show "min PGSIZE (unat rbs) < 2 ^ 32" by (simp add: PGSIZE_def min_less_iff_disj)
    show "\<forall>p\<in>set (frame_table s). \<not> frame_holds s (finode fl) ofs (min PGSIZE (unat rbs)) p"
      using Suc.prems(8) unfolding all by simp
  qed (use step in \<open>simp flip: c(1)\<close>)
  then show ?case using c(5) by (simp add: prb_def Let_def)
qed

section \<open>Loading a segment\<close>

lemma file_length_wp:
  assumes "open_file s p f i" "Q (dlength (idata i)) s"
  shows "wpK (file_length (Some p)) Q s"
proof -
  have f: "file_heap s p = Some f" "inode_heap s (finode f) = Some i" "iio i = None"
    using assms(1) by (auto simp: open_file_def idle_def)
  then have e: "i\<lparr>iio := None\<rparr> = i" by simp
  have u: "s\<lparr>inode_heap := (inode_heap s)(finode f \<mapsto> i)\<rparr> = s" using f(2) by (simp add: fun_upd_idem)
  show ?thesis
    using f(1,2,3) assms(2) by (simp add: file_length_def inode_length_def locked_field_def e u)
qed

lemma load_ready_seek:
  assumes "load_ready V d s" "file_heap (vfs s) f = Some fl"
  shows "load_ready V d (s\<lparr>vfs := (vfs s)\<lparr>file_heap := (file_heap (vfs s))(f \<mapsto> fl\<lparr>fpos := pos\<rparr>)\<rparr>\<rparr>)"
    "frame_holds (s\<lparr>vfs := (vfs s)\<lparr>file_heap := (file_heap (vfs s))(f \<mapsto> fl\<lparr>fpos := pos\<rparr>)\<rparr>\<rparr>) ino ofs n p = frame_holds s ino ofs n p"
proof -
  let ?s = "s\<lparr>vfs := (vfs s)\<lparr>file_heap := (file_heap (vfs s))(f \<mapsto> fl\<lparr>fpos := pos\<rparr>)\<rparr>\<rparr>"
  have "comparable V d ?s p" if "comparable V d s p" for p
    using that unfolding comparable_def by auto
  then show "load_ready V d ?s" using assms(1) by (simp add: load_ready_def vm_ready_def dir_ready_def)
  have "map_option finode (file_heap (vfs ?s) g) = map_option finode (file_heap (vfs s) g)" for g using assms(2) by simp
  then show "frame_holds ?s ino ofs n p = frame_holds s ino ofs n p" by (simp add: frame_holds_def)
qed

lemma load_segment_wp:
  assumes "load_ready V d s" "file_heap (vfs s) f = Some fl" "pg_ofs (hw V) up = 0" "(unat rbs + unat zbs) mod PGSIZE = 0"
    "unat up + (unat rbs + unat zbs) \<le> unat (PHYS_BASE (hw V))" "0 \<le> ofs" "ofs + int (unat rbs) < 2 ^ 31"
    "ofs smod int PGSIZE = 0"
    "\<forall>p\<in>set (frame_table s). \<forall>(v, k, m)\<in>set (map (seg_page ofs up (unat rbs)) [0..<(unat rbs + unat zbs) div PGSIZE]). \<not> frame_holds s (finode fl) k m p"
  defines "ps \<equiv> map (seg_page ofs up (unat rbs)) [0..<(unat rbs + unat zbs) div PGSIZE]"
  shows "wpK (load_segment V f ofs up rbs zbs w) (\<lambda>r t. r \<and> load_ready V d t \<and>
    load_frame (hw V) d (fst ` set ps) (s\<lparr>vfs := (vfs s)\<lparr>file_heap := (file_heap (vfs s))(f \<mapsto> fl\<lparr>fpos := ofs\<rparr>)\<rparr>\<rparr>) t \<and>
    (\<exists>es. cur_page_table t = cur_page_table s @ es \<and> list_all2 (pending t f w) es ps)) s"
proof -
  let ?s = "s\<lparr>vfs := (vfs s)\<lparr>file_heap := (file_heap (vfs s))(f \<mapsto> fl\<lparr>fpos := ofs\<rparr>)\<rparr>\<rparr>"
  have n: "(unat rbs + unat zbs) div PGSIZE * PGSIZE = unat rbs + unat zbs"
    using div_mult_mod_eq[of "unat rbs + unat zbs" PGSIZE] assms(4) by simp
  have P: "unat (PHYS_BASE (hw V)) < 2 ^ 32" using unsigned_less[of "PHYS_BASE (hw V)", where ?'a = nat] by simp
  have "unat (rbs + zbs) = unat rbs + unat zbs" by (rule unat_add_small) (use assms(5) P in linarith)
  then have m: "(rbs + zbs) mod of_nat PGSIZE = 0"
    using assms(4) by (simp add: PGSIZE_def flip: unat_eq_zero) (simp add: unat_mod)
  have "wpK (load_segment_loop V f w ((unat rbs + unat zbs) div PGSIZE) ofs up rbs zbs) (\<lambda>_ t. load_ready V d t \<and>
      load_frame (hw V) d (fst ` set ps) ?s t \<and>
      (\<exists>es. cur_page_table t = cur_page_table ?s @ es \<and> list_all2 (pending t f w) es ps)) ?s"
    unfolding ps_def by (rule load_segment_loop_wp[OF load_ready_seek(1)[OF assms(1,2)] assms(3), where fl = "fl\<lparr>fpos := ofs\<rparr>"])
      (use n assms(5-7,9) load_ready_seek(2)[OF assms(1,2)] in simp_all)
  then have "wpK (load_segment_loop V f w ((unat rbs + unat zbs) div PGSIZE) ofs up rbs zbs) (\<lambda>_ t. load_ready V d t \<and>
      load_frame (hw V) d (fst ` set ps) ?s t \<and>
      (\<exists>es. cur_page_table t = cur_page_table s @ es \<and> list_all2 (pending t f w) es ps)) ?s"
    by (simp add: cur_page_table_def)
  then show ?thesis
    using m assms(2,3,6,8) by (simp add: load_segment_def file_seek_def upd_file_def ptrK_def)
qed

text \<open>The pages of a segment.\<close>

definition seg_pages :: "Elf32_Phdr \<Rightarrow> (u32 \<times> off_t \<times> nat) list" where
  "seg_pages ph = (let l = segment_layout ph in map (seg_page (sint (file_page l)) (mem_page l) (unat (read_bytes l)))
     [0..<(unat (read_bytes l) + unat (zero_bytes l)) div PGSIZE])"

lemma load_phdr_wp:
  assumes "load_ready V d s" "open_file (vfs s) f fl i" "p_type ph = PT_LOAD" "segment_valid (hw V) ph (dlength (idata i))"
    "unat (p_offset ph) + unat (p_filesz ph) < 2 ^ 31"
    "\<forall>p\<in>set (frame_table s). \<forall>(v, k, m)\<in>set (seg_pages ph). \<not> frame_holds s (finode fl) k m p"
  defines "l \<equiv> segment_layout ph" and "ps \<equiv> seg_pages ph"
  shows "wpK (load_phdr V f ph) (\<lambda>r t. r \<and> load_ready V d t \<and>
    load_frame (hw V) d (fst ` set ps) (s\<lparr>vfs := (vfs s)\<lparr>file_heap := (file_heap (vfs s))(f \<mapsto> fl\<lparr>fpos := sint (file_page l)\<rparr>)\<rparr>\<rparr>) t \<and>
    (\<exists>es. cur_page_table t = cur_page_table s @ es \<and> list_all2 (pending t f (p_flags ph AND PF_W \<noteq> 0)) es ps)) s"
proof -
  have M: "vaddr_ok (hw V)" using assms(1) by (simp add: load_ready_def vm_ready_def dir_ready_def mmu_ok_def)
  have len: "0 \<le> dlength (idata i)" "dlength (idata i) < 2 ^ 31"
    using assms(2) by (simp_all add: open_file_def length_ok_def MAX_LENGTH_def)
  note n = segment_valid_nat[OF M assms(4) len] and ln = segment_layout_nat[OF M assms(4) len, folded l_def]
  note fit = segment_layout_fits[OF M assms(4) len, unfolded Let_def, folded l_def]
  have fp: "unat (file_page l) < 2 ^ 31" using ln(2) n(2) by linarith
  have s: "sint (file_page l) = int (unat (file_page l))" by (rule sint_unat_small[OF fp])
  have "unat (file_page l) + unat (read_bytes l) < 2 ^ 31" using fit ln(3) fp assms(5) by auto
  then have "int (unat (file_page l) + unat (read_bytes l)) < int (2 ^ 31)" by (simp only: of_nat_less_iff)
  then have ofs: "sint (file_page l) + int (unat (read_bytes l)) < 2 ^ 31" unfolding s by (simp only: of_nat_add of_nat_power of_nat_numeral)
  have al: "pg_ofs (hw V) (mem_page l) = 0" using fit by (simp add: aligned_unat[OF M] PGSIZE_def)
  have fl: "file_heap (vfs s) f = Some fl" using assms(2) by (simp add: open_file_def)
  have "wpK (load_segment V f (sint (file_page l)) (mem_page l) (read_bytes l) (zero_bytes l) (p_flags ph AND PF_W \<noteq> 0)) (\<lambda>r t. r \<and> load_ready V d t \<and>
    load_frame (hw V) d (fst ` set ps) (s\<lparr>vfs := (vfs s)\<lparr>file_heap := (file_heap (vfs s))(f \<mapsto> fl\<lparr>fpos := sint (file_page l)\<rparr>)\<rparr>\<rparr>) t \<and>
    (\<exists>es. cur_page_table t = cur_page_table s @ es \<and> list_all2 (pending t f (p_flags ph AND PF_W \<noteq> 0)) es ps)) s"
    unfolding ps_def seg_pages_def Let_def l_def[symmetric]
    by (rule load_segment_wp[OF assms(1) fl al]) (use fit ofs assms(6) in \<open>auto simp: seg_pages_def Let_def l_def\<close>)
  moreover have "wpK (validate_segment V ph f) (\<lambda>ok t. ok \<and> t = s) s"
    using assms(4) by (simp add: validate_segment_def) (rule file_length_wp[OF assms(2)], simp)
  ultimately show ?thesis
    using assms(3) by (simp add: load_phdr_def PT_LOAD_def PT_DYNAMIC_def PT_INTERP_def PT_SHLIB_def)
      (elim wpK_mono, simp add: Let_def flip: l_def)
qed

text \<open>
  C37. Loading a segment ends and reads nothing. For a loadable segment that \<^verbatim>\<open>validate_segment\<close>
  accepts and whose part of the file ends below 2 GB, and of whose pages none is in memory already, for another process
  that runs the same file, \<^verbatim>\<open>load\<close> goes through \<^verbatim>\<open>load_segment\<close> and succeeds
  after exactly as many rounds as the segment has pages; page by page, in order, the thread's
  supplemental page table gets an entry that says which bytes of which file the page will
  hold; no page is allocated or written, no frame is in memory that was not, and afterwards
  every address of the segment is unmapped, so that the first access faults, while other user
  addresses are found where they were. Frames with other pages of this file and pages of other files may be in memory. (A page that is
  in memory already would be shared, where \<^verbatim>\<open>install_file\<close> corrupts the frame.)
\<close>

theorem load_segment_records:
  assumes "load_ready V d s" "open_file (vfs s) f fl i" "p_type ph = PT_LOAD" "segment_valid (hw V) ph (dlength (idata i))"
    "unat (p_offset ph) + unat (p_filesz ph) < 2 ^ 31"
    "\<forall>p\<in>set (frame_table s). \<forall>(v, k, m)\<in>set (seg_pages ph). \<not> frame_holds s (finode fl) k m p"
  shows "\<exists>t es. load_phdr V f ph s = Inr (True, t) \<and> cur_page_table t = cur_page_table s @ es \<and>
      list_all2 (pending t f (p_flags ph AND PF_W \<noteq> 0)) es (seg_pages ph) \<and>
      pages t = pages s \<and> frame_table t = frame_table s \<and>
      (\<forall>v. is_user_vaddr (hw V) v \<longrightarrow> (\<exists>x. pagedir_get_page (hw V) (Some d) v s = Inr (x, s) \<and>
        pagedir_get_page (hw V) (Some d) v t = Inr (if pg_round_down (hw V) v \<in> fst ` set (seg_pages ph) then None else x, t)))"
proof -
  obtain t es h where t: "load_phdr V f ph s = Inr (True, t)" "load_ready V d t" "cur_page_table t = cur_page_table s @ es"
    "list_all2 (pending t f (p_flags ph AND PF_W \<noteq> 0)) es (seg_pages ph)"
    "load_frame (hw V) d (fst ` set (seg_pages ph)) (s\<lparr>vfs := (vfs s)\<lparr>file_heap := h\<rparr>\<rparr>) t"
    using load_phdr_wp[OF assms] by (auto simp: wpK_iff)
  have r: "dir_ready (hw V) d s" "dir_ready (hw V) d t" using assms(1) t(2) by (simp_all add: load_ready_def vm_ready_def)
  have "pd.translate (hw V) d t v = (if pg_round_down (hw V) v \<in> fst ` set (seg_pages ph) then None else pd.translate (hw V) d s v)"
    if "is_user_vaddr (hw V) v" for v
    using t(5) that unfolding load_frame_def pd.translate_def by (simp add: and.assoc)
  then show ?thesis
    using t r by (intro exI[of _ t] exI[of _ es]) (simp add: load_frame_def get_page_translate)
qed

text \<open>A program of one segment: one byte of the open file, on two pages, while another page of the file is in memory.\<close>

definition sim_load :: "(u32 \<Rightarrow> byte list) vm" where
  "sim_load = sim_vm\<lparr>vfs := sim_files, frame_table := [60], frame_heap := [60 \<mapsto> \<lparr>kpage = Some 0xC0005000, fspt = Some 61, shared = None,
       fload = True, ffile = Some 4, findex = - 1, ftype = FILE, fofs = 2, page_read_bytes = 3, fwritable = False\<rparr>],
     spt_heap := [61 \<mapsto> \<lparr>upage = 0x8050000, sframe = 60, sthread = 1\<rparr>]\<rparr>"

definition sim_phdr :: Elf32_Phdr where
  "sim_phdr = \<lparr>p_type = 1, p_offset = 0, p_vaddr = 0x8048000, p_paddr = 0, p_filesz = 1, p_memsz = 0x1800, p_flags = 7,
     p_align = 0x1000\<rparr>"

lemma sim_load_fields [simp]:
  "vfs sim_load = sim_files" "tables sim_load = tables sim_vm" "uthreads sim_load = [1 \<mapsto> sim_uthread]" "frame_table sim_load = [60]"
  "frame_lock sim_load = None" "vm_brk sim_load = 100"
  "init_page_dir sim_load = 0xC0000000" "cur_thread sim_files = 1" "pagedir sim_uthread = Some 0xC0001000"
  by (simp_all add: sim_load_def sim_vm_def sim_files_def sim_open_def sim_fs_def sim_uthread_def)

lemma sim_vm_shape: "dir_shape M (tables sim_vm) 0xC0001000" "no_table_of M (tables sim_vm) 0xC0001000 p \<or> pd_no M (PHYS_BASE M) > 1024 \<or> \<not> vaddr_ok M"
  using user_pd_no(2)[of M] by (auto simp: dir_shape_def no_table_of_def table_of_def sim_vm_def)

lemma sim_load_ready: "load_ready sim_vml 0xC0001000 sim_load"
proof -
  have "pd_ok (i386 sim_pool) (tables sim_vm) 0xC0001000" by (rule empty_pd_ok) (simp_all add: sim_vm_def)
  then have "vm_ready sim_vml 0xC0001000 sim_load"
    using sim_pool_ok by (simp add: vm_ready_def dir_ready_def) (simp add: sim_load_def)
  moreover have "comparable sim_vml 0xC0001000 sim_load 60"
    using sim_vm_shape[of "i386 sim_pool"] vaddr_ok_i386[of sim_pool] sim_files_open
    by (auto simp: comparable_def sim_load_def open_file_def sim_uthread_def sim_vm_def)
  ultimately show ?thesis by (simp add: load_ready_def) (simp add: sim_load_def)
qed

theorem load_segment_records_witness:
  "\<exists>t pe qe. load_phdr sim_vml 4 sim_phdr sim_load = Inr (True, t) \<and> cur_page_table t = [pe, qe] \<and>
     pending t 4 True pe (0x8048000, 0, 1) \<and> pending t 4 True qe (0x8049000, 1, 0)"
proof -
  have o: "open_file (vfs sim_load) 4 sim_handle sim_inode" using sim_files_open by simp
  have v: "segment_valid (hw sim_vml) sim_phdr (dlength (idata sim_inode))"
    by (simp add: segment_valid_def sim_phdr_def PGMASK_def PGSIZE_def)
  have "segment_layout sim_phdr = \<lparr>file_page = 0, mem_page = 0x8048000, read_bytes = 1, zero_bytes = 0x1fff\<rparr>"
    by (simp add: segment_layout_def sim_phdr_def PGMASK_def round_up_page_def PGSIZE_def)
  moreover have "map (seg_page 0 0x8048000 (Suc 0)) [0..<2] = [(0x8048000, 0, 1), (0x8049000, 1, 0)]"
    by (simp add: seg_page_def upt_rec PGSIZE_def)
  ultimately have ps: "seg_pages sim_phdr = [(0x8048000, 0, 1), (0x8049000, 1, 0)]" by (simp add: seg_pages_def PGSIZE_def)
  then have h: "\<forall>p\<in>set (frame_table sim_load). \<forall>(v, k, m)\<in>set (seg_pages sim_phdr). \<not> frame_holds sim_load (finode sim_handle) k m p"
    by (simp add: frame_holds_def) (simp add: sim_load_def)
  have "p_type sim_phdr = PT_LOAD" "unat (p_offset sim_phdr) + unat (p_filesz sim_phdr) < 2 ^ 31" "p_flags sim_phdr AND PF_W \<noteq> 0"
    by (simp_all add: sim_phdr_def PT_LOAD_def PF_W_def)
  from load_segment_records[OF sim_load_ready o this(1) v this(2) h] this(3)
  obtain t es where "load_phdr sim_vml 4 sim_phdr sim_load = Inr (True, t)" "cur_page_table t = cur_page_table sim_load @ es"
    "list_all2 (pending t 4 True) es [(0x8048000, 0, 1), (0x8049000, 1, 0)]"
    by (auto simp: ps)
  moreover have "cur_page_table sim_load = []" by (simp add: cur_page_table_def sim_uthread_def)
  ultimately show ?thesis by (auto simp: list_all2_Cons2)
qed

end
