(* ===== verification/Stack_Facts.thy ===== *)
theory Stack_Facts
  imports Load_Facts
begin

text \<open>
  The initial stack: user memory on one mapped page as a list of bytes, and the bytes that
  \<^verbatim>\<open>setup_stack\<close> puts there for a command line.
\<close>

section \<open>Access to one mapped page\<close>

text \<open>The running thread has directory \<open>d\<close>, which maps the page at \<open>u\<close> to the kernel page \<open>kp\<close>.\<close>

definition page_mapped :: "'d vmlib \<Rightarrow> u32 \<Rightarrow> u32 \<Rightarrow> u32 \<Rightarrow> 'd vm \<Rightarrow> bool" where
  "page_mapped V d u kp t \<longleftrightarrow> dir_ready (hw V) d t \<and> (\<exists>x. uthreads t (cur_thread (vfs t)) = Some x \<and> pagedir x = Some d) \<and>
     kernel_page (hw V) kp \<and> pg_ofs (hw V) u = 0 \<and> is_user_vaddr (hw V) u \<and> pd.translate (hw V) d t u = Some kp"

definition page_writable :: "'d vmlib \<Rightarrow> u32 \<Rightarrow> u32 \<Rightarrow> u32 \<Rightarrow> 'd vm \<Rightarrow> bool" where
  "page_writable V d u kp t \<longleftrightarrow> page_mapped V d u kp t \<and> entry_of (hw V) (tables t) d u AND PTE_W (hw V) \<noteq> 0"

definition with_page :: "'d vm \<Rightarrow> u32 \<Rightarrow> byte list \<Rightarrow> 'd vm" where
  "with_page t kp b = t\<lparr>pages := (pages t)(kp \<mapsto> b)\<rparr>"

lemma translate_cong: "tables t = tables s \<Longrightarrow> pd.translate M d t v = pd.translate M d s v"
  by (simp add: pd.translate_def)

lemma page_mapped_cong:
  assumes "page_mapped V d u kp t" "tables s = tables t" "uthreads s = uthreads t" "init_page_dir s = init_page_dir t"
    "cur_thread (vfs s) = cur_thread (vfs t)"
  shows "page_mapped V d u kp s"
  using assms translate_cong[OF assms(2)] by (simp add: page_mapped_def dir_ready_def)

lemma page_writable_cong:
  assumes "page_writable V d u kp t" "tables s = tables t" "uthreads s = uthreads t" "init_page_dir s = init_page_dir t"
    "cur_thread (vfs s) = cur_thread (vfs t)"
  shows "page_writable V d u kp s"
  using assms page_mapped_cong[OF _ assms(2-)] by (simp add: page_writable_def)

lemma table_room_cong:
  assumes "tables t = tables s" "pages t = pages s"
  shows "table_room M d t u = table_room M d s u"
proof -
  have "page_used t = page_used s" using assms by (auto simp: page_used_def)
  then show ?thesis using assms(1) by (simp add: table_room_def)
qed

lemma in_page:
  assumes "vaddr_ok M" "pg_ofs M u = 0" "n < 4096"
  shows "unat (u + of_nat n) = unat u + n" "pg_ofs M (u + of_nat n) = of_nat n" "pg_round_down M (u + of_nat n) = u"
proof -
  have a: "unat u mod 4096 = 0" using aligned_unat[OF assms(1)] assms(2) by simp
  define k where "k = unat u div 4096"
  have k: "unat u = k * 4096" using div_mult_mod_eq[of "unat u" 4096] a by (simp add: k_def)
  have "unat u < 2 ^ 32" using unsigned_less[of u, where ?'a = nat] by simp
  then have "k < 1048576" using k by simp
  then have lim: "unat u + n < 2 ^ 32" using k assms(3) by simp
  have n: "unat (of_nat n :: u32) = n" using assms(3) by (simp add: unat_of_nat)
  show u: "unat (u + of_nat n) = unat u + n" using unat_add_small[of u "of_nat n"] lim n by simp
  have "unat (pg_ofs M (u + of_nat n)) = n"
    using round_down_unat(2)[OF assms(1), of "u + of_nat n"] u k assms(3) by simp
  then show o: "pg_ofs M (u + of_nat n) = of_nat n" using n by (simp add: word_unat_eq_iff)
  show "pg_round_down M (u + of_nat n) = u" using assms(1) o by (simp add: vaddr_ok_def)
qed

lemma page_at:
  assumes "page_mapped V d u kp t" "n < 4096"
  shows "is_user_vaddr (hw V) (u + of_nat n)" "entry_of (hw V) T d (u + of_nat n) = entry_of (hw V) T d u"
proof -
  have M: "vaddr_ok (hw V)" and u: "pg_ofs (hw V) u = 0" "is_user_vaddr (hw V) u"
    using assms(1) by (simp_all add: page_mapped_def dir_ready_def mmu_ok_def)
  have same: "(pd_no (hw V) (u + of_nat n), pt_no (hw V) (u + of_nat n)) = (pd_no (hw V) u, pt_no (hw V) u)"
    using same_page_iff[OF M u(1)] in_page(3)[OF M u(1) assms(2)] by blast
  then show "entry_of (hw V) T d (u + of_nat n) = entry_of (hw V) T d u" by (simp add: entry_of_def split: option.splits)
  have "unat u < unat (PHYS_BASE (hw V))" using u(2) M by (simp add: vaddr_ok_def word_less_nat_alt)
  then have "unat u div 4096 < unat (PHYS_BASE (hw V)) div 4096"
    by (rule div_less_aligned) (rule phys_base_limit(1)[OF M])
  moreover have "unat (u + of_nat n) div 4096 = unat u div 4096" using same vpage_iff[OF M] by blast
  ultimately have "unat (u + of_nat n) < unat (PHYS_BASE (hw V))" by (metis div_le_mono not_le)
  then show "is_user_vaddr (hw V) (u + of_nat n)" using M by (simp add: vaddr_ok_def word_less_nat_alt)
qed

lemma with_page_ready: "page_mapped V d u kp t \<Longrightarrow> dir_ready (hw V) d (with_page t kp b)"
  by (simp add: page_mapped_def dir_ready_def with_page_def)

lemma page_mapped_kaddr:
  assumes "page_mapped V d u kp t" "n < 4096" "Q (kp + of_nat n) (with_page t kp b)"
  shows "wpK (user_kaddr V (u + of_nat n)) Q (with_page t kp b)"
proof -
  have M: "vaddr_ok (hw V)" using assms(1) by (simp add: page_mapped_def dir_ready_def mmu_ok_def)
  obtain x where x: "uthreads t (cur_thread (vfs t)) = Some x" "pagedir x = Some d" using assms(1) by (auto simp: page_mapped_def)
  have u: "pg_ofs (hw V) u = 0" using assms(1) by (simp add: page_mapped_def)
  have "pd.translate (hw V) d (with_page t kp b) (u + of_nat n) = Some (kp + of_nat n)"
    using assms(1) page_at(2)[OF assms(1,2)] in_page(2)[OF M u assms(2)] u
    by (auto simp: page_mapped_def pd.translate_def with_page_def split: if_splits)
  then show ?thesis
    using x assms(3) get_page_translate[OF with_page_ready[OF assms(1)] page_at(1)[OF assms(1,2)]]
    by (simp add: user_kaddr_def with_page_def) (simp add: wpK_def with_page_def nonnull_def kstep)
qed

lemma kernel_page_in:
  assumes "page_mapped V d u kp t" "n < 4096"
  shows "pg_round_down (hw V) (kp + of_nat n) = kp" "unat (pg_ofs (hw V) (kp + of_nat n)) = n"
proof -
  have M: "vaddr_ok (hw V)" and k: "pg_ofs (hw V) kp = 0"
    using assms(1) by (simp_all add: page_mapped_def dir_ready_def mmu_ok_def kernel_page_def)
  show "pg_round_down (hw V) (kp + of_nat n) = kp" "unat (pg_ofs (hw V) (kp + of_nat n)) = n"
    using in_page[OF M k assms(2)] assms(2) by (simp_all add: unat_of_nat)
qed

lemma get_user_wp:
  assumes "page_mapped V d u kp t" "n < 4096" "length b = 4096" "Q (b ! n) (with_page t kp b)"
  shows "wpK (get_user V (u + of_nat n)) Q (with_page t kp b)"
  unfolding get_user_def wpK_bind
  by (rule page_mapped_kaddr[OF assms(1,2)])
     (use kernel_page_in[OF assms(1,2)] assms(2-4) in \<open>simp add: with_page_def\<close>)

lemma put_user_wp:
  assumes "page_writable V d u kp t" "n < 4096" "length b = 4096" "Q () (with_page t kp (b[n := x]))"
  shows "wpK (put_user V (u + of_nat n) x) Q (with_page t kp b)"
proof -
  have pm: "page_mapped V d u kp t" and w: "entry_of (hw V) (tables t) d u AND PTE_W (hw V) \<noteq> 0"
    using assms(1) by (simp_all add: page_writable_def)
  obtain y where y: "uthreads t (cur_thread (vfs t)) = Some y" "pagedir y = Some d" using pm by (auto simp: page_mapped_def)
  have "test_flag (hw V) (PTE_W (hw V)) (Some d) (u + of_nat n) (with_page t kp b) = Inr (True, with_page t kp b)"
    unfolding test_flag_entry[OF with_page_ready[OF pm] page_at(1)[OF pm assms(2)]] page_at(2)[OF pm assms(2)]
    using w by (simp add: with_page_def)
  then have tf: "wpK (test_flag (hw V) (PTE_W (hw V)) (Some d) (u + of_nat n)) R (with_page t kp b) = R True (with_page t kp b)" for R
    by (simp add: wpK_def)
  show ?thesis unfolding put_user_def wpK_bind
    by (rule page_mapped_kaddr[OF pm assms(2)])
       (use y tf kernel_page_in[OF pm assms(2)] assms(2-4) in \<open>simp add: with_page_def\<close>)
qed

lemma put_bytes_Cons:
  "n < length b \<Longrightarrow> n + Suc (length xs) \<le> length b \<Longrightarrow> put_bytes (Suc n) xs (b[n := x]) = put_bytes n (x # xs) b"
  by (simp add: put_bytes_def take_Suc_conv_app_nth)

lemma user_write_wp:
  assumes "page_writable V d u kp t" "n + length xs \<le> 4096" "length b = 4096" "Q () (with_page t kp (put_bytes n xs b))"
  shows "wpK (user_write V (u + of_nat n) xs) Q (with_page t kp b)"
  using assms(2-4)
proof (induction xs arbitrary: n b)
  case Nil
  then show ?case by (simp add: put_bytes_def)
next
  case (Cons x xs)
  have "wpK (user_write V (u + of_nat (Suc n)) xs) Q (with_page t kp (b[n := x]))"
    by (rule Cons.IH) (use Cons.prems put_bytes_Cons[of n b xs x] in simp_all)
  then show ?case using Cons.prems
    by (simp add: add.assoc add.commute[of 1]) (rule put_user_wp[OF assms(1)], simp_all add: add.assoc add.commute[of 1])
qed

lemma user_read_wp:
  assumes "page_mapped V d u kp t" "n + k \<le> 4096" "length b = 4096"
  shows "user_read V (u + of_nat n) k (with_page t kp b) = Inr (get_bytes n k b, with_page t kp b)"
proof -
  have "wpK (user_read V (u + of_nat n) k) (\<lambda>r s. r = get_bytes n k b \<and> s = with_page t kp b) (with_page t kp b)"
    using assms(2)
  proof (induction k arbitrary: n)
    case 0
    then show ?case by (simp add: get_bytes_def)
  next
    case (Suc k)
    have g: "get_bytes n (Suc k) b = b ! n # get_bytes (Suc n) k b"
      using Suc.prems assms(3) by (simp add: get_bytes_def Cons_nth_drop_Suc[symmetric] take_Suc_Cons)
    have "wpK (user_read V (u + of_nat (Suc n)) k) (\<lambda>r s. r = get_bytes (Suc n) k b \<and> s = with_page t kp b) (with_page t kp b)"
      by (rule Suc.IH) (use Suc.prems in simp)
    then have "wpK (get_user V (u + of_nat n)) (\<lambda>x. wpK (bindK (user_read V (u + of_nat (Suc n)) k) (\<lambda>xs. retK (x # xs)))
        (\<lambda>r s. r = get_bytes n (Suc k) b \<and> s = with_page t kp b)) (with_page t kp b)"
      by (intro get_user_wp[OF assms(1)]) (use Suc.prems assms(3) g in \<open>auto simp: wpK_iff kstep\<close>)
    then show ?case by (simp add: add.assoc add.commute[of 1])
  qed
  then show ?thesis by (auto simp: wpK_iff)
qed

section \<open>The bytes of the stack\<close>

text \<open>
  The strings below offset \<open>n\<close>, each below the one before: their offsets, and the page with them.
\<close>

primrec string_offsets :: "cstr list \<Rightarrow> nat \<Rightarrow> nat list" where
  "string_offsets [] n = []"
| "string_offsets (t # ts) n = (n - Suc (length t)) # string_offsets ts (n - Suc (length t))"

primrec put_strings :: "cstr list \<Rightarrow> nat \<Rightarrow> byte list \<Rightarrow> byte list" where
  "put_strings [] n b = b"
| "put_strings (t # ts) n b = put_strings ts (n - Suc (length t)) (put_bytes (n - Suc (length t)) (t @ [0]) b)"

definition strings_size :: "cstr list \<Rightarrow> nat" where
  "strings_size ts = sum_list (map (\<lambda>t. Suc (length t)) ts)"

lemma strings_size_simps [simp]: "strings_size [] = 0" "strings_size (t # ts) = Suc (length t) + strings_size ts"
  by (simp_all add: strings_size_def)

lemma length_string_offsets [simp]: "length (string_offsets ts n) = length ts"
  by (induction ts arbitrary: n) simp_all

text \<open>Equal at and above an offset.\<close>

definition same_above :: "nat \<Rightarrow> byte list \<Rightarrow> byte list \<Rightarrow> bool" where
  "same_above n b c \<longleftrightarrow> length c = length b \<and> drop n c = drop n b"

lemma same_above_drop: "same_above n b c \<Longrightarrow> n \<le> k \<Longrightarrow> drop k c = drop k b"
  unfolding same_above_def by (metis drop_drop le_add_diff_inverse2)

lemma same_above_get: "same_above n b c \<Longrightarrow> n \<le> k \<Longrightarrow> get_bytes k m c = get_bytes k m b"
  by (simp add: get_bytes_def same_above_drop)

lemma same_above_put: "n + length xs \<le> m \<Longrightarrow> m \<le> length b \<Longrightarrow> same_above m b (put_bytes n xs b)"
  by (simp add: same_above_def put_bytes_def)

lemma same_above_trans: "same_above m b c \<Longrightarrow> same_above n c e \<Longrightarrow> n \<le> m \<Longrightarrow> same_above m b e"
  using same_above_drop[of n c e m] by (simp add: same_above_def)

lemma put_strings_same: "strings_size ts \<le> n \<Longrightarrow> n \<le> length b \<Longrightarrow> same_above n b (put_strings ts n b)"
proof (induction ts arbitrary: n b)
  case Nil
  then show ?case by (simp add: same_above_def)
next
  case (Cons t ts)
  let ?n = "n - Suc (length t)" and ?b = "put_bytes (n - Suc (length t)) (t @ [0]) b"
  have l: "length ?b = length b" using Cons.prems by simp
  have "same_above n b ?b" by (rule same_above_put) (use Cons.prems in simp_all)
  moreover have "same_above ?n ?b (put_strings ts ?n ?b)" by (rule Cons.IH) (use Cons.prems l in simp_all)
  ultimately show ?case by (simp add: same_above_trans)
qed

text \<open>Every string is at its offset.\<close>

lemma put_strings_get:
  "strings_size ts \<le> n \<Longrightarrow> n \<le> length b \<Longrightarrow> i < length ts \<Longrightarrow>
   get_bytes (string_offsets ts n ! i) (Suc (length (ts ! i))) (put_strings ts n b) = ts ! i @ [0] \<and>
   n - strings_size ts \<le> string_offsets ts n ! i \<and> string_offsets ts n ! i + Suc (length (ts ! i)) \<le> n"
proof (induction ts arbitrary: n b i)
  case Nil
  then show ?case by simp
next
  case (Cons t ts)
  let ?n = "n - Suc (length t)" and ?b = "put_bytes (n - Suc (length t)) (t @ [0]) b"
  have l: "length ?b = length b" "strings_size ts \<le> ?n" using Cons.prems by simp_all
  show ?case
  proof (cases i)
    case 0
    have "get_bytes ?n (Suc (length t)) (put_strings ts ?n ?b) = get_bytes ?n (Suc (length t)) ?b"
      by (rule same_above_get[OF put_strings_same]) (use l Cons.prems in simp_all)
    then show ?thesis using 0 Cons.prems by simp
  next
    case (Suc j)
    have "get_bytes (string_offsets ts ?n ! j) (Suc (length (ts ! j))) (put_strings ts ?n ?b) = ts ! j @ [0] \<and>
        ?n - strings_size ts \<le> string_offsets ts ?n ! j \<and> string_offsets ts ?n ! j + Suc (length (ts ! j)) \<le> ?n"
      by (rule Cons.IH) (use l Cons.prems Suc in simp_all)
    then show ?thesis using Suc by auto
  qed
qed

text \<open>Words below offset \<open>n\<close>, each below the one before: read upwards they are in reverse order.\<close>

primrec put_words :: "u32 list \<Rightarrow> nat \<Rightarrow> byte list \<Rightarrow> byte list" where
  "put_words [] n b = b"
| "put_words (w # ws) n b = put_words ws (n - 4) (put_bytes (n - 4) (le32 w) b)"

lemma put_words_same: "4 * length ws \<le> n \<Longrightarrow> n \<le> length b \<Longrightarrow> same_above n b (put_words ws n b)"
proof (induction ws arbitrary: n b)
  case Nil
  then show ?case by (simp add: same_above_def)
next
  case (Cons w ws)
  have "same_above n b (put_bytes (n - 4) (le32 w) b)" by (rule same_above_put) (use Cons.prems in simp_all)
  moreover have "same_above (n - 4) (put_bytes (n - 4) (le32 w) b) (put_words ws (n - 4) (put_bytes (n - 4) (le32 w) b))"
    by (rule Cons.IH) (use Cons.prems in simp_all)
  ultimately show ?case by (simp add: same_above_trans)
qed

lemma get_bytes_split: "get_bytes n (j + k) b = get_bytes n j b @ get_bytes (n + j) k b"
  by (simp add: get_bytes_def take_add add.commute)

lemma put_words_get:
  "4 * length ws \<le> n \<Longrightarrow> n \<le> length b \<Longrightarrow>
   get_bytes (n - 4 * length ws) (4 * length ws) (put_words ws n b) = bytes_of_words (rev ws)"
proof (induction ws arbitrary: n b)
  case Nil
  then show ?case by (simp add: get_bytes_def bytes_of_words_def)
next
  case (Cons w ws)
  let ?b = "put_bytes (n - 4) (le32 w) b"
  let ?c = "put_words ws (n - 4) ?b"
  have l: "length ?b = length b" using Cons.prems by simp
  have low: "get_bytes (n - 4 - 4 * length ws) (4 * length ws) ?c = bytes_of_words (rev ws)"
    by (rule Cons.IH) (use Cons.prems l in simp_all)
  have "get_bytes (n - 4) 4 ?c = get_bytes (n - 4) 4 ?b"
    by (rule same_above_get[OF put_words_same]) (use Cons.prems l in simp_all)
  then have high: "get_bytes (n - 4) 4 ?c = le32 w" using Cons.prems by simp
  have "n - 4 * length (w # ws) = n - 4 - 4 * length ws" "4 * length (w # ws) = 4 * length ws + 4"
    "n - 4 - 4 * length ws + 4 * length ws = n - 4" using Cons.prems by simp_all
  then show ?case using low high get_bytes_split[of "n - 4 - 4 * length ws" "4 * length ws" 4 ?c]
    by (simp add: bytes_of_words_def add.commute)
qed

section \<open>Pushing the arguments\<close>

text \<open>The page just below \<^verbatim>\<open>PHYS_BASE\<close>, mapped to \<open>kp\<close>.\<close>

definition stack_mapped :: "'d vmlib \<Rightarrow> u32 \<Rightarrow> u32 \<Rightarrow> u32 \<Rightarrow> 'd vm \<Rightarrow> bool" where
  "stack_mapped V d u kp t \<longleftrightarrow> page_writable V d u kp t \<and> unat u + 4096 = unat (PHYS_BASE (hw V)) \<and> 0x08048000 < unat u"

lemma stack_unat:
  assumes "stack_mapped V d u kp t" "n \<le> 4096"
  shows "unat (u + of_nat n) = unat u + n"
proof -
  have "unat (PHYS_BASE (hw V)) < 2 ^ 32" using unsigned_less[of "PHYS_BASE (hw V)", where ?'a = nat] by simp
  moreover have "unat (of_nat n :: u32) = n" using assms(2) by (simp add: unat_of_nat)
  ultimately show ?thesis using unat_add_small[of u "of_nat n"] assms by (simp add: stack_mapped_def)
qed

lemma stack_check_esp:
  assumes "stack_mapped V d u kp t" "n \<le> 4096"
  shows "check_esp (hw V) (u + of_nat n)"
  using stack_unat[OF assms] assms by (simp add: check_esp_def stack_mapped_def word_le_nat_alt word_less_nat_alt)

lemma esp_minus: "m \<le> n \<Longrightarrow> u + of_nat n - of_nat m = u + (of_nat (n - m) :: u32)"
  by (simp add: of_nat_diff)

lemma push_strings_wp:
  assumes "stack_mapped V d u kp t"
  shows "strings_size ts \<le> n \<Longrightarrow> n \<le> 4096 \<Longrightarrow> length b = 4096 \<Longrightarrow> length argv + length ts < 64 \<Longrightarrow>
    Q (Some (u + of_nat (n - strings_size ts), argv @ map (\<lambda>k. u + of_nat k) (string_offsets ts n)))
      (with_page t kp (put_strings ts n b)) \<Longrightarrow> wpK (push_strings V ts (u + of_nat n) argv) Q (with_page t kp b)"
proof (induction ts arbitrary: n b argv)
  case Nil
  then show ?case by simp
next
  case (Cons x ts)
  let ?n = "n - Suc (length x)"
  have e: "u + of_nat n - (of_nat (length x) + 1) = u + of_nat ?n"
    using esp_minus[of "Suc (length x)" n u] Cons.prems(1) by (simp add: add.commute)
  have pm: "page_writable V d u kp t" using assms by (simp add: stack_mapped_def)
  have "wpK (push_strings V ts (u + of_nat ?n) (argv @ [u + of_nat ?n])) Q (with_page t kp (put_bytes ?n (x @ [0]) b))"
    by (rule Cons.IH) (use Cons.prems in simp_all)
  then have "wpK (user_write V (u + of_nat ?n) (x @ [0])) (\<lambda>_. wpK (push_strings V ts (u + of_nat ?n) (argv @ [u + of_nat ?n])) Q)
      (with_page t kp b)"
    by (intro user_write_wp[OF pm]) (use Cons.prems in simp_all)
  then show ?case
    using Cons.prems stack_check_esp[OF assms, of ?n] by (simp add: Let_def e ARGV_SIZE_def)
qed

lemma push_words_wp:
  assumes "page_writable V d u kp t"
  shows "4 * length ws \<le> n \<Longrightarrow> n \<le> 4096 \<Longrightarrow> length b = 4096 \<Longrightarrow>
    Q (u + of_nat (n - 4 * length ws)) (with_page t kp (put_words ws n b)) \<Longrightarrow>
    wpK (push_words V (u + of_nat n) ws) Q (with_page t kp b)"
proof (induction ws arbitrary: n b)
  case Nil
  then show ?case by simp
next
  case (Cons w ws)
  have e: "u + of_nat n - 4 = u + of_nat (n - 4)" using esp_minus[of 4 n u] Cons.prems(1) by simp
  have "wpK (push_words V (u + of_nat (n - 4)) ws) Q (with_page t kp (put_bytes (n - 4) (le32 w) b))"
    by (rule Cons.IH) (use Cons.prems in \<open>simp_all add: add.commute\<close>)
  then have "wpK (user_write V (u + of_nat (n - 4)) (le32 w)) (\<lambda>_. wpK (push_words V (u + of_nat (n - 4)) ws) Q) (with_page t kp b)"
    by (intro user_write_wp[OF assms]) (use Cons.prems in simp_all)
  then show ?case by (simp add: push_word_def e)
qed

lemma push_words_snoc: "push_words V esp (ws @ [w]) = bindK (push_words V esp ws) (\<lambda>esp. push_word V esp w)"
proof (induction ws arbitrary: esp)
  case Nil
  show ?case by (rule ext) (auto simp: kstep push_word_def split: sum.splits)
next
  case (Cons x ws)
  show ?case by (rule ext) (auto simp: Cons kstep split: sum.splits)
qed

lemma put_words_append: "put_words (ws @ vs) n b = put_words vs (n - 4 * length ws) (put_words ws n b)"
  by (induction ws arbitrary: n b) simp_all

text \<open>The words of the initial stack from the top down, and the page with strings and words.\<close>

definition argument_words :: "u32 \<Rightarrow> u32 list \<Rightarrow> u32 list" where
  "argument_words ap argv = rev (argv @ [0]) @ [ap, of_nat (length argv), 0]"

lemma push_arguments_wp:
  assumes "stack_mapped V d u kp t" "n \<le> 4096" "4 * length argv + 20 \<le> n" "length b = 4096"
  defines "m \<equiv> n - n mod 4"
  defines "ap \<equiv> u + of_nat (m - 4 * (length argv + 1))"
  assumes Q: "Q (Some (u + of_nat (m - 4 * (length argv + 4)))) (with_page t kp (put_words (argument_words ap argv) m b))"
  shows "wpK (push_arguments V (u + of_nat n) argv) Q (with_page t kp b)"
proof -
  have pm: "page_writable V d u kp t" and M: "vaddr_ok (hw V)" and al: "pg_ofs (hw V) u = 0"
    using assms(1) by (simp_all add: stack_mapped_def page_writable_def page_mapped_def dir_ready_def mmu_ok_def)
  have m: "m \<le> n" "n \<le> m + 3" "4 * length argv + 17 \<le> m" using assms(3) mod_less_divisor[of 4 n] by (auto simp: m_def)
  have c: "u + of_nat n - 4 - 1 - of_nat (length argv) * 4 - 4 - 4 - 4 = u + of_nat (n - (4 * length argv + 17))"
    using esp_minus[of "4 * length argv + 17" n u] assms(3) by (simp add: algebra_simps)
  have chk: "check_esp (hw V) (u + of_nat (n - (4 * length argv + 17)))" by (rule stack_check_esp[OF assms(1)]) (use assms(2) in simp)
  have "unat u mod 4096 = 0" using aligned_unat[OF M] al by simp
  then have "unat u mod 4 = 0" using mod_mod_cancel[of 4 4096 "unat u"] by simp
  then have "unat ((u + of_nat n) mod 4) = n mod 4"
    using stack_unat[OF assms(1,2)] by (simp add: unat_mod mod_add_left_eq[symmetric])
  then have a: "(u + of_nat n) mod 4 = of_nat (n mod 4)" by (simp add: word_unat_eq_iff unat_of_nat)
  have e: "u + of_nat n - (u + of_nat n) mod 4 = u + of_nat m"
    unfolding a m_def by (rule esp_minus) (rule mod_less_eq_dividend)
  let ?ws = "rev (argv @ [0])"
  have lw: "length (argument_words ap argv) = length argv + 4" by (simp add: argument_words_def)
  have w: "wpK (push_words V (u + of_nat m) (argument_words ap argv)) (\<lambda>esp. Q (Some esp)) (with_page t kp b)"
  proof (rule push_words_wp[OF pm], unfold lw)
    show "4 * (length argv + 4) \<le> m" using m(3) by simp
    show "m \<le> 4096" using m(1) assms(2) by simp
  qed (fact assms(4), fact Q)
  have "wpK (push_words V (u + of_nat m) ?ws) (\<lambda>esp s. esp = ap \<and> s = with_page t kp (put_words ?ws m b)) (with_page t kp b)"
    by (rule push_words_wp[OF pm]) (use m assms(2,4) in \<open>simp_all add: ap_def\<close>)
  then obtain r where r: "push_words V (u + of_nat m) ?ws (with_page t kp b) = Inr (ap, r)" unfolding wpK_iff by blast
  have al: "argument_words ap argv = ((?ws @ [ap]) @ [of_nat (length argv)]) @ [0]" by (simp add: argument_words_def)
  have "wpK (push_words V (u + of_nat m) ?ws) (\<lambda>esp. wpK (push_word V esp esp) (\<lambda>esp. wpK (push_word V esp (of_nat (length argv)))
      (\<lambda>esp. wpK (push_word V esp 0) (\<lambda>esp. Q (Some esp))))) (with_page t kp b)"
    using w unfolding al push_words_snoc wpK_bind_fun wpK_bind
    by (simp only: wpK_def[of "push_words V (u + of_nat m) ?ws"] r sum.case prod.case)
  then show ?thesis using chk unfolding c[symmetric] by (simp add: push_arguments_def Let_def e)
qed

section \<open>The stack of a new process\<close>

lemma rev_argument_words: "rev (argument_words ap argv) = [0, of_nat (length argv), ap] @ argv @ [0]"
  by (simp add: argument_words_def)

text \<open>What a program finds on its stack: the return address, \<^verbatim>\<open>argc\<close>, \<^verbatim>\<open>argv\<close>, and the strings.\<close>

definition stack_holds :: "'d vmlib \<Rightarrow> 'd vm \<Rightarrow> u32 \<Rightarrow> cstr list \<Rightarrow> bool" where
  "stack_holds V t esp args \<longleftrightarrow> esp mod 4 = 0 \<and> (\<exists>argv. length argv = length args \<and>
     user_read V esp (4 * (length args + 4)) t =
       Inr (bytes_of_words ([0, of_nat (length args), esp + 12] @ argv @ [0]), t) \<and>
     (\<forall>i<length args. user_read V (argv ! i) (Suc (length (args ! i))) t = Inr (args ! i @ [0], t)))"

lemma push_all_wp:
  assumes st: "stack_mapped V d u kp t" and len: "length b = 4096" "length ts < 64" "strings_size ts + 4 * length ts + 20 \<le> 4096"
  shows "wpK (push_strings V ts (u + of_nat 4096) []) (\<lambda>r. wpK (case r of None \<Rightarrow> retK None
      | Some (esp, argv) \<Rightarrow> push_arguments V esp argv) (\<lambda>r t. case r of None \<Rightarrow> False
      | Some esp \<Rightarrow> unat u \<le> unat esp \<and> stack_holds V t esp ts \<and> page_writable V d u kp t)) (with_page t kp b)"
proof -
  let ?n = "4096 - strings_size ts"
  define m where "m = ?n - ?n mod 4"
  define argv where "argv = map (\<lambda>k. u + of_nat k :: u32) (string_offsets ts 4096)"
  define ap where "ap = u + of_nat (m - 4 * (length argv + 1))"
  define esp where "esp = u + of_nat (m - 4 * (length argv + 4))"
  define c where "c = put_strings ts 4096 b"
  define e where "e = put_words (argument_words ap argv) m c"
  have pm: "page_mapped V d u kp t" and M: "vaddr_ok (hw V)" and al: "pg_ofs (hw V) u = 0"
    using st by (simp_all add: stack_mapped_def page_writable_def page_mapped_def dir_ready_def mmu_ok_def)
  have la: "length argv = length ts" by (simp add: argv_def)
  have lw: "length (argument_words ap argv) = length ts + 4" by (simp add: argument_words_def la)
  have m: "m \<le> ?n" "4 * (length ts + 4) \<le> m" "m mod 4 = 0"
    using len(3) mod_less_divisor[of 4 ?n] by (auto simp: m_def minus_mod_eq_div_mult)
  have c: "length c = 4096" using put_strings_same[of ts 4096 b] len by (simp add: same_above_def c_def)
  have se: "same_above m c e" unfolding e_def by (rule put_words_same) (use m lw c in simp_all)
  then have e: "length e = 4096" using c by (simp add: same_above_def)
  have mw: "m - 4 * (length ts + 4) + 4 * (length ts + 4) \<le> 4096" using m by simp
  have ap: "ap = esp + 12" using m(2) by (simp add: ap_def esp_def la of_nat_diff)
  have words: "user_read V esp (4 * (length ts + 4)) (with_page t kp e) =
      Inr (bytes_of_words ([0, of_nat (length ts), esp + 12] @ argv @ [0]), with_page t kp e)"
  proof -
    have "get_bytes (m - 4 * (length ts + 4)) (4 * (length ts + 4)) e = bytes_of_words (rev (argument_words ap argv))"
      using put_words_get[of "argument_words ap argv" m c] m c unfolding lw e_def by simp
    then show ?thesis
      using user_read_wp[OF pm mw e] unfolding esp_def la rev_argument_words ap[unfolded esp_def la] by simp
  qed
  have strs: "user_read V (argv ! i) (Suc (length (ts ! i))) (with_page t kp e) = Inr (ts ! i @ [0], with_page t kp e)"
    if "i < length ts" for i
  proof -
    have g: "get_bytes (string_offsets ts 4096 ! i) (Suc (length (ts ! i))) c = ts ! i @ [0]"
      "?n \<le> string_offsets ts 4096 ! i" "string_offsets ts 4096 ! i + Suc (length (ts ! i)) \<le> 4096"
      using put_strings_get[of ts 4096 b i] that len by (simp_all add: c_def)
    then have "get_bytes (string_offsets ts 4096 ! i) (Suc (length (ts ! i))) e = ts ! i @ [0]"
      using same_above_get[OF se, of "string_offsets ts 4096 ! i"] m(1) by simp
    then show ?thesis using user_read_wp[OF pm g(3) e] that by (simp add: argv_def)
  qed
  have ue: "unat esp = unat u + (m - 4 * (length ts + 4))"
    unfolding esp_def la by (rule stack_unat[OF st]) (use m(1) in linarith)
  have "unat u mod 4096 = 0" using aligned_unat[OF M] al by simp
  then have "unat u mod 4 = 0" using mod_mod_cancel[of 4 4096 "unat u"] by simp
  then have "4 dvd unat u" by (simp only: mod_eq_0_iff_dvd)
  moreover have "4 dvd m" using m(3) by (simp only: mod_eq_0_iff_dvd)
  ultimately have "4 dvd unat esp" unfolding ue by (intro dvd_add dvd_diff_nat) simp_all
  then have "unat (esp mod 4) = 0" by (simp add: unat_mod)
  then have "stack_holds V (with_page t kp e) esp ts"
    unfolding stack_holds_def using words strs la by (auto simp: unat_eq_zero)
  moreover have "unat u \<le> unat esp" using ue by simp
  moreover have "page_writable V d u kp (with_page t kp e)"
    by (rule page_writable_cong[of V d u kp t]) (use st in \<open>simp_all add: stack_mapped_def with_page_def\<close>)
  ultimately have post: "case Some esp of None \<Rightarrow> False | Some r \<Rightarrow> unat u \<le> unat r \<and> stack_holds V (with_page t kp e) r ts \<and> page_writable V d u kp (with_page t kp e)"
    by simp
  have "wpK (push_arguments V (u + of_nat ?n) argv) (\<lambda>r t. case r of None \<Rightarrow> False
      | Some esp \<Rightarrow> unat u \<le> unat esp \<and> stack_holds V t esp ts \<and> page_writable V d u kp t) (with_page t kp c)"
  proof (rule push_arguments_wp[OF st])
    show "4 * length argv + 20 \<le> ?n" "length c = 4096" using len(3) la c by simp_all
  qed (simp, unfold m_def[symmetric] ap_def[symmetric] esp_def[symmetric] e_def[symmetric], fact post)
  then show ?thesis
    by (intro push_strings_wp[OF st]) (use len in \<open>simp_all flip: c_def argv_def\<close>)
qed

lemma frame_with_found:
  "\<forall>p\<in>set l. h p \<noteq> None \<Longrightarrow> \<exists>q\<in>set l. map_option kpage (h q) = Some kp \<Longrightarrow> \<exists>q. frame_with h kp l = Inr (Some q)"
  by (induction l) (auto split: option.splits)

lemma palloc_free_page_wp [wp, simp]:
  "wpK (palloc_free_page p) Q s \<longleftrightarrow> page_used s p \<and>
     Q () (s\<lparr>tables := (tables s)(p := None), pages := (pages s)(p := None)\<rparr>)"
  by (auto simp: palloc_free_page_def)

text \<open>Mapping the first stack page; on failure the frame is in the table, for \<^verbatim>\<open>frame_destroy\<close>.\<close>

lemma install_stack_wp:
  assumes r: "vm_ready V d s" and u: "is_user_vaddr (hw V) u" "pg_ofs (hw V) u = 0" and k: "kernel_page (hw V) kp"
    and free: "pd.translate (hw V) d s u = None"
    and none: "\<And>t q. \<not> table_room (hw V) d s u \<Longrightarrow> frame_lock t = None \<Longrightarrow> pages t = pages s \<Longrightarrow>
      frame_with (frame_heap t) (Some kp) (frame_table t) = Inr (Some q) \<Longrightarrow> Q False t"
    and some: "\<And>t. table_room (hw V) d s u \<Longrightarrow> page_writable V d u kp t \<Longrightarrow> pages t = pages s \<Longrightarrow> Q True t"
  shows "wpK (install_frame V u (Some kp) True None SWAP 0 0) Q s"
proof -
  obtain x where x: "uthreads s (cur_thread (vfs s)) = Some x" "pagedir x = Some d" using r by (auto simp: vm_ready_def)
  have rd: "dir_ready (hw V) d s" and lk: "frame_lock s = None" and mem: "\<And>p. obj_ok V p"
    and fr: "\<forall>p\<in>set (frame_table s). frame_heap s p \<noteq> None"
    using r unfolding vm_ready_def by blast+
  then have M: "mmu_ok (hw V)" "vaddr_ok (hw V)" and ok: "pd_ok (hw V) (tables s) d" and ipd: "d \<noteq> init_page_dir s"
    by (simp_all add: dir_ready_def mmu_ok_def)
  have rdn: "pg_round_down (hw V) u = u" using M(2) u(2) by (simp add: vaddr_ok_def)
  let ?p = "vm_brk s" and ?pe = "Suc (vm_brk s)" and ?me = "cur_thread (vfs s)"
  let ?fe = "\<lparr>kpage = Some kp, fspt = Some ?pe, shared = None, fload = True, ffile = None, findex = - 1,
       ftype = SWAP, fofs = 0, page_read_bytes = 0, fwritable = True\<rparr> :: frame_elem"
  let ?s = "s\<lparr>frame_table := frame_table s @ [?p], frame_lock := None, vm_brk := Suc ?pe,
    spt_heap := (spt_heap s)(?pe \<mapsto> \<lparr>upage = u, sframe = ?p, sthread = ?me\<rparr>),
    frame_heap := (frame_heap s)(?p \<mapsto> ?fe), uthreads := (uthreads s)(?me \<mapsto> x\<lparr>page_table := page_table x @ [?pe]\<rparr>)\<rparr>"
  have r': "dir_ready (hw V) d ?s" using rd by (simp add: dir_ready_def)
  have abs: "entry_of (hw V) (tables ?s) d u AND PTE_P (hw V) = 0"
    using free by (auto simp: pd.translate_def split: if_splits)
  then have "pd.translate (hw V) d ?s u = None" by (simp only: pd.translate_def) simp
  then have g: "pagedir_get_page (hw V) (Some d) u ?s = Inr (None, ?s)" by (simp only: get_page_translate[OF r' u(1)])
  have room: "table_room (hw V) d ?s u = table_room (hw V) d s u" by (rule table_room_cong) simp_all
  have "wpK (pagedir_set_page (hw V) (Some d) u kp True) Q ?s"
  proof (rule set_page_wp[OF M(1) _ u k _ abs])
    fix t assume nr: "\<not> table_room (hw V) d ?s u" and "entry_set (hw V) d u (entry_of (hw V) (tables ?s) d u) ?s t"
    then obtain T c where t: "t = ?s\<lparr>tables := T, cr3 := c\<rparr>" by (auto simp: entry_set_def)
    have "\<exists>q. frame_with (frame_heap t) (Some kp) (frame_table t) = Inr (Some q)"
      by (rule frame_with_found) (use fr in \<open>auto simp: t\<close>)
    then show "Q False t" using none[of t] t nr room by auto
  next
    fix t assume ro: "table_room (hw V) d ?s u" and "entry_set (hw V) d u (pte_create_user (hw V) kp True) ?s t"
    then obtain T c where t: "t = ?s\<lparr>tables := T, cr3 := c\<rparr>" and T: "pd_ok (hw V) T d" "entry_of (hw V) T d u = pte_create_user (hw V) kp True"
      by (auto simp: entry_set_def)
    have "pd.translate (hw V) d t u = Some kp"
      using T(2) u(2) M(1) k by (auto simp: t pd.translate_def mmu_ok_def pte_ok_def)
    then have "page_mapped V d u kp t" using T(1) x u k M(1) ipd by (simp add: page_mapped_def t dir_ready_def)
    moreover have "pte_create_user (hw V) kp True AND PTE_W (hw V) \<noteq> 0" using M(1) k by (simp add: mmu_ok_def pte_ok_def)
    ultimately have "page_writable V d u kp t" using T(2) by (simp add: page_writable_def t)
    then show "Q True t" using some[of t] ro room by (simp add: t)
  qed (use ok ipd in simp_all)
  then have i: "wpK (install_page V u kp True) Q ?s" using x g by (simp add: install_page_def) (simp add: wpK_def)
  have "wpK (bindK (frame_table_insert V (Some kp) None SWAP 0 0 True) (\<lambda>p. bindK (spt_init V u p) (\<lambda>_.
      bindK (nonnull (Some kp)) (\<lambda>k. install_page V u k True)))) Q s"
    using x lk mem i by (simp add: frame_table_insert_def spt_init_def Let_def)
  then show ?thesis using rdn by (simp add: install_frame_def)
qed

lemma get_kpage_now:
  assumes "palloc (hw V) True (page_used s) = Some kp"
    and "Q kp (s\<lparr>pages := (pages s)(kp \<mapsto> if zero then replicate PGSIZE 0 else palloc_junk (hw V))\<rparr>)"
  shows "wpK (get_kpage V zero) Q s"
  using assms by (simp add: get_kpage_def palloc_get_data_def)

lemma stack_page:
  assumes "vaddr_ok M" "0x0804A000 \<le> unat (PHYS_BASE M)"
  defines "u \<equiv> PHYS_BASE M - of_nat PGSIZE"
  shows "unat u + 4096 = unat (PHYS_BASE M)" "is_user_vaddr M u" "pg_ofs M u = 0" "u + of_nat PGSIZE = PHYS_BASE M"
    "0x08048000 < unat u"
proof -
  have "of_nat PGSIZE \<le> PHYS_BASE M" using assms(2) by (simp add: word_le_nat_alt PGSIZE_def)
  then have "unat u = unat (PHYS_BASE M) - 4096" by (simp add: u_def unat_sub PGSIZE_def)
  then show un: "unat u + 4096 = unat (PHYS_BASE M)" "0x08048000 < unat u" using assms(2) by simp_all
  then show "is_user_vaddr M u" using assms(1) by (simp add: vaddr_ok_def word_less_nat_alt)
  have "(unat u + 4096) mod 4096 = 0" unfolding un using phys_base_limit(1)[OF assms(1)] .
  then show "pg_ofs M u = 0" by (simp add: aligned_unat[OF assms(1)])
  show "u + of_nat PGSIZE = PHYS_BASE M" by (simp add: u_def)
qed

text \<open>
  C38. \<^verbatim>\<open>setup_stack\<close> passes the command line to the program. When a page is free and the words of
  the command line, at most 63, fit on it with their pointers, the outcome depends only on the page
  table for the stack. When there is one, or another page is free for it, the page below
  \<^verbatim>\<open>PHYS_BASE\<close> is mapped and writable and
  the program starts with an aligned stack pointer at which user memory holds a return address,
  the number of words, a pointer to the vector above it, the vector of pointers, and a null
  pointer; at each of the pointers user memory holds the word, in order, with a zero byte.
  Otherwise there is no stack, and the page has been given back. Frames with pages of files may be
  in memory.
\<close>

theorem setup_stack_passes_arguments:
  fixes V :: "'d vmlib"
  assumes "vm_ready V d s" "pagedir_get_page (hw V) (Some d) (PHYS_BASE (hw V) - of_nat PGSIZE) s = Inr (None, s)"
    "palloc (hw V) True (page_used s) = Some kp" "0x0804A000 \<le> unat (PHYS_BASE (hw V))"
    "length (tokens cmd) < ARGV_SIZE" "strings_size (tokens cmd) + 4 * length (tokens cmd) + 20 \<le> PGSIZE"
  shows "\<exists>r t. setup_stack V cmd s = Inr (r, t) \<and>
    (if table_room (hw V) d (with_page s kp (replicate PGSIZE 0)) (PHYS_BASE (hw V) - of_nat PGSIZE)
     then \<exists>esp. r = Some esp \<and> unat (PHYS_BASE (hw V)) - PGSIZE \<le> unat esp \<and> stack_holds V t esp (tokens cmd) \<and>
       test_flag (hw V) (PTE_W (hw V)) (Some d) (PHYS_BASE (hw V) - of_nat PGSIZE) t = Inr (True, t)
     else r = None \<and> pages t kp = None)"
proof -
  have M: "mmu_ok (hw V)" "vaddr_ok (hw V)" and rd: "dir_ready (hw V) d s"
    using assms(1) by (simp_all add: vm_ready_def dir_ready_def mmu_ok_def)
  then have k: "kernel_page (hw V) kp" using assms(3) by (auto simp: mmu_ok_def palloc_ok_def)
  let ?u = "PHYS_BASE (hw V) - of_nat PGSIZE"
  note u = stack_page[OF M(2) assms(4)]
  let ?s = "with_page s kp (replicate PGSIZE 0)"
  let ?Q = "\<lambda>r t. if table_room (hw V) d ?s ?u
    then (\<exists>esp. r = Some esp \<and> unat ?u \<le> unat esp \<and> stack_holds V t esp (tokens cmd) \<and> page_writable V d ?u kp t)
    else r = None \<and> pages t kp = None"
  let ?B = "\<lambda>success. if \<not> success then thenK (frame_destroy kp) (retK None)
     else thenK (upd_cur (\<lambda>t. t\<lparr>uesp := ?u\<rparr>)) (bindK (push_strings V (tokens cmd) (PHYS_BASE (hw V)) []) (\<lambda>r. case r of
          None \<Rightarrow> retK None | Some (esp, argv) \<Rightarrow> push_arguments V esp argv))"
  have r: "vm_ready V d ?s" using assms(1) by (simp add: vm_ready_def dir_ready_def with_page_def)
  have free: "pd.translate (hw V) d ?s ?u = None"
    using assms(2) get_page_translate[OF rd u(2)] by (simp add: pd.translate_def with_page_def split: if_splits)
  have "wpK (install_frame V ?u (Some kp) True None SWAP 0 0) (\<lambda>success. wpK (?B success) ?Q) ?s"
  proof (rule install_stack_wp[OF r u(2,3) k free])
    fix t :: "'d vm" and q assume "\<not> table_room (hw V) d ?s ?u" "frame_lock t = None" "pages t = pages ?s"
      "frame_with (frame_heap t) (Some kp) (frame_table t) = Inr (Some q)"
    then show "wpK (?B False) ?Q t"
      by (simp add: frame_destroy_def page_used_def with_page_def)
  next
    fix t :: "'d vm" assume room: "table_room (hw V) d ?s ?u" and t: "page_writable V d ?u kp t" "pages t = pages ?s"
    then obtain x where x: "uthreads t (cur_thread (vfs t)) = Some x" "pagedir x = Some d" by (auto simp: page_writable_def page_mapped_def)
    let ?t = "t\<lparr>uthreads := (uthreads t)(cur_thread (vfs t) \<mapsto> x\<lparr>uesp := ?u\<rparr>)\<rparr>"
    have "pd.translate (hw V) d ?t ?u = pd.translate (hw V) d t ?u" by (simp add: pd.translate_def)
    then have st: "stack_mapped V d ?u kp ?t"
      using t(1) x u(1,5) by (simp add: stack_mapped_def page_writable_def page_mapped_def dir_ready_def)
    have same: "with_page ?t kp (replicate 4096 0) = ?t"
      using t(2) by (simp add: with_page_def PGSIZE_def fun_upd_idem)
    have u4: "?u + of_nat 4096 = PHYS_BASE (hw V)" using u(4) by (simp add: PGSIZE_def)
    have fit: "length (tokens cmd) < 64" "strings_size (tokens cmd) + 4 * length (tokens cmd) + 20 \<le> 4096"
      using assms(5,6) by (simp_all add: ARGV_SIZE_def PGSIZE_def)
    have "wpK (push_strings V (tokens cmd) (PHYS_BASE (hw V)) []) (\<lambda>r. wpK (case r of None \<Rightarrow> retK None
          | Some (esp, argv) \<Rightarrow> push_arguments V esp argv) ?Q) ?t"
      by (rule wpK_mono[OF push_all_wp[OF st length_replicate[of 4096 0] fit, unfolded u4 same]], erule wpK_mono)
        (auto simp only: room if_True split: option.splits)
    then show "wpK (?B True) ?Q t"
      using x by simp
  qed
  then have "wpK (setup_stack V cmd) ?Q s" unfolding setup_stack_def wpK_bind Let_def wpK_bind_fun
    by (intro get_kpage_now[OF assms(3)]) (simp add: with_page_def)
  then obtain r t where t: "setup_stack V cmd s = Inr (r, t)" "?Q r t" by (auto simp: wpK_iff simp del: not_None_eq)
  have "test_flag (hw V) (PTE_W (hw V)) (Some d) ?u t = Inr (True, t)" if "page_writable V d ?u kp t"
    using test_flag_entry[of "hw V" d t ?u] that by (simp add: page_writable_def page_mapped_def)
  moreover have "unat (PHYS_BASE (hw V)) - PGSIZE = unat ?u" using u(1) by (simp add: PGSIZE_def)
  ultimately show ?thesis using t by (auto split: if_splits)
qed

text \<open>The command line \<^verbatim>\<open>ls -l\<close>.\<close>

lemma sim_load_get:
  assumes "v < 0xC0000000"
  shows "pagedir_get_page (i386 sim_pool) (Some 0xC0001000) v sim_load = Inr (None, sim_load)"
proof -
  have r: "dir_ready (i386 sim_pool) 0xC0001000 sim_load" using sim_load_ready by (simp add: load_ready_def vm_ready_def)
  have "is_user_vaddr (i386 sim_pool) v" using assms by simp
  moreover from user_pd_no(2)[OF vaddr_ok_i386 this] have "entry_of (i386 sim_pool) (tables sim_load) 0xC0001000 v = 0"
    by (simp add: entry_of_def sim_vm_def)
  ultimately show ?thesis by (simp only: get_page_translate[OF r] pd.translate_def) simp
qed

theorem setup_stack_passes_arguments_witness:
  "\<exists>esp t. setup_stack sim_vml [108, 115, 32, 45, 108] sim_load = Inr (Some esp, t) \<and>
    0xBFFFF000 \<le> unat esp \<and> stack_holds sim_vml t esp [[108, 115], [45, 108]]"
proof -
  have p: "palloc (hw sim_vml) True (page_used sim_load) = Some 0xC0002000"
    by (simp add: sim_pool_def page_used_def sim_load_def sim_vm_def)
  have g: "pagedir_get_page (hw sim_vml) (Some 0xC0001000) (PHYS_BASE (hw sim_vml) - of_nat PGSIZE) sim_load = Inr (None, sim_load)"
    using sim_load_get[of "0xBFFFF000"] by (simp add: PGSIZE_def)
  have v: "vm_ready sim_vml 0xC0001000 sim_load" using sim_load_ready by (simp add: load_ready_def)
  have m: "table_room (hw sim_vml) 0xC0001000 (with_page sim_load 0xC0002000 (replicate PGSIZE 0)) (PHYS_BASE (hw sim_vml) - of_nat PGSIZE)"
    by (simp add: table_room_def with_page_def page_used_def sim_load_def sim_vm_def sim_pool_def)
  show ?thesis
    using setup_stack_passes_arguments[OF v g p, of "[108, 115, 32, 45, 108]"] m
    by (auto simp: SPACE_def ARGV_SIZE_def PGSIZE_def)
qed

end
