(* ===== verification/User_Facts.thy ===== *)
theory User_Facts
  imports User_State Load_Facts
begin

text \<open>
  Waiting for children, and the locks that system calls leave behind: the contract of
  \<^verbatim>\<open>process_wait\<close> on a well-formed list of children, and the error paths of \<^verbatim>\<open>mmap\<close>.
\<close>

section \<open>Rules\<close>

lemma inVm_wp [wp, simp]: "wpK (inVm m) Q s = wpK m (\<lambda>a x. Q a (s\<lparr>sys := x\<rparr>)) (sys s)"
  by (auto simp: wpK_def inVm_def split: sum.splits)

lemma childK_wp [wp, simp]: "wpK (childK p) Q s \<longleftrightarrow> (\<exists>c. children s p = Some c \<and> Q c s)"
  by (simp add: childK_def)

lemma upd_child_wp [wp, simp]:
  "wpK (upd_child p f) Q s \<longleftrightarrow> (\<exists>c. children s p = Some c \<and> Q () (s\<lparr>children := (children s)(p \<mapsto> f c)\<rparr>))"
  by (auto simp: upd_child_def)

lemma wpK_eqI: "wpK m (\<lambda>a t. a = b \<and> t = r) s \<Longrightarrow> m s = Inr (b, r)"
  by (auto simp: wpK_iff)

lemma inVm_Inr: "m (sys s) = Inr (a, x) \<Longrightarrow> inVm m s = Inr (a, s\<lparr>sys := x\<rparr>)"
  by (simp add: inVm_def)

section \<open>Children\<close>

text \<open>The child records of the running thread: all there, none twice, no two with the same pid.\<close>

definition my_children :: "'d usr \<Rightarrow> addr list" where
  "my_children s = (case uthreads (sys s) (cur_thread (vfs (sys s))) of None \<Rightarrow> [] | Some t \<Rightarrow> child_process_list t)"

definition children_ok :: "'d usr \<Rightarrow> bool" where
  "children_ok s \<longleftrightarrow> uthreads (sys s) (cur_thread (vfs (sys s))) \<noteq> None \<and> distinct (my_children s) \<and>
     (\<forall>c\<in>set (my_children s). children s c \<noteq> None) \<and>
     inj_on (\<lambda>c. map_option pid (children s c)) (set (my_children s))"

lemma child_with_found:
  assumes "\<forall>c\<in>set l. h c \<noteq> None" "inj_on (\<lambda>c. map_option pid (h c)) (set l)" "c \<in> set l" "h c = Some x"
  shows "child_with h (pid x) l = Inr (Some c)"
  using assms
proof (induction l)
  case Nil
  then show ?case by simp
next
  case (Cons a l)
  then obtain y where y: "h a = Some y" by auto
  show ?case
  proof (cases "pid y = pid x")
    case True
    then have "map_option pid (h a) = map_option pid (h c)" using Cons.prems(4) y by simp
    then have "a = c" using inj_onD[OF Cons.prems(2) _ _ Cons.prems(3)] by simp
    then show ?thesis using y True by simp
  next
    case False
    then have "c \<in> set l" using Cons.prems y by auto
    then show ?thesis using Cons y False by (simp add: inj_on_insert)
  qed
qed

lemma child_with_none: "\<forall>c\<in>set l. \<exists>x. h c = Some x \<and> pid x \<noteq> p \<Longrightarrow> child_with h p l = Inr None"
  by (induction l) auto

lemma get_child_wp:
  assumes "children_ok s" "child_with (children s) p (my_children s) = Inr r" "Q r s"
  shows "wpK (get_child p) Q s"
  using assms by (auto simp: get_child_def children_ok_def my_children_def)

text \<open>The state after a child has been waited for: its record is unlinked and freed.\<close>

definition reaped :: "'d usr \<Rightarrow> addr \<Rightarrow> 'd usr" where
  "reaped s c = s\<lparr>sys := (sys s)\<lparr>uthreads := (uthreads (sys s))(cur_thread (vfs (sys s)) \<mapsto>
       (the (uthreads (sys s) (cur_thread (vfs (sys s)))))\<lparr>child_process_list := remove1 c (my_children s)\<rparr>)\<rparr>,
     children := (children s)(c := None)\<rparr>"

lemma reaped_children [simp]: "my_children (reaped s c) = remove1 c (my_children s)"
  by (simp add: reaped_def my_children_def)

lemma reaped_ok: "children_ok s \<Longrightarrow> children_ok (reaped s c)"
  unfolding children_ok_def by (auto simp: reaped_children inj_on_def) (auto simp: reaped_def split: if_splits)

lemma process_wait_ended:
  assumes ok: "children_ok s" and c: "c \<in> set (my_children s)" "children s c = Some x" "\<not> waited x" "0 < wait_barrier x"
  shows "process_wait (pid x) s = Inr (if exited x then cstatus x else - 1, reaped s c)"
proof -
  obtain t where t: "uthreads (sys s) (cur_thread (vfs (sys s))) = Some t" using ok by (auto simp: children_ok_def)
  have l: "my_children s = child_process_list t" by (simp add: my_children_def t)
  have f: "child_with (children s) (pid x) (my_children s) = Inr (Some c)"
    by (rule child_with_found) (use ok c in \<open>auto simp: children_ok_def\<close>)
  have "wpK (process_wait (pid x)) (\<lambda>a r. a = (if exited x then cstatus x else - 1) \<and> r = reaped s c) s"
    unfolding process_wait_def process_wait_begin_def wpK_bind wpK_bind_fun
    by (rule get_child_wp[OF ok f])
       (use c t l in \<open>auto simp: process_wait_end_def wait_return_def down_sema_def remove_child_def list_remove_def reaped_def my_children_def\<close>)
  then show ?thesis by (rule wpK_eqI)
qed

lemma process_wait_no_child:
  assumes "children_ok s" "\<forall>c\<in>set (my_children s). \<forall>x. children s c = Some x \<longrightarrow> pid x \<noteq> p"
  shows "process_wait p s = Inr (- 1, s)"
proof -
  have "child_with (children s) p (my_children s) = Inr None"
    by (rule child_with_none) (use assms in \<open>fastforce simp: children_ok_def\<close>)
  then have "wpK (process_wait p) (\<lambda>a r. a = - 1 \<and> r = s) s"
    unfolding process_wait_def process_wait_begin_def wpK_bind wpK_bind_fun by (rule get_child_wp[OF assms(1)]) simp
  then show ?thesis by (rule wpK_eqI)
qed

text \<open>
  C39. \<^verbatim>\<open>process_wait\<close> keeps its contract on a well-formed list of children. For a child that has
  ended, the status it exited with is returned, or -1 when it was killed, and the record is
  unlinked and freed, the other records and the well-formedness untouched; a second wait for
  the same pid returns -1 at once. For a child that is still running the caller sleeps, for
  one that is already being waited for and for a pid that is not a child's the result is -1
  and nothing changes.
\<close>

theorem process_wait_contract:
  assumes "children_ok s"
  shows "(\<forall>c x. c \<in> set (my_children s) \<longrightarrow> children s c = Some x \<longrightarrow>
      (if waited x then process_wait (pid x) s = Inr (- 1, s)
       else if wait_barrier x = 0 then process_wait (pid x) s = Inl BLOCKED
       else (\<exists>t. process_wait (pid x) s = Inr (if exited x then cstatus x else - 1, t) \<and>
         process_wait (pid x) t = Inr (- 1, t) \<and> children_ok t \<and> my_children t = remove1 c (my_children s) \<and>
         children t = (children s)(c := None)))) \<and>
    (\<forall>p. (\<forall>c\<in>set (my_children s). \<forall>x. children s c = Some x \<longrightarrow> pid x \<noteq> p) \<longrightarrow> process_wait p s = Inr (- 1, s))"
proof (intro conjI allI impI)
  fix c x assume c: "c \<in> set (my_children s)" "children s c = Some x"
  obtain t where t: "uthreads (sys s) (cur_thread (vfs (sys s))) = Some t" using assms by (auto simp: children_ok_def)
  have f: "child_with (children s) (pid x) (child_process_list t) = Inr (Some c)"
    using child_with_found[of "my_children s" "children s" c x] assms c by (simp add: children_ok_def my_children_def t)
  have g: "inVm cur s = Inr (t, s)"
    using t by (auto intro!: wpK_eqI)
  show "if waited x then process_wait (pid x) s = Inr (- 1, s)
       else if wait_barrier x = 0 then process_wait (pid x) s = Inl BLOCKED
       else (\<exists>t. process_wait (pid x) s = Inr (if exited x then cstatus x else - 1, t) \<and>
         process_wait (pid x) t = Inr (- 1, t) \<and> children_ok t \<and> my_children t = remove1 c (my_children s) \<and>
         children t = (children s)(c := None))"
  proof (cases "waited x \<or> wait_barrier x = 0")
    case True
    then show ?thesis using f g c
      by (auto simp: process_wait_def process_wait_begin_def get_child_def childK_def upd_child_def kstep
          process_wait_end_def wait_return_def down_sema_def)
  next
    case False
    have "\<forall>d\<in>set (my_children (reaped s c)). \<forall>y. children (reaped s c) d = Some y \<longrightarrow> pid y \<noteq> pid x"
    proof (intro ballI allI impI)
      fix d y assume d: "d \<in> set (my_children (reaped s c))" "children (reaped s c) d = Some y"
      then have "d \<in> set (my_children s)" "d \<noteq> c" "children s d = Some y"
        using assms by (auto simp: children_ok_def) (auto simp: reaped_def)
      moreover have "inj_on (\<lambda>c. map_option pid (children s c)) (set (my_children s))" using assms by (simp add: children_ok_def)
      ultimately show "pid y \<noteq> pid x" using c by (metis inj_onD option.simps(9))
    qed
    then show ?thesis
      using False process_wait_ended[OF assms c] process_wait_no_child[OF reaped_ok[OF assms]] reaped_ok[OF assms]
      by (simp add: reaped_def[of s c, THEN arg_cong[where f = children]])
  qed
qed (rule process_wait_no_child[OF assms])

text \<open>A process with two children, one of them ended with status 42.\<close>

definition sim_sched :: sched where
  "sim_sched = \<lparr>running = 1, threads = Map.empty, ready_list = [], sleeping_list = [], all_list = [1], idle_thread = None,
     initial_thread = Some 1, semas = Map.empty, locks = Map.empty, conds = Map.empty, selems = Map.empty, thread_ticks = 0,
     idle_ticks = 0, kernel_ticks = 0, user_ticks = 0, sleep_sema = 1, intr_on = True, intr_context = False,
     yield_on_return = False, timer_ticks = 0\<rparr>"

definition sim_child :: "int \<Rightarrow> nat \<Rightarrow> child_process_elem" where
  "sim_child p v = \<lparr>pid = p, waited = False, exited = True, loaded = True, cstatus = 42, file_list = [], load_barrier = 0,
     wait_barrier = v, next_fd = 2\<rparr>"

definition sim_usr :: "(u32 \<Rightarrow> byte list) usr" where
  "sim_usr = \<lparr>sys = sim_load\<lparr>uthreads := [1 \<mapsto> sim_uthread\<lparr>child_process_list := [7, 8]\<rparr>]\<rparr>, sch = sim_sched,
     children = [1 \<mapsto> sim_child 1 0, 7 \<mapsto> sim_child 3 0, 8 \<mapsto> sim_child 4 1], fd_heap = Map.empty, mmap_heap = Map.empty,
     kernel_frames = Map.empty, usr_brk = 100, next_tid = 5, tid_lock = None, console = [], keys = [], powered_off = False,
     page_fault_cnt = 0\<rparr>"

lemma sim_usr_children: "my_children sim_usr = [7, 8]" "children_ok sim_usr"
  by (simp_all add: my_children_def children_ok_def sim_usr_def sim_child_def)

theorem process_wait_contract_witness:
  "\<exists>t. process_wait 4 sim_usr = Inr (42, t) \<and> process_wait 4 t = Inr (- 1, t) \<and> my_children t = [7] \<and>
     process_wait 3 sim_usr = Inl BLOCKED \<and> process_wait 5 sim_usr = Inr (- 1, sim_usr)"
proof -
  have c: "children sim_usr 7 = Some (sim_child 3 0)" "children sim_usr 8 = Some (sim_child 4 1)" by (simp_all add: sim_usr_def)
  note w = process_wait_contract[OF sim_usr_children(2)]
  note w4 = w[THEN conjunct1, THEN spec[of _ 8], THEN spec[of _ "sim_child 4 1"]]
  note w3 = w[THEN conjunct1, THEN spec[of _ 7], THEN spec[of _ "sim_child 3 0"]]
  note w5 = w[THEN conjunct2, THEN spec[of _ 5]]
  from w4 w3 w5 show ?thesis by (auto simp: c sim_usr_children sim_child_def)
qed

section \<open>Locks left behind\<close>

lemma usr_simps [simp]: "file_lock (vfs (sys (s\<lparr>sys := (sys s)\<lparr>vfs := f\<rparr>\<rparr>))) = file_lock f"
  by simp

lemma onFs_own_lock:
  assumes "file_lock (vfs (sys s)) = Some (cur_thread (vfs (sys s)))"
  shows "thenK (onFs file_lock_acquire) m s = Inl PANIC"
  using assms by (simp add: inVm_def inFs_def file_lock_acquire_def kstep)

text \<open>
  C40. \<^verbatim>\<open>mmap\<close> returns from its error paths with \<^verbatim>\<open>file_lock\<close> held. For a descriptor that is not open,
  at an address that passes the check, the result is -1 and the state differs only in the lock,
  which the calling thread now has; as \<^verbatim>\<open>lock_acquire\<close> asserts that the caller does not hold the
  lock, the next call of \<^verbatim>\<open>open\<close>, \<^verbatim>\<open>create\<close>, or of \<^verbatim>\<open>read\<close>, \<^verbatim>\<open>write\<close> or \<^verbatim>\<open>seek\<close> on a file, and \<^verbatim>\<open>mmap\<close> itself,
  panics the kernel.
\<close>

theorem mmap_error_keeps_lock:
  assumes "uthreads (sys s) (cur_thread (vfs (sys s))) = Some t" "process t = Some p" "children s p = Some c"
    and "fd_with (fd_heap s) n (file_list c) = Inr None" "file_lock (vfs (sys s)) = None"
    and "CODE_BASE \<le> up" "up < PHYS_BASE (hw (vml U))" "pg_round_down (hw (vml U)) up = up"
    and "spt_with (spt_heap (sys s)) up (page_table t) = Inr None"
  shows "let r = s\<lparr>sys := (sys s)\<lparr>vfs := (vfs (sys s))\<lparr>file_lock := Some (cur_thread (vfs (sys s)))\<rparr>\<rparr>\<rparr> in
    mmap U n up s = Inr (- 1, r) \<and> (\<forall>name. open_call U name r = Inl PANIC) \<and>
    (\<forall>name sz. create_call U name sz r = Inl PANIC) \<and> (\<forall>m b l. m \<noteq> 0 \<longrightarrow> read_call U m b l r = Inl PANIC) \<and>
    (\<forall>m b l. m \<noteq> 1 \<longrightarrow> write_call U m b l r = Inl PANIC) \<and> (\<forall>m pos. seek m pos r = Inl PANIC) \<and>
    (\<forall>m. mmap U m up r = Inl PANIC)"
proof -
  let ?r = "s\<lparr>sys := (sys s)\<lparr>vfs := (vfs (sys s))\<lparr>file_lock := Some (cur_thread (vfs (sys s)))\<rparr>\<rparr>\<rparr>"
  have chk: "inVm (check_mmap_addr (vml U) up) x = Inr (True, x)"
    if "uthreads (sys x) (cur_thread (vfs (sys x))) = Some t" "spt_heap (sys x) = spt_heap (sys s)" for x :: "'a usr"
    by (rule wpK_eqI) (use assms(6-9) that in \<open>auto simp: check_mmap_addr_def find_spt_def\<close>)
  have m: "mmap U n up s = Inr (- 1, ?r)"
    using chk[of s] assms(1-5)
    by (simp add: mmap_def bindK_apply thenK_apply) (simp add: inVm_def inFs_def file_lock_acquire_def kstep filesize_def
        my_file_def my_process_def cur_def me_def uthreadK_def nonnull_def find_file_def childK_def)
  have own: "file_lock (vfs (sys ?r)) = Some (cur_thread (vfs (sys ?r)))" by simp
  have "mmap U k up ?r = Inl PANIC" for k
    using chk[of ?r] assms(1) by (simp add: mmap_def bindK_apply onFs_own_lock[OF own])
  then show ?thesis unfolding Let_def
    using m by (simp add: open_call_def create_call_def read_call_def write_call_def seek_def onFs_own_lock[OF own])
qed

definition sim_ulib :: "(u32 \<Rightarrow> byte list) ulib" where
  "sim_ulib = \<lparr>vml = sim_vml, lists = \<lparr>list_sort = (\<lambda>_ xs. xs), list_insert_ordered = (\<lambda>_ x xs. x # xs)\<rparr>,
     syscall_no = (\<lambda>_. None), PF_P = 1, SEL_UCSEG = 0x1B, SEL_KCSEG = 8, third_arg = False\<rparr>"

theorem mmap_error_keeps_lock_witness:
  "\<exists>r. mmap sim_ulib 5 0x10000000 sim_usr = Inr (- 1, r) \<and> file_lock (vfs (sys r)) = Some 1 \<and>
     open_call sim_ulib [97] r = Inl PANIC \<and> seek 2 0 r = Inl PANIC"
proof -
  have "cur_thread (vfs (sys sim_usr)) = 1" "file_lock (vfs (sys sim_usr)) = None"
    by (simp_all add: sim_usr_def sim_files_def sim_open_def sim_fs_def)
  with mmap_error_keeps_lock[of sim_usr "sim_uthread\<lparr>child_process_list := [7, 8]\<rparr>" 1 "sim_child 1 0" 5 "0x10000000" sim_ulib]
  show ?thesis
    by (auto simp: Let_def sim_usr_def sim_uthread_def sim_child_def sim_ulib_def CODE_BASE_def)
qed

end
