(* ===== verification/Fault_Facts.thy ===== *)
theory Fault_Facts
  imports Stack_Facts User_Facts Syscall
begin

text \<open>
  Page faults. The first access to a page that loading has recorded brings in its part of the
  file, maps it, and lets the program go on.
\<close>

section \<open>Filling a page\<close>

lemma wpK_run: "m s = Inr (a, t) \<Longrightarrow> wpK m Q s = Q a t"
  by (simp add: wpK_def)

lemma same_upper_lock:
  fixes s y :: "'d fs"
  shows "same_upper (s\<lparr>file_lock := a\<rparr>) y \<Longrightarrow> file_lock s = b \<Longrightarrow> same_upper s (y\<lparr>file_lock := b\<rparr>)"
  by (cases s; cases y) (simp add: same_upper_def)

lemma file_read_at_locked:
  assumes "heap_ok E" "cache_ready E s" "open_file s p f i" "file_lock s = None" "0 \<le> ofs"
    and Q: "\<And>y. cache_only E s (y\<lparr>file_lock := None\<rparr>) \<Longrightarrow> file_lock y = Some t \<Longrightarrow> cur_thread y = cur_thread s \<Longrightarrow>
      Q (take (nat n) (drop (nat ofs) (file_bytes (contents E s) (idata i)))) y"
  shows "wpK (file_read_at E p n ofs) Q (s\<lparr>file_lock := Some t\<rparr>)"
proof -
  let ?s = "s\<lparr>file_lock := Some t\<rparr>"
  have o: "file_heap s p = Some f" "inode_heap s (finode f) = Some i" "iio i = None" "length_ok (idata i)"
    using assms(3) by (simp_all add: open_file_def idle_def)
  have "wpK (inode_read_at E (finode f) n ofs) (\<lambda>r t. cache_only E ?s t \<and>
      r = take (nat n) (drop (nat ofs) (file_bytes (contents E ?s) (idata i)))) ?s"
    by (rule inode_read_at_run) (use assms(1,2,5) o in simp_all)
  then have "wpK (inode_read_at E (finode f) n ofs) Q ?s"
  proof (rule wpK_mono, elim conjE)
    fix r y assume y: "cache_only E ?s y" "r = take (nat n) (drop (nat ofs) (file_bytes (contents E ?s) (idata i)))"
    then have up: "same_upper ?s y" by (simp add: cache_only_def)
    have "cache_only E s (y\<lparr>file_lock := None\<rparr>)"
      using y(1) same_upper_lock[OF up assms(4)] by (simp add: cache_only_def)
    then show "Q r y" using Q same_upper_fs[OF up] y(2) by simp
  qed
  then show ?thesis using o(1) by (simp add: file_read_at_def)
qed

definition page_bytes :: "byte list \<Rightarrow> off_t \<Rightarrow> nat \<Rightarrow> byte list" where
  "page_bytes F ofs n = take n (drop (nat ofs) F) @ replicate (PGSIZE - n) 0"

lemma fill_page_wp:
  assumes "heap_ok (lib V)" "cache_ready (lib V) (vfs s)" "open_file (vfs s) f fl i" "file_lock (vfs s) = None"
    and b: "pages s kp = Some b" "length b = PGSIZE"
    and fe: "ffile fe = Some f" "page_read_bytes fe = of_nat n" "0 < n" "n \<le> PGSIZE" "0 \<le> fofs fe" "fofs fe + int n \<le> dlength (idata i)"
    and Q: "\<And>x. cache_only (lib V) (vfs s) x \<Longrightarrow>
      Q True (s\<lparr>pages := (pages s)(kp \<mapsto> page_bytes (file_bytes (contents (lib V) (vfs s)) (idata i)) (fofs fe) n), vfs := x\<rparr>)"
  shows "wpK (fill_page V fe kp) Q s"
proof -
  let ?F = "file_bytes (contents (lib V) (vfs s)) (idata i)" and ?me = "cur_thread (vfs s)"
  let ?bs = "take n (drop (nat (fofs fe)) ?F)"
  have n: "sint (of_nat n :: u32) = int n" "unat (of_nat n :: u32) = n"
    using fe(4) by (simp_all add: PGSIZE_def unat_of_nat sint_unat_small)
  have l: "length ?bs = n" using fe(5,6) by simp
  have pb: "put_bytes n (replicate (PGSIZE - n) 0) (put_bytes 0 ?bs b) = page_bytes ?F (fofs fe) n"
    using l b(2) fe(4) by (simp add: put_bytes_def page_bytes_def)
  show ?thesis
    using assms(4) fe(1,2) by (simp add: fill_page_def file_lock_ensure_def Let_def n)
      (rule file_read_at_locked[OF assms(1-4) fe(5)], use Q b l fe(4) pb in simp)
qed

section \<open>Bringing in a page\<close>

text \<open>A page of memory for the contents, and a page table for the address or a page for one.\<close>

definition memory_for_page :: "mmu \<Rightarrow> u32 \<Rightarrow> 'z pg_scheme \<Rightarrow> u32 \<Rightarrow> u32 \<Rightarrow> bool" where
  "memory_for_page M d s u kp \<longleftrightarrow> palloc M True (page_used s) = Some kp \<and>
     ((\<exists>t. tables s d = Some t \<and> t ! pd_no M u \<noteq> 0) \<or> palloc M False (\<lambda>p. page_used s p \<or> p = kp) \<noteq> None)"

text \<open>
  The page at \<open>u\<close> is now in the frame \<open>kp\<close>, writable if \<open>w\<close>, and holds \<open>b\<close>; every other user address has the
  entry it had.
\<close>

definition page_in :: "'d vmlib \<Rightarrow> u32 \<Rightarrow> u32 \<Rightarrow> u32 \<Rightarrow> bool \<Rightarrow> 'd vm \<Rightarrow> 'd vm \<Rightarrow> bool" where
  "page_in V d u kp w s t \<longleftrightarrow> page_mapped V d u kp t \<and> (entry_of (hw V) (tables t) d u AND PTE_W (hw V) \<noteq> 0) = w \<and>
     (\<forall>v. is_user_vaddr (hw V) v \<longrightarrow> pg_round_down (hw V) v \<noteq> u \<longrightarrow> entry_of (hw V) (tables t) d v = entry_of (hw V) (tables s) d v)"

definition brought_in :: "'d vmlib \<Rightarrow> u32 \<Rightarrow> u32 \<Rightarrow> u32 \<Rightarrow> bool \<Rightarrow> byte list \<Rightarrow> 'd vm \<Rightarrow> 'd vm \<Rightarrow> bool" where
  "brought_in V d u kp w b s t \<longleftrightarrow> page_in V d u kp w s t \<and> pages t = (pages s)(kp \<mapsto> b) \<and> cache_only (lib V) (vfs s) (vfs t)"

lemma page_in_cong:
  assumes "page_in V d u kp w s t" "tables s' = tables s" "tables t' = tables t" "uthreads t' = uthreads t"
    "init_page_dir t' = init_page_dir t" "cur_thread (vfs t') = cur_thread (vfs t)"
  shows "page_in V d u kp w s' t'"
  using assms page_mapped_cong[OF _ assms(3-)] by (simp add: page_in_def)

lemma install_page_wp:
  assumes r: "dir_ready (hw V) d s" and x: "uthreads s (cur_thread (vfs s)) = Some x" "pagedir x = Some d"
    and u: "is_user_vaddr (hw V) u" "pg_ofs (hw V) u = 0" and k: "kernel_page (hw V) kp" and mem: "table_room (hw V) d s u"
    and free: "pd.translate (hw V) d s u = None"
    and Q: "\<And>T c. page_in V d u kp w s (s\<lparr>tables := T, cr3 := c\<rparr>) \<Longrightarrow> Q True (s\<lparr>tables := T, cr3 := c\<rparr>)"
  shows "wpK (install_page V u kp w) Q s"
proof -
  have M: "mmu_ok (hw V)" "vaddr_ok (hw V)" and ok: "pd_ok (hw V) (tables s) d" and ipd: "d \<noteq> init_page_dir s"
    using r by (simp_all add: dir_ready_def mmu_ok_def)
  have abs: "entry_of (hw V) (tables s) d u AND PTE_P (hw V) = 0"
    using free by (auto simp: pd.translate_def split: if_splits)
  have "wpK (pagedir_set_page (hw V) (Some d) u kp w) Q s"
  proof (rule set_page_wp[OF M(1) ok u k ipd abs])
    fix t assume e: "entry_set (hw V) d u (pte_create_user (hw V) kp w) s t"
    then obtain T c where t: "t = s\<lparr>tables := T, cr3 := c\<rparr>" by (auto simp: entry_set_def)
    have "pd.translate (hw V) d t u = Some kp" and w: "(entry_of (hw V) (tables t) d u AND PTE_W (hw V) \<noteq> 0) = w"
      using e u(2) M(1) k by (auto simp: entry_set_def pd.translate_def mmu_ok_def pte_ok_def)
    then have "page_mapped V d u kp t"
      using entry_set_dir_ready[OF r e] x u k by (simp add: page_mapped_def t)
    moreover have "entry_of (hw V) (tables t) d v = entry_of (hw V) (tables s) d v"
      if "is_user_vaddr (hw V) v" "pg_round_down (hw V) v \<noteq> u" for v
      using entry_set_other[OF e that(1)] same_page_iff[OF M(2) u(2), of v] that(2) by simp
    ultimately have "page_in V d u kp w s t" using w by (simp add: page_in_def)
    then show "Q True t" using Q unfolding t by blast
  qed (use mem in simp)
  then show ?thesis
    using x get_page_translate[OF r u(1)] free by (simp add: install_page_def) (simp add: wpK_def)
qed

lemma frame_pages_swap: "(s :: 'd vm)\<lparr>pages := a, frame_heap := b\<rparr> = s\<lparr>frame_heap := b, pages := a\<rparr>"
  by simp

lemma file_back_wp:
  assumes r: "vm_ready V d s" and fs: "heap_ok (lib V)" "cache_ready (lib V) (vfs s)" "open_file (vfs s) f fl i" "file_lock (vfs s) = None"
    and p: "pending s f w pe (u, ofs, n)" "n \<le> PGSIZE" "0 < n \<Longrightarrow> 0 \<le> ofs \<and> ofs + int n \<le> dlength (idata i)"
    and u: "is_user_vaddr (hw V) u" "pg_ofs (hw V) u = 0" "pd.translate (hw V) d s u = None"
    and mem: "memory_for_page (hw V) d s u kp"
  shows "wpK (file_back V pe) (\<lambda>r t. r \<and>
    brought_in V d u kp w (page_bytes (file_bytes (contents (lib V) (vfs s)) (idata i)) ofs n) s t) s"
proof -
  obtain x where x: "uthreads s (cur_thread (vfs s)) = Some x" "pagedir x = Some d" using r by (auto simp: vm_ready_def)
  have rd: "dir_ready (hw V) d s" and lk: "frame_lock s = None" using r by (simp_all add: vm_ready_def)
  then have M: "mmu_ok (hw V)" "vaddr_ok (hw V)" by (simp_all add: dir_ready_def mmu_ok_def)
  have kp: "palloc (hw V) True (page_used s) = Some kp" using mem by (simp add: memory_for_page_def)
  then have k: "kernel_page (hw V) kp" and junk: "length (palloc_junk (hw V)) = PGSIZE"
    using M(1) by (auto simp: mmu_ok_def palloc_ok_def)
  then have nu: "\<not> is_user_vaddr (hw V) kp" using M(2) by (auto simp: kernel_page_def vaddr_ok_def)
  obtain q where q: "spt_heap s pe = Some \<lparr>upage = u, sframe = q, sthread = cur_thread (vfs s)\<rparr>"
    "frame_heap s q = Some \<lparr>kpage = None, fspt = Some pe, shared = None, fload = False, ffile = Some f, findex = - 1,
       ftype = FILE, fofs = ofs, page_read_bytes = of_nat n, fwritable = w\<rparr>"
    using p(1) by (auto simp: pending_def)
  define fe where "fe = \<lparr>kpage = Some kp, fspt = Some pe, shared = None, fload = False, ffile = Some f, findex = - 1,
       ftype = FILE, fofs = ofs, page_read_bytes = of_nat n, fwritable = w\<rparr>"
  let ?b = "page_bytes (file_bytes (contents (lib V) (vfs s)) (idata i)) ofs n"
  let ?R = "\<lambda>r t. r \<and> brought_in V d u kp w ?b s t"
  let ?s = "\<lambda>b y. s\<lparr>frame_heap := (frame_heap s)(q \<mapsto> fe), pages := (pages s)(kp \<mapsto> b), vfs := y\<rparr>"
  let ?C = "bindK (install_page V u kp w) (\<lambda>success.
          thenK (whenK success (thenK frame_lock_acquire
            (thenK (upd_frame q (\<lambda>fe. fe\<lparr>fload := True\<rparr>))
            (thenK (modK (\<lambda>s. s\<lparr>frame_table := frame_table s @ [q]\<rparr>)) frame_lock_release))))
          (retK success))"
  have fin: "wpK ?C ?R (?s ?b y)" if y: "cache_only (lib V) (vfs s) y" for y
  proof -
    have c: "cur_thread y = cur_thread (vfs s)" using y same_upper_fs(1) by (auto simp: cache_only_def)
    have rd': "dir_ready (hw V) d (?s ?b y)" using rd by (simp add: dir_ready_def)
    have "page_used (?s ?b y) = (\<lambda>p. page_used s p \<or> p = kp)" by (auto simp: page_used_def)
    then have room: "table_room (hw V) d (?s ?b y) u" using mem by (simp add: table_room_def memory_for_page_def)
    show ?thesis unfolding wpK_bind
    proof (rule install_page_wp[OF rd' _ _ u(1,2) k])
      fix T c' let ?t = "?s ?b y\<lparr>tables := T, cr3 := c'\<rparr>"
      assume t: "page_in V d u kp w (?s ?b y) ?t"
      have b: "brought_in V d u kp w ?b s t'" if t': "t' = ?t\<lparr>frame_heap := h, frame_table := l, frame_lock := None\<rparr>" for t' h l
        using page_in_cong[OF t, of s t'] y unfolding brought_in_def by (simp add: t')
      then show "wpK (thenK (whenK True (thenK frame_lock_acquire
            (thenK (upd_frame q (\<lambda>fe. fe\<lparr>fload := True\<rparr>))
            (thenK (modK (\<lambda>s. s\<lparr>frame_table := frame_table s @ [q]\<rparr>)) frame_lock_release)))) (retK True)) ?R ?t"
        using lk b by simp
    qed (use x c room u(3) translate_cong[of "?s ?b y" s] in simp_all)
  qed
  have un: "unat (of_nat n :: u32) = n" using p(2) by (simp add: unat_of_nat PGSIZE_def)
  have nz: "(of_nat n :: u32) = 0 \<longleftrightarrow> n = 0" unfolding unat_eq_zero[of "of_nat n :: u32", symmetric] un ..
  have "wpK (if page_read_bytes fe > 0 then fill_page V fe kp else retK True) (\<lambda>filled. wpK (if \<not> filled then retK False else ?C) ?R)
      (?s (if n = 0 then replicate PGSIZE 0 else palloc_junk (hw V)) (vfs s))"
  proof (cases "n = 0")
    case True
    have "cache_only (lib V) (vfs s) (vfs s)" using fs(2) by (simp add: cache_only_def)
    from fin[OF this] show ?thesis using True by (simp add: fe_def page_bytes_def)
  next
    case False
    have "page_read_bytes fe > 0" using nz False by (simp add: fe_def word_gt_0)
    moreover have "wpK (fill_page V fe kp) (\<lambda>filled. wpK (if \<not> filled then retK False else ?C) ?R) (?s (palloc_junk (hw V)) (vfs s))"
      by (rule fill_page_wp[OF fs(1), where f = f and fl = fl and i = i and n = n]) (use fs p(2,3) False junk fin in \<open>simp_all add: fe_def\<close>)
    ultimately show ?thesis using False by simp
  qed
  then show ?thesis
    using q nu nz by (cases "n = 0"; simp add: file_back_def Let_def word_gt_0; intro get_kpage_now[OF kp];
       simp add: fe_def frame_pages_swap; elim wpK_mono; simp split: if_splits)
qed

section \<open>The page fault handler\<close>

lemma inSched_modK_wp [simp]:
  "(\<And>x. running (g x) = running x) \<Longrightarrow> wpK (inSched U (modK g)) Q s = Q () (s\<lparr>sch := g (sch s)\<rparr>)"
  by (simp add: wpK_def inSched_def kstep)

lemma fault_page:
  assumes "vaddr_ok M" "v < PHYS_BASE M" "pg_round_down M v = u"
  shows "is_user_vaddr M v" "is_user_vaddr M u" "pg_ofs M u = 0" "(pd_no M v, pt_no M v) = (pd_no M u, pt_no M u)"
proof -
  have un: "unat u = unat v div 4096 * 4096" using round_down_unat(1)[OF assms(1), of v] assms(3) by simp
  show "is_user_vaddr M v" using assms(1,2) by (simp add: vaddr_ok_def)
  have "u \<le> v" unfolding word_le_nat_alt un by (rule div_times_less_eq_dividend)
  then show "is_user_vaddr M u" using assms(1,2) by (simp add: vaddr_ok_def)
  show al: "pg_ofs M u = 0" by (simp add: aligned_unat[OF assms(1)] un)
  show "(pd_no M v, pt_no M v) = (pd_no M u, pt_no M u)" using same_page_iff[OF assms(1) al] assms(3) by blast
qed

lemma brought_in_read:
  assumes "brought_in V d u kp w b s t" "length b = PGSIZE"
  shows "user_read V u PGSIZE t = Inr (b, t)"
proof -
  have t: "page_mapped V d u kp t" "pages t kp = Some b" using assms(1) by (simp_all add: brought_in_def page_in_def)
  have "with_page t kp b = t" using t(2) by (simp add: with_page_def fun_upd_idem)
  then show ?thesis using user_read_wp[OF t(1), of 0 PGSIZE b] assms(2) by (simp add: get_bytes_def PGSIZE_def)
qed

lemma bring_in_pending_wp:
  assumes r: "vm_ready V d s" and fs: "heap_ok (lib V)" "cache_ready (lib V) (vfs s)" "open_file (vfs s) f fl i" "file_lock (vfs s) = None"
    and p: "spt_with (spt_heap s) u (cur_page_table s) = Inr (Some pe)" "pending s f w pe (u, ofs, n)" "n \<le> PGSIZE"
      "0 < n \<Longrightarrow> 0 \<le> ofs \<and> ofs + int n \<le> dlength (idata i)"
    and v: "v < PHYS_BASE (hw V)" "pg_round_down (hw V) v = u" "pd.translate (hw V) d s v = None"
    and mem: "memory_for_page (hw V) d s u kp"
  shows "wpK (bring_in V v esp) (\<lambda>r t. r \<and>
    brought_in V d u kp w (page_bytes (file_bytes (contents (lib V) (vfs s)) (idata i)) ofs n) s t) s"
proof -
  have M: "vaddr_ok (hw V)" using r by (simp add: vm_ready_def dir_ready_def mmu_ok_def)
  note fp = fault_page[OF M v(1,2)]
  have "pd.translate (hw V) d s u = None" using v(3) pd.entry_page[OF fp(4), of s d] by (simp add: pd.translate_def split: if_splits)
  note b = file_back_wp[OF r fs p(2-4) fp(2,3) this mem]
  obtain x where "uthreads s (cur_thread (vfs s)) = Some x" using r by (auto simp: vm_ready_def)
  moreover obtain q fe where "spt_heap s pe = Some \<lparr>upage = u, sframe = q, sthread = cur_thread (vfs s)\<rparr>"
    "frame_heap s q = Some fe" "ftype fe = FILE" using p(2) by (auto simp: pending_def)
  ultimately show ?thesis using b p(1) v(2) by (simp add: bring_in_def find_spt_def load_back_def cur_page_table_def)
qed

text \<open>
  C27. Demand paging delivers the program. A program touches a user address above \<^verbatim>\<open>0x08048000\<close> in a page that
  loading has recorded, that is not shared with another process and not in memory. When the file's lock is free, the recorded bytes lie
  inside the open file, and memory is free for the frame and for a page table if one is needed,
  \<^verbatim>\<open>page_fault\<close> finds the record, reads the
  recorded bytes of the file into the frame, fills the rest with zeros and maps the frame. The program
  goes on; user memory at the page holds exactly these bytes, the page is writable as recorded, and every
  other user address is mapped as it was, with the same flags. Frames of any kind may be in memory.
\<close>

theorem page_fault_loads_page:
  assumes "vm_ready (vml U) d (sys s)" "heap_ok (lib (vml U))" "cache_ready (lib (vml U)) (vfs (sys s))"
    "open_file (vfs (sys s)) f fl i" "file_lock (vfs (sys s)) = None"
    "spt_with (spt_heap (sys s)) u (cur_page_table (sys s)) = Inr (Some pe)" "pending (sys s) f w pe (u, ofs, n)"
    "n \<le> PGSIZE" "0 < n \<longrightarrow> 0 \<le> ofs \<and> ofs + int n \<le> dlength (idata i)"
    "CODE_BASE < v" "v < PHYS_BASE (hw (vml U))" "pg_round_down (hw (vml U)) v = u"
    "pagedir_get_page (hw (vml U)) (Some d) v (sys s) = Inr (None, sys s)"
    "if_error_code fr AND PF_P U = 0" "memory_for_page (hw (vml U)) d (sys s) u kp"
  shows "\<exists>t. page_fault U fr v s = Inr (True, t) \<and> page_fault_cnt t = page_fault_cnt s + 1 \<and>
    user_read (vml U) u PGSIZE (sys t) = Inr (page_bytes (file_bytes (contents (lib (vml U)) (vfs (sys s))) (idata i)) ofs n, sys t) \<and>
    test_flag (hw (vml U)) (PTE_W (hw (vml U))) (Some d) u (sys t) = Inr (w, sys t) \<and>
    (\<forall>x. is_user_vaddr (hw (vml U)) x \<longrightarrow> pg_round_down (hw (vml U)) x \<noteq> u \<longrightarrow> same_view (hw (vml U)) d x (sys s) (sys t))"
proof -
  let ?V = "vml U" let ?M = "hw ?V" let ?b = "page_bytes (file_bytes (contents (lib ?V) (vfs (sys s))) (idata i)) ofs n"
  have rd: "dir_ready ?M d (sys s)" and M: "vaddr_ok ?M" using assms(1) by (simp_all add: vm_ready_def dir_ready_def mmu_ok_def)
  note fp = fault_page[OF M assms(11,12)]
  have tr: "pd.translate ?M d (sys s) v = None" using assms(13) get_page_translate[OF rd fp(1)] by simp
  obtain x where x: "uthreads (sys s) (cur_thread (vfs (sys s))) = Some x" "pagedir x = Some d"
    using assms(1) by (auto simp: vm_ready_def)
  have b: "wpK (bring_in ?V v (if_esp fr)) (\<lambda>r t. r \<and> brought_in ?V d u kp w ?b (sys s) t) (sys s)"
    by (rule bring_in_pending_wp[OF assms(1-8) _ assms(11,12) tr assms(15)]) (use assms(9) in simp)
  have "wpK (page_fault U fr v) (\<lambda>r t. r \<and> page_fault_cnt t = page_fault_cnt s + 1 \<and> brought_in ?V d u kp w ?b (sys s) (sys t)) s"
    using b x assms(10,11,14)
    by (simp add: page_fault_def Let_def CODE_BASE_def not_le[symmetric] wpK_run[where m = "pagedir_get_page ?M (Some d) v" and s = "sys s", OF assms(13)]) (elim wpK_mono, simp)
  then obtain t where t: "page_fault U fr v s = Inr (True, t)" "page_fault_cnt t = page_fault_cnt s + 1"
    "brought_in ?V d u kp w ?b (sys s) (sys t)" by (auto simp: wpK_iff)
  have len: "length ?b = PGSIZE" using assms(8,9) by (cases "n = 0") (auto simp: page_bytes_def)
  have rt: "dir_ready ?M d (sys t)" using t(3) by (simp add: brought_in_def page_in_def page_mapped_def)
  show ?thesis
    using t brought_in_read[OF t(3) len] test_flag_entry[OF rt fp(2)]
    by (intro exI[of _ t]) (simp add: same_entry_view[OF rd rt] brought_in_def page_in_def)
qed

text \<open>
  A program whose first page, five bytes of a file, is recorded read-only and touched at \<^verbatim>\<open>0x8048123\<close>, while a frame
  with another page of a file is in memory.
\<close>

definition sim_fault :: "(u32 \<Rightarrow> byte list) vm" where
  "sim_fault = sim_load\<lparr>uthreads := [1 \<mapsto> sim_uthread\<lparr>page_table := [50]\<rparr>],
     spt_heap := (spt_heap sim_load)(50 \<mapsto> \<lparr>upage = 0x8048000, sframe = 51, sthread = 1\<rparr>),
     frame_heap := (frame_heap sim_load)(51 \<mapsto> \<lparr>kpage = None, fspt = Some 50, shared = None, fload = False, ffile = Some 4, findex = - 1,
       ftype = FILE, fofs = 0, page_read_bytes = 5, fwritable = False\<rparr>)\<rparr>"

lemma sim_fault_ready: "vm_ready sim_vml 0xC0001000 sim_fault"
  using sim_load_ready by (simp add: load_ready_def vm_ready_def dir_ready_def sim_fault_def)

lemma sim_fault_get:
  assumes "v < 0xC0000000"
  shows "pagedir_get_page (i386 sim_pool) (Some 0xC0001000) v sim_fault = Inr (None, sim_fault)"
proof -
  have r: "dir_ready (i386 sim_pool) 0xC0001000 sim_load" "dir_ready (i386 sim_pool) 0xC0001000 sim_fault"
    using sim_load_ready sim_fault_ready by (simp_all add: load_ready_def vm_ready_def)
  have u: "is_user_vaddr (i386 sim_pool) v" using assms by simp
  have "tables sim_fault = tables sim_load" by (simp add: sim_fault_def)
  moreover have "pd.translate (i386 sim_pool) 0xC0001000 sim_load v = None"
    using sim_load_get[OF assms] unfolding get_page_translate[OF r(1) u] by (simp only: sum.inject prod.inject)
  ultimately show ?thesis by (simp only: get_page_translate[OF r(2) u] translate_cong[of sim_fault sim_load])
qed

theorem page_fault_loads_page_witness:
  "\<exists>t. page_fault sim_ulib \<lparr>if_esp = 0xBFFFF000, if_cs = 0x1B, if_error_code = 4\<rparr> 0x8048123 (sim_usr\<lparr>sys := sim_fault\<rparr>) = Inr (True, t) \<and>
     user_read sim_vml 0x8048000 PGSIZE (sys t) =
       Inr (page_bytes (file_bytes (contents sim_env sim_files) (idata sim_inode)) 0 5, sys t) \<and>
     test_flag (i386 sim_pool) 2 (Some 0xC0001000) 0x8048000 (sys t) = Inr (False, sys t)"
proof -
  have U: "vml sim_ulib = sim_vml" "PF_P sim_ulib = 1" by (simp_all add: sim_ulib_def)
  have f: "vfs sim_fault = sim_files" "file_lock sim_files = None"
    by (simp_all add: sim_fault_def sim_files_def sim_open_def sim_fs_def)
  have p: "spt_with (spt_heap sim_fault) 0x8048000 (cur_page_table sim_fault) = Inr (Some 50)"
    "pending sim_fault 4 False 50 (0x8048000, 0, 5)"
    by (simp_all add: sim_fault_def cur_page_table_def pending_def)
  have m: "memory_for_page (i386 sim_pool) 0xC0001000 sim_fault 0x8048000 0xC0002000"
    by (simp add: memory_for_page_def sim_pool_def page_used_def sim_fault_def sim_load_def sim_vm_def)
  have w: "PTE_W (hw sim_vml) = 2" by simp
  note th = page_fault_loads_page[of sim_ulib "0xC0001000" "sim_usr\<lparr>sys := sim_fault\<rparr>" 4 sim_handle sim_inode "0x8048000" 50 False 0 5
    "0x8048123" "\<lparr>if_esp = 0xBFFFF000, if_cs = 0x1B, if_error_code = 4\<rparr>" "0xC0002000"]
  show ?thesis
    using th w sim_fault_ready sim_heap_ok sim_files_ready sim_files_open f p m sim_fault_get[of "0x8048123"]
    by (auto simp: U PGSIZE_def CODE_BASE_def sim_inode_simps)
qed

end
