(* ===== verification/Start_Facts.thy ===== *)
theory Start_Facts
  imports Kernel_Start Sched_Invariant Fault_Facts
begin

text \<open>
  The scheduler starts: from the code that is running at boot, \<^verbatim>\<open>thread_init\<close> and \<^verbatim>\<open>thread_start\<close> make the first
  thread and the idle thread, hand the processor to the idle thread and get it back, in a state from which
  \<open>Sched_Invariant\<close> guarantees the safety of every later call.
\<close>

section \<open>Scheduler calls in the whole state\<close>

text \<open>After a switch the address space and the directory of the new thread are current.\<close>

definition space_switched :: "'d vmlib \<Rightarrow> addr \<Rightarrow> 'd vm \<Rightarrow> 'd vm \<Rightarrow> bool" where
  "space_switched V r u v \<longleftrightarrow> (\<exists>x. uthreads u (cur_thread (vfs u)) = Some x \<and>
     uthreads v = (uthreads u)(cur_thread (vfs u) \<mapsto> x\<lparr>ucur_dir := cur_dir (vfs u)\<rparr>)) \<and> cur_thread (vfs v) = r"

lemma inSched_wp:
  "wpK (inSched U m) Q s = wpK m (\<lambda>a x. if running x = running (sch s) then Q a (s\<lparr>sch := x\<rparr>)
     else wpK (switch_process (vml U) x (running (sch s))) (\<lambda>_ v. Q a (s\<lparr>sch := x, sys := v\<rparr>)) (sys s)) (sch s)"
  by (auto simp: wpK_def inSched_def inVm_def kstep split: sum.splits)

lemma switch_process_wp:
  assumes "uthreads u (cur_thread (vfs u)) = Some y" "uthreads u (running x) \<noteq> None" "threads x old \<noteq> None"
    and "\<And>v. space_switched V (running x) u v \<Longrightarrow> Q () v"
  shows "wpK (switch_process V x old) Q u"
proof -
  obtain z where "((uthreads u)(cur_thread (vfs u) \<mapsto> y\<lparr>ucur_dir := cur_dir (vfs u)\<rparr>)) (running x) = Some z"
    using assms(2) by (cases "running x = cur_thread (vfs u)") auto
  then show ?thesis using assms
    by (auto simp: switch_process_def process_activate_def pagedir_activate_def space_switched_def)
qed

section \<open>The first thread\<close>

text \<open>No lock is held and nobody waits.\<close>

definition quiet :: "sched \<Rightarrow> bool" where
  "quiet x \<longleftrightarrow> holdings Map.empty (locks x) (semas x) (conds x) \<and> queue (semas x) = (\<lambda>_. [])"

definition kthread :: "thread_status \<Rightarrow> int \<Rightarrow> thread \<Rightarrow> bool" where
  "kthread st p t \<longleftrightarrow> status t = st \<and> priority t = p \<and> tmagic t = THREAD_MAGIC \<and> lock_list t = [] \<and> wait_lock_list t = []"

definition booted :: "addr \<Rightarrow> 'd usr \<Rightarrow> bool" where
  "booted r s \<longleftrightarrow> (\<exists>m. threads (sch s) = [r \<mapsto> m] \<and> kthread THREAD_RUNNING PRI_DEFAULT m) \<and> running (sch s) = r \<and>
     ready_list (sch s) = [] \<and> sleeping_list (sch s) = [] \<and> all_list (sch s) = [r] \<and> sleep_sema (sch s) = 1 \<and>
     initial_thread (sch s) = Some r \<and> \<not> intr_context (sch s) \<and>
     cur_thread (vfs (sys s)) = r \<and> uthreads (sys s) r \<noteq> None \<and> cur_dir (vfs (sys s)) = None \<and> tid_lock s = None"

text \<open>What the loader leaves: no threads yet, interrupts off, on the stack of the page \<open>r\<close>.\<close>

definition reset :: "addr \<Rightarrow> 'd usr \<Rightarrow> bool" where
  "reset r s \<longleftrightarrow> threads (sch s) = Map.empty \<and> running (sch s) = r \<and> \<not> intr_on (sch s) \<and> \<not> intr_context (sch s) \<and>
     quiet (sch s) \<and> cur_thread (vfs (sys s)) = r"

lemma thread_init_run:
  assumes "reset r s"
  shows "wpK (thread_init U) (\<lambda>_ t. booted r t \<and> quiet (sch t) \<and> locks (sch t) = locks (sch s) \<and> pages (sys t) = pages (sys s) \<and> tables (sys t) = tables (sys s) \<and> usr_brk t = usr_brk s) s"
  using assms by (simp add: reset_def thread_init_def inSched_wp frame_table_init_def init_thread_def PRI_MIN_def PRI_MAX_def
    PRI_DEFAULT_def allocate_tid_def acquire_lock_def release_lock_def booted_def quiet_def kthread_def)
    (rule exI, intro conjI, rule refl, simp_all)

text \<open>
  Two threads, the first one \<open>r\<close> and the idle thread \<open>i\<close>, with their status and the run queue; and the whole
  state around them, in which the semaphore \<open>p\<close> is what the idle thread gets to start with.
\<close>

definition two :: "addr \<Rightarrow> addr \<Rightarrow> thread_status \<Rightarrow> thread_status \<Rightarrow> addr list \<Rightarrow> sched \<Rightarrow> bool" where
  "two r i st sti q x \<longleftrightarrow> (\<exists>m d. threads x = [r \<mapsto> m, i \<mapsto> d] \<and> kthread st PRI_DEFAULT m \<and> kthread sti PRI_MIN d) \<and>
     r \<noteq> i \<and> ready_list x = q \<and> sleeping_list x = [] \<and> all_list x = [r, i] \<and> sleep_sema x = 1 \<and> initial_thread x = Some r \<and> \<not> intr_context x"

definition around :: "addr \<Rightarrow> addr \<Rightarrow> addr \<Rightarrow> 'd usr \<Rightarrow> bool" where
  "around r i p s \<longleftrightarrow> cur_thread (vfs (sys s)) = running (sch s) \<and> running (sch s) \<in> {r, i} \<and>
     uthreads (sys s) r \<noteq> None \<and> uthreads (sys s) i \<noteq> None \<and> kernel_frames s i = Some (IDLE, of_nat p)"

definition sema_is :: "addr \<Rightarrow> nat \<Rightarrow> addr list \<Rightarrow> sched \<Rightarrow> bool" where
  "sema_is p v ws x \<longleftrightarrow> semas x p = Some \<lparr>svalue = v, waiters = ws\<rparr> \<and> locks x p = None \<and>
     quiet (x\<lparr>semas := (semas x)(p \<mapsto> \<lparr>svalue = v, waiters = []\<rparr>)\<rparr>)"

lemma single:
  assumes "listlib_ok L" "strict_order lt"
  shows "list_sort L lt [a] = [a]" "list_insert_ordered L lt a [] = [a]"
proof -
  have "mset (list_sort L lt [a]) = {#a#}" "mset (list_insert_ordered L lt a []) = {#a#}"
    using assms by (simp_all add: listlib_ok_def)
  then show "list_sort L lt [a] = [a]" "list_insert_ordered L lt a [] = [a]" by (simp_all add: mset_single_iff_right)
qed

lemma idle_created:
  assumes L: "listlib_ok (lists U)" and b: "booted r s" and sp: "sema_is p 0 [] (sch s)"
    and pg: "palloc (hw (vml U)) False (page_used (sys s)) = Some pg" "unat pg \<noteq> r" and ob: "obj_ok (vml U) (usr_brk s)"
  shows "wpK (thread_create U (Some n) PRI_MIN IDLE (of_nat p)) (\<lambda>_ t. running (sch t) = r \<and> around r (unat pg) p t \<and>
    two r (unat pg) THREAD_RUNNING THREAD_READY [unat pg] (sch t) \<and> sema_is p 0 [] (sch t)) s"
proof -
  note sg = single[OF L strict_big]
  obtain m y where m: "threads (sch s) = [r \<mapsto> m]" "kthread THREAD_RUNNING PRI_DEFAULT m" and y: "uthreads (sys s) r = Some y"
    using b by (auto simp: booted_def)
  have f: "running (sch s) = r" "ready_list (sch s) = []" "sleeping_list (sch s) = []" "all_list (sch s) = [r]" "sleep_sema (sch s) = 1"
    "initial_thread (sch s) = Some r" "\<not> intr_context (sch s)" "cur_thread (vfs (sys s)) = r"
    "cur_dir (vfs (sys s)) = None" "tid_lock s = None" using b by (simp_all add: booted_def)
  show ?thesis using f m y pg sp ob
    by (simp add: thread_create_def palloc_get_data_def inSched_wp init_thread_def PRI_MIN_def PRI_MAX_def
      PRI_DEFAULT_def allocate_tid_def acquire_lock_def release_lock_def kthread_def thread_tid_def running_ok_def create_child_def
      usr_malloc_def upd_uthread_def thread_unblock_def intr_off_wp if_yield_def sg Let_def two_def around_def sema_is_def quiet_def)
      (intro exI conjI, rule refl, simp_all)
qed

section \<open>The idle thread gets the processor and gives it back\<close>

lemma first_waits:
  assumes L: "listlib_ok L" and x: "two r i THREAD_RUNNING THREAD_READY [i] x" "running x = r" "sema_is p 0 [] x"
  shows "wpK (sema_down L p) (\<lambda>got t. \<not> got \<and> running t = i \<and> two r i THREAD_BLOCKED THREAD_RUNNING [] t \<and> sema_is p 0 [r] t) x"
proof -
  note sg = single[OF L strict_big]
  obtain m d where "threads x = [r \<mapsto> m, i \<mapsto> d]" "kthread THREAD_RUNNING PRI_DEFAULT m" "kthread THREAD_READY PRI_MIN d"
    using x(1) by (auto simp: two_def)
  moreover have "r \<noteq> i" "ready_list x = [i]" "sleeping_list x = []" "all_list x = [r, i]" "sleep_sema x = 1" "initial_thread x = Some r"
    "\<not> intr_context x" using x(1) by (simp_all add: two_def)
  ultimately show ?thesis using x(2,3)
    by (simp add: sema_down_def intr_off_wp thread_block_def schedule_def wake_sleeper_def next_thread_to_run_def
      thread_schedule_tail_def running_ok_def kthread_def sg two_def sema_is_def quiet_def fun_upd_twist)
      (intro exI conjI, rule refl, simp_all)
qed

lemma idle_returns:
  assumes L: "listlib_ok L" and x: "two r i THREAD_BLOCKED THREAD_RUNNING [] x" "running x = i" "sema_is p 0 [r] x" "idle_thread x = Some i"
  shows "wpK (sema_up L p) (\<lambda>_ t. running t = r \<and> idle_thread t = Some i \<and> two r i THREAD_RUNNING THREAD_READY [] t \<and> sema_is p 1 [] t) x"
proof -
  note sg = single[OF L strict_big]
  obtain m d where "threads x = [r \<mapsto> m, i \<mapsto> d]" "kthread THREAD_BLOCKED PRI_DEFAULT m" "kthread THREAD_RUNNING PRI_MIN d"
    using x(1) by (auto simp: two_def)
  moreover have "r \<noteq> i" "ready_list x = []" "sleeping_list x = []" "all_list x = [r, i]" "sleep_sema x = 1" "initial_thread x = Some r"
    "\<not> intr_context x" using x(1) by (simp_all add: two_def)
  moreover have "holdings Map.empty (locks x) ((semas x)(p \<mapsto> \<lparr>svalue = Suc 0, waiters = []\<rparr>)) (conds x)"
    using x(3) holdings_sema[of Map.empty "locks x" "(semas x)(p \<mapsto> \<lparr>svalue = 0, waiters = []\<rparr>)" "conds x" p "\<lparr>svalue = Suc 0, waiters = []\<rparr>"]
    by (simp add: sema_is_def quiet_def)
  ultimately show ?thesis using x(2-)
    by (simp add: sema_up_def thread_unblock_def if_yield_def thread_yield_def intr_off_wp schedule_def wake_sleeper_def next_thread_to_run_def
      thread_schedule_tail_def running_ok_def kthread_def sg two_def sema_is_def quiet_def fun_upd_twist PRI_MIN_def PRI_DEFAULT_def)
      (intro exI conjI, rule refl, simp_all add: fun_upd_idem)
qed

lemma two_wf:
  assumes x: "two r i THREAD_RUNNING THREAD_READY [] x" "running x = r" "idle_thread x = Some i" "sema_is p v [] x"
  shows "sched_wf x"
proof -
  obtain m d where t: "threads x = [r \<mapsto> m, i \<mapsto> d]" "kthread THREAD_RUNNING PRI_DEFAULT m" "kthread THREAD_READY PRI_MIN d" "r \<noteq> i"
    using x(1) by (auto simp: two_def)
  have e: "(semas x)(p \<mapsto> \<lparr>svalue = v, waiters = []\<rparr>) = semas x" using x(4) by (simp add: sema_is_def fun_upd_idem)
  then have q: "queue (semas x) = (\<lambda>_. [])" "holdings Map.empty (locks x) (semas x) (conds x)"
    using x(4) by (simp_all add: sema_is_def quiet_def)
  have "holder lk = None" if "locks x l = Some lk" for l lk using holdingsD(2)[OF q(2) that] by (cases "holder lk") auto
  then have "owns (locks x) a c" if "lock_list c = []" "wait_lock_list c = []" "tmagic c = THREAD_MAGIC" for a c
    using that by (auto simp: owns_def)
  then have "holdings (threads x) (locks x) (semas x) (conds x)"
    using q(2) t by (fastforce simp: holdings_def kthread_def split: if_splits)
  moreover have "placed x"
    using x t q(1) by (auto simp: placed_def places_def unique_def two_def waits_in_def kthread_def stat_def)
  ultimately show ?thesis using t x by (simp add: sched_wf_def held_def two_def kthread_def stat_def)
qed

text \<open>A call that switches between the two threads, in the whole state.\<close>

lemma inSched_switch:
  assumes "around r i p s" "wpK m (\<lambda>a x. running x \<in> {r, i} \<and> running x \<noteq> running (sch s) \<and> threads x (running (sch s)) \<noteq> None \<and> Q a x) (sch s)"
  shows "wpK (inSched U m) (\<lambda>a t. Q a (sch t) \<and> around r i p t) s"
  unfolding inSched_wp
proof (rule wpK_mono[OF assms(2)])
  fix a x assume x: "running x \<in> {r, i} \<and> running x \<noteq> running (sch s) \<and> threads x (running (sch s)) \<noteq> None \<and> Q a x"
  obtain y where y: "uthreads (sys s) (cur_thread (vfs (sys s))) = Some y" using assms(1) by (auto simp: around_def)
  have "wpK (switch_process (vml U) x (running (sch s))) (\<lambda>_ v. Q a (sch (s\<lparr>sch := x, sys := v\<rparr>)) \<and> around r i p (s\<lparr>sch := x, sys := v\<rparr>)) (sys s)"
    using x assms(1) by (intro switch_process_wp[OF y]) (auto simp: around_def space_switched_def)
  then show "if running x = running (sch s) then Q a (sch (s\<lparr>sch := x\<rparr>)) \<and> around r i p (s\<lparr>sch := x\<rparr>)
     else wpK (switch_process (vml U) x (running (sch s))) (\<lambda>_ v. Q a (sch (s\<lparr>sch := x, sys := v\<rparr>)) \<and> around r i p (s\<lparr>sch := x, sys := v\<rparr>)) (sys s)"
    using x by simp
qed

lemma two_threads: "two r i st sti q x \<Longrightarrow> threads x r \<noteq> None \<and> threads x i \<noteq> None \<and> r \<noteq> i"
  by (auto simp: two_def)

lemma thread_start_run:
  assumes L: "listlib_ok (lists U)" and b: "booted r s" "quiet (sch s)" "locks (sch s) p = None"
    and pg: "palloc (hw (vml U)) False (page_used (sys s)) = Some pg" "unat pg \<noteq> r" and ob: "obj_ok (vml U) (usr_brk s)"
  shows "wpK (thread_start U p) (\<lambda>got t. (\<not> got \<and> running (sch t) = unat pg \<and>
    two r (unat pg) THREAD_BLOCKED THREAD_RUNNING [] (sch t) \<and> sema_is p 0 [r] (sch t)) \<and> around r (unat pg) p t) s"
proof -
  let ?i = "unat pg" and ?s = "s\<lparr>sch := (sch s)\<lparr>semas := (semas (sch s))(p \<mapsto> \<lparr>svalue = 0, waiters = []\<rparr>)\<rparr>\<rparr>"
  have sem: "sema_is p 0 [] (sch ?s)" using b(2,3) by (simp add: sema_is_def quiet_def holdings_sema fun_upd_idem)
  have "booted r ?s" using b(1) by (auto simp: booted_def)
  from idle_created[OF L this sem] pg ob
  have c: "wpK (thread_create U (Some (lit ''idle'')) PRI_MIN IDLE (of_nat p)) (\<lambda>_ t. running (sch t) = r \<and> around r ?i p t \<and>
    two r ?i THREAD_RUNNING THREAD_READY [?i] (sch t) \<and> sema_is p 0 [] (sch t)) ?s" by simp
  have down: "wpK (inSched U (sema_down (lists U) p)) (\<lambda>got u. (\<not> got \<and> running (sch u) = ?i \<and>
      two r ?i THREAD_BLOCKED THREAD_RUNNING [] (sch u) \<and> sema_is p 0 [r] (sch u)) \<and> around r ?i p u) t"
    if t: "running (sch t) = r" "around r ?i p t" "two r ?i THREAD_RUNNING THREAD_READY [?i] (sch t)" "sema_is p 0 [] (sch t)" for t
    by (rule inSched_switch[OF t(2)], rule wpK_mono[OF first_waits[OF L t(3,1,4)]])
       (use t(1) two_threads in \<open>fastforce simp: around_def\<close>)
  have on: "around r ?i p (t\<lparr>sch := (sch t)\<lparr>intr_on := True\<rparr>\<rparr>) = around r ?i p t"
    "two r ?i THREAD_RUNNING THREAD_READY [?i] ((sch t)\<lparr>intr_on := True\<rparr>) = two r ?i THREAD_RUNNING THREAD_READY [?i] (sch t)"
    "sema_is p 0 [] ((sch t)\<lparr>intr_on := True\<rparr>) = sema_is p 0 [] (sch t)" for t :: "'a usr"
    by (simp_all add: around_def two_def sema_is_def quiet_def)
  have rs: "running (sch s) = r" using b(1) by (simp add: booted_def)
  have "wpK (thread_create U (Some (lit ''idle'')) PRI_MIN IDLE (of_nat p)) (\<lambda>_ t. running (sch t) = running (sch s) \<and>
      wpK (inSched U (sema_down (lists U) p)) (\<lambda>got u. (\<not> got \<and> running (sch u) = ?i \<and>
        two r ?i THREAD_BLOCKED THREAD_RUNNING [] (sch u) \<and> sema_is p 0 [r] (sch u)) \<and> around r ?i p u)
      (t\<lparr>sch := (sch t)\<lparr>intr_on := True\<rparr>\<rparr>)) ?s"
    by (rule wpK_mono[OF c], elim conjE, intro conjI down) (simp_all add: rs on)
  then show ?thesis unfolding thread_start_def wpK_bind wpK_then unswitched_def
    by (simp add: sema_init_def inSched_wp[of U "put_sema p x" for x]) (erule wpK_mono, simp)
qed

lemma kernel_thread_idle:
  assumes L: "listlib_ok (lists U)" and p: "p < 2 ^ 32" and t: "running (sch t) = i" "two r i THREAD_BLOCKED THREAD_RUNNING [] (sch t)" "sema_is p 0 [r] (sch t)"
    "around r i p t"
  shows "wpK (kernel_thread U) (\<lambda>_ u. (running (sch u) = r \<and> idle_thread (sch u) = Some i \<and> two r i THREAD_RUNNING THREAD_READY [] (sch u) \<and>
    sema_is p 1 [] (sch u)) \<and> around r i p u) t"
proof -
  let ?t = "t\<lparr>sch := (sch t)\<lparr>intr_on := True, idle_thread := Some i\<rparr>\<rparr>"
  have a: "around r i p ?t" "two r i THREAD_BLOCKED THREAD_RUNNING [] (sch ?t)" "sema_is p 0 [r] (sch ?t)" "running (sch ?t) = i" "idle_thread (sch ?t) = Some i"
    using t by (simp_all add: around_def two_def sema_is_def quiet_def)
  have "running_ok ((sch t)\<lparr>intr_on := True\<rparr>)" using t(1,2) by (auto simp: running_ok_def two_def kthread_def)
  moreover have "unat (of_nat p :: u32) = p" using p by (simp add: unat_of_nat)
  moreover have "kernel_frames t i = Some (IDLE, of_nat p)" using t(4) by (simp add: around_def)
  moreover have "wpK (inSched U (sema_up (lists U) p)) (\<lambda>_ u. (running (sch u) = r \<and> idle_thread (sch u) = Some i \<and>
    two r i THREAD_RUNNING THREAD_READY [] (sch u) \<and> sema_is p 1 [] (sch u)) \<and> around r i p u) ?t"
    by (rule inSched_switch[OF a(1)], rule wpK_mono[OF idle_returns[OF L a(2,4,3,5)]])
       (use a(4) two_threads in \<open>fastforce simp: around_def\<close>)
  ultimately show ?thesis using t(1)
    by (simp add: kernel_thread_def idle_def inSched_wp[of U "getK f" for f] inSched_wp[of U thread_current])
qed

text \<open>
  C24. The scheduler starts. From what the loader leaves, with a free page and memory for a record, \<^verbatim>\<open>thread_init\<close> and
  \<^verbatim>\<open>thread_start\<close> create the idle thread and let the first thread wait for it. The idle thread, run from its first
  instruction, registers itself, wakes the first thread and loses the processor to it without entering the
  run queue. The first thread then finds the semaphore raised, so that \<^verbatim>\<open>thread_start\<close> returns, and the
  scheduler is well-formed.
\<close>

theorem scheduler_starts:
  assumes "listlib_ok (lists U)" "reset r s" "locks (sch s) p = None" "p < 2 ^ 32"
    and "palloc (hw (vml U)) False (page_used (sys s)) = Some pg" "unat pg \<noteq> r" "obj_ok (vml U) (usr_brk s)"
  shows "wpK (thenK (thread_init U) (thread_start U p)) (\<lambda>got t. \<not> got \<and> running (sch t) = unat pg \<and>
    wpK (kernel_thread U) (\<lambda>_ u. running (sch u) = r \<and> idle_thread (sch u) = Some (unat pg) \<and> ready_list (sch u) = [] \<and> sched_wf (sch u) \<and>
      wpK (inSched U (sema_down (lists U) p)) (\<lambda>got v. got \<and> running (sch v) = r \<and> sched_wf (sch v)) u) t) s"
proof -
  let ?i = "unat pg"
  have home: "running (sch u) = r \<and> idle_thread (sch u) = Some ?i \<and> ready_list (sch u) = [] \<and> sched_wf (sch u) \<and>
      wpK (inSched U (sema_down (lists U) p)) (\<lambda>got v. got \<and> running (sch v) = r \<and> sched_wf (sch v)) u"
    if u: "running (sch u) = r" "idle_thread (sch u) = Some ?i" "two r ?i THREAD_RUNNING THREAD_READY [] (sch u)" "sema_is p 1 [] (sch u)" for u :: "'a usr"
  proof -
    have wf: "sched_wf (sch u)" using two_wf[OF u(3,1,2,4)] .
    have "sched_wf ((sch u)\<lparr>semas := (semas (sch u))(p \<mapsto> \<lparr>svalue = 0, waiters = []\<rparr>)\<rparr>)"
      using u(4) by (intro sema_init_wf[OF wf]) (simp_all add: sema_is_def queue_def)
    then show ?thesis using u wf by (simp add: inSched_wp sema_down_def intr_off_wp sema_is_def two_def)
  qed
  have "wpK (thread_start U p) (\<lambda>got t. \<not> got \<and> running (sch t) = ?i \<and>
    wpK (kernel_thread U) (\<lambda>_ u. running (sch u) = r \<and> idle_thread (sch u) = Some ?i \<and> ready_list (sch u) = [] \<and> sched_wf (sch u) \<and>
      wpK (inSched U (sema_down (lists U) p)) (\<lambda>got v. got \<and> running (sch v) = r \<and> sched_wf (sch v)) u) t) t"
    if t: "booted r t" "quiet (sch t)" "locks (sch t) = locks (sch s)" "pages (sys t) = pages (sys s)" "tables (sys t) = tables (sys s)"
      "usr_brk t = usr_brk s" for t :: "'a usr"
  proof -
    have "page_used (sys t) = page_used (sys s)" using t(4,5) by (simp add: page_used_def fun_eq_iff)
    then have start: "wpK (thread_start U p) (\<lambda>got t. (\<not> got \<and> running (sch t) = ?i \<and>
      two r ?i THREAD_BLOCKED THREAD_RUNNING [] (sch t) \<and> sema_is p 0 [r] (sch t)) \<and> around r ?i p t) t"
      using assms(3,5-7) t by (intro thread_start_run[OF assms(1) t(1,2)]) simp_all
    have idle: "wpK (kernel_thread U) (\<lambda>_ u. running (sch u) = r \<and> idle_thread (sch u) = Some ?i \<and> ready_list (sch u) = [] \<and> sched_wf (sch u) \<and>
      wpK (inSched U (sema_down (lists U) p)) (\<lambda>got v. got \<and> running (sch v) = r \<and> sched_wf (sch v)) u) v"
      if v: "running (sch v) = ?i" "two r ?i THREAD_BLOCKED THREAD_RUNNING [] (sch v)" "sema_is p 0 [r] (sch v)" "around r ?i p v" for v :: "'a usr"
      by (rule wpK_mono[OF kernel_thread_idle[OF assms(1,4) v]], elim conjE, rule home)
    show ?thesis by (rule wpK_mono[OF start], elim conjE, intro conjI idle)
  qed
  then show ?thesis unfolding wpK_then by (intro wpK_mono[OF thread_init_run[OF assms(2)]]) blast
qed

text \<open>The scheduler of \<open>sim_usr\<close> before it has started, on the page of thread 1.\<close>

definition sim_reset :: "(u32 \<Rightarrow> byte list) usr" where
  "sim_reset = sim_usr\<lparr>sch := sim_sched\<lparr>intr_on := False\<rparr>\<rparr>"

theorem scheduler_starts_witness:
  "wpK (thenK (thread_init (sim_ulib\<lparr>lists := sim_list\<rparr>)) (thread_start (sim_ulib\<lparr>lists := sim_list\<rparr>) 5)) (\<lambda>got t. \<not> got \<and>
     running (sch t) = 0xC0002000 \<and> wpK (kernel_thread (sim_ulib\<lparr>lists := sim_list\<rparr>)) (\<lambda>_ u. running (sch u) = 1 \<and> sched_wf (sch u)) t) sim_reset"
proof -
  let ?U = "sim_ulib\<lparr>lists := sim_list\<rparr>"
  have r: "reset 1 sim_reset"
    by (simp add: reset_def quiet_def holdings_def queue_def sim_reset_def sim_usr_def sim_sched_def fun_eq_iff)
  have l: "locks (sch sim_reset) 5 = None" "obj_ok (vml ?U) (usr_brk sim_reset)" "listlib_ok (lists ?U)"
    by (simp_all add: sim_reset_def sim_sched_def sim_ulib_def sim_list_ok)
  have p: "palloc (hw (vml ?U)) False (page_used (sys sim_reset)) = Some 0xC0002000"
    by (simp add: sim_ulib_def sim_pool_def page_used_def sim_reset_def sim_usr_def sim_load_def sim_vm_def)
  have "(5::nat) < 2 ^ 32" "unat (0xC0002000 :: u32) \<noteq> 1" by simp_all
  from scheduler_starts[OF l(3) r l(1) this(1) p this(2) l(2)] show ?thesis
    by (rule wpK_mono) (auto elim!: wpK_mono)
qed

end
