(* ===== verification/Sema_Test.thy ===== *)
theory Sema_Test
  imports Start_Facts
begin

text \<open>
  The self test of semaphores in \<^verbatim>\<open>synch.c\<close>: two threads that pass control to each other through a pair of
  semaphores. It composes the creation of threads, the semaphores, the scheduler and the end of threads. A
  thread that sleeps in a call, or is preempted between two of them, goes on with the calls that it has left; the
  steps of the two threads follow each other as the scheduler and the timer decide.
\<close>

section \<open>The two threads\<close>

datatype sema_call = UP addr | DOWN addr

text \<open>True when the call has returned, false when the thread sleeps in it.\<close>

definition make_call :: "'d ulib \<Rightarrow> sema_call \<Rightarrow> ('d usr, bool) K" where
  "make_call U c = (case c of UP p \<Rightarrow> thenK (inSched U (sema_up (lists U) p)) (retK True)
     | DOWN p \<Rightarrow> inSched U (sema_down (lists U) p))"

text \<open>
  \<^verbatim>\<open>sema_self_test\<close> up to its loop, and the calls of the loop. The array of two semaphores is at \<open>sema\<close>; as all
  objects of the typed heaps an element takes one address.
\<close>

definition sema_self_test :: "'d ulib \<Rightarrow> addr \<Rightarrow> ('d usr, sema_call list) K" where
  "sema_self_test U sema = thenK (inSched U (sema_init sema 0))
     (thenK (inSched U (sema_init (sema + 1) 0))
     (bindK (unswitched (thread_create U (Some (lit ''sema-test'')) PRI_DEFAULT SEMA_TEST (of_nat sema))) (\<lambda>_.
      retK (concat (replicate 10 [UP sema, DOWN (sema + 1)])))))"

definition sema_test_helper :: "addr \<Rightarrow> sema_call list" where
  "sema_test_helper sema = concat (replicate 10 [DOWN sema, UP (sema + 1)])"

text \<open>
  The calls that the threads have left; a thread that has not run yet has none. A step of the running
  thread: a new thread enters its function, one whose function has returned ends, the others make their
  next call. A preemption is a timer interrupt at the end of a time slice, which yields on return.
\<close>

type_synonym agenda = "addr \<Rightarrow> sema_call list option"

datatype test_event = Step | Preempt

definition test_step :: "'d ulib \<Rightarrow> agenda \<Rightarrow> ('d usr, agenda) K" where
  "test_step U g = bindK (inSched U (getK running)) (\<lambda>t. case g t of
     None \<Rightarrow> bindK (derefK (\<lambda>s. kernel_frames s t)) (\<lambda>(_, aux).
       thenK (kernel_thread U) (retK (g(t \<mapsto> sema_test_helper (unat aux)))))
   | Some [] \<Rightarrow> thenK (thread_exit U) (retK g)
   | Some (c # cs) \<Rightarrow> bindK (make_call U c) (\<lambda>done. retK (if done then g(t \<mapsto> cs) else g)))"

definition test_event :: "'d ulib \<Rightarrow> test_event \<Rightarrow> agenda \<Rightarrow> ('d usr, agenda) K" where
  "test_event U e g = (case e of Step \<Rightarrow> test_step U g
     | Preempt \<Rightarrow> thenK (inSched U (thread_yield (lists U))) (retK g))"

text \<open>The events up to the return of \<^verbatim>\<open>sema_self_test\<close> in the thread \<open>r\<close>.\<close>

primrec test_run :: "'d ulib \<Rightarrow> addr \<Rightarrow> test_event list \<Rightarrow> agenda \<Rightarrow> ('d usr, agenda) K" where
  "test_run U r [] g = retK g"
| "test_run U r (e # es) g = (if g r = Some [] then retK g else bindK (test_event U e g) (test_run U r es))"

section \<open>Two threads of one priority\<close>

text \<open>
  The thread \<open>t\<close> runs; the other one, \<open>u\<close>, waits in the run queue, alone, or is \<open>asleep\<close> on a semaphore.
\<close>

definition duo :: "addr \<Rightarrow> addr \<Rightarrow> bool \<Rightarrow> sched \<Rightarrow> bool" where
  "duo t u asleep x \<longleftrightarrow> (\<exists>c d. threads x t = Some c \<and> threads x u = Some d \<and> kthread THREAD_RUNNING PRI_DEFAULT c \<and>
       kthread (if asleep then THREAD_BLOCKED else THREAD_READY) PRI_DEFAULT d) \<and> t \<noteq> u \<and> running x = t \<and>
     ready_list x = (if asleep then [] else [u]) \<and> sleeping_list x = [] \<and> \<not> intr_context x \<and>
     idle_thread x \<notin> {Some t, Some u} \<and> {t, u} \<subseteq> set (all_list x)"

definition sema_at :: "addr \<Rightarrow> nat \<Rightarrow> addr list \<Rightarrow> sched \<Rightarrow> bool" where
  "sema_at p v ws x \<longleftrightarrow> semas x p = Some \<lparr>svalue = v, waiters = ws\<rparr>"

lemma duoE:
  assumes "duo t u asleep x"
  obtains c d where "threads x t = Some c" "threads x u = Some d" "status c = THREAD_RUNNING" "tmagic c = THREAD_MAGIC" "priority c = PRI_DEFAULT"
    "lock_list c = []" "wait_lock_list c = []" "status d = (if asleep then THREAD_BLOCKED else THREAD_READY)" "tmagic d = THREAD_MAGIC"
    "priority d = PRI_DEFAULT" "lock_list d = []" "wait_lock_list d = []" "t \<noteq> u" "running x = t"
    "ready_list x = (if asleep then [] else [u])" "sleeping_list x = []" "\<not> intr_context x" "idle_thread x \<noteq> Some t" "idle_thread x \<noteq> Some u"
    "t \<in> set (all_list x)" "u \<in> set (all_list x)"
  using assms by (auto simp: duo_def kthread_def)

lemmas duo_sim = sema_up_def sema_down_def thread_unblock_def if_yield_def intr_off_wp thread_block_def schedule_def
  wake_sleeper_def next_thread_to_run_def thread_schedule_tail_def running_ok_def sema_at_def

lemma up_not_awaited:
  assumes L: "listlib_ok L" and x: "duo t u asleep x" "sema_at p v [] x"
  shows "wpK (sema_up L p) (\<lambda>_ y. duo t u asleep y \<and> semas y = (semas x)(p \<mapsto> \<lparr>svalue = Suc v, waiters = []\<rparr>)) x"
proof -
  note sg = single[OF L strict_big]
  have "list_sort L lt [] = []" if "strict_order lt" for lt
    using L that by (simp add: listlib_ok_def flip: mset_zero_iff)
  note em = this[OF strict_big]
  from x(1) show ?thesis using x(2)
    by (elim duoE) (simp add: duo_sim sg em duo_def kthread_def)
qed

lemma up_wakes:
  assumes L: "listlib_ok L" and x: "duo t u True x" "sema_at p v [u] x"
  shows "wpK (sema_up L p) (\<lambda>_ y. duo t u False y \<and> semas y = (semas x)(p \<mapsto> \<lparr>svalue = Suc v, waiters = []\<rparr>)) x"
proof -
  note sg = single[OF L strict_big]
  from x(1) show ?thesis using x(2)
    by (elim duoE) (simp add: duo_sim sg duo_def kthread_def)
qed

lemma down_passes:
  assumes x: "duo t u asleep x" "sema_at p (Suc v) ws x"
  shows "wpK (sema_down L p) (\<lambda>got y. got \<and> duo t u asleep y \<and> semas y = (semas x)(p \<mapsto> \<lparr>svalue = v, waiters = ws\<rparr>)) x"
  using x by (simp add: duo_sim duo_def)

lemma down_sleeps:
  assumes L: "listlib_ok L" and x: "duo t u False x" "sema_at p 0 [] x"
  shows "wpK (sema_down L p) (\<lambda>got y. \<not> got \<and> duo u t True y \<and> semas y = (semas x)(p \<mapsto> \<lparr>svalue = 0, waiters = [t]\<rparr>)) x"
proof -
  note sg = single[OF L strict_big]
  from x(1) show ?thesis using x(2)
    by (elim duoE) (simp add: duo_sim sg duo_def kthread_def)
qed

text \<open>A yield with the other thread ready may go either way, as both have the same priority.\<close>

lemma yield_goes_on:
  assumes L: "listlib_ok L" and x: "duo t u asleep x"
  shows "wpK (thread_yield L) (\<lambda>_ y. (duo t u asleep y \<or> \<not> asleep \<and> duo u t False y) \<and> semas y = semas x) x"
proof (cases asleep)
  case True
  from x show ?thesis using True
    by (elim duoE) (simp add: duo_sim thread_yield_def single[OF L strict_big] duo_def kthread_def)
next
  case False
  let ?ins = "list_insert_ordered L (big (x\<lparr>intr_on := False\<rparr>)) t [u]"
  have m: "mset ?ins = {#t, u#}" using L strict_big[of "x\<lparr>intr_on := False\<rparr>"] by (simp add: listlib_ok_def)
  obtain a b where ab: "?ins = [a, b]" using arg_cong[OF m, of size] by (auto simp: numeral_2_eq_2 length_Suc_conv)
  then have "(a = t \<and> b = u) \<or> (a = u \<and> b = t)" using m by (auto simp: add_eq_conv_ex)
  with ab have "?ins = [t, u] \<or> ?ins = [u, t]" by auto
  with x show ?thesis using False
    by (elim duoE disjE) (simp_all add: duo_sim thread_yield_def duo_def kthread_def)
qed

section \<open>The address spaces of the two threads\<close>

text \<open>A thread without files, mappings or children that can end: its page, its record of a child and the locks.\<close>

definition bare :: "addr \<Rightarrow> 'd usr \<Rightarrow> bool" where
  "bare h s \<longleftrightarrow> (\<exists>y c e. uthreads (sys s) h = Some y \<and> mmap_list y = [] \<and> page_table y = [] \<and> child_process_list y = [] \<and>
       ufile y = None \<and> pagedir y = None \<and> process y = Some c \<and> children s c = Some e \<and> file_list e = []) \<and>
     file_lock (vfs (sys s)) \<noteq> Some h \<and> frame_lock (sys s) \<noteq> Some h \<and> swap_lock (sys s) \<noteq> Some h \<and> page_used (sys s) (of_nat h)"

definition spaces :: "addr \<Rightarrow> addr \<Rightarrow> addr \<Rightarrow> 'd usr \<Rightarrow> bool" where
  "spaces r h p s \<longleftrightarrow> cur_thread (vfs (sys s)) = running (sch s) \<and> uthreads (sys s) r \<noteq> None \<and> bare h s \<and>
     kernel_frames s h = Some (SEMA_TEST, of_nat p)"

lemma inSched_spaces:
  assumes "spaces r h p s" "running (sch s) \<in> {r, h}"
    "wpK m (\<lambda>a x. running x \<in> {r, h} \<and> threads x (running (sch s)) \<noteq> None \<and> Q a x) (sch s)"
  shows "wpK (inSched U m) (\<lambda>a t. Q a (sch t) \<and> spaces r h p t) s"
  unfolding inSched_wp
proof (rule wpK_mono[OF assms(3)])
  fix a x assume x: "running x \<in> {r, h} \<and> threads x (running (sch s)) \<noteq> None \<and> Q a x"
  obtain y where y: "uthreads (sys s) (running (sch s)) = Some y" "cur_thread (vfs (sys s)) = running (sch s)"
    using assms(1,2) by (auto simp: spaces_def bare_def)
  let ?u = "(uthreads (sys s))(running (sch s) \<mapsto> y\<lparr>ucur_dir := cur_dir (vfs (sys s))\<rparr>)"
  have "?u (running x) \<noteq> None" using x assms(1) by (auto simp: spaces_def bare_def)
  then obtain z where z: "?u (running x) = Some z" by auto
  have sw: "wpK (switch_process (vml U) x (running (sch s))) (\<lambda>_ v. uthreads v = ?u \<and> cur_thread (vfs v) = running x \<and>
      file_lock (vfs v) = file_lock (vfs (sys s)) \<and> frame_lock v = frame_lock (sys s) \<and> swap_lock v = swap_lock (sys s) \<and>
      pages v = pages (sys s) \<and> tables v = tables (sys s)) (sys s)"
    using y z x by (auto simp: switch_process_def process_activate_def pagedir_activate_def)
  have "wpK (switch_process (vml U) x (running (sch s))) (\<lambda>_ v. Q a (sch (s\<lparr>sch := x, sys := v\<rparr>)) \<and> spaces r h p (s\<lparr>sch := x, sys := v\<rparr>)) (sys s)"
    using x assms(1) y by (intro wpK_mono[OF sw]) (auto simp: spaces_def bare_def page_used_def)
  moreover have "spaces r h p (s\<lparr>sch := x\<rparr>)" if "running x = running (sch s)" using assms(1) that by (simp add: spaces_def bare_def)
  ultimately show "if running x = running (sch s) then Q a (sch (s\<lparr>sch := x\<rparr>)) \<and> spaces r h p (s\<lparr>sch := x\<rparr>)
     else wpK (switch_process (vml U) x (running (sch s))) (\<lambda>_ v. Q a (sch (s\<lparr>sch := x, sys := v\<rparr>)) \<and> spaces r h p (s\<lparr>sch := x, sys := v\<rparr>)) (sys s)"
    using x by simp
qed

section \<open>The protocol\<close>

text \<open>
  The phases of a round: the first thread has to raise the first semaphore, has raised it, the helper has taken
  it, the helper has raised the second semaphore. Only the first thread can be asleep in the middle two.
\<close>

datatype phase = Quiet | Raised | Taken | Answered

definition sleeper :: "addr \<Rightarrow> addr \<Rightarrow> phase \<Rightarrow> addr" where
  "sleeper r h ph = (if ph \<in> {Raised, Taken} then r else h)"

definition main_left :: "addr \<Rightarrow> nat \<Rightarrow> phase \<Rightarrow> sema_call list" where
  "main_left p q ph = (if ph = Quiet then [] else [DOWN (p + 1)]) @ concat (replicate q [UP p, DOWN (p + 1)])"

definition helper_left :: "addr \<Rightarrow> nat \<Rightarrow> phase \<Rightarrow> sema_call list" where
  "helper_left p q ph = (case ph of Raised \<Rightarrow> [DOWN p, UP (p + 1)] | Taken \<Rightarrow> [UP (p + 1)] | _ \<Rightarrow> []) @
     concat (replicate q [DOWN p, UP (p + 1)])"

text \<open>The scheduler in a phase, with \<open>q\<close> rounds to go after this one and the thread \<open>t\<close> running.\<close>

definition talk :: "addr \<Rightarrow> addr \<Rightarrow> addr \<Rightarrow> nat \<Rightarrow> phase \<Rightarrow> addr \<Rightarrow> bool \<Rightarrow> sched \<Rightarrow> bool" where
  "talk r h p q ph t asleep x \<longleftrightarrow> t \<in> {r, h} \<and> r \<noteq> h \<and> duo t (if t = r then h else r) asleep x \<and>
     (asleep \<longrightarrow> t \<noteq> sleeper r h ph \<and> (sleeper r h ph = h \<longrightarrow> 0 < q)) \<and>
     sema_at p (if ph = Raised then 1 else 0) (if asleep \<and> sleeper r h ph = h then [h] else []) x \<and>
     sema_at (p + 1) (if ph = Answered then 1 else 0) (if asleep \<and> sleeper r h ph = r then [r] else []) x"

lemma talk_main_up:
  assumes L: "listlib_ok L" and x: "talk r h p (Suc q) Quiet r asleep x"
  shows "wpK (sema_up L p) (\<lambda>_ y. talk r h p q Raised r False y) x"
proof (cases asleep)
  case True
  then show ?thesis using x by (intro wpK_mono[OF up_wakes[OF L, of r h x p 0]]) (auto simp: talk_def sema_at_def sleeper_def)
next
  case False
  then show ?thesis using x by (intro wpK_mono[OF up_not_awaited[OF L, of r h False x p 0]]) (auto simp: talk_def sema_at_def sleeper_def)
qed

lemma talk_main_sleeps:
  assumes L: "listlib_ok L" and x: "talk r h p q ph r asleep x" "ph \<in> {Raised, Taken}"
  shows "wpK (sema_down L (p + 1)) (\<lambda>got y. \<not> got \<and> \<not> asleep \<and> talk r h p q ph h True y) x"
  using x by (intro wpK_mono[OF down_sleeps[OF L, of r h x "p + 1"]]) (auto simp: talk_def sema_at_def sleeper_def)

lemma talk_main_down:
  assumes x: "talk r h p q Answered r asleep x"
  shows "wpK (sema_down L (p + 1)) (\<lambda>got y. got \<and> talk r h p q Quiet r asleep y) x"
  using x by (intro wpK_mono[OF down_passes[of r h asleep x "p + 1" 0]]) (auto simp: talk_def sema_at_def sleeper_def)

lemma talk_helper_sleeps:
  assumes L: "listlib_ok L" and x: "talk r h p q ph h asleep x" "ph \<in> {Quiet, Answered}" "0 < q"
  shows "wpK (sema_down L p) (\<lambda>got y. \<not> got \<and> \<not> asleep \<and> talk r h p q ph r True y) x"
  using x by (intro wpK_mono[OF down_sleeps[OF L, of h r x p]]) (auto simp: talk_def sema_at_def sleeper_def)

lemma talk_helper_down:
  assumes x: "talk r h p q Raised h asleep x"
  shows "wpK (sema_down L p) (\<lambda>got y. got \<and> talk r h p q Taken h asleep y) x"
  using x by (intro wpK_mono[OF down_passes[of h r asleep x p 0]]) (auto simp: talk_def sema_at_def sleeper_def)

lemma talk_helper_up:
  assumes L: "listlib_ok L" and x: "talk r h p q Taken h asleep x"
  shows "wpK (sema_up L (p + 1)) (\<lambda>_ y. talk r h p q Answered h False y) x"
proof (cases asleep)
  case True
  then show ?thesis using x by (intro wpK_mono[OF up_wakes[OF L, of h r x "p + 1" 0]]) (auto simp: talk_def sema_at_def sleeper_def)
next
  case False
  then show ?thesis using x by (intro wpK_mono[OF up_not_awaited[OF L, of h r False x "p + 1" 0]]) (auto simp: talk_def sema_at_def sleeper_def)
qed

lemma talk_yield:
  assumes L: "listlib_ok L" and x: "talk r h p q ph t asleep x"
  shows "wpK (thread_yield L) (\<lambda>_ y. \<exists>t. talk r h p q ph t asleep y) x"
  using x by (intro wpK_mono[OF yield_goes_on[OF L, of t "if t = r then h else r" asleep x]]) (auto simp: talk_def sema_at_def sleeper_def)

lemma talk_running: "talk r h p q ph t asleep x \<Longrightarrow> running x = t \<and> threads x r \<noteq> None \<and> threads x h \<noteq> None \<and> t \<in> {r, h} \<and> r \<noteq> h"
  by (auto simp: talk_def duo_def split: if_splits)

section \<open>The helper ends\<close>

definition ended :: "addr \<Rightarrow> addr \<Rightarrow> sched \<Rightarrow> bool" where
  "ended r p x \<longleftrightarrow> (\<exists>c. threads x r = Some c \<and> kthread THREAD_RUNNING PRI_DEFAULT c) \<and> running x = r \<and> ready_list x = [] \<and>
     sleeping_list x = [] \<and> \<not> intr_context x \<and> idle_thread x \<noteq> Some r \<and> sema_at p 0 [] x \<and> sema_at (p + 1) 1 [] x"

lemma bareE:
  assumes "bare h s"
  obtains y c e where "uthreads (sys s) h = Some y" "mmap_list y = []" "page_table y = []" "child_process_list y = []"
    "ufile y = None" "pagedir y = None" "process y = Some c" "children s c = Some e" "file_list e = []"
    "file_lock (vfs (sys s)) \<noteq> Some h" "frame_lock (sys s) \<noteq> Some h" "swap_lock (sys s) \<noteq> Some h" "page_used (sys s) (of_nat h)"
  using assms by (auto simp: bare_def)

lemma process_exit_bare:
  assumes "bare h s" "cur_thread (vfs (sys s)) = h"
  shows "wpK (process_exit U) (\<lambda>_ t. bare h t \<and> sys t = sys s \<and> sch t = sch s) s"
  using assms(1)
proof (rule bareE)
  fix y c e assume "uthreads (sys s) h = Some y" "mmap_list y = []" "page_table y = []" "child_process_list y = []"
    "ufile y = None" "pagedir y = None" "process y = Some c" "children s c = Some e" "file_list e = []"
    "file_lock (vfs (sys s)) \<noteq> Some h" "frame_lock (sys s) \<noteq> Some h" "swap_lock (sys s) \<noteq> Some h" "page_used (sys s) (of_nat h)"
  then show ?thesis using assms(2)
    by (simp add: process_exit_def munmap_all_def file_close_def close_all_def my_process_def upd_child_def childK_def nonnull_def bare_def)
qed

lemma exit_final_run:
  assumes "talk r h p 0 Answered h False x"
  shows "wpK (thread_exit_final L) (\<lambda>_ y. ended r p y) x"
proof -
  have "duo h r False x" "sema_at p 0 [] x" "sema_at (p + 1) 1 [] x" using assms by (auto simp: talk_def)
  then show ?thesis by (elim duoE) (simp add: thread_exit_final_def duo_sim list_remove_def ended_def kthread_def)
qed

lemma helper_ends:
  assumes s: "spaces r h p s" "talk r h p 0 Answered h False (sch s)"
  shows "wpK (thread_exit U) (\<lambda>_ t. ended r p (sch t)) s"
proof -
  have run: "running (sch s) = h" "\<not> intr_context (sch s)" "h \<noteq> r" using s(2) by (auto simp: talk_def duo_def)
  obtain d where d: "threads (sch s) h = Some d" "kthread THREAD_RUNNING PRI_DEFAULT d" using s(2) by (auto simp: talk_def duo_def)
  have "wpK (thenK (release_held U) (inSched U (thread_exit_final (lists U)))) (\<lambda>_ u. ended r p (sch u)) t"
    if t: "bare h t" "sys t = sys s" "sch t = sch s" for t :: "'a usr"
  proof -
    obtain z where "uthreads (sys s) r = Some z" using s(1) by (auto simp: spaces_def)
    then have "wpK (inSched U (thread_exit_final (lists U))) (\<lambda>_ u. ended r p (sch u)) t"
      unfolding inSched_wp t(3) using t s(1) run
      by (intro wpK_mono[OF exit_final_run[OF s(2)]], elim bareE)
         (auto simp: switch_process_def process_activate_def pagedir_activate_def ended_def spaces_def palloc_free_page_def page_used_def)
    moreover have "cur_thread (vfs (sys t)) = h" "running (sch t) = h" "threads (sch t) h = Some d"
      using t(2,3) s(1) run(1) d(1) by (simp_all add: spaces_def)
    ultimately show ?thesis using t(1) d(2)
      by (elim bareE) (simp add: release_held_def inSched_wp[of U "bindK thread_current f" for f] kthread_def running_ok_def)
  qed
  then have "wpK (process_exit U) (\<lambda>_. wpK (thenK (release_held U) (inSched U (thread_exit_final (lists U)))) (\<lambda>_ u. ended r p (sch u))) s"
    using s(1) run(1) by (intro wpK_mono[OF process_exit_bare[of h s]]) (auto simp: spaces_def)
  then show ?thesis using run(2) by (simp add: thread_exit_def inSched_wp[of U "getK f" for f])
qed

section \<open>Every step advances\<close>

definition ahead :: "phase \<Rightarrow> nat" where
  "ahead ph = (case ph of Quiet \<Rightarrow> 0 | Raised \<Rightarrow> 3 | Taken \<Rightarrow> 2 | Answered \<Rightarrow> 1)"

text \<open>
  Before the return of \<^verbatim>\<open>sema_self_test\<close>, with at most \<open>n\<close> steps to go: a phase takes at most two, one of
  them to sleep, and the helper one more to enter its loop.
\<close>

definition underway :: "addr \<Rightarrow> addr \<Rightarrow> addr \<Rightarrow> nat \<Rightarrow> agenda \<Rightarrow> 'd usr \<Rightarrow> bool" where
  "underway r h p n g s \<longleftrightarrow> (\<exists>q ph t asleep. talk r h p q ph t asleep (sch s) \<and> spaces r h p s \<and> (ph = Quiet \<longrightarrow> 0 < q) \<and>
       g r = Some (main_left p q ph) \<and>
       (g h = Some (helper_left p q ph) \<or> g h = None \<and> helper_left p q ph = sema_test_helper p \<and> \<not> (asleep \<and> sleeper r h ph = h)) \<and>
       2 * (4 * q + ahead ph) + (if asleep then 0 else 1) + (if g h = None then 1 else 0) \<le> n) \<or>
     ended r p (sch s) \<and> g r = Some [DOWN (p + 1)] \<and> 1 \<le> n"

definition returned :: "addr \<Rightarrow> addr \<Rightarrow> agenda \<Rightarrow> 'd usr \<Rightarrow> bool" where
  "returned r p g s \<longleftrightarrow> g r = Some [] \<and> running (sch s) = r \<and> sema_at p 0 [] (sch s) \<and> sema_at (p + 1) 0 [] (sch s)"

lemma underwayI:
  "talk r h p q ph t asleep (sch s) \<Longrightarrow> spaces r h p s \<Longrightarrow> (ph = Quiet \<longrightarrow> 0 < q) \<Longrightarrow> g r = Some (main_left p q ph) \<Longrightarrow>
   g h = Some (helper_left p q ph) \<or> g h = None \<and> helper_left p q ph = sema_test_helper p \<and> \<not> (asleep \<and> sleeper r h ph = h) \<Longrightarrow>
   2 * (4 * q + ahead ph) + (if asleep then 0 else 1) + (if g h = None then 1 else 0) \<le> n \<Longrightarrow> underway r h p n g s"
  unfolding underway_def by blast

text \<open>A call by one of the two threads, in the whole state.\<close>

lemma make_talk:
  assumes "spaces r h p s" "talk r h p q ph t asleep (sch s)"
    "wpK m (\<lambda>a x. B a \<and> talk r h p q' ph' t' asleep' x) (sch s)"
  shows "wpK (inSched U m) (\<lambda>a u. B a \<and> talk r h p q' ph' t' asleep' (sch u) \<and> spaces r h p u) s"
proof -
  have "wpK (inSched U m) (\<lambda>a u. (B a \<and> talk r h p q' ph' t' asleep' (sch u)) \<and> spaces r h p u) s"
    using talk_running[OF assms(2)] by (intro inSched_spaces[OF assms(1)] wpK_mono[OF assms(3)]) (auto dest: talk_running)
  then show ?thesis by (elim wpK_mono) simp
qed

lemma test_step_call:
  assumes "running (sch s) = t" "g t = Some (c # cs)"
    "wpK (make_call U c) (\<lambda>done u. Q (if done then g(t \<mapsto> cs) else g) u) s"
  shows "wpK (test_step U g) Q s"
  using assms(2,3) unfolding assms(1)[symmetric] by (simp add: test_step_def inSched_wp)

lemma main_steps:
  assumes L: "listlib_ok (lists U)" and x: "talk r h p q ph r asleep (sch s)" "spaces r h p s" "ph = Quiet \<longrightarrow> 0 < q"
    and g: "g r = Some (main_left p q ph)"
      "g h = Some (helper_left p q ph) \<or> g h = None \<and> helper_left p q ph = sema_test_helper p \<and> \<not> (asleep \<and> sleeper r h ph = h)"
    and n: "2 * (4 * q + ahead ph) + (if asleep then 0 else 1) + (if g h = None then 1 else 0) \<le> Suc n"
  shows "wpK (test_step U g) (\<lambda>g' t. returned r p g' t \<or> underway r h p n g' t) s"
proof -
  have run: "running (sch s) = r" "r \<noteq> h" using talk_running[OF x(1)] by auto
  note call = test_step_call[OF run(1), of g]
  show ?thesis
  proof (cases "ph = Quiet")
    case True
    then obtain q' where q: "q = Suc q'" using x(3) by (cases q) auto
    have "wpK (inSched U (sema_up (lists U) p)) (\<lambda>_ u. True \<and> talk r h p q' Raised r False (sch u) \<and> spaces r h p u) s"
      using x True q by (intro make_talk[OF x(2,1)] wpK_mono[OF talk_main_up[OF L]]) auto
    moreover have "underway r h p n (g(r \<mapsto> main_left p q' Raised)) u" if "talk r h p q' Raised r False (sch u)" "spaces r h p u" for u :: "'a usr"
      using g n q True run(2) by (intro underwayI[OF that]) (auto simp: helper_left_def ahead_def)
    moreover have "g r = Some (UP p # main_left p q' Raised)" using g(1) True q by (simp add: main_left_def)
    ultimately show ?thesis by (intro call) (auto simp: make_call_def elim!: wpK_mono)
  next
    case False
    then have c: "g r = Some (DOWN (p + 1) # main_left p q Quiet)" using g(1) by (simp add: main_left_def)
    show ?thesis
    proof (cases "ph = Answered")
      case True
      have "wpK (inSched U (sema_down (lists U) (p + 1))) (\<lambda>got u. got \<and> talk r h p q Quiet r asleep (sch u) \<and> spaces r h p u) s"
        using x True by (intro make_talk[OF x(2,1)] talk_main_down) auto
      moreover have "returned r p (g(r \<mapsto> main_left p q Quiet)) u \<or> underway r h p n (g(r \<mapsto> main_left p q Quiet)) u"
        if u: "talk r h p q Quiet r asleep (sch u)" "spaces r h p u" for u :: "'a usr"
      proof (cases "q = 0")
        case True
        then show ?thesis using u(1) talk_running[OF u(1)] by (auto simp: returned_def main_left_def talk_def sleeper_def)
      next
        case False
        have "underway r h p n (g(r \<mapsto> main_left p q Quiet)) u"
          using g n run(2) True False by (intro underwayI[OF u]) (auto simp: helper_left_def ahead_def sleeper_def)
        then show ?thesis ..
      qed
      ultimately show ?thesis by (intro call[OF c], unfold make_call_def) (simp, erule wpK_mono, auto)
    next
      case no: False
      have "wpK (inSched U (sema_down (lists U) (p + 1))) (\<lambda>got u. (\<not> got \<and> \<not> asleep) \<and> talk r h p q ph h True (sch u) \<and> spaces r h p u) s"
        using x no False by (intro make_talk[OF x(2,1)] wpK_mono[OF talk_main_sleeps[OF L x(1)]]) (cases ph; auto)+
      moreover have "underway r h p n g u" if "\<not> asleep" "talk r h p q ph h True (sch u)" "spaces r h p u" for u :: "'a usr"
        using g n run(2) False no that(1) by (intro underwayI[OF that(2,3)]) (cases ph; auto simp: sleeper_def)+
      ultimately show ?thesis by (intro call[OF c]) (auto simp: make_call_def elim!: wpK_mono)
    qed
  qed
qed

lemma entered:
  "talk r h p q ph t asleep (x\<lparr>intr_on := b\<rparr>) = talk r h p q ph t asleep x"
  "spaces r h p (s\<lparr>sch := (sch s)\<lparr>intr_on := b\<rparr>\<rparr>) = spaces r h p s"
  by (simp_all add: talk_def duo_def sema_at_def spaces_def bare_def)

lemma helper_steps:
  assumes L: "listlib_ok (lists U)" and p: "p < 2 ^ 32" and x: "talk r h p q ph h asleep (sch s)" "spaces r h p s" "ph = Quiet \<longrightarrow> 0 < q"
    and g: "g r = Some (main_left p q ph)"
      "g h = Some (helper_left p q ph) \<or> g h = None \<and> helper_left p q ph = sema_test_helper p \<and> \<not> (asleep \<and> sleeper r h ph = h)"
    and n: "2 * (4 * q + ahead ph) + (if asleep then 0 else 1) + (if g h = None then 1 else 0) \<le> Suc n"
  shows "wpK (test_step U g) (\<lambda>g' t. returned r p g' t \<or> underway r h p n g' t) s"
proof -
  have run: "running (sch s) = h" "r \<noteq> h" using talk_running[OF x(1)] by auto
  note call = test_step_call[OF run(1), of g]
  show ?thesis
  proof (cases "g h")
    case None
    let ?s = "s\<lparr>sch := (sch s)\<lparr>intr_on := True\<rparr>\<rparr>" and ?g = "g(h \<mapsto> helper_left p q ph)"
    have "talk r h p q ph h asleep (sch ?s)" "spaces r h p ?s" using x by (simp_all add: entered)
    then have "underway r h p n ?g ?s" using x(3) g n run(2) None by (intro underwayI[of r h p q ph h asleep]) auto
    moreover have "helper_left p q ph = sema_test_helper (unat (of_nat p :: u32))" using p g(2) None by (simp add: unat_of_nat)
    ultimately have "underway r h p n (g(h \<mapsto> sema_test_helper (unat (of_nat p :: u32)))) ?s" by simp
    then show ?thesis using x(2) None run(1)
      by (auto simp: test_step_def kernel_thread_def inSched_wp spaces_def)
  next
    case (Some cs)
    then have hl: "g h = Some (helper_left p q ph)" using g(2) by simp
    have sleeps: ?thesis if early: "ph \<in> {Quiet, Answered}" "0 < q"
    proof -
      obtain q' where q: "q = Suc q'" using early(2) by (cases q) auto
      have "g h = Some (DOWN p # UP (p + 1) # helper_left p q' Quiet)" using hl early(1) q by (auto simp: helper_left_def)
      moreover have "wpK (inSched U (sema_down (lists U) p)) (\<lambda>got u. (\<not> got \<and> \<not> asleep) \<and> talk r h p q ph r True (sch u) \<and> spaces r h p u) s"
        using x early by (intro make_talk[OF x(2,1)] wpK_mono[OF talk_helper_sleeps[OF L x(1)]]) auto
      moreover have "underway r h p n g u" if "\<not> asleep" "talk r h p q ph r True (sch u)" "spaces r h p u" for u :: "'a usr"
        using g n run(2) hl x(3) that(1) by (intro underwayI[OF that(2,3)]) auto
      ultimately show ?thesis by (intro call) (auto simp: make_call_def elim!: wpK_mono)
    qed
    show ?thesis
    proof (cases ph)
      case Raised
      have "wpK (inSched U (sema_down (lists U) p)) (\<lambda>got u. got \<and> talk r h p q Taken h asleep (sch u) \<and> spaces r h p u) s"
        using x Raised by (intro make_talk[OF x(2,1)] talk_helper_down) auto
      moreover have "underway r h p n (g(h \<mapsto> helper_left p q Taken)) u" if "talk r h p q Taken h asleep (sch u)" "spaces r h p u" for u :: "'a usr"
        using g n Raised run(2) hl by (intro underwayI[OF that]) (auto simp: main_left_def ahead_def)
      moreover have "g h = Some (DOWN p # helper_left p q Taken)" using hl Raised by (simp add: helper_left_def)
      ultimately show ?thesis by (intro call) (auto simp: make_call_def elim!: wpK_mono)
    next
      case Taken
      have "wpK (inSched U (sema_up (lists U) (p + 1))) (\<lambda>_ u. True \<and> talk r h p q Answered h False (sch u) \<and> spaces r h p u) s"
        using x Taken by (intro make_talk[OF x(2,1)] wpK_mono[OF talk_helper_up[OF L]]) auto
      moreover have "underway r h p n (g(h \<mapsto> helper_left p q Answered)) u" if "talk r h p q Answered h False (sch u)" "spaces r h p u" for u :: "'a usr"
        using g n Taken run(2) hl by (intro underwayI[OF that]) (auto simp: main_left_def ahead_def)
      moreover have "g h = Some (UP (p + 1) # helper_left p q Answered)" using hl Taken by (simp add: helper_left_def)
      ultimately show ?thesis by (intro call) (auto simp: make_call_def elim!: wpK_mono)
    next
      case Quiet
      then show ?thesis using sleeps x(3) by simp
    next
      case Answered
      show ?thesis
      proof (cases "q = 0")
        case True
        then have "asleep = False" using x(1) Answered by (auto simp: talk_def sleeper_def)
        then have "wpK (thread_exit U) (\<lambda>_ u. ended r p (sch u)) s" using x Answered True by (intro helper_ends[OF x(2)]) simp
        moreover have "underway r h p n g u" if "ended r p (sch u)" for u :: "'a usr"
          using that g(1) n True Answered by (auto simp: underway_def main_left_def ahead_def split: if_splits)
        ultimately show ?thesis using hl Answered True run(1)
          by (auto simp: test_step_def inSched_wp[of U "getK f" for f] helper_left_def elim!: wpK_mono)
      qed (use sleeps Answered in simp)
    qed
  qed
qed

lemma ended_yields:
  assumes L: "listlib_ok L" and x: "ended r p x"
  shows "wpK (thread_yield L) (\<lambda>_ y. ended r p y) x"
proof -
  obtain c where "threads x r = Some c" "kthread THREAD_RUNNING PRI_DEFAULT c" using x by (auto simp: ended_def)
  then show ?thesis using x
    by (simp add: ended_def duo_sim thread_yield_def single[OF L strict_big] kthread_def)
qed

lemma ended_steps:
  assumes "ended r p (sch s)" "g r = Some [DOWN (p + 1)]"
  shows "wpK (test_step U g) (\<lambda>g' t. returned r p g' t) s"
  using assms by (intro test_step_call[where t = r and g = g and c = "DOWN (p + 1)" and cs = "[]"]) (auto simp: make_call_def inSched_wp duo_sim ended_def returned_def)

lemma underwayE:
  assumes "underway r h p n g s"
  obtains q ph t asleep where "talk r h p q ph t asleep (sch s)" "spaces r h p s" "ph = Quiet \<longrightarrow> 0 < q" "g r = Some (main_left p q ph)"
      "g h = Some (helper_left p q ph) \<or> g h = None \<and> helper_left p q ph = sema_test_helper p \<and> \<not> (asleep \<and> sleeper r h ph = h)"
      "2 * (4 * q + ahead ph) + (if asleep then 0 else 1) + (if g h = None then 1 else 0) \<le> n"
    | "ended r p (sch s)" "g r = Some [DOWN (p + 1)]" "1 \<le> n"
  using assms unfolding underway_def by blast

lemma underway_pos: "underway r h p n g s \<Longrightarrow> 0 < n \<and> g r \<noteq> Some []"
proof (erule underwayE)
  fix q ph t asleep assume "ph = Quiet \<longrightarrow> 0 < q" "g r = Some (main_left p q ph)"
    "2 * (4 * q + ahead ph) + (if asleep then 0 else 1) + (if g h = None then 1 else 0) \<le> n"
  then show ?thesis by (cases ph; cases q) (auto simp: ahead_def main_left_def)
qed simp

lemma underway_step:
  assumes "listlib_ok (lists U)" "p < 2 ^ 32" "underway r h p (Suc n) g s"
  shows "wpK (test_step U g) (\<lambda>g' t. returned r p g' t \<or> underway r h p n g' t) s"
  using assms(3)
proof (cases rule: underwayE)
  case (1 q ph t asleep)
  then consider "t = r" | "t = h" using talk_running[OF 1(1)] by auto
  then show ?thesis
  proof cases
    case 2
    then show ?thesis using 1 by (intro helper_steps[OF assms(1,2)]) auto
  qed (use 1 in \<open>intro main_steps[OF assms(1)]; auto\<close>)
next
  case 2
  then show ?thesis by (auto intro: wpK_mono[OF ended_steps])
qed

lemma underway_preempt:
  assumes L: "listlib_ok (lists U)" and u: "underway r h p n g s"
  shows "wpK (inSched U (thread_yield (lists U))) (\<lambda>_ t. underway r h p n g t) s"
  using u
proof (cases rule: underwayE)
  case (1 q ph t asleep)
  have "wpK (inSched U (thread_yield (lists U))) (\<lambda>_ u. (\<exists>t. talk r h p q ph t asleep (sch u)) \<and> spaces r h p u) s"
    using talk_running[OF 1(1)] by (intro inSched_spaces[OF 1(2)] wpK_mono[OF talk_yield[OF L 1(1)]]) (auto dest: talk_running)
  then show ?thesis using 1(3-6) by (elim wpK_mono) (blast intro: underwayI)
next
  case 2
  have "running (sch s) = r" using 2(1) by (simp add: ended_def)
  with 2 show ?thesis unfolding inSched_wp
    by (intro wpK_mono[OF ended_yields[OF L 2(1)]]) (simp add: underway_def, simp add: ended_def)
qed

lemma test_ends:
  assumes "listlib_ok (lists U)" "p < 2 ^ 32" "underway r h p n g s" "n \<le> count_list es Step"
  shows "wpK (test_run U r es g) (\<lambda>g' t. returned r p g' t) s"
  using assms(3,4)
proof (induction es arbitrary: n g s)
  case Nil
  then show ?case using underway_pos by fastforce
next
  case (Cons e es)
  have busy: "g r \<noteq> Some []" using underway_pos[OF Cons.prems(1)] by simp
  have over: "wpK (test_run U r es g') (\<lambda>g' t. returned r p g' t) t" if "returned r p g' t" for g' and t :: "'a usr"
    using that by (cases es) (simp_all add: returned_def)
  show ?case
  proof (cases e)
    case Preempt
    then have "wpK (test_event U e g) (\<lambda>g' t. wpK (test_run U r es g') (\<lambda>g' t. returned r p g' t) t) s"
      using Cons.prems(2) by (auto simp: test_event_def intro!: wpK_mono[OF underway_preempt[OF assms(1) Cons.prems(1)]] Cons.IH)
    then show ?thesis using busy by simp
  next
    case Step
    show ?thesis
    proof (cases n)
      case 0
      then show ?thesis using underway_pos[OF Cons.prems(1)] by simp
    next
      case (Suc m)
      have "wpK (test_run U r es g') (\<lambda>g' t. returned r p g' t) t" if "returned r p g' t \<or> underway r h p m g' t" for g' and t :: "'a usr"
        using that over Cons.IH[of m g' t] Cons.prems(2) Step Suc by auto
      then have "wpK (test_event U e g) (\<lambda>g' t. wpK (test_run U r es g') (\<lambda>g' t. returned r p g' t) t) s"
        using Step Cons.prems(1) Suc by (auto simp: test_event_def intro!: wpK_mono[OF underway_step[OF assms(1,2)]])
      then show ?thesis using busy by simp
    qed
  qed
qed

section \<open>The test starts\<close>

text \<open>
  The thread \<open>r\<close> runs and no other thread is ready or sleeps until some time; the page at \<open>h\<close> is not yet a thread.
\<close>

definition alone :: "addr \<Rightarrow> addr \<Rightarrow> 'd usr \<Rightarrow> bool" where
  "alone r h s \<longleftrightarrow> (\<exists>m. threads (sch s) r = Some m \<and> kthread THREAD_RUNNING PRI_DEFAULT m) \<and> running (sch s) = r \<and> r \<noteq> h \<and>
     ready_list (sch s) = [] \<and> sleeping_list (sch s) = [] \<and> \<not> intr_context (sch s) \<and> idle_thread (sch s) \<notin> {Some r, Some h} \<and>
     r \<in> set (all_list (sch s)) \<and> cur_thread (vfs (sys s)) = r \<and> uthreads (sys s) r \<noteq> None \<and> cur_dir (vfs (sys s)) = None \<and> tid_lock s = None \<and>
     file_lock (vfs (sys s)) \<noteq> Some h \<and> frame_lock (sys s) \<noteq> Some h \<and> swap_lock (sys s) \<noteq> Some h"

lemma helper_created:
  assumes L: "listlib_ok (lists U)" and a: "alone r (unat pg) s" "sema_at p 0 [] (sch s)" "sema_at (p + 1) 0 [] (sch s)"
    and pg: "palloc (hw (vml U)) False (page_used (sys s)) = Some pg" and ob: "obj_ok (vml U) (usr_brk s)"
  shows "wpK (thread_create U (Some n) PRI_DEFAULT SEMA_TEST (of_nat p)) (\<lambda>_ t. running (sch t) = r \<and>
    talk r (unat pg) p 10 Quiet r False (sch t) \<and> spaces r (unat pg) p t) s"
proof -
  note sg = single[OF L strict_big]
  obtain m y where m: "threads (sch s) r = Some m" "kthread THREAD_RUNNING PRI_DEFAULT m" and y: "uthreads (sys s) r = Some y"
    using a(1) by (auto simp: alone_def)
  have f: "running (sch s) = r" "r \<noteq> unat pg" "ready_list (sch s) = []" "sleeping_list (sch s) = []" "\<not> intr_context (sch s)"
    "idle_thread (sch s) \<noteq> Some r" "idle_thread (sch s) \<noteq> Some (unat pg)" "r \<in> set (all_list (sch s))" "cur_thread (vfs (sys s)) = r"
    "cur_dir (vfs (sys s)) = None" "tid_lock s = None" "file_lock (vfs (sys s)) \<noteq> Some (unat pg)" "frame_lock (sys s) \<noteq> Some (unat pg)"
    "swap_lock (sys s) \<noteq> Some (unat pg)" using a(1) by (simp_all add: alone_def)
  show ?thesis using f m y pg a(2,3) ob
    by (simp add: thread_create_def palloc_get_data_def inSched_wp init_thread_def PRI_MIN_def PRI_MAX_def
      PRI_DEFAULT_def allocate_tid_def kthread_def thread_tid_def running_ok_def create_child_def child_init_def
      usr_malloc_def upd_uthread_def thread_unblock_def intr_off_wp if_yield_def sg Let_def talk_def duo_def sema_at_def sleeper_def
      spaces_def bare_def fresh_uthread_def page_used_def)
qed

text \<open>
  C19. The self test of semaphores ends. From a thread of default priority that runs alone, \<^verbatim>\<open>sema_self_test\<close> creates
  its helper and both make their calls in steps, wherever the timer preempts them and whichever of the two equal
  threads the scheduler then prefers. No step fails, so that somebody can always run, and after at most 82
  steps \<^verbatim>\<open>sema_self_test\<close> has returned in its thread, with both semaphores zero and nobody waiting.
\<close>

theorem sema_self_test_returns:
  assumes "listlib_ok (lists U)" "p < 2 ^ 32" "alone r (unat pg) s"
    and "palloc (hw (vml U)) False (page_used (sys s)) = Some pg" "obj_ok (vml U) (usr_brk s)" "82 \<le> count_list es Step"
  shows "wpK (bindK (sema_self_test U p) (\<lambda>calls. test_run U r es [r \<mapsto> calls])) (\<lambda>g t. g r = Some [] \<and> running (sch t) = r \<and>
    semas (sch t) p = Some \<lparr>svalue = 0, waiters = []\<rparr> \<and> semas (sch t) (p + 1) = Some \<lparr>svalue = 0, waiters = []\<rparr>) s"
proof -
  let ?h = "unat pg" and ?z = "\<lparr>svalue = 0, waiters = []\<rparr>"
  let ?s = "s\<lparr>sch := (sch s)\<lparr>semas := (semas (sch s))(p \<mapsto> ?z, p + 1 \<mapsto> ?z)\<rparr>\<rparr>"
  have run: "running (sch s) = r" "r \<noteq> ?h" using assms(3) by (simp_all add: alone_def)
  have ends: "wpK (test_run U r es [r \<mapsto> concat (replicate 10 [UP p, DOWN (p + 1)])]) (\<lambda>g u. returned r p g u) t"
    if t: "talk r ?h p 10 Quiet r False (sch t)" "spaces r ?h p t" for t :: "'a usr"
  proof (rule test_ends[OF assms(1,2) _ assms(6)])
    show "underway r ?h p 82 [r \<mapsto> concat (replicate 10 [UP p, DOWN (p + 1)])] t"
      using run(2) by (intro underwayI[OF t]) (simp_all add: main_left_def helper_left_def sema_test_helper_def ahead_def)
  qed
  have "wpK (thread_create U (Some (lit ''sema-test'')) PRI_DEFAULT SEMA_TEST (of_nat p)) (\<lambda>_ t. running (sch t) = r \<and>
    talk r ?h p 10 Quiet r False (sch t) \<and> spaces r ?h p t) ?s"
    using assms(3-5) by (intro helper_created[OF assms(1)]) (simp_all add: alone_def sema_at_def)
  then have "wpK (bindK (sema_self_test U p) (\<lambda>calls. test_run U r es [r \<mapsto> calls])) (\<lambda>g u. returned r p g u) s"
    unfolding sema_self_test_def wpK_bind wpK_then unswitched_def
    by (simp add: sema_init_def inSched_wp[of U "put_sema q x" for q x] put_sema_def run(1))
       (erule wpK_mono, use ends in simp)
  then show ?thesis by (elim wpK_mono) (simp add: returned_def sema_at_def)
qed

text \<open>Thread 1 of \<open>sim_usr\<close>, running alone.\<close>

definition sim_alone :: "(u32 \<Rightarrow> byte list) usr" where
  "sim_alone = sim_usr\<lparr>sch := sim_sched\<lparr>threads := [1 \<mapsto> \<lparr>ttid = 1, status = THREAD_RUNNING, tname = ''main'', priority = PRI_DEFAULT,
     original_priority = PRI_DEFAULT, lock_list = [], wait_lock_list = [], user_process = False, tmagic = THREAD_MAGIC, wake_time = 0\<rparr>]\<rparr>\<rparr>"

theorem sema_self_test_returns_witness:
  "wpK (bindK (sema_self_test (sim_ulib\<lparr>lists := sim_list\<rparr>) 5) (\<lambda>calls. test_run (sim_ulib\<lparr>lists := sim_list\<rparr>) 1
     (concat (replicate 82 [Preempt, Step])) [1 \<mapsto> calls])) (\<lambda>g t. g 1 = Some [] \<and> running (sch t) = 1) sim_alone"
proof -
  let ?U = "sim_ulib\<lparr>lists := sim_list\<rparr>"
  have l: "obj_ok (vml ?U) (usr_brk sim_alone)" "listlib_ok (lists ?U)"
    by (simp_all add: sim_alone_def sim_usr_def sim_ulib_def sim_list_ok)
  have p: "palloc (hw (vml ?U)) False (page_used (sys sim_alone)) = Some 0xC0002000"
    by (simp add: sim_ulib_def sim_pool_def page_used_def sim_alone_def sim_usr_def sim_load_def sim_vm_def)
  have a: "alone 1 (unat (0xC0002000 :: u32)) sim_alone"
    by (simp add: alone_def sim_alone_def sim_usr_def sim_sched_def sim_load_def sim_vm_def sim_files_def sim_open_def sim_fs_def kthread_def)
  have "count_list (concat (replicate k [Preempt, Step])) Step = k" for k by (induction k) auto
  then have n: "82 \<le> count_list (concat (replicate 82 [Preempt, Step])) Step" by simp
  have "(5 :: nat) < 2 ^ 32" by simp
  from sema_self_test_returns[OF l(2) this a p l(1) n] show ?thesis by (rule wpK_mono) simp
qed

end
