(* ===== verification/Pointer_Facts.thy ===== *)
theory Pointer_Facts
  imports Fault_Facts
begin

text \<open>
  Bad pointers from user programs: what \<^verbatim>\<open>syscall_handler\<close> does with a stack pointer, a string or a buffer outside of
  user space.
\<close>

section \<open>Pointers of user programs\<close>

definition in_user :: "'d vmlib \<Rightarrow> u32 \<Rightarrow> bool" where
  "in_user V p \<longleftrightarrow> CODE_BASE < p \<and> p < PHYS_BASE (hw V)"

text \<open>A user address whose page is in memory, and a word that is there.\<close>

definition resident :: "'d ulib \<Rightarrow> 'd usr \<Rightarrow> u32 \<Rightarrow> bool" where
  "resident U s p \<longleftrightarrow> in_user (vml U) p \<and> (\<exists>t k. uthreads (sys s) (cur_thread (vfs (sys s))) = Some t \<and>
     pagedir_get_page (hw (vml U)) (pagedir t) p (sys s) = Inr (Some k, sys s))"

definition holds_word :: "'d ulib \<Rightarrow> 'd usr \<Rightarrow> u32 \<Rightarrow> u32 \<Rightarrow> bool" where
  "holds_word U s a x \<longleftrightarrow> resident U s a \<and> user_word U a s = Inr (x, s)"

text \<open>The process ends with the status -1 and the call returns nothing.\<close>

definition killed :: "'d ulib \<Rightarrow> ('d usr, outcome) K" where
  "killed U = thenK (exit_call U (- 1)) (retK Exited)"

lemma cur_apply: "uthreads s (cur_thread (vfs s)) = Some t \<Longrightarrow> cur s = Inr (t, s)"
  by (simp add: cur_def me_def uthreadK_def kstep)

lemma checked_bad:
  assumes "uthreads (sys s) (cur_thread (vfs (sys s))) = Some t" "\<not> in_user (vml U) p"
  shows "checked U p m s = killed U s"
proof -
  have "PHYS_BASE (hw (vml U)) \<le> p \<or> p \<le> CODE_BASE" using assms(2) by (auto simp: in_user_def not_less)
  then have "check_valid_esp U p e = thenK (exit_call U (- 1)) (retK False)" for e
    by (intro ext) (simp add: check_valid_esp_def Let_def kstep)
  then show ?thesis using cur_apply[OF assms(1)] by (simp add: checked_def killed_def kstep inVm_def split: sum.splits)
qed

lemma checked_resident: "resident U s p \<Longrightarrow> checked U p m s = m s"
  by (auto simp: checked_def check_valid_esp_def in_user_def resident_def kstep inVm_def cur_apply Let_def)

lemma with_word_holds: "holds_word U s a x \<Longrightarrow> with_word U a m s = m x s"
  by (simp add: with_word_def holds_word_def checked_resident kstep)

text \<open>A buffer is checked byte by byte, up to the first one outside.\<close>

lemma checked_range_bad:
  assumes "uthreads (sys s) (cur_thread (vfs (sys s))) = Some t" "i < n" "\<not> in_user (vml U) (p + of_nat i)"
    "\<forall>k<i. resident U s (p + of_nat k)"
  shows "checked_range U p n m s = killed U s"
  using assms(2-)
proof (induction n arbitrary: p i)
  case (Suc n)
  show ?case
  proof (cases i)
    case 0
    then show ?thesis using Suc.prems checked_bad[OF assms(1)] by simp
  next
    case (Suc j)
    have "resident U s p" using Suc.prems(3) Suc by (auto dest: spec[of _ 0])
    moreover have "checked_range U (p + 1) n m s = killed U s"
      by (rule Suc.IH[of j]) (use Suc.prems Suc in \<open>auto simp: add.assoc dest: spec[of _ "Suc _"]\<close>)
    ultimately show ?thesis by (simp add: checked_resident)
  qed
qed simp

text \<open>
  C13. A program cannot pass a bad pointer to the kernel: when the stack pointer of a system call is outside of user
  space, or the call takes a string or a buffer and the string begins outside or a byte of the buffer is
  outside, with the words of the call and the bytes of the buffer before it in memory, then the handler does exactly one
  thing: it ends the process with the status -1. No part of the call is carried out.
\<close>

theorem bad_pointer_ends_process:
  assumes "uthreads (sys s) (cur_thread (vfs (sys s))) = Some t"
    and "\<not> in_user (vml U) (if_esp f) \<or> (\<forall>k<4. holds_word U s (if_esp f + 4 * of_nat k) (w k)) \<and> syscall_no U (sint (w 0)) = Some n \<and>
      (n \<in> {SYS_EXEC, SYS_CREATE, SYS_REMOVE, SYS_OPEN} \<and> \<not> in_user (vml U) (w 1) \<or>
       n \<in> {SYS_READ, SYS_WRITE} \<and> (\<exists>i<unat (w 3). \<not> in_user (vml U) (w 2 + of_nat i) \<and> (\<forall>k<i. resident U s (w 2 + of_nat k))))"
  shows "syscall_handler U f s = thenK (exit_call U (- 1)) (retK Exited) s"
  using assms(2)
proof (elim disjE[where P = "\<not> in_user (vml U) (if_esp f)"] conjE)
  assume "\<not> in_user (vml U) (if_esp f)"
  then show ?thesis using checked_bad[OF assms(1)] by (simp add: syscall_handler_def with_word_def Let_def killed_def)
next
  assume words: "\<forall>k<4. holds_word U s (if_esp f + 4 * of_nat k) (w k)" and n: "syscall_no U (sint (w 0)) = Some n"
    and bad: "n \<in> {SYS_EXEC, SYS_CREATE, SYS_REMOVE, SYS_OPEN} \<and> \<not> in_user (vml U) (w 1) \<or>
       n \<in> {SYS_READ, SYS_WRITE} \<and> (\<exists>i<unat (w 3). \<not> in_user (vml U) (w 2 + of_nat i) \<and> (\<forall>k<i. resident U s (w 2 + of_nat k)))"
  have h: "holds_word U s (if_esp f) (w 0)" "holds_word U s (if_esp f + 4) (w 1)" "holds_word U s (if_esp f + 8) (w 2)" "holds_word U s (if_esp f + 12) (w 3)"
    using words[rule_format, of 0] words[rule_format, of 1] words[rule_format, of 2] words[rule_format, of 3] by simp_all
  have r: "resident U s (if_esp f + 4)" "resident U s (if_esp f + 8)" "user_word U (if_esp f + 4) s = Inr (w 1, s)" "user_word U (if_esp f + 8) s = Inr (w 2, s)"
    using h by (simp_all add: holds_word_def)
  from bad show ?thesis
  proof (elim disjE[where P = "_ \<and> _"] conjE exE)
    assume b: "n \<in> {SYS_EXEC, SYS_CREATE, SYS_REMOVE, SYS_OPEN}" "\<not> in_user (vml U) (w 1)"
    then have p: "with_pointer U (if_esp f + 4) m s = killed U s" for m
      using r(3) checked_bad[OF assms(1)] by (simp add: with_pointer_def kstep)
    show ?thesis using b(1) n h r p by (auto simp: syscall_handler_def Let_def with_word_holds checked_resident killed_def)
  next
    fix i assume b: "n \<in> {SYS_READ, SYS_WRITE}" "i < unat (w 3)" "\<not> in_user (vml U) (w 2 + of_nat i)" "\<forall>k<i. resident U s (w 2 + of_nat k)"
    have "with_range U (if_esp f + 8) (unat (w 3)) m s = killed U s" for m
      using r(4) checked_range_bad[OF assms(1) b(2-4)] by (simp add: with_range_def kstep)
    then show ?thesis using b(1) n h r by (auto simp: syscall_handler_def Let_def with_word_holds checked_resident killed_def kstep)
  qed
qed

text \<open>A process whose stack page is in memory and holds the four words of a call of \<^verbatim>\<open>write\<close> whose buffer leaves user space.\<close>

definition sim_words :: "nat \<Rightarrow> u32" where
  "sim_words k = [9, 1, 0xBFFFFFFE, 4] ! k"

definition sim_stack :: "byte list" where
  "sim_stack = replicate 3840 0 @ le32 9 @ le32 1 @ le32 0xBFFFFFFE @ le32 4 @ replicate 240 0"

definition sim_call :: "(u32 \<Rightarrow> byte list) vm" where
  "sim_call = sim_load\<lparr>tables := [0xC0001000 \<mapsto> (replicate 1024 0)[767 := 0x2007], 0xC0002000 \<mapsto> (replicate 1024 0)[1023 := 0x3007]],
     pages := [0xC0003000 \<mapsto> sim_stack]\<rparr>"

lemma sim_call_mapped: "page_mapped sim_vml 0xC0001000 0xBFFFF000 0xC0003000 sim_call"
proof -
  let ?t = "(replicate 1024 0)[767 := 0x2007] :: u32 list"
  have e: "?t ! i = (if i = 767 then 0x2007 else 0)" if "i < 768" for i using that by (simp add: nth_list_update)
  have pt: "(0x2007 AND NOT 0xFFF) + 0xC0000000 = (0xC0002000 :: u32)" "(0x3007 AND NOT 0xFFF) + 0xC0000000 = (0xC0003000 :: u32)"
    by simp_all
  have T: "tables sim_call 0xC0001000 = Some ?t" "tables sim_call 0xC0002000 = Some ((replicate 1024 0)[1023 := 0x3007])"
    by (simp_all add: sim_call_def)
  have "pd_ok (i386 sim_pool) (tables sim_call) 0xC0001000"
    unfolding pd_ok_def using T e pt by (intro exI[of _ ?t]) auto
  then have r: "dir_ready (hw sim_vml) 0xC0001000 sim_call" using sim_pool_ok by (simp add: dir_ready_def sim_call_def)
  have "entry_of (hw sim_vml) (tables sim_call) 0xC0001000 0xBFFFF000 = 0x3007" using T e pt by (simp add: entry_of_def)
  then have "pd.translate (hw sim_vml) 0xC0001000 sim_call 0xBFFFF000 = Some 0xC0003000" unfolding pd.translate_def using pt by simp
  with r show ?thesis by (simp add: page_mapped_def kernel_page_def) (simp add: sim_call_def)
qed

lemma sim_call_page: "length sim_stack = 4096" "with_page sim_call 0xC0003000 sim_stack = sim_call"
  by (simp_all add: sim_stack_def with_page_def sim_call_def)

definition sim_caller :: "(u32 \<Rightarrow> byte list) usr" where
  "sim_caller = sim_usr\<lparr>sys := sim_call\<rparr>"

definition sim_nr :: "int \<Rightarrow> syscall_nr option" where
  "sim_nr n = (if n = 9 then Some SYS_WRITE else None)"

lemma sim_resident:
  assumes "n < 4096"
  shows "resident (sim_ulib\<lparr>syscall_no := sim_nr\<rparr>) sim_caller (0xBFFFF000 + of_nat n)"
proof -
  have "unat (0xBFFFF000 + of_nat n :: u32) = 0xBFFFF000 + n"
    using in_page(1)[OF vaddr_ok_i386[of sim_pool], of "0xBFFFF000" n] assms by simp
  then have b: "CODE_BASE < 0xBFFFF000 + of_nat n" "0xBFFFF000 + of_nat n < (0xC0000000 :: u32)"
    using assms by (simp_all add: word_less_nat_alt CODE_BASE_def)
  have x: "uthreads sim_call (cur_thread (vfs sim_call)) = Some sim_uthread" by (simp add: sim_call_def)
  have "wpK (user_kaddr sim_vml (0xBFFFF000 + of_nat n)) (\<lambda>k t. t = sim_call) sim_call"
    using page_mapped_kaddr[OF sim_call_mapped assms, of "\<lambda>k t. t = sim_call" sim_stack] by (simp only: sim_call_page)
  then have "\<exists>k. pagedir_get_page (i386 sim_pool) (Some 0xC0001000) (0xBFFFF000 + of_nat n) sim_call = Inr (Some k, sim_call)"
    using cur_apply[OF x] by (auto simp: user_kaddr_def wpK_iff kstep nonnull_def split: sum.splits option.splits)
  then show ?thesis using x b by (simp add: resident_def in_user_def sim_caller_def sim_ulib_def)
qed

lemma sim_word:
  assumes "n + 4 \<le> 4096"
  shows "holds_word (sim_ulib\<lparr>syscall_no := sim_nr\<rparr>) sim_caller (0xBFFFF000 + of_nat n) (un_le32 (get_bytes n 4 sim_stack))"
  using sim_resident[of n] user_read_wp[OF sim_call_mapped assms sim_call_page(1)] assms sim_call_page(2)
  by (simp add: holds_word_def user_word_def kstep inVm_def sim_ulib_def sim_caller_def)

theorem bad_pointer_ends_process_witness:
  "syscall_handler (sim_ulib\<lparr>syscall_no := sim_nr\<rparr>) \<lparr>if_esp = 0xBFFFFF00, if_cs = 0x1B, if_error_code = 0\<rparr> sim_caller =
     thenK (exit_call (sim_ulib\<lparr>syscall_no := sim_nr\<rparr>) (- 1)) (retK Exited) sim_caller"
proof (rule bad_pointer_ends_process[where n = SYS_WRITE and w = sim_words and t = sim_uthread])
  let ?U = "sim_ulib\<lparr>syscall_no := sim_nr\<rparr>" and ?f = "\<lparr>if_esp = 0xBFFFFF00, if_cs = 0x1B, if_error_code = 0\<rparr>"
  show "uthreads (sys sim_caller) (cur_thread (vfs (sys sim_caller))) = Some sim_uthread" by (simp add: sim_caller_def sim_call_def)
  have g: "get_bytes 3840 4 sim_stack = le32 9" "get_bytes 3844 4 sim_stack = le32 1" "get_bytes 3848 4 sim_stack = le32 0xBFFFFFFE"
      "get_bytes 3852 4 sim_stack = le32 4"
    by (simp_all add: sim_stack_def get_bytes_append_left get_bytes_append_right)
  have "holds_word ?U sim_caller (0xBFFFFF00 + 4 * of_nat k) (sim_words k)" if k: "k < 4" for k
  proof -
    consider "k = 0" | "k = 1" | "k = 2" | "k = 3" using k by linarith
    then show ?thesis
      by cases (use g sim_word[of 3840] sim_word[of 3844] sim_word[of 3848] sim_word[of 3852] in \<open>simp_all add: sim_words_def\<close>)
  qed
  moreover have "syscall_no ?U (sint (sim_words 0)) = Some SYS_WRITE" by (simp add: sim_words_def sim_nr_def)
  moreover have "resident ?U sim_caller (sim_words 2 + of_nat k)" if k: "k < 2" for k
  proof -
    consider "k = 0" | "k = 1" using k by linarith
    then show ?thesis by cases (use sim_resident[of 4094] sim_resident[of 4095] in \<open>simp_all add: sim_words_def\<close>)
  qed
  moreover have "\<not> in_user (vml ?U) (sim_words 2 + of_nat 2)" by (simp add: in_user_def sim_ulib_def sim_words_def)
  moreover have "2 < unat (sim_words 3)" by (simp add: sim_words_def)
  ultimately show "\<not> in_user (vml ?U) (if_esp ?f) \<or> (\<forall>k<4. holds_word ?U sim_caller (if_esp ?f + 4 * of_nat k) (sim_words k)) \<and>
      syscall_no ?U (sint (sim_words 0)) = Some SYS_WRITE \<and>
      (SYS_WRITE \<in> {SYS_EXEC, SYS_CREATE, SYS_REMOVE, SYS_OPEN} \<and> \<not> in_user (vml ?U) (sim_words 1) \<or>
       SYS_WRITE \<in> {SYS_READ, SYS_WRITE} \<and> (\<exists>i<unat (sim_words 3). \<not> in_user (vml ?U) (sim_words 2 + of_nat i) \<and>
         (\<forall>k<i. resident ?U sim_caller (sim_words 2 + of_nat k))))"
    by (intro disjI2 conjI) auto
qed

end
