(* ===== verification/Spec2Isabelle.thy ===== *)
theory Spec2Isabelle
  imports Filesys_Facts Map_Facts Boot_Facts Sema_Test Pointer_Facts
begin

text \<open>
  A verification development of a Pintos kernel with a buffer cache, indexed and growing
  files, subdirectories, priority scheduling with donation, and demand paging. The sources
  are the C files under \<^verbatim>\<open>src/\<close>.

  \<^bold>\<open>The program.\<close> The file system is a stack: \<^verbatim>\<open>cache.c\<close> keeps up to 64 sectors of the disk in
  memory and writes them back when they are evicted, periodically, and at shutdown;
  \<^verbatim>\<open>free-map.c\<close> hands out sectors; \<^verbatim>\<open>inode.c\<close> stores files as one direct block, one block of
  128 pointers and one block of pointers to such blocks, shares one in-memory inode among all
  openers, grows files on writes and frees their sectors when the last opener of a removed
  file leaves; \<^verbatim>\<open>file.c\<close> adds a position and the right to deny writes; \<^verbatim>\<open>directory.c\<close> keeps
  names in files of 20-byte entries and resolves paths; \<^verbatim>\<open>filesys.c\<close> is the interface of the
  system calls. Below them \<^verbatim>\<open>thread.c\<close> schedules threads by priority and \<^verbatim>\<open>synch.c\<close> provides
  semaphores, locks with priority donation, and condition variables. Virtual memory is demand
  paging: \<^verbatim>\<open>pagedir.c\<close> edits the i386 page tables, \<^verbatim>\<open>suppage.c\<close> keeps for every process a list of
  its pages, \<^verbatim>\<open>frame.c\<close> the list of pages in memory, and \<^verbatim>\<open>swap.c\<close> evicts pages to their file or to
  the swap device and brings them back. \<^verbatim>\<open>process.c\<close> loads ELF files, sets up the stack with the
  arguments, and keeps the records through which a parent waits for its children. \<^verbatim>\<open>syscall.c\<close>
  checks user pointers and serves the system calls, \<^verbatim>\<open>exception.c\<close> the page faults. \<^verbatim>\<open>init.c\<close> starts all
  this from a command line and runs its actions, some of which, copying files between the file system and a
  scratch device, are in \<^verbatim>\<open>fsutil.c\<close>.

  \<^bold>\<open>How the code is modelled.\<close> A C function is a function in the state-and-failure monad of
  \<open>Pintos_Prelude\<close>: it completes with a value and a new state, or stops with a \<open>kerror\<close> that
  says whether an assertion failed, the thread has to sleep, a bad pointer was followed, an
  array was left, or a loop never ends. Objects from \<^verbatim>\<open>malloc\<close> live in typed heaps indexed
  by addresses, so that aliasing and use after free are visible. Disk contents are byte
  lists, sector numbers 32-bit words. \<^verbatim>\<open>off_t\<close> is an integer, and the sums of an offset and a
  size that decide about the growth of a file wrap at 32 bits (\<open>i32\<close>); positions inside a file
  stay within its length. Libraries outside \<^verbatim>\<open>src/\<close>, namely the block device, \<^verbatim>\<open>malloc\<close>, the
  bitmap and the list library, the page allocator and the macros of \<^verbatim>\<open>pte.h\<close> and \<^verbatim>\<open>vaddr.h\<close>, are
  records of functions passed to the definitions, and \<open>heap_ok\<close>, \<open>bitmap_ok\<close>, \<open>fs_lib_ok\<close>,
  \<open>listlib_ok\<close>, \<open>vaddr_ok\<close> and \<open>swap_lib_ok\<close> state their documented behaviour. Of \<^verbatim>\<open>bitmap_write\<close> it is
  only assumed what it does with an open file that is as long as the map (\<open>map_open\<close>): that it returns,
  changes no sector but the file's, and, where success is claimed, that it succeeds (\<open>map_writable\<close>). The states nest:
  \<open>fs\<close> is the file system, \<open>vm\<close> adds page tables, memory pages, frames and the threads' page
  lists, \<open>usr\<close> adds the scheduler, child records, descriptors and mappings; \<open>inFs\<close>, \<open>inVm\<close> and
  \<open>inSched\<close> run an operation of one part in the state of the whole. Addresses, page table entries
  and sizes of the memory system are 32-bit words.

  \<^bold>\<open>The theories.\<close>
  \<^item> \<open>Pintos_Prelude\<close>: the monad, its weakest preconditions and loop rule, byte buffers,
    little-endian words, C division.
  \<^item> \<open>Sector_Store\<close>: the interface that the upper layers use, as a locale: a store of sectors
    with a get and a put. Sequences of gets and puts are handled once, in the locale.
  \<^item> \<open>Block_Cache\<close>: \<^verbatim>\<open>cache.c\<close>. The abstract contents of a sector are the cached bytes if the
    sector is resident and the device's otherwise; the cache refines the locale (interpretation
    \<open>cs\<close>). C1 to C5: requests, eviction and write-back preserve the contents, the second-chance
    eviction ends and chooses the documented victim; C6: removals leak slots until a request
    never returns.
  \<^item> \<open>Fs_State\<close>: the state of the file system, the on-disk layout of inodes, the library
    parameters. \<open>File_Layout\<close>: the sectors that the pointers of an inode name, and what \<^verbatim>\<open>bitmap_write\<close> does with
    the open file of the free map. \<open>Free_Map\<close>: \<^verbatim>\<open>free-map.c\<close> up to its file operations; C7, C8: allocation marks
    only free sectors, a failure undoes the marks, release is the inverse once the file is open. \<open>Map_Facts\<close>: a
    \<^verbatim>\<open>bitmap_write\<close> that goes through \<^verbatim>\<open>file_write_at\<close> has the assumed behaviour, and C8 at a disk with it.
  \<^item> \<open>Inode\<close>: all of \<^verbatim>\<open>inode.c\<close>. \<open>Inode_Io\<close>: C9 to C11, reading and writing against the
    abstract file, the list of bytes its pointers lead to; a lemma on denied writes. \<open>Inode_Life\<close>: C14, C15, C17 and
    C18, opening and closing, and the defects of creation and growth; a lemma on the bytes of a new file.
  \<^item> \<open>Fs_File\<close>: \<^verbatim>\<open>file.c\<close> and the rest of \<^verbatim>\<open>free-map.c\<close>; C20, reading back what
    was written; lemmas on reading in steps and on denied writes.
  \<^item> \<open>Directory\<close>: \<^verbatim>\<open>directory.c\<close> and \<^verbatim>\<open>filesys.c\<close>. \<open>Directory_Scan\<close>: C22, C23, lookup and
    insertion; C25, C26, two defects of path handling; a lemma on the splitting of paths. \<open>Filesys_Facts\<close>: C16, a file
    that \<^verbatim>\<open>filesys_create\<close> makes in the root directory is found by \<^verbatim>\<open>filesys_open\<close> and reads as zeros.
  \<^item> \<open>Threads\<close>: \<^verbatim>\<open>thread.c\<close> and \<^verbatim>\<open>synch.c\<close>. \<open>Threads_Facts\<close>: the lemmas on donation, switching
    and wake-up. \<open>Priority_Sched\<close>: C28 to C31, donation removes priority inversions, release
    ends it, the highest priority runs and is woken; C32, C33: two defects, a lock taken with
    \<^verbatim>\<open>lock_try_acquire\<close> and a holder that stays behind in the run queue after a donation.
  \<^item> \<open>Sched_Places\<close>: for each status of a thread the queues it is in, and for each lock the thread that
    lists it. \<open>Sched_Invariant\<close>: the scheduler as a machine whose steps are the calls of \<^verbatim>\<open>thread.c\<close> and
    \<^verbatim>\<open>synch.c\<close>, with the contract of each; a locale of machines with guarded calls and an invariant
    (interpretation \<open>sm\<close>). C21: in every reachable state an allowed call completes and keeps the
    invariant.
  \<^item> \<open>Page_Dir\<close>: \<^verbatim>\<open>pagedir.c\<close>. \<open>Address_Space\<close>: its interface as a locale, a partial map from
    pages to frames with a lookup, an update and a removal. \<open>Page_Dir_Facts\<close>: two-level page
    tables implement the locale (interpretation \<open>pd\<close>); C34 states the contract, with the condition under which a
    page can be mapped.
  \<^item> \<open>Paging\<close>: \<^verbatim>\<open>frame.c\<close>, \<^verbatim>\<open>suppage.c\<close>, \<^verbatim>\<open>swap.c\<close> and the functions of \<^verbatim>\<open>process.c\<close> that map
    pages. \<open>Swap_Facts\<close>: C36, a page survives being swapped out and in.
  \<^item> \<open>User_State\<close>: child records, descriptors, mapped files and access to user memory.
    \<open>Process\<close>: creation and end of threads and processes. \<open>Elf_Load\<close>: executables and the initial
    stack. \<open>Syscall\<close>: the system call handler and the exception handlers.
  \<^item> \<open>Elf_Facts\<close>: C35, an accepted segment lies in user space and its sizes do not wrap.
    \<open>Load_Facts\<close>: C37, loading it ends and records every page, unless one is in memory for another process
    already (there \<^verbatim>\<open>install_file\<close> corrupts the frame). \<open>Stack_Facts\<close>: C38, a program
    finds its arguments on its stack, or there is no memory for the page table. \<open>User_Facts\<close>: C39, the contract of \<^verbatim>\<open>wait\<close>; C40, a defect of
    \<^verbatim>\<open>mmap\<close>. \<open>Fault_Facts\<close>: C27, a page fault brings in the page that loading recorded.
    \<open>Pointer_Facts\<close>: C13, a bad pointer in a system call ends the process and nothing else happens.
  \<^item> \<open>Fs_Util\<close>: \<^verbatim>\<open>fsutil.c\<close>. \<open>Kernel_Start\<close>: \<^verbatim>\<open>init.c\<close> and the start of the scheduler and of its threads.
    \<open>Boot_Facts\<close>: C12, \<^verbatim>\<open>paging_init\<close> maps the kernel and directories made from it do too.
    \<open>Start_Facts\<close>: C24, the first and the idle thread pass the processor to each other until the scheduler
    is in a state from which C21 holds. \<open>Sema_Test\<close>: \<^verbatim>\<open>sema_self_test\<close>; C19, it returns, however the
    timer interrupts the two threads.

  \<^bold>\<open>Loops and fuel.\<close> The clock of \<^verbatim>\<open>cache_evict\<close> gets two passes over its list: the first clears
  every accessed bit, the second finds a victim; a list without one is the endless loop of C6.
  The loop of \<^verbatim>\<open>create_cache\<close> runs once per block that has to leave. Scans of a directory get
  one round per entry that fits into the file and one for the end. \<^verbatim>\<open>donate_lock\<close> gets one
  level per thread, since every level raises a thread that was below the donated priority.
  Reading and writing recur on the bytes left. Finding a free frame gets two rounds more than
  there are frames, as every eviction takes one off the table. The loops over the pages of a
  segment and of a mapping get the number of pages. Listing a directory and printing a file get one round more
  than there are entries and pages, extracting an archive the size of the scratch device. Strings in user memory end at the last
  address at the latest. Each theorem shows that the code returns.

  \<^bold>\<open>Concurrency.\<close> A file system routine is modelled as its thread runs it: taking a lock that
  another thread holds is the outcome \<open>BLOCKED\<close>. A scheduler routine that switches ends its
  step at the switch, with the new thread running; \<^verbatim>\<open>sema_down\<close>, \<^verbatim>\<open>lock_acquire\<close> and
  \<^verbatim>\<open>cond_wait\<close> return false when the thread slept and has to test again. The interrupt level
  is set back at the end of the step to what the routine found. Processes follow the same rule:
  \<^verbatim>\<open>exec\<close> and \<^verbatim>\<open>wait\<close> have a part before and a part after the sleep, and the barriers of a child
  record are counters on which a down of zero is \<open>BLOCKED\<close>. A call in the middle of a routine that lets
  another thread run ends the step with \<open>BLOCKED\<close> too (\<open>unswitched\<close>). In \<open>Sched_Invariant\<close> steps of different
  threads and of interrupt handlers follow each other in any order. The locks of files, frames, swap and
  thread numbers are the thread that holds them; donation through them is not modelled.

  \<^bold>\<open>Not modelled.\<close> Most of the processor's part in paging: a write to a user page that is not mapped writable
  stops (\<open>put_user\<close>), but accessed and dirty bits are not
  set by accesses, there is no translation buffer, and a page fault inside the kernel stops the
  model where the kernel would enter \<^verbatim>\<open>page_fault\<close> again. \<^verbatim>\<open>malloc\<close> leaves members undefined, which
  are zero here. Messages of \<^verbatim>\<open>printf\<close> and the help text, statistics, the dispatch of interrupts (the registrations of
  \<^verbatim>\<open>exception_init\<close> are a table), the task state segment, the initialisation of devices, the seed of the random
  numbers and assembly have no model. \<^verbatim>\<open>mmap_file_list\<close> is used by \<^verbatim>\<open>syscall.c\<close> but not declared in
  \<^verbatim>\<open>thread.h\<close>; it is modelled as the member the code assumes. C21 leaves out \<^verbatim>\<open>lock_try_acquire\<close>, whose locks cannot be
  released (C32).
\<close>

end
